(* ===== verification/Smf_Prelude.thy ===== *)
theory Smf_Prelude
  imports Main "HOL-Library.Word" "HOL-Library.Sublist"
begin

text \<open>
  Shared vocabulary of the development: the collections the component proofs feed to
  the simplifier, the errors a C execution can end in, and generic lemmas on lists that
  several components need.

  A \<open>char *\<close> that may be \<open>NULL\<close> is a \<^typ>\<open>string option\<close>; a string that is known to be
  there is a \<^typ>\<open>string\<close>, the bytes before the terminating NUL.  Memory allocation is
  assumed to succeed, except in \<open>smf_dict_set\<close>, which tests for failure itself.
\<close>

section \<open>Collections\<close>

named_theorems smf_libc \<open>evaluation rules of the C library model\<close>
named_theorems smf_inv \<open>preservation of the component invariants\<close>
named_theorems smf_frame \<open>fields an operation leaves alone\<close>

section \<open>How an execution can go wrong\<close>

text \<open>
  Undefined behaviour and process death are results of their own: an operation that can
  reach one returns a sum whose left side says which.
\<close>

datatype c_fault =
    NullDeref       \<comment> \<open>a \<open>NULL\<close> pointer handed to a function that reads it\<close>
  | AssertFailed    \<comment> \<open>an \<open>assert\<close> of the code is false: the process aborts\<close>
  | DanglingRead    \<comment> \<open>a pointer is read after the block was freed\<close>
  | DoubleFree      \<comment> \<open>a block is freed a second time\<close>
  | DivideByZero    \<comment> \<open>integer division by zero\<close>
  | UninitRead      \<comment> \<open>a local variable is read before it was set\<close>
  | BufferOverflow  \<comment> \<open>a write beyond the end of an array\<close>
  | OutOfBounds     \<comment> \<open>a read beyond the end of a block\<close>
  | BadPointer      \<comment> \<open>a pointer to nothing, other than \<open>NULL\<close>, is used\<close>
  | NoReturn        \<comment> \<open>the call does not return\<close>

type_synonym 'a c_result = "c_fault + 'a"

text \<open>
  A \<open>char *\<close> field that some code frees without resetting it: the third value is the address of
  a block that is gone.
\<close>

datatype cptr = NullP | StrP string | DanglingP

fun c_free :: "cptr \<Rightarrow> unit c_result" where
  "c_free DanglingP = Inl DoubleFree"
| "c_free _ = Inr ()"

fun c_read :: "cptr \<Rightarrow> string option c_result" where
  "c_read NullP = Inr None"
| "c_read (StrP s) = Inr (Some s)"
| "c_read DanglingP = Inl DanglingRead"

section \<open>Lists\<close>

lemma rev_dropWhile_rev_prefix:
  "\<exists>ys. xs = rev (dropWhile P (rev xs)) @ ys \<and> (\<forall>y \<in> set ys. P y)"
proof -
  have "rev xs = takeWhile P (rev xs) @ dropWhile P (rev xs)" by simp
  then have "xs = rev (dropWhile P (rev xs)) @ rev (takeWhile P (rev xs))"
    by (metis rev_append rev_rev_ident)
  moreover have "\<forall>y \<in> set (rev (takeWhile P (rev xs))). P y"
    by (auto dest: set_takeWhileD)
  ultimately show ?thesis by blast
qed

lemma dropWhile_append_all [simp]:
  "(\<forall>x \<in> set xs. P x) \<Longrightarrow> dropWhile P (xs @ ys) = dropWhile P ys"
  by (induction xs) auto

lemma takeWhile_append_stop [simp]:
  "(\<forall>x \<in> set xs. P x) \<Longrightarrow> \<not> P y \<Longrightarrow> takeWhile P (xs @ y # ys) = xs"
  by (induction xs) auto

lemma takeWhile_neq [simp]: "c \<notin> set s \<Longrightarrow> takeWhile (\<lambda>x. x \<noteq> c) s = s"
  by (induction s) auto

lemma dropWhile_neq [simp]: "c \<notin> set s \<Longrightarrow> dropWhile (\<lambda>x. x \<noteq> c) s = []"
  by (induction s) auto

lemma takeWhile_neq_found [simp]: "c \<notin> set a \<Longrightarrow> takeWhile (\<lambda>x. x \<noteq> c) (a @ c # r) = a"
  by (induction a) auto

lemma dropWhile_neq_found [simp]: "c \<notin> set a \<Longrightarrow> dropWhile (\<lambda>x. x \<noteq> c) (a @ c # r) = c # r"
  by (induction a) auto

lemma take_drop_mid: "i \<le> j \<Longrightarrow> take i xs @ take (j - i) (drop i xs) = take j xs"
  by (metis le_add_diff_inverse take_add)

lemma length_filter_update_None:
  assumes "i < length xs" and "xs ! i \<noteq> None"
  shows "length (filter (\<lambda>x. x \<noteq> None) xs) =
           Suc (length (filter (\<lambda>x. x \<noteq> None) (xs[i := None])))"
  using assms
proof (induction xs arbitrary: i)
  case Nil
  then show ?case by simp
next
  case (Cons x xs)
  then show ?case by (cases i) auto
qed

lemma length_filter_update_Some:
  assumes "i < length xs" and "xs ! i = None"
  shows "length (filter (\<lambda>x. x \<noteq> None) (xs[i := Some y])) =
           Suc (length (filter (\<lambda>x. x \<noteq> None) xs))"
  using assms
proof (induction xs arbitrary: i)
  case Nil
  then show ?case by simp
next
  case (Cons x xs)
  then show ?case by (cases i) auto
qed

lemma filter_not_None_full:
  assumes "i < length xs" and "xs ! i = None"
  shows "length (filter (\<lambda>x. x \<noteq> None) xs) < length xs"
proof -
  from assms have "None \<in> set xs" by (metis nth_mem)
  then show ?thesis by (rule length_filter_less) simp
qed

lemma ex_None_slot:
  assumes "length (filter (\<lambda>x. x \<noteq> None) xs) < length xs"
  shows "\<exists>i < length xs. xs ! i = None"
proof (rule ccontr)
  assume "\<not> ?thesis"
  then have "\<forall>x \<in> set xs. x \<noteq> None" by (auto simp: in_set_conv_nth)
  then have "filter (\<lambda>x. x \<noteq> None) xs = xs" by (simp add: filter_id_conv)
  with assms show False by simp
qed

lemma find_upt_Some_iff:
  "find P [0..<n] = Some i \<longleftrightarrow> i < n \<and> P i \<and> (\<forall>j < i. \<not> P j)"
  by (auto simp: find_Some_iff)

lemma find_upt_None_iff: "find P [0..<n] = None \<longleftrightarrow> (\<forall>i < n. \<not> P i)"
  by (auto simp: find_None_iff)

lemma set_map_filter_iff: "y \<in> set (List.map_filter f xs) \<longleftrightarrow> (\<exists>x \<in> set xs. f x = Some y)"
  by (induction xs) (auto simp: List.map_filter_simps split: option.splits)

text \<open>Joining and splitting: the separator is put between the parts.\<close>

fun join :: "'a list \<Rightarrow> 'a list list \<Rightarrow> 'a list" where
  "join sep [] = []"
| "join sep [x] = x"
| "join sep (x # y # xs) = x @ sep @ join sep (y # xs)"

lemma join_Cons: "xs \<noteq> [] \<Longrightarrow> join sep (x # xs) = x @ sep @ join sep xs"
  by (cases xs) auto

lemma join_snoc: "xs \<noteq> [] \<Longrightarrow> join sep (xs @ [x]) = join sep xs @ sep @ x"
  by (induction xs rule: induct_list012) auto

end
