(* ===== verification/Smf_Libc.thy ===== *)
theory Smf_Libc
  imports Smf_Prelude
begin

unbundle bit_operations_syntax

text \<open>
  The functions of the C library the code calls on strings, for the \<open>C\<close> locale: the
  classification and comparison functions, searching, \<open>strsep\<close>, \<open>strtoul\<close> and \<open>strtol\<close>,
  and the \<open>%d\<close> conversion of \<open>printf\<close>.  Each is the function the standard describes on
  the bytes before the terminating NUL.
\<close>

section \<open>Characters\<close>

abbreviation (input) CR :: char where "CR \<equiv> CHR 0x0D"
abbreviation (input) LF :: char where "LF \<equiv> CHR 0x0A"
abbreviation (input) NUL :: char where "NUL \<equiv> CHR 0x00"

definition crlf :: string where
  "crlf = [CHR 0x0D, CHR 0x0A]"

definition lf :: string where
  "lf = [CHR 0x0A]"

definition cr :: string where
  "cr = [CHR 0x0D]"

definition c_isspace :: "char \<Rightarrow> bool" where
  "c_isspace c \<longleftrightarrow>
     List.member [CHR '' '', CHR 0x09, CHR 0x0A, CHR 0x0B, CHR 0x0C, CHR 0x0D] c"

definition c_isdigit :: "char \<Rightarrow> bool" where
  "c_isdigit c \<longleftrightarrow> 48 \<le> (of_char c :: nat) \<and> (of_char c :: nat) \<le> 57"

definition c_tolower :: "char \<Rightarrow> char" where
  "c_tolower c =
     (let k = (of_char c :: nat) in if 65 \<le> k \<and> k \<le> 90 then char_of (k + 32) else c)"

lemma c_tolower_idem [simp]: "c_tolower (c_tolower c) = c_tolower c"
  by (simp add: c_tolower_def Let_def)

lemma c_tolower_dot: "c_tolower c = CHR ''.'' \<longleftrightarrow> c = CHR ''.''"
proof
  assume low: "c_tolower c = CHR ''.''"
  show "c = CHR ''.''"
  proof (rule ccontr)
    assume "c \<noteq> CHR ''.''"
    with low have u: "65 \<le> (of_char c :: nat)" "(of_char c :: nat) \<le> 90"
      by (auto simp: c_tolower_def Let_def split: if_splits)
    with low have "of_char (char_of (of_char c + 32 :: nat) :: char) = (of_char (CHR ''.'') :: nat)"
      by (simp add: c_tolower_def Let_def)
    with u show False by simp
  qed
qed (simp add: c_tolower_def)

lemma c_isspace_simps [simp, smf_libc]:
  "c_isspace (CHR '' '')" "c_isspace (CHR 0x0A)" "c_isspace (CHR 0x0D)" "c_isspace (CHR 0x09)"
  by (simp_all add: c_isspace_def)

section \<open>Comparison\<close>

definition strncmp_eq :: "string \<Rightarrow> string \<Rightarrow> nat \<Rightarrow> bool" where
  "strncmp_eq a b k \<longleftrightarrow> take k a = take k b"

definition strcasecmp_eq :: "string \<Rightarrow> string \<Rightarrow> bool" where
  "strcasecmp_eq a b \<longleftrightarrow> map c_tolower a = map c_tolower b"

definition strncasecmp_eq :: "string \<Rightarrow> string \<Rightarrow> nat \<Rightarrow> bool" where
  "strncasecmp_eq a b k \<longleftrightarrow> map c_tolower (take k a) = map c_tolower (take k b)"

lemma strcasecmp_eq_refl [simp]: "strcasecmp_eq a a"
  by (simp add: strcasecmp_eq_def)

lemma strncasecmp_eq_take:
  "strncasecmp_eq a b k \<Longrightarrow> length b = k \<Longrightarrow> k \<le> length a"
  by (auto simp: strncasecmp_eq_def dest: map_eq_imp_length_eq)

section \<open>Searching\<close>

definition strchr :: "string \<Rightarrow> char \<Rightarrow> string option" where
  "strchr s c = (case dropWhile (\<lambda>x. x \<noteq> c) s of [] \<Rightarrow> None | t \<Rightarrow> Some t)"

fun strstr :: "string \<Rightarrow> string \<Rightarrow> string option" where
  "strstr hay needle =
     (if prefix needle hay then Some hay
      else case hay of [] \<Rightarrow> None | _ # r \<Rightarrow> strstr r needle)"

fun strcasestr :: "string \<Rightarrow> string \<Rightarrow> string option" where
  "strcasestr hay needle =
     (if prefix (map c_tolower needle) (map c_tolower hay) then Some hay
      else case hay of [] \<Rightarrow> None | _ # r \<Rightarrow> strcasestr r needle)"

declare strstr.simps [simp del] strcasestr.simps [simp del]

lemma strstr_Some_iff: "strstr s t \<noteq> None \<longleftrightarrow> sublist t s"
proof (induction s)
  case Nil
  then show ?case by (subst strstr.simps) (auto split: if_splits)
next
  case (Cons c s)
  then show ?case by (subst strstr.simps) (auto simp: sublist_Cons_right)
qed

lemma strchr_None_iff: "strchr s c = None \<longleftrightarrow> c \<notin> set s"
  by (induction s) (auto simp: strchr_def)

lemma strchr_SomeD:
  assumes "strchr s c = Some t"
  shows "\<exists>a r. s = a @ c # r \<and> t = c # r \<and> c \<notin> set a"
  using assms
proof (induction s)
  case Nil
  then show ?case by (simp add: strchr_def)
next
  case (Cons x s)
  show ?case
  proof (cases "x = c")
    case True
    with Cons.prems show ?thesis by (auto simp: strchr_def intro: exI [of _ "[]"])
  next
    case False
    with Cons.prems have "strchr s c = Some t" by (simp add: strchr_def)
    then obtain a r where "s = a @ c # r" "t = c # r" "c \<notin> set a" using Cons.IH by blast
    with False have "x # s = (x # a) @ c # r \<and> t = c # r \<and> c \<notin> set (x # a)" by simp
    then show ?thesis by blast
  qed
qed

text \<open>The C-string view of a byte buffer: what \<open>strlen\<close> and its kin see.\<close>

definition c_str :: "string \<Rightarrow> string" where
  "c_str buf = takeWhile (\<lambda>c. c \<noteq> NUL) buf"

lemma c_str_id: "NUL \<notin> set s \<Longrightarrow> c_str s = s"
  by (auto simp: c_str_def takeWhile_eq_all_conv)

section \<open>\<open>strsep\<close>\<close>

text \<open>One call: the token, and the rest of the string when a separator was found.\<close>

definition c_strsep :: "string \<Rightarrow> string \<Rightarrow> string \<times> string option" where
  "c_strsep sep s =
     (takeWhile (\<lambda>c. \<not> List.member sep c) s,
      case dropWhile (\<lambda>c. \<not> List.member sep c) s of [] \<Rightarrow> None | _ # r \<Rightarrow> Some r)"

lemma c_strsep_shorter:
  assumes "c_strsep sep s = (tok, Some r)"
  shows "length r < length s"
proof -
  have "length (dropWhile (\<lambda>c. c \<notin> set sep) s) \<le> length s" by (rule length_dropWhile_le)
  with assms show ?thesis by (auto simp: c_strsep_def split: list.splits)
qed

section \<open>Numbers\<close>

definition digit_char :: "nat \<Rightarrow> char" where
  "digit_char d = char_of (48 + d)"

fun string_of_nat :: "nat \<Rightarrow> string" where
  "string_of_nat k =
     (if k < 10 then [digit_char k] else string_of_nat (k div 10) @ [digit_char (k mod 10)])"

declare string_of_nat.simps [simp del]

text \<open>\<open>%d\<close>\<close>

definition string_of_int :: "int \<Rightarrow> string" where
  "string_of_int i =
     (if i < 0 then ''-'' @ string_of_nat (nat (- i)) else string_of_nat (nat i))"

definition digit_val :: "char \<Rightarrow> nat" where
  "digit_val c =
     (let k = (of_char c :: nat) in
      if 48 \<le> k \<and> k \<le> 57 then k - 48
      else if 97 \<le> k \<and> k \<le> 122 then k - 87
      else if 65 \<le> k \<and> k \<le> 90 then k - 55
      else 255)"

definition digits_val :: "nat \<Rightarrow> string \<Rightarrow> nat" where
  "digits_val base ds = foldl (\<lambda>a c. base * a + digit_val c) 0 ds"

lemma digit_val_digit_char [simp]: "d < 10 \<Longrightarrow> digit_val (digit_char d) = d"
  by (simp add: digit_val_def digit_char_def Let_def)

lemma digits_val_append1: "digits_val b (ds @ [c]) = b * digits_val b ds + digit_val c"
  by (simp add: digits_val_def)

lemma digits_val_string_of_nat [simp]: "digits_val 10 (string_of_nat k) = k"
proof (induction k rule: string_of_nat.induct)
  case (1 k)
  show ?case
  proof (cases "k < 10")
    case True
    then show ?thesis by (simp add: string_of_nat.simps [of k] digits_val_def)
  next
    case False
    with "1.IH" show ?thesis
      by (simp add: string_of_nat.simps [of k] digits_val_append1)
  qed
qed

lemma string_of_nat_inj: "string_of_nat a = string_of_nat b \<Longrightarrow> a = b"
  by (metis digits_val_string_of_nat)

lemma string_of_nat_digits: "c \<in> set (string_of_nat k) \<Longrightarrow> c_isdigit c"
proof (induction k rule: string_of_nat.induct)
  case (1 k)
  then show ?case
    by (auto simp: string_of_nat.simps [of k] c_isdigit_def digit_char_def split: if_splits)
qed

lemma percent_notin_string_of_int: "CHR ''%'' \<notin> set (string_of_int i)"
proof -
  have "CHR ''%'' \<notin> set (string_of_nat k)" for k
    by (auto dest: string_of_nat_digits simp: c_isdigit_def)
  then show ?thesis by (auto simp: string_of_int_def)
qed

lemma string_of_nat_nonempty [simp]: "string_of_nat k \<noteq> []"
  by (subst string_of_nat.simps) simp

lemma string_of_int_inj:
  assumes "string_of_int a = string_of_int b"
  shows "a = b"
proof -
  have minus: "hd (string_of_nat k) \<noteq> CHR ''-''" for k
  proof
    assume "hd (string_of_nat k) = CHR ''-''"
    then have "CHR ''-'' \<in> set (string_of_nat k)"
      by (metis hd_in_set string_of_nat_nonempty)
    then show False by (auto dest: string_of_nat_digits simp: c_isdigit_def)
  qed
  have "a < 0 \<longleftrightarrow> b < 0"
    using assms minus [of "nat a"] minus [of "nat b"]
    by (cases "a < 0"; cases "b < 0") (auto simp: string_of_int_def dest: arg_cong [of _ _ hd])
  with assms show ?thesis
    by (auto simp: string_of_int_def split: if_splits dest!: string_of_nat_inj)
qed

text \<open>
  The common start of \<open>strtol\<close> and \<open>strtoul\<close>: white space, a sign, the base prefix when the
  base is 0 or 16, then the longest run of digits of the base.  The result is the sign, the
  magnitude and the unread rest, \<open>None\<close> when there is no digit to read (then \<open>endptr\<close> is the
  start of the string and the value is 0).
\<close>

definition scan_sign :: "string \<Rightarrow> bool \<times> string" where
  "scan_sign s =
     (case s of
        c # r \<Rightarrow> if c = CHR ''-'' then (True, r) else if c = CHR ''+'' then (False, r) else (False, s)
      | [] \<Rightarrow> (False, s))"

definition is_digit_of :: "nat \<Rightarrow> char \<Rightarrow> bool" where
  "is_digit_of base c \<longleftrightarrow> digit_val c < base"

definition scan_base :: "nat \<Rightarrow> string \<Rightarrow> nat \<times> string" where
  "scan_base base s =
     (if base = 0 then
        (case s of
           z # x # h # r \<Rightarrow>
             if z = CHR ''0'' \<and> (x = CHR ''x'' \<or> x = CHR ''X'') \<and> is_digit_of 16 h then (16, h # r)
             else if z = CHR ''0'' then (8, s) else (10, s)
         | z # r \<Rightarrow> if z = CHR ''0'' then (8, s) else (10, s)
         | [] \<Rightarrow> (10, s))
      else (base, s))"

definition scan_number :: "nat \<Rightarrow> string \<Rightarrow> (bool \<times> nat \<times> string) option" where
  "scan_number base s =
     (let (neg, s1) = scan_sign (dropWhile c_isspace s);
          (b, s2) = scan_base base s1;
          ds = takeWhile (is_digit_of b) s2;
          rest = dropWhile (is_digit_of b) s2
      in if ds = [] then None else Some (neg, digits_val b ds, rest))"

text \<open>
  \<open>strtoul (s, &endptr, 10)\<close> on a machine with 64-bit \<open>long\<close>: the value, and whether
  \<open>endptr\<close> moved and reached the end of the string.  A magnitude beyond \<open>ULONG_MAX\<close> gives
  \<open>ULONG_MAX\<close>; a minus sign negates modulo \<open>2 ^ 64\<close>.
\<close>

type_synonym ulong = "64 word"

definition strtoul10 :: "string \<Rightarrow> (ulong \<times> string) option" where
  "strtoul10 s =
     (case scan_number 10 s of
        None \<Rightarrow> None
      | Some (neg, m, rest) \<Rightarrow>
          Some (if 2 ^ 64 \<le> m then - 1
                else if neg then - word_of_nat m else word_of_nat m, rest))"

text \<open>\<open>strtol (s, NULL, 0)\<close>, clamped to \<open>LONG_MIN .. LONG_MAX\<close>.\<close>

definition strtol0 :: "string \<Rightarrow> int" where
  "strtol0 s =
     (case scan_number 0 s of
        None \<Rightarrow> 0
      | Some (neg, m, rest) \<Rightarrow>
          (let v = (if neg then - int m else int m) in max (- (2 ^ 63)) (min (2 ^ 63 - 1) v)))"

text \<open>The conversion of a \<open>long\<close> to an \<open>int\<close>: the low 32 bits, as two's complement.\<close>

definition int_of_long :: "int \<Rightarrow> int" where
  "int_of_long v = (v + 2 ^ 31) mod 2 ^ 32 - 2 ^ 31"

lemma int_of_long_range: "- (2 ^ 31) \<le> int_of_long v \<and> int_of_long v < 2 ^ 31"
proof -
  have "0 \<le> (v + 2 ^ 31) mod 2 ^ 32" and "(v + 2 ^ 31) mod 2 ^ 32 < 2 ^ 32"
    by (rule pos_mod_sign, simp) (rule pos_mod_bound, simp)
  then show ?thesis by (simp add: int_of_long_def)
qed

lemma int_of_long_id: "- (2 ^ 31) \<le> v \<Longrightarrow> v < 2 ^ 31 \<Longrightarrow> int_of_long v = v"
  by (simp add: int_of_long_def)

section \<open>Reading a printed number\<close>

lemma string_of_nat_hd: "0 < k \<Longrightarrow> \<exists>d. 0 < d \<and> d < 10 \<and> hd (string_of_nat k) = digit_char d"
proof (induction k rule: string_of_nat.induct)
  case (1 k)
  show ?case
  proof (cases "k < 10")
    case True
    with "1.prems" show ?thesis by (subst string_of_nat.simps) auto
  next
    case False
    then have "0 < k div 10" by (simp add: div_greater_zero_iff)
    with "1.IH" False show ?thesis by (subst string_of_nat.simps) simp
  qed
qed

lemma is_digit_string_of_nat: "c \<in> set (string_of_nat k) \<Longrightarrow> is_digit_of 10 c"
  using string_of_nat_digits [of c k] by (auto simp: c_isdigit_def is_digit_of_def digit_val_def Let_def)

lemma digit_char_neq: "0 < d \<Longrightarrow> d < 10 \<Longrightarrow> digit_char d \<noteq> CHR ''0'' \<and> digit_char d \<noteq> CHR ''-'' \<and>
    digit_char d \<noteq> CHR ''+'' \<and> \<not> c_isspace (digit_char d)"
proof -
  assume "0 < d" "d < 10"
  then have "of_char (digit_char d) = (48 + d :: nat)" by (simp add: digit_char_def)
  with \<open>0 < d\<close> \<open>d < 10\<close> show ?thesis by (auto simp: c_isspace_def)
qed

lemma scan_number_string_of_nat:
  "0 < k \<Longrightarrow> scan_number 0 (string_of_nat k) = Some (False, k, [])"
proof -
  assume "0 < k"
  then obtain d where d: "0 < d" "d < 10" "hd (string_of_nat k) = digit_char d"
    using string_of_nat_hd by blast
  then obtain r where s: "string_of_nat k = digit_char d # r" by (metis list.collapse string_of_nat_nonempty)
  have "scan_base 0 (digit_char d # r) = (10, digit_char d # r)"
    using digit_char_neq [OF d(1,2)] by (auto simp: scan_base_def split: list.splits)
  moreover have "takeWhile (is_digit_of 10) (string_of_nat k) = string_of_nat k"
    "dropWhile (is_digit_of 10) (string_of_nat k) = []"
    using is_digit_string_of_nat by (simp_all add: takeWhile_eq_all_conv dropWhile_eq_Nil_conv)
  moreover have "scan_sign (dropWhile c_isspace (digit_char d # r)) = (False, digit_char d # r)"
    using digit_char_neq [OF d(1,2)] by (simp add: scan_sign_def)
  ultimately show ?thesis
    using digits_val_string_of_nat [of k] by (simp add: scan_number_def s)
qed

lemma strtol0_string_of_nat: "k < 2 ^ 63 \<Longrightarrow> strtol0 (string_of_nat k) = int k"
proof (cases "k = 0")
  case True
  then show ?thesis
    by (simp add: strtol0_def scan_number_def scan_sign_def scan_base_def string_of_nat.simps
        digit_char_def c_isspace_def is_digit_of_def digit_val_def digits_val_def)
next
  case False
  assume "k < 2 ^ 63"
  then have "int k < 2 ^ 63" by (metis of_nat_less_iff of_nat_numeral of_nat_power)
  with False show ?thesis by (simp add: strtol0_def scan_number_string_of_nat)
qed

end
