(* ===== verification/Smf_Posix.thy ===== *)
theory Smf_Posix
  imports Smf_Libc
begin

text \<open>
  The part of POSIX the code runs on.  A descriptor is what the other side does with it: the
  answers to the coming \<open>read\<close> calls, the answers to the coming \<open>write\<close> calls, and the bytes
  written so far.  Short reads, short writes, interruptions and errors are therefore inputs of
  every operation that does I/O, and a theorem about an operation holds for each of them.
\<close>

section \<open>Descriptors\<close>

datatype rd_ev =
    RdData string   \<comment> \<open>bytes have arrived; what one call does not take stays\<close>
  | RdIntr          \<comment> \<open>\<open>-1\<close> with \<open>EINTR\<close>\<close>
  | RdErr           \<comment> \<open>\<open>-1\<close> with another \<open>errno\<close>\<close>

datatype wr_ev =
    WrSome nat      \<comment> \<open>at most this many bytes are taken\<close>
  | WrIntr          \<comment> \<open>\<open>-1\<close> with \<open>EINTR\<close>\<close>
  | WrErr           \<comment> \<open>\<open>-1\<close> with another \<open>errno\<close>\<close>

record fd =
  fd_in :: "rd_ev list"     \<comment> \<open>empty: end of file\<close>
  fd_wr :: "wr_ev list"     \<comment> \<open>empty: every \<open>write\<close> takes all its bytes\<close>
  fd_out :: string

datatype rd_result = Got string | Intr | Failed

text \<open>\<open>read (fd, buf, n)\<close>; \<open>Got []\<close> is the return value 0.\<close>

fun sys_read :: "nat \<Rightarrow> fd \<Rightarrow> rd_result \<times> fd" where
  "sys_read n f =
     (case fd_in f of
        [] \<Rightarrow> (Got [], f)
      | RdIntr # es \<Rightarrow> (Intr, f\<lparr>fd_in := es\<rparr>)
      | RdErr # es \<Rightarrow> (Failed, f\<lparr>fd_in := es\<rparr>)
      | RdData s # es \<Rightarrow>
          (Got (take n s), f\<lparr>fd_in := (if n < length s then RdData (drop n s) # es else es)\<rparr>))"

datatype wr_result = Wrote nat | WIntr | WFailed

text \<open>\<open>write (fd, buf, n)\<close>\<close>

fun sys_write :: "string \<Rightarrow> fd \<Rightarrow> wr_result \<times> fd" where
  "sys_write s f =
     (case fd_wr f of
        [] \<Rightarrow> (Wrote (length s), f\<lparr>fd_out := fd_out f @ s\<rparr>)
      | WrIntr # es \<Rightarrow> (WIntr, f\<lparr>fd_wr := es\<rparr>)
      | WrErr # es \<Rightarrow> (WFailed, f\<lparr>fd_wr := es\<rparr>)
      | WrSome k # es \<Rightarrow>
          (Wrote (min k (length s)), f\<lparr>fd_wr := es, fd_out := fd_out f @ take k s\<rparr>))"

declare sys_read.simps [simp del] sys_write.simps [simp del]

text \<open>The bytes that are still to arrive, and the size of the answers still to be given.\<close>

fun pending :: "rd_ev list \<Rightarrow> string" where
  "pending [] = []"
| "pending (RdData s # es) = s @ pending es"
| "pending (_ # es) = pending es"

fun rd_weight :: "rd_ev list \<Rightarrow> nat" where
  "rd_weight [] = 0"
| "rd_weight (RdData s # es) = Suc (length s) + rd_weight es"
| "rd_weight (_ # es) = Suc (rd_weight es)"

lemma sys_read_pending:
  "sys_read n f = (Got s, f') \<Longrightarrow> pending (fd_in f) = s @ pending (fd_in f') \<and> length s \<le> n"
  by (auto simp: sys_read.simps split: list.splits rd_ev.splits if_splits)

lemma sys_read_frame [smf_frame]:
  "sys_read n f = (r, f') \<Longrightarrow> fd_out f' = fd_out f \<and> fd_wr f' = fd_wr f"
  by (auto simp: sys_read.simps split: list.splits rd_ev.splits)

lemma sys_read_weight:
  "sys_read n f = (r, f') \<Longrightarrow> 0 < n \<Longrightarrow> r \<noteq> Got [] \<Longrightarrow> rd_weight (fd_in f') < rd_weight (fd_in f)"
  by (auto simp: sys_read.simps split: list.splits rd_ev.splits if_splits)

lemma sys_write_frame [smf_frame]:
  "sys_write s f = (r, f') \<Longrightarrow> fd_in f' = fd_in f"
  by (auto simp: sys_write.simps split: list.splits wr_ev.splits)

lemma sys_write_some:
  "sys_write s f = (Wrote k, f') \<Longrightarrow> fd_out f' = fd_out f @ take k s \<and> k \<le> length s"
  by (auto simp: sys_write.simps min_def split: list.splits wr_ev.splits)

lemma sys_write_none: "sys_write s f = (r, f') \<Longrightarrow> r = WIntr \<or> r = WFailed \<Longrightarrow> fd_out f' = fd_out f"
  by (auto simp: sys_write.simps split: list.splits wr_ev.splits)

lemma sys_write_shorter:
  "sys_write s f = (r, f') \<Longrightarrow>
   (fd_wr f = [] \<and> r = Wrote (length s) \<and> fd_wr f' = []) \<or> length (fd_wr f') < length (fd_wr f)"
  by (auto simp: sys_write.simps split: list.splits wr_ev.splits)

text \<open>
  A source that only delivers, in pieces of any size; a source that delivers between
  interruptions; a sink that takes everything in the end.
\<close>

fun delivers :: "rd_ev list \<Rightarrow> bool" where
  "delivers [] \<longleftrightarrow> True"
| "delivers (RdData s # es) \<longleftrightarrow> s \<noteq> [] \<and> delivers es"
| "delivers (_ # es) \<longleftrightarrow> False"

fun flows :: "rd_ev list \<Rightarrow> bool" where
  "flows [] \<longleftrightarrow> True"
| "flows (RdData s # es) \<longleftrightarrow> s \<noteq> [] \<and> flows es"
| "flows (RdIntr # es) \<longleftrightarrow> flows es"
| "flows (RdErr # es) \<longleftrightarrow> False"

fun accepts :: "wr_ev list \<Rightarrow> bool" where
  "accepts [] \<longleftrightarrow> True"
| "accepts (WrSome k # es) \<longleftrightarrow> 0 < k \<and> accepts es"
| "accepts (WrIntr # es) \<longleftrightarrow> accepts es"
| "accepts (WrErr # es) \<longleftrightarrow> False"

lemma delivers_read:
  assumes "delivers (fd_in f)" and "sys_read n f = (r, f')" and "0 < n"
  shows "delivers (fd_in f') \<and>
    ((fd_in f = [] \<and> r = Got []) \<or>
     (\<exists>s. s \<noteq> [] \<and> r = Got s \<and> length s \<le> n \<and> pending (fd_in f) = s @ pending (fd_in f') \<and>
        rd_weight (fd_in f') < rd_weight (fd_in f)))"
  using assms
  by (auto simp: sys_read.simps split: list.splits rd_ev.splits if_splits)

lemma flows_read:
  assumes "flows (fd_in f)" and "sys_read n f = (r, f')" and "0 < n"
  shows "flows (fd_in f') \<and>
    ((r = Got [] \<and> pending (fd_in f) = [] \<and> f' = f) \<or>
     (r = Intr \<and> pending (fd_in f') = pending (fd_in f)) \<or>
     (\<exists>s. s \<noteq> [] \<and> r = Got s \<and> length s \<le> n \<and> pending (fd_in f) = s @ pending (fd_in f')))"
proof (cases "fd_in f")
  case Nil
  with assms show ?thesis by (simp add: sys_read.simps)
next
  case (Cons e es)
  show ?thesis
  proof (cases e)
    case (RdData s)
    with assms Cons have "r = Got (take n s)" "take n s \<noteq> []"
      "pending (fd_in f) = take n s @ pending (fd_in f')" "flows (fd_in f')"
      by (auto simp: sys_read.simps)
    then show ?thesis by auto
  qed (use assms Cons in \<open>auto simp: sys_read.simps\<close>)
qed

lemma accepts_write:
  assumes "accepts (fd_wr f)" and "sys_write s f = (r, f')" and "s \<noteq> []"
  shows "accepts (fd_wr f') \<and>
    ((r = WIntr \<and> fd_out f' = fd_out f) \<or>
     (\<exists>k. 0 < k \<and> k \<le> length s \<and> r = Wrote k \<and> fd_out f' = fd_out f @ take k s))"
  using assms
  by (auto simp: sys_write.simps min_def split: list.splits wr_ev.splits if_splits)

end
