(* ===== verification/Smf_Message.thy ===== *)
theory Smf_Message
  imports Smf_Posix
begin

text \<open>
  Messages, \<open>smf_message.c\<close>.  Most functions of that file hand their arguments to libcmime, a
  library that is not part of the repository: its operations are the fields of the record
  \<open>cmime\<close>, a parameter.  What the code does itself is modelled: the message id in angle
  brackets, changing and removing headers, writing a message to a descriptor, and copying the
  body of a queue file.  A message is its list of headers, which the code walks itself, and the
  rest, which it does not look into.
\<close>

section \<open>State\<close>

record header =
  h_name :: string
  h_values :: "string list"

record message =
  msg_headers :: "header list"
  msg_rest :: string

record cmime =
  cm_generate_id :: string
  cm_set_header :: "message \<Rightarrow> string \<Rightarrow> int \<times> message"
  cm_get_header :: "message \<Rightarrow> string \<Rightarrow> nat option"   \<comment> \<open>position in the header list\<close>
  cm_from_file :: "string \<Rightarrow> bool \<Rightarrow> int \<times> message"    \<comment> \<open>content of the file, \<open>header_only\<close>\<close>
  cm_to_string :: "message \<Rightarrow> string"
  cm_to_file :: "message \<Rightarrow> int \<times> string"          \<comment> \<open>the return value and what is in the file then\<close>
  cm_get_recipients :: "message \<Rightarrow> string list"
  cm_get_message_id :: "message \<Rightarrow> string option"

section \<open>Headers\<close>

definition smf_message_generate_message_id :: "cmime \<Rightarrow> string" where
  "smf_message_generate_message_id cm =
     (let s = cm_generate_id cm
      in case s of
           c # r \<Rightarrow> if c = CHR ''<'' then s else ''<'' @ s @ ''>''
         | [] \<Rightarrow> ''<'' @ s @ ''>'')"

definition smf_message_update_header :: "cmime \<Rightarrow> message \<Rightarrow> string \<Rightarrow> string \<Rightarrow> int \<times> message" where
  "smf_message_update_header cm m header value = cm_set_header cm m (header @ '': '' @ value)"

text \<open>\<open>smf_header_set_value (hdr, value, 0)\<close> adds a value to the header.\<close>

definition header_add_value :: "string \<Rightarrow> header \<Rightarrow> header" where
  "header_add_value value h = h\<lparr>h_values := h_values h @ [value]\<rparr>"

definition message_add_value :: "message \<Rightarrow> nat \<Rightarrow> string \<Rightarrow> message" where
  "message_add_value m i value =
     m\<lparr>msg_headers := (msg_headers m)[i := header_add_value value (msg_headers m ! i)]\<rparr>"

definition smf_message_add_header :: "cmime \<Rightarrow> message \<Rightarrow> string \<Rightarrow> string \<Rightarrow> int \<times> message" where
  "smf_message_add_header cm m header value =
     (case cm_get_header cm m header of
        Some i \<Rightarrow> (0, message_add_value m i value)
      | None \<Rightarrow>
          (case cm_set_header cm m header of
             (rc, m') \<Rightarrow>
               if rc \<noteq> 0 then (- 1, m')
               else (case cm_get_header cm m' header of
                       None \<Rightarrow> (- 1, m')
                     | Some i \<Rightarrow> (0, message_add_value m' i value))))"

text \<open>The loop over the list elements stops at the first header of that name.\<close>

fun remove_first_header :: "string \<Rightarrow> header list \<Rightarrow> int \<times> header list" where
  "remove_first_header name [] = (- 1, [])"
| "remove_first_header name (h # hs) =
     (if strcasecmp_eq (h_name h) name then (0, hs)
      else (case remove_first_header name hs of (i, hs') \<Rightarrow> (i, h # hs')))"

definition smf_message_remove_header :: "message \<Rightarrow> string \<Rightarrow> int \<times> message" where
  "smf_message_remove_header m name =
     (case remove_first_header name (msg_headers m) of (i, hs) \<Rightarrow> (i, m\<lparr>msg_headers := hs\<rparr>))"

lemma remove_first_header_absent:
  "list_all (\<lambda>h. \<not> strcasecmp_eq (h_name h) name) hs \<Longrightarrow> remove_first_header name hs = (- 1, hs)"
  by (induction hs) auto

lemma remove_first_header_present:
  "list_all (\<lambda>h. \<not> strcasecmp_eq (h_name h) name) hs \<Longrightarrow> strcasecmp_eq (h_name h) name \<Longrightarrow>
   remove_first_header name (hs @ h # ks) = (0, hs @ ks)"
  by (induction hs) auto

text \<open>
  \<open>smf_message_add_child_part\<close> calls itself with the arguments it got, where the library function
  was meant; \<open>smf_list_map_new\<close> of \<open>smf_list.c\<close> does the same.  A call returns no value.
\<close>

partial_function (option) smf_message_add_child_part ::
  "message \<Rightarrow> string \<Rightarrow> string \<Rightarrow> nat \<Rightarrow> int option" where
  "smf_message_add_child_part m part child subtype = smf_message_add_child_part m part child subtype"

partial_function (option) smf_list_map_new ::
  "'a list \<Rightarrow> ('a \<Rightarrow> 'a) \<Rightarrow> (int \<times> 'a list) option" where
  "smf_list_map_new list func = smf_list_map_new list func"

lemma smf_message_add_child_part_None: "smf_message_add_child_part m part child subtype = None"
proof (rule ccontr)
  assume "smf_message_add_child_part m part child subtype \<noteq> None"
  then obtain r where "smf_message_add_child_part m part child subtype = Some r" by blast
  then show False
    by (rule smf_message_add_child_part.raw_induct [rotated]) blast
qed

lemma smf_list_map_new_None: "smf_list_map_new list func = None"
proof (rule ccontr)
  assume "smf_list_map_new list func \<noteq> None"
  then obtain r where "smf_list_map_new list func = Some r" by blast
  then show False
    by (rule smf_list_map_new.raw_induct [rotated]) blast
qed

section \<open>Writing\<close>

text \<open>
  \<open>smf_message_to_fd\<close>: a short write continues where it stopped; a \<open>write\<close> that takes nothing is
  repeated.  Interruptions count as failures.
\<close>

function to_fd_loop :: "string \<Rightarrow> fd \<Rightarrow> nat \<Rightarrow> int \<times> fd" where
  "to_fd_loop s f tot =
     (if s = [] then (int tot, f)
      else case sys_write s f of
        (Wrote k, f') \<Rightarrow> to_fd_loop (drop k s) f' (tot + k)
      | (_, f') \<Rightarrow> (- 1, f'))"
  by pat_completeness auto
termination
  by (relation "measures [\<lambda>(s, f, tot). length s, \<lambda>(s, f, tot). length (fd_wr f)]")
     (auto dest!: sys_write_shorter [OF sym])

declare to_fd_loop.simps [simp del]

definition smf_message_to_fd :: "cmime \<Rightarrow> message \<Rightarrow> fd \<Rightarrow> int \<times> fd" where
  "smf_message_to_fd cm m f = to_fd_loop (cm_to_string cm m) f 0"

section \<open>The body of a queue file\<close>

text \<open>\<open>getline\<close>: the line with its line feed, and the rest.\<close>

definition c_getline :: "string \<Rightarrow> (string \<times> string) option" where
  "c_getline s =
     (if s = [] then None
      else (let k = length (takeWhile (\<lambda>c. c \<noteq> LF) s) + 1 in Some (take k s, drop k s)))"

lemma c_getline_shorter: "c_getline s = Some (line, rest) \<Longrightarrow> length rest < length s"
  by (auto simp: c_getline_def Let_def split: if_splits)

text \<open>The lines up to the first empty one are skipped; a file without one has no body.\<close>

function skip_header :: "string \<Rightarrow> string option" where
  "skip_header src =
     (case c_getline src of
        None \<Rightarrow> None
      | Some (line, rest) \<Rightarrow> if line = lf \<or> line = crlf then Some rest else skip_header rest)"
  by pat_completeness auto
termination
  by (relation "measure length") (auto dest!: c_getline_shorter)

declare skip_header.simps [simp del]

text \<open>The inner loop over one buffer; \<open>fwrite\<close> taking nothing is a failure.\<close>

function write_buffer :: "string \<Rightarrow> fd \<Rightarrow> nat \<Rightarrow> nat option \<times> fd" where
  "write_buffer buf dest nwritten =
     (if buf = [] then (Some nwritten, dest)
      else case sys_write buf dest of
        (Wrote n, dest') \<Rightarrow>
          if n = 0 then (None, dest') else write_buffer (drop n buf) dest' (nwritten + n)
      | (_, dest') \<Rightarrow> (None, dest'))"
  by pat_completeness auto
termination
  by (relation "measure (\<lambda>(buf, dest, n). length buf)") auto

declare write_buffer.simps [simp del]

function copy_body :: "string \<Rightarrow> fd \<Rightarrow> nat \<Rightarrow> int \<times> fd" where
  "copy_body src dest nwritten =
     (if src = [] then (int nwritten, dest)
      else case write_buffer (take 1024 src) dest nwritten of
        (None, dest') \<Rightarrow> (- 1, dest')
      | (Some n, dest') \<Rightarrow> copy_body (drop 1024 src) dest' n)"
  by pat_completeness auto
termination
  by (relation "measure (\<lambda>(src, dest, n). length src)") auto

declare copy_body.simps [simp del]

definition smf_message_write_skip_header :: "string \<Rightarrow> fd \<Rightarrow> int \<times> fd" where
  "smf_message_write_skip_header src dest =
     (case skip_header src of None \<Rightarrow> (0, dest) | Some body \<Rightarrow> copy_body body dest 0)"

section \<open>Lemmas\<close>

lemma to_fd_loop_plain:
  "fd_wr f = [] \<Longrightarrow> to_fd_loop s f tot = (int (tot + length s), f\<lparr>fd_out := fd_out f @ s\<rparr>)"
  by (cases "s = []") (simp_all add: to_fd_loop.simps sys_write.simps)

lemma write_buffer_plain:
  "fd_wr f = [] \<Longrightarrow> write_buffer s f n = (Some (n + length s), f\<lparr>fd_out := fd_out f @ s\<rparr>)"
  by (cases "s = []") (simp_all add: write_buffer.simps sys_write.simps)

lemma copy_body_plain:
  "fd_wr f = [] \<Longrightarrow> copy_body s f n = (int (n + length s), f\<lparr>fd_out := fd_out f @ s\<rparr>)"
proof (induction s f n rule: copy_body.induct)
  case (1 src dest n)
  show ?case
  proof (cases "src = []")
    case True
    then show ?thesis by (simp add: copy_body.simps)
  next
    case False
    have w: "write_buffer (take 1024 src) dest n =
        (Some (n + length (take 1024 src)), dest\<lparr>fd_out := fd_out dest @ take 1024 src\<rparr>)"
      by (rule write_buffer_plain [OF "1.prems"])
    have "copy_body src dest n = copy_body (drop 1024 src)
        (dest\<lparr>fd_out := fd_out dest @ take 1024 src\<rparr>) (n + length (take 1024 src))"
      using False w by (subst copy_body.simps) simp
    also have "\<dots> = (int (n + length (take 1024 src) + length (drop 1024 src)),
        dest\<lparr>fd_out := (fd_out dest @ take 1024 src) @ drop 1024 src\<rparr>)"
      using "1.IH" [OF False w [symmetric] refl] "1.prems" by simp
    finally show ?thesis by (simp add: min_def)
  qed
qed

text \<open>A header line: not empty, and complete.\<close>

definition header_line :: "string \<Rightarrow> bool" where
  "header_line l \<longleftrightarrow> l \<noteq> [] \<and> last l = LF \<and> LF \<notin> set (butlast l) \<and> l \<noteq> lf \<and> l \<noteq> crlf"

lemma c_getline_line: "LF \<notin> set l \<Longrightarrow> c_getline (l @ LF # rest) = Some (l @ [LF], rest)"
  by (simp add: c_getline_def)

lemma skip_header_lines:
  "list_all header_line hs \<Longrightarrow> skip_header (concat hs @ rest) = skip_header rest"
proof (induction hs)
  case Nil
  then show ?case by simp
next
  case (Cons h hs)
  then have "h = butlast h @ [LF]" "LF \<notin> set (butlast h)" "h \<noteq> lf" "h \<noteq> crlf"
    by (auto simp: header_line_def) (metis append_butlast_last_id)
  then have "c_getline (h @ concat hs @ rest) = Some (h, concat hs @ rest)"
    by (metis append.assoc append_Cons append_Nil c_getline_line)
  with Cons \<open>h \<noteq> lf\<close> \<open>h \<noteq> crlf\<close> show ?case by (subst skip_header.simps) simp
qed

lemma skip_header_blank: "blank = lf \<or> blank = crlf \<Longrightarrow> skip_header (blank @ body) = Some body"
  by (subst skip_header.simps) (auto simp: c_getline_def lf_def crlf_def)

section \<open>Properties\<close>

text \<open>
  \<open>smf_message_write_skip_header\<close> copies exactly the body of a queue file: whatever
  the header lines are, everything behind the first empty line (LF or CRLF) is appended to the
  destination, byte for byte across the buffer size, nothing else is, and the return value is
  the length of the body.
\<close>

theorem smf_message_write_skip_header_body:
  assumes "list_all header_line hs" and "blank = lf \<or> blank = crlf" and "fd_wr dest = []"
  shows "smf_message_write_skip_header (concat hs @ blank @ body) dest =
           (int (length body), dest\<lparr>fd_out := fd_out dest @ body\<rparr>)"
  using assms
  by (simp add: smf_message_write_skip_header_def skip_header_lines skip_header_blank copy_body_plain)

lemma smf_message_write_skip_header_body_witness:
  "smf_message_write_skip_header (''From: a'' @ crlf @ ''To: b'' @ crlf @ crlf @ ''hello'' @ crlf)
     \<lparr>fd_in = [], fd_wr = [], fd_out = ''X''\<rparr> =
     (7, \<lparr>fd_in = [], fd_wr = [], fd_out = ''X'' @ ''hello'' @ crlf\<rparr>)"
  using smf_message_write_skip_header_body
    [of "[''From: a'' @ crlf, ''To: b'' @ crlf]" crlf "\<lparr>fd_in = [], fd_wr = [], fd_out = ''X''\<rparr>" "''hello'' @ crlf"]
  by (simp add: header_line_def crlf_def lf_def)

text \<open>
  Two library wrappers never return: \<open>smf_message_add_child_part\<close> and
  \<open>smf_list_map_new\<close> call themselves with unchanged arguments.
\<close>

theorem self_calls_never_return:
  "smf_message_add_child_part m part child subtype = None \<and> smf_list_map_new list func = None"
  by (simp add: smf_message_add_child_part_None smf_list_map_new_None)

end
