(* ===== verification/Smf_Md5.thy ===== *)
theory Smf_Md5
  imports Smf_Prelude
begin

unbundle bit_operations_syntax

text \<open>
  The MD5 implementation of \<open>smf_md5.c\<close>: the state record, the unrolled block function, and
  the streaming interface \<open>md5_init\<close>, \<open>md5_append\<close>, \<open>md5_finish\<close>.  The specification is the
  loop of RFC 1321 over the padded message; the theorems say that the unrolled rounds compute
  that loop, and that feeding a message in any pieces gives the digest of the whole.

  The two ways the code reads the sixteen words of a block (in place on a little-endian
  machine, byte by byte on a big-endian one) give the same words, so one definition models
  both.
\<close>

section \<open>State\<close>

type_synonym byte = "8 word"
type_synonym md5_word = "32 word"

record md5_state =
  md5_count0 :: md5_word     \<comment> \<open>message length in bits, least significant word\<close>
  md5_count1 :: md5_word
  md5_a :: md5_word
  md5_b :: md5_word
  md5_c :: md5_word
  md5_d :: md5_word
  md5_buf :: "byte list"     \<comment> \<open>64 bytes\<close>

section \<open>The block function\<close>

definition t_mask :: md5_word where
  "t_mask = 0xFFFFFFFF"

definition md5_T :: "md5_word list" where
  "md5_T =
    [t_mask XOR 0x28955B87, t_mask XOR 0x173848A9, 0x242070DB, t_mask XOR 0x3E423111,
     t_mask XOR 0x0A83F050, 0x4787C62A, t_mask XOR 0x57CFB9EC, t_mask XOR 0x02B96AFE,
     0x698098D8, t_mask XOR 0x74BB0850, t_mask XOR 0x0000A44E, t_mask XOR 0x76A32841,
     0x6B901122, t_mask XOR 0x02678E6C, t_mask XOR 0x5986BC71, 0x49B40821,
     t_mask XOR 0x09E1DA9D, t_mask XOR 0x3FBF4CBF, 0x265E5A51, t_mask XOR 0x16493855,
     t_mask XOR 0x29D0EFA2, 0x02441453, t_mask XOR 0x275E197E, t_mask XOR 0x182C0437,
     0x21E1CDE6, t_mask XOR 0x3CC8F829, t_mask XOR 0x0B2AF278, 0x455A14ED,
     t_mask XOR 0x561C16FA, t_mask XOR 0x03105C07, 0x676F02D9, t_mask XOR 0x72D5B375,
     t_mask XOR 0x0005C6BD, t_mask XOR 0x788E097E, 0x6D9D6122, t_mask XOR 0x021AC7F3,
     t_mask XOR 0x5B4115BB, 0x4BDECFA9, t_mask XOR 0x0944B49F, t_mask XOR 0x4140438F,
     0x289B7EC6, t_mask XOR 0x155ED805, t_mask XOR 0x2B10CF7A, 0x04881D05,
     t_mask XOR 0x262B2FC6, t_mask XOR 0x1924661A, 0x1FA27CF8, t_mask XOR 0x3B53A99A,
     t_mask XOR 0x0BD6DDBB, 0x432AFF97, t_mask XOR 0x546BDC58, t_mask XOR 0x036C5FC6,
     0x655B59C3, t_mask XOR 0x70F3336D, t_mask XOR 0x00100B82, t_mask XOR 0x7A7BA22E,
     0x6FA87E4F, t_mask XOR 0x01D3191F, t_mask XOR 0x5CFEBCEB, 0x4E0811A1,
     t_mask XOR 0x08AC817D, t_mask XOR 0x42C50DCA, 0x2AD7D2BB, t_mask XOR 0x14792C6E]"

definition rotate_left :: "md5_word \<Rightarrow> nat \<Rightarrow> md5_word" where
  "rotate_left x k = push_bit k x OR drop_bit (32 - k) x"

definition md5_F :: "md5_word \<Rightarrow> md5_word \<Rightarrow> md5_word \<Rightarrow> md5_word" where
  "md5_F x y z = (x AND y) OR (NOT x AND z)"

definition md5_G :: "md5_word \<Rightarrow> md5_word \<Rightarrow> md5_word \<Rightarrow> md5_word" where
  "md5_G x y z = (x AND z) OR (y AND NOT z)"

definition md5_H :: "md5_word \<Rightarrow> md5_word \<Rightarrow> md5_word \<Rightarrow> md5_word" where
  "md5_H x y z = x XOR y XOR z"

definition md5_I :: "md5_word \<Rightarrow> md5_word \<Rightarrow> md5_word \<Rightarrow> md5_word" where
  "md5_I x y z = y XOR (x OR NOT z)"

text \<open>The sixteen words of a block, least significant byte first.\<close>

definition md5_word_at :: "byte list \<Rightarrow> nat \<Rightarrow> md5_word" where
  "md5_word_at data i =
     ucast (data ! (4 * i)) + push_bit 8 (ucast (data ! (4 * i + 1))) +
     push_bit 16 (ucast (data ! (4 * i + 2))) + push_bit 24 (ucast (data ! (4 * i + 3)))"

text \<open>
  A line \<open>SET(a, b, c, d, k, s, Ti)\<close> of the code is an instruction over the four registers;
  each round is the list of its sixteen lines.
\<close>

datatype md5_reg = RA | RB | RC | RD

type_synonym md5_op = "md5_reg \<times> md5_reg \<times> md5_reg \<times> md5_reg \<times> nat \<times> nat \<times> nat"

record md5_regs =
  r_a :: md5_word
  r_b :: md5_word
  r_c :: md5_word
  r_d :: md5_word

fun md5_read :: "md5_regs \<Rightarrow> md5_reg \<Rightarrow> md5_word" where
  "md5_read rs RA = r_a rs"
| "md5_read rs RB = r_b rs"
| "md5_read rs RC = r_c rs"
| "md5_read rs RD = r_d rs"

fun md5_write :: "md5_regs \<Rightarrow> md5_reg \<Rightarrow> md5_word \<Rightarrow> md5_regs" where
  "md5_write rs RA w = rs\<lparr>r_a := w\<rparr>"
| "md5_write rs RB w = rs\<lparr>r_b := w\<rparr>"
| "md5_write rs RC w = rs\<lparr>r_c := w\<rparr>"
| "md5_write rs RD w = rs\<lparr>r_d := w\<rparr>"

definition md5_set ::
  "(md5_word \<Rightarrow> md5_word \<Rightarrow> md5_word \<Rightarrow> md5_word) \<Rightarrow> (nat \<Rightarrow> md5_word) \<Rightarrow> md5_regs \<Rightarrow> md5_op \<Rightarrow> md5_regs" where
  "md5_set f X rs =
     (\<lambda>(ra, rb, rc, rd, k, s, ti).
        let t = md5_read rs ra + f (md5_read rs rb) (md5_read rs rc) (md5_read rs rd) + X k
                + md5_T ! (ti - 1)
        in md5_write rs ra (rotate_left t s + md5_read rs rb))"

definition md5_round1 :: "md5_op list" where
  "md5_round1 =
    [(RA, RB, RC, RD, 0, 7, 1), (RD, RA, RB, RC, 1, 12, 2),
     (RC, RD, RA, RB, 2, 17, 3), (RB, RC, RD, RA, 3, 22, 4),
     (RA, RB, RC, RD, 4, 7, 5), (RD, RA, RB, RC, 5, 12, 6),
     (RC, RD, RA, RB, 6, 17, 7), (RB, RC, RD, RA, 7, 22, 8),
     (RA, RB, RC, RD, 8, 7, 9), (RD, RA, RB, RC, 9, 12, 10),
     (RC, RD, RA, RB, 10, 17, 11), (RB, RC, RD, RA, 11, 22, 12),
     (RA, RB, RC, RD, 12, 7, 13), (RD, RA, RB, RC, 13, 12, 14),
     (RC, RD, RA, RB, 14, 17, 15), (RB, RC, RD, RA, 15, 22, 16)]"

definition md5_round2 :: "md5_op list" where
  "md5_round2 =
    [(RA, RB, RC, RD, 1, 5, 17), (RD, RA, RB, RC, 6, 9, 18),
     (RC, RD, RA, RB, 11, 14, 19), (RB, RC, RD, RA, 0, 20, 20),
     (RA, RB, RC, RD, 5, 5, 21), (RD, RA, RB, RC, 10, 9, 22),
     (RC, RD, RA, RB, 15, 14, 23), (RB, RC, RD, RA, 4, 20, 24),
     (RA, RB, RC, RD, 9, 5, 25), (RD, RA, RB, RC, 14, 9, 26),
     (RC, RD, RA, RB, 3, 14, 27), (RB, RC, RD, RA, 8, 20, 28),
     (RA, RB, RC, RD, 13, 5, 29), (RD, RA, RB, RC, 2, 9, 30),
     (RC, RD, RA, RB, 7, 14, 31), (RB, RC, RD, RA, 12, 20, 32)]"

definition md5_round3 :: "md5_op list" where
  "md5_round3 =
    [(RA, RB, RC, RD, 5, 4, 33), (RD, RA, RB, RC, 8, 11, 34),
     (RC, RD, RA, RB, 11, 16, 35), (RB, RC, RD, RA, 14, 23, 36),
     (RA, RB, RC, RD, 1, 4, 37), (RD, RA, RB, RC, 4, 11, 38),
     (RC, RD, RA, RB, 7, 16, 39), (RB, RC, RD, RA, 10, 23, 40),
     (RA, RB, RC, RD, 13, 4, 41), (RD, RA, RB, RC, 0, 11, 42),
     (RC, RD, RA, RB, 3, 16, 43), (RB, RC, RD, RA, 6, 23, 44),
     (RA, RB, RC, RD, 9, 4, 45), (RD, RA, RB, RC, 12, 11, 46),
     (RC, RD, RA, RB, 15, 16, 47), (RB, RC, RD, RA, 2, 23, 48)]"

definition md5_round4 :: "md5_op list" where
  "md5_round4 =
    [(RA, RB, RC, RD, 0, 6, 49), (RD, RA, RB, RC, 7, 10, 50),
     (RC, RD, RA, RB, 14, 15, 51), (RB, RC, RD, RA, 5, 21, 52),
     (RA, RB, RC, RD, 12, 6, 53), (RD, RA, RB, RC, 3, 10, 54),
     (RC, RD, RA, RB, 10, 15, 55), (RB, RC, RD, RA, 1, 21, 56),
     (RA, RB, RC, RD, 8, 6, 57), (RD, RA, RB, RC, 15, 10, 58),
     (RC, RD, RA, RB, 6, 15, 59), (RB, RC, RD, RA, 13, 21, 60),
     (RA, RB, RC, RD, 4, 6, 61), (RD, RA, RB, RC, 11, 10, 62),
     (RC, RD, RA, RB, 2, 15, 63), (RB, RC, RD, RA, 9, 21, 64)]"

definition md5_process :: "md5_state \<Rightarrow> byte list \<Rightarrow> md5_state" where
  "md5_process pms data =
     (let X = md5_word_at data;
          r0 = \<lparr>r_a = md5_a pms, r_b = md5_b pms, r_c = md5_c pms, r_d = md5_d pms\<rparr>;
          r1 = foldl (md5_set md5_F X) r0 md5_round1;
          r2 = foldl (md5_set md5_G X) r1 md5_round2;
          r3 = foldl (md5_set md5_H X) r2 md5_round3;
          r4 = foldl (md5_set md5_I X) r3 md5_round4
      in pms\<lparr>md5_a := md5_a pms + r_a r4, md5_b := md5_b pms + r_b r4,
             md5_c := md5_c pms + r_c r4, md5_d := md5_d pms + r_d r4\<rparr>)"

section \<open>The streaming interface\<close>

definition md5_init :: "md5_state \<Rightarrow> md5_state" where
  "md5_init pms =
     pms\<lparr>md5_count0 := 0, md5_count1 := 0, md5_a := 0x67452301,
         md5_b := t_mask XOR 0x10325476, md5_c := t_mask XOR 0x67452301,
         md5_d := 0x10325476\<rparr>"

text \<open>\<open>for (; left >= 64; p += 64, left -= 64) md5_process(pms, p);\<close> and the bytes left over.\<close>

function md5_blocks :: "md5_state \<Rightarrow> byte list \<Rightarrow> md5_state \<times> byte list" where
  "md5_blocks pms p =
     (if 64 \<le> length p then md5_blocks (md5_process pms (take 64 p)) (drop 64 p) else (pms, p))"
  by pat_completeness auto
termination
  by (relation "measure (\<lambda>(pms, p). length p)") auto

declare md5_blocks.simps [simp del]

definition md5_offset :: "md5_state \<Rightarrow> nat" where
  "md5_offset pms = unat (drop_bit 3 (md5_count0 pms) AND 63)"

definition md5_memcpy :: "md5_state \<Rightarrow> nat \<Rightarrow> byte list \<Rightarrow> md5_state" where
  "md5_memcpy pms off p =
     pms\<lparr>md5_buf := take off (md5_buf pms) @ p @ drop (off + length p) (md5_buf pms)\<rparr>"

text \<open>\<open>data\<close> is the \<open>nbytes\<close> bytes at the pointer; the code takes their number as an \<open>int\<close>.\<close>

definition md5_append :: "md5_state \<Rightarrow> byte list \<Rightarrow> md5_state" where
  "md5_append pms data =
     (let nbytes = length data;
          offset = md5_offset pms;
          nbits = word_of_nat (push_bit 3 nbytes) :: md5_word;
          c1 = md5_count1 pms + word_of_nat (drop_bit 29 nbytes);
          c0 = md5_count0 pms + nbits;
          pms1 = pms\<lparr>md5_count0 := c0, md5_count1 := (if c0 < nbits then c1 + 1 else c1)\<rparr>;
          rest = (\<lambda>pms p. case md5_blocks pms p of
                    (pms', left) \<Rightarrow> if left = [] then pms' else md5_memcpy pms' 0 left)
      in if nbytes = 0 then pms
         else if offset \<noteq> 0 then
           (let copy = (if 64 < offset + nbytes then 64 - offset else nbytes);
                pms2 = md5_memcpy pms1 offset (take copy data)
            in if offset + copy < 64 then pms2
               else rest (md5_process pms2 (md5_buf pms2)) (drop copy data))
         else rest pms1 data)"

definition md5_length_bytes :: "md5_state \<Rightarrow> byte list" where
  "md5_length_bytes pms =
     map (\<lambda>i. ucast (drop_bit (8 * (i mod 4)) (if i div 4 = 0 then md5_count0 pms else md5_count1 pms)))
       [0..<8]"

definition md5_pad :: "byte list" where
  "md5_pad = 0x80 # replicate 63 0"

definition md5_digest :: "md5_state \<Rightarrow> byte list" where
  "md5_digest pms =
     map (\<lambda>i. ucast (drop_bit (8 * (i mod 4))
                ([md5_a pms, md5_b pms, md5_c pms, md5_d pms] ! (i div 4)))) [0..<16]"

definition md5_finish :: "md5_state \<Rightarrow> byte list" where
  "md5_finish pms =
     (let data = md5_length_bytes pms;
          npad = unat ((55 - drop_bit 3 (md5_count0 pms)) AND 63) + 1;
          pms1 = md5_append pms (take npad md5_pad);
          pms2 = md5_append pms1 data
      in md5_digest pms2)"

section \<open>Specification: RFC 1321\<close>

text \<open>
  The RFC rotates the four registers through the positions of one operation instead of
  naming them; an operation is the index of its word, its shift and its table entry, all
  three functions of the step number \<open>16 r + i\<close>.
\<close>

type_synonym md5_abcd = "md5_word \<times> md5_word \<times> md5_word \<times> md5_word"

text \<open>The table of the RFC: the integer part of \<open>2 ^ 32 * abs (sin i)\<close>.\<close>

definition rfc_T :: "md5_word list" where
  "rfc_T =
    [0xD76AA478, 0xE8C7B756, 0x242070DB, 0xC1BDCEEE, 0xF57C0FAF, 0x4787C62A, 0xA8304613, 0xFD469501,
     0x698098D8, 0x8B44F7AF, 0xFFFF5BB1, 0x895CD7BE, 0x6B901122, 0xFD987193, 0xA679438E, 0x49B40821,
     0xF61E2562, 0xC040B340, 0x265E5A51, 0xE9B6C7AA, 0xD62F105D, 0x02441453, 0xD8A1E681, 0xE7D3FBC8,
     0x21E1CDE6, 0xC33707D6, 0xF4D50D87, 0x455A14ED, 0xA9E3E905, 0xFCEFA3F8, 0x676F02D9, 0x8D2A4C8A,
     0xFFFA3942, 0x8771F681, 0x6D9D6122, 0xFDE5380C, 0xA4BEEA44, 0x4BDECFA9, 0xF6BB4B60, 0xBEBFBC70,
     0x289B7EC6, 0xEAA127FA, 0xD4EF3085, 0x04881D05, 0xD9D4D039, 0xE6DB99E5, 0x1FA27CF8, 0xC4AC5665,
     0xF4292244, 0x432AFF97, 0xAB9423A7, 0xFC93A039, 0x655B59C3, 0x8F0CCC92, 0xFFEFF47D, 0x85845DD1,
     0x6FA87E4F, 0xFE2CE6E0, 0xA3014314, 0x4E0811A1, 0xF7537E82, 0xBD3AF235, 0x2AD7D2BB, 0xEB86D391]"

fun rfc_step ::
  "(md5_word \<Rightarrow> md5_word \<Rightarrow> md5_word \<Rightarrow> md5_word) \<Rightarrow> (nat \<Rightarrow> md5_word) \<Rightarrow> md5_abcd \<Rightarrow>
   nat \<times> nat \<times> nat \<Rightarrow> md5_abcd" where
  "rfc_step f X (a, b, c, d) (k, s, i) =
     (d, b + rotate_left (a + f b c d + X k + rfc_T ! (i - 1)) s, b, c)"

definition rfc_k :: "nat \<Rightarrow> nat \<Rightarrow> nat" where
  "rfc_k r i = ([0, 1, 5, 0] ! r + [1, 5, 3, 7] ! r * i) mod 16"

definition rfc_s :: "nat \<Rightarrow> nat \<Rightarrow> nat" where
  "rfc_s r i = [[7, 12, 17, 22], [5, 9, 14, 20], [4, 11, 16, 23], [6, 10, 15, 21]] ! r ! (i mod 4)"

definition rfc_ops :: "nat \<Rightarrow> (nat \<times> nat \<times> nat) list" where
  "rfc_ops r = map (\<lambda>i. (rfc_k r i, rfc_s r i, 16 * r + i + 1)) [0..<16]"

definition rfc_rounds :: "md5_abcd \<Rightarrow> (nat \<Rightarrow> md5_word) \<Rightarrow> md5_abcd" where
  "rfc_rounds st X =
     foldl (rfc_step md5_I X) (foldl (rfc_step md5_H X) (foldl (rfc_step md5_G X)
       (foldl (rfc_step md5_F X) st (rfc_ops 0)) (rfc_ops 1)) (rfc_ops 2)) (rfc_ops 3)"

definition rfc_compress :: "md5_abcd \<Rightarrow> byte list \<Rightarrow> md5_abcd" where
  "rfc_compress st block =
     (case (st, rfc_rounds st (md5_word_at block)) of
        ((a, b, c, d), (a', b', c', d')) \<Rightarrow> (a + a', b + b', c + c', d + d'))"

definition rfc_iv :: md5_abcd where
  "rfc_iv = (0x67452301, 0xEFCDAB89, 0x98BADCFE, 0x10325476)"

text \<open>The full blocks of a message, and the bytes after them.\<close>

function blocks64 :: "'a list \<Rightarrow> 'a list list" where
  "blocks64 p = (if 64 \<le> length p then take 64 p # blocks64 (drop 64 p) else [])"
  by pat_completeness auto
termination
  by (relation "measure length") auto

declare blocks64.simps [simp del]

definition rest64 :: "'a list \<Rightarrow> 'a list" where
  "rest64 p = drop (length p - length p mod 64) p"

definition rfc_absorb :: "byte list \<Rightarrow> md5_abcd" where
  "rfc_absorb m = foldl rfc_compress rfc_iv (blocks64 m)"

text \<open>Padding to 56 bytes modulo 64, then the bit length as a 64-bit little-endian number.\<close>

definition le_bytes :: "md5_word \<Rightarrow> byte list" where
  "le_bytes w = map (\<lambda>i. ucast (drop_bit (8 * i) w)) [0..<4]"

definition rfc_length :: "nat \<Rightarrow> byte list" where
  "rfc_length len = le_bytes (word_of_nat (8 * len)) @ le_bytes (word_of_nat (8 * len div 2 ^ 32))"

definition rfc_padding :: "nat \<Rightarrow> byte list" where
  "rfc_padding len = 0x80 # replicate ((119 - len mod 64) mod 64) 0"

definition rfc_md5 :: "byte list \<Rightarrow> byte list" where
  "rfc_md5 m =
     (case rfc_absorb (m @ rfc_padding (length m) @ rfc_length (length m)) of
        (a, b, c, d) \<Rightarrow> concat (map le_bytes [a, b, c, d]))"

section \<open>The unrolled rounds\<close>

definition md5_abcd :: "md5_state \<Rightarrow> md5_abcd" where
  "md5_abcd pms = (md5_a pms, md5_b pms, md5_c pms, md5_d pms)"

definition regs_abcd :: "md5_regs \<Rightarrow> md5_abcd" where
  "regs_abcd rs = (r_a rs, r_b rs, r_c rs, r_d rs)"

text \<open>Four lines of the code, and the lists of operations they stand for.\<close>

fun md5_quads :: "(nat \<times> nat \<times> nat) list \<Rightarrow> md5_op list" where
  "md5_quads (x # y # z # w # ops) =
     (RA, RB, RC, RD, x) # (RD, RA, RB, RC, y) # (RC, RD, RA, RB, z) # (RB, RC, RD, RA, w) #
     md5_quads ops"
| "md5_quads _ = []"

lemma md5_T_rfc: "md5_T = rfc_T"
  by (simp add: md5_T_def rfc_T_def t_mask_def)

lemma md5_set_pair:
  "md5_set f X rs (ra, rb, rc, rd, x) =
     (case x of (k, s, i) \<Rightarrow>
        md5_write rs ra (md5_read rs rb + rotate_left (md5_read rs ra +
          f (md5_read rs rb) (md5_read rs rc) (md5_read rs rd) + X k + rfc_T ! (i - 1)) s))"
  by (cases x) (simp add: md5_set_def Let_def add.commute md5_T_rfc)

lemma md5_quads_rfc:
  "length ops mod 4 = 0 \<Longrightarrow>
   regs_abcd (foldl (md5_set f X) rs (md5_quads ops)) = foldl (rfc_step f X) (regs_abcd rs) ops"
proof (induction ops arbitrary: rs rule: md5_quads.induct)
  case (1 x y z w ops)
  obtain k1 s1 i1 where x: "x = (k1, s1, i1)" by (cases x)
  obtain k2 s2 i2 where y: "y = (k2, s2, i2)" by (cases y)
  obtain k3 s3 i3 where z: "z = (k3, s3, i3)" by (cases z)
  obtain k4 s4 i4 where w: "w = (k4, s4, i4)" by (cases w)
  from "1.prems" have "length ops mod 4 = 0" by simp
  then show ?case
    by (simp add: "1.IH" x y z w md5_set_pair) (simp add: regs_abcd_def)
qed (simp_all add: regs_abcd_def)

lemma upt_16: "[0..<16] = [0, 1, 2, 3, 4, 5, 6, 7, 8, 9, 10, 11, 12, 13, 14, 15]"
  by (simp add: upt_rec)

lemma md5_round_tables:
  "md5_round1 = md5_quads (rfc_ops 0)" "md5_round2 = md5_quads (rfc_ops 1)"
  "md5_round3 = md5_quads (rfc_ops 2)" "md5_round4 = md5_quads (rfc_ops 3)"
  by (simp_all add: md5_round1_def md5_round2_def md5_round3_def md5_round4_def rfc_ops_def
      rfc_k_def rfc_s_def upt_16)

lemma length_rfc_ops [simp]: "length (rfc_ops r) = 16"
  by (simp add: rfc_ops_def)

lemma md5_process_abcd: "md5_abcd (md5_process pms data) = rfc_compress (md5_abcd pms) data"
proof -
  define X where "X = md5_word_at data"
  define r0 where "r0 = \<lparr>r_a = md5_a pms, r_b = md5_b pms, r_c = md5_c pms, r_d = md5_d pms\<rparr>"
  define r4 where "r4 = foldl (md5_set md5_I X) (foldl (md5_set md5_H X) (foldl (md5_set md5_G X)
      (foldl (md5_set md5_F X) r0 md5_round1) md5_round2) md5_round3) md5_round4"
  have "regs_abcd r4 = rfc_rounds (md5_abcd pms) X"
    by (simp add: r4_def md5_round_tables md5_quads_rfc rfc_rounds_def)
       (simp add: r0_def regs_abcd_def md5_abcd_def)
  then have "rfc_rounds (md5_abcd pms) X = (r_a r4, r_b r4, r_c r4, r_d r4)"
    by (simp add: regs_abcd_def)
  then show ?thesis
    by (simp add: md5_process_def Let_def rfc_compress_def X_def [symmetric] r0_def [symmetric]
        r4_def [symmetric]) (simp add: md5_abcd_def)
qed

lemma md5_process_frame [simp, smf_frame]:
  "md5_count0 (md5_process pms data) = md5_count0 pms"
  "md5_count1 (md5_process pms data) = md5_count1 pms"
  "md5_buf (md5_process pms data) = md5_buf pms"
  by (simp_all add: md5_process_def Let_def)

section \<open>Streaming\<close>

lemma blocks64_short: "length p < 64 \<Longrightarrow> blocks64 p = []"
  by (simp add: blocks64.simps)

lemma rest64_short: "length p < 64 \<Longrightarrow> rest64 p = p"
  by (simp add: rest64_def)

lemma blocks64_long: "64 \<le> length p \<Longrightarrow> blocks64 p = take 64 p # blocks64 (drop 64 p)"
  by (simp add: blocks64.simps [of p])

lemma rest64_long: "64 \<le> length p \<Longrightarrow> rest64 p = rest64 (drop 64 p)"
proof -
  assume "64 \<le> length p"
  then have "64 + (length p - 64 - (length p - 64) mod 64) = length p - length p mod 64"
    by (simp add: le_mod_geq)
  then show ?thesis by (simp add: rest64_def add.commute)
qed

lemma length_rest64 [simp]: "length (rest64 p) = length p mod 64"
  by (simp add: rest64_def)

lemma blocks64_append:
  "64 dvd length m \<Longrightarrow> blocks64 (m @ p) = blocks64 m @ blocks64 p \<and> rest64 (m @ p) = rest64 p"
proof (induction m rule: blocks64.induct)
  case (1 m)
  show ?case
  proof (cases "64 \<le> length m")
    case True
    then have "64 dvd length (drop 64 m)" using "1.prems" by (simp add: dvd_diff_nat)
    with "1.IH" [OF True] True show ?thesis
      by (simp add: blocks64_long rest64_long [of "m @ p"])
  next
    case False
    with "1.prems" have "m = []" by (metis dvd_imp_le length_greater_0_conv not_le)
    then show ?thesis by (simp add: blocks64_short)
  qed
qed

lemma full_rest64: "\<exists>full. m = full @ rest64 m \<and> 64 dvd length full"
proof -
  have "m = take (length m - length m mod 64) m @ rest64 m" by (simp add: rest64_def)
  moreover have "64 dvd length (take (length m - length m mod 64) m)"
    by (simp add: dvd_minus_mod)
  ultimately show ?thesis by blast
qed

text \<open>Every later message only meets the unfinished block of the earlier one.\<close>

lemma absorb_append: "rfc_absorb (m @ p) = foldl rfc_compress (rfc_absorb m) (blocks64 (rest64 m @ p))"
proof -
  obtain full where full: "m = full @ rest64 m" "64 dvd length full" using full_rest64 by blast
  have 1: "rfc_absorb (full @ q) = foldl rfc_compress (rfc_absorb full) (blocks64 q)" for q
    by (simp add: rfc_absorb_def blocks64_append [OF full(2)])
  have "rfc_absorb (full @ rest64 m) = rfc_absorb full"
    by (simp add: 1 blocks64_short)
  then have "rfc_absorb m = rfc_absorb full"
    by (metis full(1))
  moreover have "rfc_absorb (m @ p) = foldl rfc_compress (rfc_absorb full) (blocks64 (rest64 m @ p))"
    using 1 [of "rest64 m @ p"] full(1) by (metis append.assoc)
  ultimately show ?thesis by simp
qed

lemma rest64_append: "rest64 (m @ p) = rest64 (rest64 m @ p)"
  by (metis append.assoc blocks64_append full_rest64)

text \<open>The loop over the full blocks of the code.\<close>

lemma md5_blocks_correct:
  "md5_blocks pms p = (pms', left) \<Longrightarrow>
   md5_abcd pms' = foldl rfc_compress (md5_abcd pms) (blocks64 p) \<and> left = rest64 p \<and>
   md5_count0 pms' = md5_count0 pms \<and> md5_count1 pms' = md5_count1 pms \<and> md5_buf pms' = md5_buf pms"
proof (induction pms p arbitrary: pms' left rule: md5_blocks.induct)
  case (1 pms p)
  show ?case
  proof (cases "64 \<le> length p")
    case True
    with "1.prems" have "md5_blocks (md5_process pms (take 64 p)) (drop 64 p) = (pms', left)"
      by (subst (asm) md5_blocks.simps) simp
    from "1.IH" [OF True this] show ?thesis
      by (simp only: blocks64_long [OF True] rest64_long [OF True] md5_process_abcd
          md5_process_frame foldl_Cons)
  next
    case False
    with "1.prems" have "pms' = pms" and "left = p"
      by (simp_all add: md5_blocks.simps [of pms p])
    with False show ?thesis by (simp add: blocks64_short rest64_short)
  qed
qed

lemma md5_memcpy_simps [simp]:
  "md5_abcd (md5_memcpy pms off p) = md5_abcd pms"
  "md5_count0 (md5_memcpy pms off p) = md5_count0 pms"
  "md5_count1 (md5_memcpy pms off p) = md5_count1 pms"
  "md5_buf (md5_memcpy pms off p) = take off (md5_buf pms) @ p @ drop (off + length p) (md5_buf pms)"
  by (simp_all add: md5_memcpy_def md5_abcd_def)

text \<open>
  The invariant: the registers hold the digest of the full blocks of the message so far, the
  buffer starts with the bytes after them, the two counters are its length in bits.
\<close>

definition md5_seen :: "md5_state \<Rightarrow> byte list \<Rightarrow> bool" where
  "md5_seen pms m \<longleftrightarrow>
     length (md5_buf pms) = 64 \<and> md5_abcd pms = rfc_absorb m \<and>
     take (length m mod 64) (md5_buf pms) = rest64 m \<and>
     md5_count0 pms = word_of_nat (8 * length m) \<and>
     md5_count1 pms = word_of_nat (8 * length m div 2 ^ 32)"

lemma md5_seen_init: "length (md5_buf pms) = 64 \<Longrightarrow> md5_seen (md5_init pms) []"
  by (simp add: md5_seen_def md5_init_def md5_abcd_def rfc_absorb_def blocks64_short rfc_iv_def
      t_mask_def rest64_def)

lemma md5_count_carry:
  fixes l k :: nat
  defines "n0 \<equiv> word_of_nat (8 * k) :: md5_word" and "c0 \<equiv> word_of_nat (8 * l) :: md5_word"
  shows "(if c0 + n0 < n0
          then word_of_nat (8 * l div 2 ^ 32) + word_of_nat (k div 2 ^ 29) + 1
          else word_of_nat (8 * l div 2 ^ 32) + word_of_nat (k div 2 ^ 29) :: md5_word) =
         word_of_nat (8 * (l + k) div 2 ^ 32)"
proof -
  let ?M = "2 ^ 32 :: nat"
  have k: "k div 2 ^ 29 = 8 * k div ?M" by simp
  define a where "a = 8 * l mod ?M"
  define b where "b = 8 * k mod ?M"
  have ab: "a < ?M" "b < ?M" by (simp_all add: a_def b_def)
  have of: "unat (word_of_nat x :: md5_word) = x mod ?M" for x by (simp add: unat_of_nat)
  have un: "unat n0 = b" "unat c0 = a"
    unfolding n0_def c0_def a_def b_def by (rule of)+
  then have sum: "unat (c0 + n0) = (a + b) mod ?M"
    by (simp add: unat_word_ariths)
  have "8 * (l + k) = (8 * l div ?M + 8 * k div ?M) * ?M + (a + b)"
    using div_mult_mod_eq [of "8 * l" ?M] div_mult_mod_eq [of "8 * k" ?M]
    unfolding a_def b_def by (simp add: algebra_simps)
  then have quot: "8 * (l + k) div ?M = 8 * l div ?M + 8 * k div ?M + (a + b) div ?M"
    by (metis (no_types, lifting) add.commute div_mult_self1 power_eq_0_iff zero_neq_numeral)
  have "c0 + n0 < n0 \<longleftrightarrow> ?M \<le> a + b"
  proof (cases "?M \<le> a + b")
    case True
    then have "(a + b) mod ?M = a + b - ?M" using ab by (simp add: mod_nat_eqI)
    with True ab show ?thesis by (simp add: word_less_nat_alt sum un)
  next
    case False
    then show ?thesis by (simp add: word_less_nat_alt sum un)
  qed
  moreover have "(a + b) div ?M = (if ?M \<le> a + b then 1 else 0)"
    using ab by (auto simp: div_nat_eqI)
  ultimately show ?thesis unfolding k quot by (simp add: ac_simps)
qed


lemma word_and_63: "unat (w AND 63 :: md5_word) = unat w mod 64"
proof -
  have "w AND 63 = take_bit 6 w" by (simp add: take_bit_eq_mask mask_eq_exp_minus_1)
  moreover have "unat (take_bit 6 w) = take_bit 6 (unat w)" by (rule unsigned_take_bit_eq)
  ultimately show ?thesis by (simp only: take_bit_eq_mod) simp
qed

lemma md5_offset_seen: "md5_seen pms m \<Longrightarrow> md5_offset pms = length m mod 64"
proof -
  assume "md5_seen pms m"
  then have "unat (md5_count0 pms) = 8 * length m mod 2 ^ 32"
    by (simp add: md5_seen_def unat_of_nat del: of_nat_mult)
  then have "unat (drop_bit 3 (md5_count0 pms)) = (8 * length m mod 2 ^ 32) div 2 ^ 3"
    by (metis unat_drop_bit_eq drop_bit_eq_div)
  also have "\<dots> = length m mod 2 ^ 29" using mod_mult_mult1 [of 8 "length m" "2 ^ 29"] by simp
  finally have "md5_offset pms = length m mod 2 ^ 29 mod 64"
    by (simp add: md5_offset_def word_and_63)
  then show ?thesis by (simp add: mod_mod_cancel)
qed

text \<open>
  The end of \<open>md5_append\<close>: what is left over goes to the front of the buffer.
\<close>

lemma md5_tail_seen:
  assumes "md5_blocks pms p = (pms', left)" and "length (md5_buf pms) = 64"
  defines "out \<equiv> (if left = [] then pms' else md5_memcpy pms' 0 left)"
  shows "md5_abcd out = foldl rfc_compress (md5_abcd pms) (blocks64 p) \<and>
         length (md5_buf out) = 64 \<and> take (length p mod 64) (md5_buf out) = rest64 p \<and>
         md5_count0 out = md5_count0 pms \<and> md5_count1 out = md5_count1 pms"
proof -
  note b = md5_blocks_correct [OF assms(1)]
  have "length left = length p mod 64" using b by simp
  moreover from this have "length left \<le> 64" by simp
  ultimately show ?thesis
    using b assms(2) unfolding out_def by (auto simp: min_def simp flip: length_rest64)
qed

lemma md5_append_seen:
  assumes seen: "md5_seen pms m"
  shows "md5_seen (md5_append pms p) (m @ p)"
proof (cases "p = []")
  case True
  with seen show ?thesis by (simp add: md5_append_def Let_def)
next
  case ne: False
  define off where "off = length m mod 64"
  define nb where "nb = (word_of_nat (push_bit 3 (length p)) :: md5_word)"
  define pms1 where "pms1 = pms\<lparr>md5_count0 := md5_count0 pms + nb,
     md5_count1 := (if md5_count0 pms + nb < nb
                    then md5_count1 pms + word_of_nat (drop_bit 29 (length p)) + 1
                    else md5_count1 pms + word_of_nat (drop_bit 29 (length p)))\<rparr>"
  have off: "md5_offset pms = off" using md5_offset_seen [OF seen] by (simp add: off_def)
  have off64: "off < 64" by (simp add: off_def)
  have buf: "length (md5_buf pms) = 64" "take off (md5_buf pms) = rest64 m"
    and abcd: "md5_abcd pms = rfc_absorb m"
    using seen by (simp_all add: md5_seen_def off_def)
  have nb: "nb = word_of_nat (8 * length p)" by (simp only: nb_def push_bit_eq_mult) simp
  have c0: "md5_count0 pms1 = word_of_nat (8 * length (m @ p))"
    using seen by (simp add: pms1_def md5_seen_def nb distrib_left)
  have c1: "md5_count1 pms1 = word_of_nat (8 * length (m @ p) div 2 ^ 32)"
    using seen md5_count_carry [of "length m" "length p"]
    by (simp only: pms1_def md5_seen_def nb drop_bit_eq_div length_append) simp
  have b1: "md5_buf pms1 = md5_buf pms" "md5_abcd pms1 = md5_abcd pms"
    by (simp_all add: pms1_def md5_abcd_def)
  show ?thesis
  proof (cases "off = 0")
    case True
    obtain pms' left where bl: "md5_blocks pms1 p = (pms', left)" by fastforce
    have res: "md5_append pms p = (if left = [] then pms' else md5_memcpy pms' 0 left)"
      using ne True bl off by (simp add: md5_append_def Let_def pms1_def nb_def)
    have "rest64 m = []" using True by (metis length_0_conv length_rest64 off_def)
    with md5_tail_seen [OF bl] b1 buf abcd c0 c1 True show ?thesis
      unfolding res md5_seen_def absorb_append rest64_append [of m]
      by (simp add: off_def mod_add_left_eq [symmetric] del: of_nat_mult of_nat_add)
  next
    case False
    define copy where "copy = (if 64 < off + length p then 64 - off else length p)"
    define pms2 where "pms2 = md5_memcpy pms1 off (take copy p)"
    have copy: "copy \<le> length p" using off64 by (auto simp: copy_def)
    have buf2: "md5_buf pms2 = rest64 m @ take copy p @ drop (off + copy) (md5_buf pms)"
      using b1 buf copy by (simp add: pms2_def)
    have p2: "md5_abcd pms2 = rfc_absorb m" "md5_count0 pms2 = word_of_nat (8 * length (m @ p))"
      "md5_count1 pms2 = word_of_nat (8 * length (m @ p) div 2 ^ 32)" "length (md5_buf pms2) = 64"
      using b1 abcd c0 c1 buf(1) off64
      by (auto simp: pms2_def copy_def simp del: of_nat_mult of_nat_add)
    show ?thesis
    proof (cases "off + copy < 64")
      case small: True
      then have all: "copy = length p" "off + length p < 64" by (auto simp: copy_def split: if_splits)
      have res: "md5_append pms p = pms2"
        using ne False small off
        by (simp add: md5_append_def Let_def pms1_def nb_def pms2_def copy_def)
      have "(length m + length p) mod 64 = off + length p"
        using all(2) unfolding off_def by (metis mod_add_left_eq mod_less)
      with all p2 buf2 show ?thesis
        unfolding res md5_seen_def absorb_append rest64_append [of m]
        by (simp add: blocks64_short rest64_short off_def [symmetric] del: of_nat_mult of_nat_add)
    next
      case big: False
      then have full: "off + copy = 64" using off64 by (auto simp: copy_def split: if_splits)
      define pms3 where "pms3 = md5_process pms2 (md5_buf pms2)"
      obtain pms' left where bl: "md5_blocks pms3 (drop copy p) = (pms', left)" by fastforce
      have res: "md5_append pms p = (if left = [] then pms' else md5_memcpy pms' 0 left)"
        using ne False big off bl
        by (simp add: md5_append_def Let_def pms1_def nb_def pms2_def copy_def pms3_def)
      have "md5_buf pms2 = rest64 m @ take copy p" using buf2 full buf(1) by simp
      moreover have "rest64 m @ p = (rest64 m @ take copy p) @ drop copy p" by simp
      moreover have "64 dvd length (rest64 m @ take copy p)"
        using full copy by (simp add: off_def)
      ultimately have sp: "blocks64 (rest64 m @ p) = blocks64 (md5_buf pms2) @ blocks64 (drop copy p)"
        "rest64 (rest64 m @ p) = rest64 (drop copy p)"
        by (metis blocks64_append)+
      have one: "blocks64 (md5_buf pms2) = [md5_buf pms2]"
        using p2(4) by (simp add: blocks64_long blocks64_short)
      have "length (m @ p) mod 64 = length (drop copy p) mod 64"
        using arg_cong [OF sp(2), of length] by (metis length_rest64 rest64_append)
      with md5_tail_seen [OF bl] p2 sp one show ?thesis
        unfolding res md5_seen_def absorb_append rest64_append [of m] pms3_def
        by (simp add: md5_process_abcd del: of_nat_mult of_nat_add length_append length_drop)
    qed
  qed
qed

section \<open>The digest\<close>

lemma upt_4: "[0..<4] = [0, 1, 2, 3]" and upt_8: "[0..<8] = [0, 1, 2, 3, 4, 5, 6, 7]"
  by (simp_all add: upt_rec)

lemma md5_length_bytes_seen:
  "md5_seen pms m \<Longrightarrow> md5_length_bytes pms = rfc_length (length m)"
  by (simp add: md5_length_bytes_def rfc_length_def le_bytes_def upt_4 upt_8 md5_seen_def
      del: of_nat_mult)

lemma md5_digest_seen:
  "md5_seen pms m \<Longrightarrow>
   md5_digest pms = (case rfc_absorb m of (a, b, c, d) \<Rightarrow> concat (map le_bytes [a, b, c, d]))"
  by (cases "rfc_absorb m")
     (simp add: md5_digest_def le_bytes_def upt_4 upt_16 md5_seen_def md5_abcd_def)

lemma md5_npad:
  assumes "md5_seen pms m"
  shows "take (unat ((55 - drop_bit 3 (md5_count0 pms)) AND 63) + 1) md5_pad = rfc_padding (length m)"
proof -
  let ?d = "drop_bit 3 (md5_count0 pms)"
  have off: "unat ?d mod 64 = length m mod 64"
    using md5_offset_seen [OF assms] by (simp add: md5_offset_def word_and_63)
  have shift: "(55 - x) mod 64 = (119 - x) mod 64" for x :: int
    using mod_add_self2 [of "55 - x" 64] by (simp add: algebra_simps)
  have "unat (55 - ?d) mod 64 = (119 - length m mod 64) mod 64"
  proof -
    have "int (unat (55 - ?d) mod 64) = uint (55 - ?d) mod 64"
      by (simp add: zmod_int)
    also have "\<dots> = (55 - uint ?d) mod 2 ^ 32 mod 64"
      by (simp add: uint_word_ariths)
    also have "\<dots> = (55 - uint ?d) mod 64"
      by (rule mod_mod_cancel) simp
    also have "\<dots> = (55 - int (unat ?d mod 64)) mod 64"
      by (simp add: zmod_int mod_diff_right_eq)
    also have "\<dots> = (119 - int (length m mod 64)) mod 64"
      unfolding off by (rule shift)
    finally have "int (unat (55 - ?d) mod 64) = int ((119 - length m mod 64) mod 64)"
      by (simp add: zmod_int of_nat_diff)
    then show ?thesis by linarith
  qed
  then show ?thesis
    by (simp add: word_and_63 rfc_padding_def md5_pad_def)
qed

lemma md5_appends_seen:
  "md5_seen pms m \<Longrightarrow> md5_seen (foldl md5_append pms parts) (m @ concat parts)"
proof (induction parts arbitrary: pms m)
  case Nil
  then show ?case by simp
next
  case (Cons p parts)
  show ?case using Cons.IH [OF md5_append_seen [OF Cons.prems, of p]] by simp
qed

lemma md5_finish_seen: "md5_seen pms m \<Longrightarrow> md5_finish pms = rfc_md5 m"
proof -
  assume seen: "md5_seen pms m"
  let ?n = "length m"
  have "md5_seen (md5_append (md5_append pms (rfc_padding ?n)) (rfc_length ?n))
          ((m @ rfc_padding ?n) @ rfc_length ?n)"
    using seen by (intro md5_append_seen)
  from md5_digest_seen [OF this] show ?thesis
    by (simp only: md5_finish_def Let_def md5_npad [OF seen] md5_length_bytes_seen [OF seen]
        rfc_md5_def append.assoc)
qed

section \<open>Properties\<close>

text \<open>
  Claim C23.  One call of the block function is the compression function of RFC 1321: the 64
  unrolled \<open>SET\<close> lines, with their hand-rotated registers, word indices, shift counts and
  table entries, compute the four rounds of the specification's loop, and the counters and the
  buffer are left alone.
\<close>

theorem md5_process_rfc:
  "md5_abcd (md5_process pms data) = rfc_compress (md5_abcd pms) data \<and>
   md5_count0 (md5_process pms data) = md5_count0 pms \<and>
   md5_count1 (md5_process pms data) = md5_count1 pms \<and>
   md5_buf (md5_process pms data) = md5_buf pms"
  by (simp add: md5_process_abcd)

text \<open>
  Claim C22.  The streaming interface computes MD5: whatever the state held before \<open>md5_init\<close>,
  and in whatever pieces the message is fed to \<open>md5_append\<close>, \<open>md5_finish\<close> returns the RFC 1321
  digest of the whole message, bit counters and padding included.
\<close>

theorem md5_streaming_correct:
  assumes "length (md5_buf pms) = 64"
  shows "md5_finish (foldl md5_append (md5_init pms) parts) = rfc_md5 (concat parts)"
  using md5_finish_seen [OF md5_appends_seen [OF md5_seen_init [OF assms]]] by simp

lemma md5_streaming_correct_witness:
  "length (md5_buf \<lparr>md5_count0 = 7, md5_count1 = 1, md5_a = 0, md5_b = 0, md5_c = 0, md5_d = 0,
              md5_buf = replicate 64 0xFF\<rparr>) = 64 \<and>
   md5_finish (foldl md5_append
       (md5_init \<lparr>md5_count0 = 7, md5_count1 = 1, md5_a = 0, md5_b = 0, md5_c = 0, md5_d = 0,
                   md5_buf = replicate 64 0xFF\<rparr>)
       [replicate 40 0x61, [], replicate 100 0x62]) =
     rfc_md5 (replicate 40 0x61 @ replicate 100 0x62)"
  using md5_streaming_correct
    [of "\<lparr>md5_count0 = 7, md5_count1 = 1, md5_a = 0, md5_b = 0, md5_c = 0, md5_d = 0,
           md5_buf = replicate 64 0xFF\<rparr>" "[replicate 40 0x61, [], replicate 100 0x62]"]
  by simp

end
