(* ===== verification/Smf_Core.thy ===== *)
theory Smf_Core
  imports Smf_Posix Smf_Md5
begin

text \<open>
  The utility functions of \<open>smf_core.c\<close>: trimming, splitting, the expansion of \<open>%s\<close>, \<open>%u\<close>
  and \<open>%d\<close> in query templates, queue and maildir file names, the MD5 digest as hex text, and
  copying a file to a descriptor.
\<close>

section \<open>Strings\<close>

text \<open>\<open>start\<close> and \<open>end\<close> are the indices the two loops of the code leave behind.\<close>

definition smf_core_strstrip :: "string \<Rightarrow> string" where
  "smf_core_strstrip s =
     (let start = length (takeWhile c_isspace s);
          stop = (if start < length s
                  then length s - length (takeWhile c_isspace (rev s)) else length s)
      in take (stop - start) (drop start s))"

definition smf_core_strlwc :: "string \<Rightarrow> string" where
  "smf_core_strlwc s = map c_tolower s"

text \<open>The second argument is what \<open>vasprintf\<close> makes of the format, \<open>None\<close> when it fails.\<close>

definition smf_core_strcat_printf :: "string option \<Rightarrow> string option \<Rightarrow> string c_result" where
  "smf_core_strcat_printf s formatted =
     (case s of
        None \<Rightarrow> Inl AssertFailed
      | Some s' \<Rightarrow> (case formatted of None \<Rightarrow> Inr s' | Some t \<Rightarrow> Inr (s' @ t)))"

text \<open>The \<open>strsep\<close> loop; \<open>None\<close> is the cursor after the last token.\<close>

function strsplit_loop :: "string \<Rightarrow> string option \<Rightarrow> string list" where
  "strsplit_loop sep None = []"
| "strsplit_loop sep (Some s) =
     (case c_strsep sep s of (tok, rest) \<Rightarrow> tok # strsplit_loop sep rest)"
  by pat_completeness auto
termination
  by (relation "measure (\<lambda>(sep, s). case s of None \<Rightarrow> 0 | Some s' \<Rightarrow> Suc (length s'))")
     (auto split: option.splits dest!: c_strsep_shorter [OF sym])

text \<open>The parts and their number.\<close>

definition smf_core_strsplit :: "string \<Rightarrow> string \<Rightarrow> string list \<times> nat" where
  "smf_core_strsplit s sep = (let sl = strsplit_loop sep (Some s) in (sl, length sl))"

section \<open>Template expansion\<close>

datatype 'a expansion = Expanded 'a nat | BadFormat int   \<comment> \<open>\<open>*buf\<close> and the count, or \<open>-1\<close> and \<open>-2\<close>\<close>

text \<open>The text a conversion stands for.\<close>

definition expand_insert :: "string \<Rightarrow> string list \<Rightarrow> char \<Rightarrow> int + string" where
  "expand_insert addr parts c =
     (if c = CHR ''s'' then Inr addr
      else if c = CHR ''u'' then Inr (parts ! 0)
      else if c = CHR ''d'' then (if length parts < 2 then Inl (- 1) else Inr (parts ! 1))
      else Inl (- 2))"

text \<open>
  The loop over the buffer \<open>out\<close>, which it edits in place: after an insertion the offset skips
  the inserted text.  A \<open>%\<close> at the end is followed by the terminating NUL, which is no
  conversion.
\<close>

function expand_loop :: "string \<Rightarrow> string list \<Rightarrow> string \<Rightarrow> nat \<Rightarrow> nat \<Rightarrow> string expansion" where
  "expand_loop addr parts out offs rep =
     (if length out \<le> offs then Expanded out rep
      else if out ! offs = CHR ''%'' then
        (if length out \<le> offs + 1 then BadFormat (- 2)
         else (case expand_insert addr parts (out ! (offs + 1)) of
           Inl err \<Rightarrow> BadFormat err
         | Inr ins \<Rightarrow>
             expand_loop addr parts (take offs out @ ins @ drop (offs + 2) out)
               (offs + length ins) (Suc rep)))
      else expand_loop addr parts out (Suc offs) rep)"
  by pat_completeness auto
termination
  by (relation "measure (\<lambda>(addr, parts, out, offs, rep). length out - offs)") auto

declare expand_loop.simps [simp del]

definition smf_core_expand_string :: "string \<Rightarrow> string \<Rightarrow> string expansion" where
  "smf_core_expand_string format addr =
     expand_loop addr (fst (smf_core_strsplit addr ''@'')) format 0 0"

section \<open>File names and digests\<close>

text \<open>\<open>mkstemp\<close> is a parameter: it turns the template into the name of a new file, or fails.\<close>

definition smf_core_gen_queue_file ::
  "(string \<Rightarrow> string option) \<Rightarrow> string \<Rightarrow> string \<Rightarrow> int \<times> string" where
  "smf_core_gen_queue_file mkstemp queue_dir sid =
     (let tempname = queue_dir @ ''/'' @ sid @ ''.XXXXXX''
      in case mkstemp tempname of None \<Rightarrow> (- 1, tempname) | Some name \<Rightarrow> (0, name))"

definition smf_core_get_maildir_filename :: "nat \<Rightarrow> nat \<Rightarrow> string \<Rightarrow> string" where
  "smf_core_get_maildir_filename sec usec hostname =
     string_of_nat sec @ ''.V'' @ string_of_nat usec @ ''.'' @ hostname"

definition hex_digit :: "nat \<Rightarrow> char" where
  "hex_digit d = (if d < 10 then char_of (48 + d) else char_of (87 + d))"

definition hex_byte :: "byte \<Rightarrow> string" where
  "hex_byte b = [hex_digit (unat b div 16), hex_digit (unat b mod 16)]"

text \<open>The state is an uninitialised local variable; \<open>junk\<close> is what it holds.\<close>

definition smf_core_md5sum :: "md5_state \<Rightarrow> string \<Rightarrow> string" where
  "smf_core_md5sum junk data =
     concat (map hex_byte (md5_finish (md5_append (md5_init junk) (map of_char data))))"

section \<open>Copying files\<close>

text \<open>
  The inner loop of \<open>smf_core_copy_to_fd\<close> starts every \<open>write\<close> at the beginning of \<open>buf\<close>, with
  the length of the whole chunk.  The fuel bounds the number of calls; a \<open>write\<close> that keeps
  taking nothing runs forever, which is \<open>None\<close> for every fuel.
\<close>

fun copy_chunk :: "nat \<Rightarrow> string \<Rightarrow> nat \<Rightarrow> nat \<Rightarrow> fd \<Rightarrow> ((nat option) \<times> fd) option" where
  "copy_chunk 0 buf nwritten nbytes dest = None"
| "copy_chunk (Suc fuel) buf nwritten nbytes dest =
     (if nwritten < length buf then
        (case sys_write buf dest of
           (Wrote n, dest') \<Rightarrow> copy_chunk fuel buf (nwritten + n) (nbytes + n) dest'
         | (_, dest') \<Rightarrow> Some (None, dest'))
      else Some (Some nbytes, dest))"

fun copy_loop :: "nat \<Rightarrow> fd \<Rightarrow> nat \<Rightarrow> fd \<Rightarrow> (int \<times> fd) option" where
  "copy_loop 0 source nbytes dest = None"
| "copy_loop (Suc fuel) source nbytes dest =
     (case sys_read 512 source of
        (Got [], source') \<Rightarrow> Some (int_of_long (int nbytes), dest)
      | (Got buf, source') \<Rightarrow>
          (case copy_chunk (Suc fuel) buf 0 nbytes dest of
             None \<Rightarrow> None
           | Some (None, dest') \<Rightarrow> Some (- 1, dest')
           | Some (Some nbytes', dest') \<Rightarrow> copy_loop fuel source' nbytes' dest')
      | (_, source') \<Rightarrow> Some (- 1, dest))"

text \<open>\<open>source\<close> is \<open>None\<close> when it cannot be opened.\<close>

definition smf_core_copy_to_fd :: "nat \<Rightarrow> fd option \<Rightarrow> fd \<Rightarrow> (int \<times> fd) option" where
  "smf_core_copy_to_fd fuel source dest =
     (case source of None \<Rightarrow> Some (- 1, dest) | Some src \<Rightarrow> copy_loop fuel src 0 dest)"

definition smf_core_copy_file :: "nat \<Rightarrow> fd option \<Rightarrow> fd option \<Rightarrow> (int \<times> fd option) option" where
  "smf_core_copy_file fuel source dest =
     (case dest of
        None \<Rightarrow> Some (0, None)
      | Some out \<Rightarrow> map_option (\<lambda>(rc, out'). (rc, Some out')) (smf_core_copy_to_fd fuel source out))"

section \<open>Trimming and splitting\<close>

lemma smf_core_strstrip_eq:
  "smf_core_strstrip s = rev (dropWhile c_isspace (rev (dropWhile c_isspace s)))"
proof -
  define w where "w = takeWhile c_isspace s"
  define t where "t = dropWhile c_isspace s"
  have s: "s = w @ t" by (simp add: w_def t_def)
  have t: "drop (length w) s = t" by (subst s) simp
  show ?thesis
  proof (cases "t = []")
    case True
    then have "\<forall>x \<in> set s. c_isspace x" by (simp add: t_def)
    then have "takeWhile c_isspace s = s" "dropWhile c_isspace s = []"
      by (simp_all only: takeWhile_eq_all_conv dropWhile_eq_Nil_conv)
    then show ?thesis
      by (simp add: smf_core_strstrip_def Let_def del: takeWhile_eq_all_conv dropWhile_eq_Nil_conv)
  next
    case False
    then have "\<not> c_isspace (hd t)" by (simp add: t_def hd_dropWhile)
    then have "\<exists>x \<in> set (rev t). \<not> c_isspace x" using False by (metis hd_in_set set_rev)
    then have tw: "takeWhile c_isspace (rev s) = takeWhile c_isspace (rev t)"
      by (subst s) (auto intro: takeWhile_append1)
    have le: "length (takeWhile c_isspace (rev t)) \<le> length t"
      by (metis length_rev length_takeWhile_le)
    have len: "length s = length w + length t" by (subst s) simp
    then have "length w < length s" using False by simp
    then have "smf_core_strstrip s =
        take (length s - length (takeWhile c_isspace (rev s)) - length w) (drop (length w) s)"
      unfolding smf_core_strstrip_def Let_def w_def [symmetric] by (simp only: if_True)
    then have "smf_core_strstrip s = take (length t - length (takeWhile c_isspace (rev t))) t"
      using t tw len le by (simp add: diff_diff_add add.commute)
    also have "\<dots> = rev (dropWhile c_isspace (rev t))"
      by (simp add: dropWhile_eq_drop rev_drop)
    finally show ?thesis by (simp add: t_def)
  qed
qed

lemma strsplit_loop_nonempty: "strsplit_loop sep (Some s) \<noteq> []"
  by (simp split: prod.split)

lemma c_strsep_one: "c \<notin> set s \<Longrightarrow> c_strsep [c] s = (s, None)"
  by (simp add: c_strsep_def)

lemma c_strsep_found: "c \<notin> set a \<Longrightarrow> c_strsep [c] (a @ c # r) = (a, Some r)"
  by (simp add: c_strsep_def)

lemma strsplit_loop_join:
  "join [c] (strsplit_loop [c] (Some s)) = s \<and>
   (\<forall>p \<in> set (strsplit_loop [c] (Some s)). c \<notin> set p) \<and>
   length (strsplit_loop [c] (Some s)) = Suc (count_list s c)"
proof (induction "length s" arbitrary: s rule: less_induct)
  case less
  show ?case
  proof (cases "c \<in> set s")
    case False
    then show ?thesis by (simp add: c_strsep_one)
  next
    case True
    then obtain a r where s: "s = a @ c # r" "c \<notin> set a" by (metis split_list_first)
    with less [of r] strsplit_loop_nonempty [of "[c]" r] show ?thesis
      by (simp add: join_Cons c_strsep_found del: strsplit_loop.simps(2))
         (simp add: join_Cons c_strsep_found)
  qed
qed

text \<open>The two parts of an address the templates use.\<close>

definition addr_user :: "string \<Rightarrow> string" where
  "addr_user addr = takeWhile (\<lambda>c. c \<noteq> CHR ''@'') addr"

definition addr_domain :: "string \<Rightarrow> string option" where
  "addr_domain addr =
     map_option (\<lambda>t. takeWhile (\<lambda>c. c \<noteq> CHR ''@'') (tl t)) (strchr addr (CHR ''@''))"

lemma strsplit_parts:
  "strsplit_loop [c] (Some s) ! 0 = takeWhile (\<lambda>x. x \<noteq> c) s \<and>
   (strchr s c = None \<longrightarrow> length (strsplit_loop [c] (Some s)) = 1) \<and>
   (\<forall>r. strchr s c = Some r \<longrightarrow>
      2 \<le> length (strsplit_loop [c] (Some s)) \<and>
      strsplit_loop [c] (Some s) ! 1 = takeWhile (\<lambda>x. x \<noteq> c) (tl r))"
proof (cases "c \<in> set s")
  case False
  then have "strchr s c = None" by (simp add: strchr_None_iff)
  with False show ?thesis by (simp add: c_strsep_one)
next
  case True
  then obtain a r where s: "s = a @ c # r" "c \<notin> set a" by (metis split_list_first)
  then have "takeWhile (\<lambda>x. x \<noteq> c) s = a" "strchr s c = Some (c # r)"
    by (simp_all add: strchr_def)
  moreover have "strsplit_loop [c] (Some r) ! 0 = takeWhile (\<lambda>x. x \<noteq> c) r"
  proof (cases "c \<in> set r")
    case False
    then show ?thesis by (simp add: c_strsep_one)
  next
    case True
    then obtain b q where r: "r = b @ c # q" "c \<notin> set b" by (metis split_list_first)
    then show ?thesis by (simp add: c_strsep_found)
  qed
  moreover have "strsplit_loop [c] (Some s) = a # strsplit_loop [c] (Some r)"
    using s by (simp add: c_strsep_found)
  moreover have "1 \<le> length (strsplit_loop [c] (Some r))"
    using strsplit_loop_nonempty [of "[c]" r] by (simp add: Suc_le_eq del: strsplit_loop.simps)
  ultimately show ?thesis by (simp del: strsplit_loop.simps)
qed

section \<open>Template expansion as a recursion on the format\<close>

fun prepend :: "string \<Rightarrow> nat \<Rightarrow> string expansion \<Rightarrow> string expansion" where
  "prepend s k (Expanded t rep) = Expanded (s @ t) (k + rep)"
| "prepend s k (BadFormat e) = BadFormat e"

definition conversion :: "string \<Rightarrow> char \<Rightarrow> int + string" where
  "conversion addr c =
     (if c = CHR ''s'' then Inr addr
      else if c = CHR ''u'' then Inr (addr_user addr)
      else if c = CHR ''d'' then
        (case addr_domain addr of None \<Rightarrow> Inl (- 1) | Some d \<Rightarrow> Inr d)
      else Inl (- 2))"

fun expand_spec :: "string \<Rightarrow> string \<Rightarrow> string expansion" where
  "expand_spec addr [] = Expanded [] 0"
| "expand_spec addr [c] = (if c = CHR ''%'' then BadFormat (- 2) else Expanded [c] 0)"
| "expand_spec addr (c # d # r) =
     (if c = CHR ''%'' then
        (case conversion addr d of Inl e \<Rightarrow> BadFormat e | Inr s \<Rightarrow> prepend s 1 (expand_spec addr r))
      else prepend [c] 0 (expand_spec addr (d # r)))"

lemma expand_insert_conversion:
  "expand_insert addr (fst (smf_core_strsplit addr ''@'')) c = conversion addr c"
  using strsplit_parts [of "CHR ''@''" addr]
  by (auto simp: expand_insert_def conversion_def smf_core_strsplit_def Let_def addr_user_def
      addr_domain_def split: option.splits simp del: strsplit_loop.simps)

lemma prepend_prepend: "prepend s k (prepend t l e) = prepend (s @ t) (k + l) e"
  by (cases e) auto

lemma prepend_nil: "prepend [] 0 e = e"
  by (cases e) auto

lemma expand_loop_spec:
  "expand_loop addr (fst (smf_core_strsplit addr ''@'')) (out @ r) (length out) rep =
     prepend out rep (expand_spec addr r)"
proof (induction addr r arbitrary: out rep rule: expand_spec.induct)
  case (1 addr)
  then show ?case by (simp add: expand_loop.simps)
next
  case (2 addr c)
  then show ?case
    by (subst expand_loop.simps) (auto simp: expand_loop.simps [of _ _ _ "Suc (length out)"])
next
  case (3 addr c d r)
  show ?case
  proof (cases "c = CHR ''%''")
    case True
    show ?thesis
    proof (cases "conversion addr d")
      case (Inl e)
      with True show ?thesis
        by (subst expand_loop.simps) (simp add: expand_insert_conversion nth_append)
    next
      case (Inr s)
      have "expand_loop addr (fst (smf_core_strsplit addr ''@'')) (out @ c # d # r) (length out) rep =
              expand_loop addr (fst (smf_core_strsplit addr ''@'')) ((out @ s) @ r)
                (length (out @ s)) (Suc rep)"
        using True Inr
        by (subst expand_loop.simps) (simp add: expand_insert_conversion nth_append)
      also have "\<dots> = prepend (out @ s) (Suc rep) (expand_spec addr r)"
        by (rule "3.IH"(1) [OF True Inr])
      finally show ?thesis using True Inr by (simp add: prepend_prepend)
    qed
  next
    case False
    have "expand_loop addr (fst (smf_core_strsplit addr ''@'')) (out @ c # d # r) (length out) rep =
            expand_loop addr (fst (smf_core_strsplit addr ''@'')) ((out @ [c]) @ d # r)
              (length (out @ [c])) rep"
      using False by (subst expand_loop.simps) simp
    also have "\<dots> = prepend (out @ [c]) rep (expand_spec addr (d # r))"
      by (rule "3.IH"(2) [OF False])
    finally show ?thesis using False by (simp add: prepend_prepend)
  qed
qed

section \<open>Copying\<close>

lemma copy_chunk_full:
  "fd_wr dest = [] \<Longrightarrow> buf \<noteq> [] \<Longrightarrow>
   copy_chunk (Suc (Suc fuel)) buf 0 nbytes dest =
     Some (Some (nbytes + length buf), dest\<lparr>fd_out := fd_out dest @ buf\<rparr>)"
  by (simp add: sys_write.simps)

lemma copy_loop_full:
  "delivers (fd_in src) \<Longrightarrow> fd_wr dest = [] \<Longrightarrow> rd_weight (fd_in src) < fuel \<Longrightarrow>
   copy_loop (Suc fuel) src nbytes dest =
     Some (int_of_long (int (nbytes + length (pending (fd_in src)))),
           dest\<lparr>fd_out := fd_out dest @ pending (fd_in src)\<rparr>)"
proof (induction fuel arbitrary: src nbytes dest)
  case 0
  then show ?case by simp
next
  case (Suc fuel)
  obtain r src' where rd: "sys_read 512 src = (r, src')" by fastforce
  note dr = delivers_read [OF Suc.prems(1) rd]
  show ?case
  proof (cases "fd_in src = []")
    case True
    with dr rd show ?thesis by (auto simp: sys_read.simps)
  next
    case False
    with dr obtain s where s: "s \<noteq> []" "r = Got s" "pending (fd_in src) = s @ pending (fd_in src')"
      "rd_weight (fd_in src') < rd_weight (fd_in src)" "delivers (fd_in src')" by auto
    then obtain c t where c: "s = c # t" by (cases s) auto
    have "copy_loop (Suc (Suc fuel)) src nbytes dest =
            copy_loop (Suc fuel) src' (nbytes + length s) (dest\<lparr>fd_out := fd_out dest @ s\<rparr>)"
      using rd s copy_chunk_full [OF Suc.prems(2) s(1)] c
      by (simp del: copy_chunk.simps copy_loop.simps add: copy_loop.simps(2) [of "Suc fuel"])
    also have "\<dots> = Some (int_of_long (int (nbytes + length s + length (pending (fd_in src')))),
        dest\<lparr>fd_out := (fd_out dest @ s) @ pending (fd_in src')\<rparr>)"
      using Suc.IH [of src' "dest\<lparr>fd_out := fd_out dest @ s\<rparr>" "nbytes + length s"] s Suc.prems
      by simp
    finally show ?thesis using s by (simp add: add.assoc)
  qed
qed

section \<open>Properties\<close>

text \<open>
  Splitting at a separator character is exact: joining the parts gives the string
  back, no part contains the separator, and the count stored through \<open>nelems\<close> is the number of
  parts, one more than the number of separators.
\<close>

theorem smf_core_strsplit_roundtrip:
  "join [c] (fst (smf_core_strsplit s [c])) = s \<and>
   (\<forall>p \<in> set (fst (smf_core_strsplit s [c])). c \<notin> set p) \<and>
   snd (smf_core_strsplit s [c]) = length (fst (smf_core_strsplit s [c])) \<and>
   snd (smf_core_strsplit s [c]) = Suc (count_list s c)"
  unfolding smf_core_strsplit_def Let_def fst_conv snd_conv
  using strsplit_loop_join [of c s] by blast

lemma smf_core_strsplit_roundtrip_witness:
  "smf_core_strsplit ''a,,b'' '','' = ([''a'', [], ''b''], 3) \<and> CHR '','' \<notin> set ''a''"
  using smf_core_strsplit_roundtrip [of "CHR '',''" "''a,,b''"]
  by (simp add: smf_core_strsplit_def Let_def c_strsep_def)

text \<open>
  The in-place expansion loop computes the substitution one would write down: reading
  the template from left to right, \<open>%s\<close> stands for the address, \<open>%u\<close> for the text before the
  first \<open>@\<close>, \<open>%d\<close> for the text between the first and the second \<open>@\<close> (failing with -1 when there
  is no \<open>@\<close>), any other conversion fails with -2, inserted text is never expanded again, and the
  count is the number of substitutions.
\<close>

theorem smf_core_expand_string_spec:
  "smf_core_expand_string format addr = expand_spec addr format"
  using expand_loop_spec [of addr "[]" format 0]
  by (simp add: smf_core_expand_string_def prepend_nil)

text \<open>
  A file that is read without errors is copied completely to a descriptor that takes
  every write whole: the loop ends, exactly the file's bytes are appended, and the return value
  is their number (as an \<open>int\<close>).
\<close>

theorem smf_core_copy_to_fd_complete:
  assumes "delivers (fd_in src)" and "fd_wr dest = []" and "rd_weight (fd_in src) < fuel"
  shows "smf_core_copy_to_fd (Suc fuel) (Some src) dest =
           Some (int_of_long (int (length (pending (fd_in src)))),
                 dest\<lparr>fd_out := fd_out dest @ pending (fd_in src)\<rparr>)"
  using copy_loop_full [OF assms, of 0] by (simp add: smf_core_copy_to_fd_def)

lemma smf_core_copy_to_fd_complete_witness:
  "smf_core_copy_to_fd 12 (Some \<lparr>fd_in = [RdData ''From: a'', RdData ''b''], fd_wr = [], fd_out = []\<rparr>)
      \<lparr>fd_in = [], fd_wr = [], fd_out = ''>''\<rparr> =
     Some (8, \<lparr>fd_in = [], fd_wr = [], fd_out = ''>From: ab''\<rparr>)"
  using smf_core_copy_to_fd_complete
    [of "\<lparr>fd_in = [RdData ''From: a'', RdData ''b''], fd_wr = [], fd_out = []\<rparr>"
        "\<lparr>fd_in = [], fd_wr = [], fd_out = ''>''\<rparr>" 11]
  by (simp add: int_of_long_id)

text \<open>
  A short write corrupts the copy: when the first \<open>write\<close> takes only part of the
  chunk, the next one starts at the beginning of the chunk again, so the bytes already taken are
  written twice and the return value exceeds the length of the file.
\<close>

theorem smf_core_copy_to_fd_short_write:
  assumes "0 < k" and "k < length buf" and "length buf \<le> 512"
  shows "smf_core_copy_to_fd 4 (Some \<lparr>fd_in = [RdData buf], fd_wr = [], fd_out = []\<rparr>)
           \<lparr>fd_in = [], fd_wr = [WrSome k], fd_out = []\<rparr> =
         Some (int (k + length buf), \<lparr>fd_in = [], fd_wr = [], fd_out = take k buf @ buf\<rparr>)"
proof -
  obtain c t where buf: "buf = c # t" using assms by (cases buf) auto
  have "int_of_long (int (k + length buf)) = int (k + length buf)"
    using assms by (intro int_of_long_id) auto
  with assms buf show ?thesis
    by (simp add: smf_core_copy_to_fd_def sys_read.simps sys_write.simps eval_nat_numeral)
qed

lemma smf_core_copy_to_fd_short_write_witness:
  "smf_core_copy_to_fd 4 (Some \<lparr>fd_in = [RdData ''Subject''], fd_wr = [], fd_out = []\<rparr>)
      \<lparr>fd_in = [], fd_wr = [WrSome 3], fd_out = []\<rparr> =
     Some (10, \<lparr>fd_in = [], fd_wr = [], fd_out = ''SubSubject''\<rparr>)"
  using smf_core_copy_to_fd_short_write [of 3 "''Subject''"] by simp

end
