(* ===== verification/Smf_Internal.thy ===== *)
theory Smf_Internal
  imports Smf_Posix
begin

text \<open>
  The internal helpers of \<open>smf_internal.c\<close> that do not touch sessions or settings: complete
  reads and writes, the buffered line reader of the SMTP daemon and of the pipe engine, and the
  string helpers for addresses, module paths and line ends.
\<close>

section \<open>Complete reads and writes\<close>

text \<open>
  \<open>smf_internal_readn\<close>: the bytes stored so far, and the return value.  An interrupted call
  counts as zero bytes and is repeated; a return value of 0 of \<open>read\<close> ends the loop.
\<close>

function readn_loop :: "nat \<Rightarrow> fd \<Rightarrow> string \<Rightarrow> int \<times> string \<times> fd" where
  "readn_loop n f p =
     (if n = 0 then (int (length p), p, f)
      else case sys_read n f of
        (Got s, f') \<Rightarrow>
          if s = [] then (int (length p), p, f') else readn_loop (n - length s) f' (p @ s)
      | (Intr, f') \<Rightarrow> readn_loop n f' p
      | (Failed, f') \<Rightarrow> (- 1, p, f'))"
  by pat_completeness auto
termination
  by (relation "measure (\<lambda>(n, f, p). rd_weight (fd_in f))") (auto dest!: sys_read_weight [OF sym])

declare readn_loop.simps [simp del]

definition smf_internal_readn :: "nat \<Rightarrow> fd \<Rightarrow> int \<times> string \<times> fd" where
  "smf_internal_readn nbyte f = readn_loop nbyte f []"

text \<open>
  \<open>smf_internal_writen\<close>; when \<open>write\<close> takes nothing, the return value is \<open>nbyte - 1\<close> whatever was
  written so far.
\<close>

function writen_loop :: "nat \<Rightarrow> string \<Rightarrow> fd \<Rightarrow> int \<times> fd" where
  "writen_loop nbyte p f =
     (if p = [] then (int nbyte, f)
      else case sys_write p f of
        (Wrote k, f') \<Rightarrow> if k = 0 then (int nbyte - 1, f') else writen_loop nbyte (drop k p) f'
      | (WIntr, f') \<Rightarrow> writen_loop nbyte p f'
      | (WFailed, f') \<Rightarrow> (- 1, f'))"
  by pat_completeness auto
termination
  by (relation "measures [\<lambda>(n, p, f). length p, \<lambda>(n, p, f). length (fd_wr f)]")
     (auto dest!: sys_write_shorter [OF sym])

declare writen_loop.simps [simp del]

definition smf_internal_writen :: "string \<Rightarrow> fd \<Rightarrow> int \<times> fd" where
  "smf_internal_writen buf f = writen_loop (length buf) buf f"

section \<open>The line reader\<close>

text \<open>
  \<open>readline_t\<close>: the bytes between \<open>current\<close> and the end of the \<open>count\<close> bytes in the buffer.
\<close>

record readline_t =
  rl_unread :: string

definition rl_bufsize :: nat where
  "rl_bufsize = 1024"

datatype rc = RcChar char | RcEof | RcErr   \<comment> \<open>return values 1, 0 and -1 of \<open>readcbuf\<close>\<close>

function smf_internal_readcbuf :: "readline_t \<Rightarrow> fd \<Rightarrow> rc \<times> readline_t \<times> fd" where
  "smf_internal_readcbuf rl f =
     (case rl_unread rl of
        c # r \<Rightarrow> (RcChar c, rl\<lparr>rl_unread := r\<rparr>, f)
      | [] \<Rightarrow>
          (case sys_read rl_bufsize f of
             (Got [], f') \<Rightarrow> (RcEof, rl, f')
           | (Got (c # r), f') \<Rightarrow> (RcChar c, rl\<lparr>rl_unread := r\<rparr>, f')
           | (Intr, f') \<Rightarrow> smf_internal_readcbuf rl f'
           | (Failed, f') \<Rightarrow> (RcErr, rl, f')))"
  by pat_completeness auto
termination
  by (relation "measure (\<lambda>(rl, f). rd_weight (fd_in f))")
     (auto dest!: sys_read_weight [OF sym] simp: rl_bufsize_def)

declare smf_internal_readcbuf.simps [simp del]

text \<open>
  The loop of \<open>smf_internal_readline\<close>.  \<open>k\<close> counts the iterations left (\<open>nbyte - n\<close>), \<open>acc\<close> the
  bytes stored.  At the end of the input the character variable \<open>c\<close> is stored again before the
  loop is left: it holds the character read last, so that character appears twice.
\<close>

datatype line_result =
    LineErr                  \<comment> \<open>\<open>-1\<close>\<close>
  | LineEnd                  \<comment> \<open>0: the input is at its end\<close>
  | LineGot nat string       \<comment> \<open>the return value and the string in the buffer\<close>

fun readline_loop ::
  "nat \<Rightarrow> string \<Rightarrow> char \<Rightarrow> readline_t \<Rightarrow> fd \<Rightarrow> line_result \<times> readline_t \<times> fd" where
  "readline_loop 0 acc c rl f = (LineGot (Suc (length acc)) acc, rl, f)"
| "readline_loop (Suc k) acc c rl f =
     (case smf_internal_readcbuf rl f of
        (RcErr, rl', f') \<Rightarrow> (LineErr, rl', f')
      | (RcEof, rl', f') \<Rightarrow>
          (if acc = [] then LineEnd else LineGot (length acc + 1) (acc @ [c]), rl', f')
      | (RcChar ch, rl', f') \<Rightarrow>
          if ch = LF then (LineGot (length acc + 1) (acc @ [ch]), rl', f')
          else readline_loop k (acc @ [ch]) ch rl' f')"

text \<open>
  \<open>help\<close> is \<open>NULL\<close> at the first call.  With \<open>nbyte\<close> at most 1 the loop body never runs and \<open>br\<close>
  is read uninitialised.
\<close>

definition smf_internal_readline ::
  "nat \<Rightarrow> readline_t option \<Rightarrow> fd \<Rightarrow> (line_result \<times> readline_t option \<times> fd) c_result" where
  "smf_internal_readline nbyte help f =
     (let rl = (case help of None \<Rightarrow> \<lparr>rl_unread = []\<rparr> | Some rl \<Rightarrow> rl)
      in if nbyte \<le> 1 then Inl UninitRead
         else (case readline_loop (nbyte - 1) [] NUL rl f of (r, rl', f') \<Rightarrow> Inr (r, Some rl', f')))"

section \<open>Strings\<close>

definition smf_internal_build_module_path :: "string \<Rightarrow> string \<Rightarrow> string" where
  "smf_internal_build_module_path libdir modname =
     (let t = (if strncmp_eq modname ''lib'' 3 then modname else ''lib'' @ modname @ ''.so'')
      in libdir @ ''/'' @ t)"

definition smf_internal_strip_email_addr :: "string \<Rightarrow> string" where
  "smf_internal_strip_email_addr addr =
     (case strchr addr (CHR ''<'') of
        None \<Rightarrow> addr
      | Some lt \<Rightarrow>
          (let p1 = tl lt
           in case strchr p1 (CHR ''>'') of
                None \<Rightarrow> addr
              | Some p2 \<Rightarrow> take (length p1 - length p2) p1))"

definition smf_internal_determine_linebreak :: "string \<Rightarrow> string option" where
  "smf_internal_determine_linebreak s =
     (if strstr s crlf \<noteq> None then Some crlf
      else if strstr s lf \<noteq> None then Some lf
      else if strstr s cr \<noteq> None then Some cr
      else None)"

definition sid_chars :: string where
  "sid_chars = ''0123456789ABCDEFGHIJKLMNOPQRSTUVWXYZ''"

text \<open>The argument is what \<open>random\<close> returns, call by call.\<close>

definition smf_internal_generate_sid :: "(nat \<Rightarrow> nat) \<Rightarrow> string" where
  "smf_internal_generate_sid random = map (\<lambda>i. sid_chars ! (random i mod 36)) [0..<12]"

section \<open>Complete reads and writes: correctness\<close>

lemma readn_loop_flows:
  "flows (fd_in f) \<Longrightarrow>
   (case readn_loop n f p of (rc, got, f') \<Rightarrow>
      got = p @ take n (pending (fd_in f)) \<and> rc = int (length got) \<and> flows (fd_in f') \<and>
      pending (fd_in f') = drop n (pending (fd_in f)))"
proof (induction n f p rule: readn_loop.induct)
  case (1 n f p)
  show ?case
  proof (cases "n = 0")
    case True
    with "1.prems" show ?thesis by (simp add: readn_loop.simps)
  next
    case False
    obtain r f' where rd: "sys_read n f = (r, f')" by fastforce
    note fr = flows_read [OF "1.prems" rd] False
    then consider "r = Got []" "pending (fd_in f) = []" "f' = f"
      | "r = Intr" "pending (fd_in f') = pending (fd_in f)"
      | s where "s \<noteq> []" "r = Got s" "length s \<le> n" "pending (fd_in f) = s @ pending (fd_in f')"
      by auto
    then show ?thesis
    proof cases
      case 1
      with False rd "1.prems" show ?thesis by (simp add: readn_loop.simps [of n])
    next
      case 2
      with "1.IH"(2) [OF False rd [symmetric]] fr False rd show ?thesis
        by (simp add: readn_loop.simps [of n f p])
    next
      case (3 s)
      have "flows (fd_in f')" using fr by simp
      with "1.IH"(1) [OF False rd [symmetric] 3(2)] 3 False rd show ?thesis
        by (auto simp: readn_loop.simps [of n f p])
    qed
  qed
qed

lemma writen_loop_accepts:
  "accepts (fd_wr f) \<Longrightarrow>
   (case writen_loop nbyte p f of (rc, f') \<Rightarrow> rc = int nbyte \<and> fd_out f' = fd_out f @ p \<and> accepts (fd_wr f'))"
proof (induction nbyte p f rule: writen_loop.induct)
  case (1 nbyte p f)
  show ?case
  proof (cases "p = []")
    case True
    then show ?thesis using "1.prems" by (simp add: writen_loop.simps)
  next
    case False
    obtain r f' where wr: "sys_write p f = (r, f')" by fastforce
    note aw = accepts_write [OF "1.prems" wr False]
    then consider "r = WIntr" "fd_out f' = fd_out f"
      | k where "0 < k" "r = Wrote k" "fd_out f' = fd_out f @ take k p" by auto
    then show ?thesis
    proof cases
      case 1
      with "1.IH"(2) [OF False wr [symmetric]] aw False wr show ?thesis
        by (simp add: writen_loop.simps [of nbyte p])
    next
      case (2 k)
      have "accepts (fd_wr f')" using aw by simp
      with "1.IH"(1) [OF False wr [symmetric] 2(2)] 2 False wr show ?thesis
        by (auto simp: writen_loop.simps [of nbyte p])
    qed
  qed
qed

lemma smf_internal_writen_out: "accepts (fd_wr f) \<Longrightarrow> fd_out (snd (smf_internal_writen buf f)) = fd_out f @ buf"
  using writen_loop_accepts [of f "length buf" buf] by (auto simp: smf_internal_writen_def split: prod.splits)

lemma smf_internal_writen_accepts: "accepts (fd_wr f) \<Longrightarrow> accepts (fd_wr (snd (smf_internal_writen buf f)))"
  using writen_loop_accepts [of f "length buf" buf] by (auto simp: smf_internal_writen_def split: prod.splits)

lemma writen_loop_frame: "fd_in (snd (writen_loop nbyte p f)) = fd_in f"
proof (induction nbyte p f rule: writen_loop.induct)
  case (1 nbyte p f)
  obtain r f' where wr: "sys_write p f = (r, f')" by fastforce
  note fr = sys_write_frame [OF wr]
  show ?case
  proof (cases "p = []")
    case True
    then show ?thesis by (simp add: writen_loop.simps [of nbyte "[]" f])
  next
    case False
    with 1 wr fr show ?thesis by (cases r) (simp_all add: writen_loop.simps [of nbyte p f])
  qed
qed

lemma writen_frame [smf_frame]: "fd_in (snd (smf_internal_writen buf f)) = fd_in f"
  by (simp add: smf_internal_writen_def writen_loop_frame)

text \<open>
  A \<open>write\<close> that takes nothing: the return value claims that all bytes but one were written.
\<close>

lemma writen_zero_write:
  assumes "0 < k" and "k < length buf"
  shows "smf_internal_writen buf \<lparr>fd_in = [], fd_wr = [WrSome k, WrSome 0], fd_out = []\<rparr> =
           (int (length buf) - 1, \<lparr>fd_in = [], fd_wr = [], fd_out = take k buf\<rparr>)"
proof -
  have "buf \<noteq> []" "drop k buf \<noteq> []" using assms by auto
  with assms show ?thesis
    by (simp add: smf_internal_writen_def writen_loop.simps sys_write.simps)
qed

section \<open>The line reader: correctness\<close>

text \<open>What is still to be read through the line buffer.\<close>

definition rl_stream :: "readline_t \<Rightarrow> fd \<Rightarrow> string" where
  "rl_stream rl f = rl_unread rl @ pending (fd_in f)"

lemma readcbuf_flows:
  "flows (fd_in f) \<Longrightarrow> smf_internal_readcbuf rl f = (r, rl', f') \<Longrightarrow>
   flows (fd_in f') \<and>
   (case rl_stream rl f of
      [] \<Rightarrow> r = RcEof \<and> rl_stream rl' f' = []
    | c # s \<Rightarrow> r = RcChar c \<and> rl_stream rl' f' = s)"
proof (induction rl f arbitrary: r rl' f' rule: smf_internal_readcbuf.induct)
  case (1 rl f)
  show ?case
  proof (cases "rl_unread rl")
    case (Cons c s)
    then have "r = RcChar c \<and> rl' = rl\<lparr>rl_unread := s\<rparr> \<and> f' = f"
      using "1.prems"(2) by (subst (asm) smf_internal_readcbuf.simps) simp
    with "1.prems"(1) Cons show ?thesis by (simp add: rl_stream_def)
  next
    case Nil
    obtain q f1 where rd: "sys_read rl_bufsize f = (q, f1)" by fastforce
    note fr = flows_read [OF "1.prems"(1) rd]
    have pos: "0 < rl_bufsize" by (simp add: rl_bufsize_def)
    with fr consider "q = Got []" "pending (fd_in f) = []" "f1 = f"
      | "q = Intr" "pending (fd_in f1) = pending (fd_in f)"
      | s where "s \<noteq> []" "q = Got s" "pending (fd_in f) = s @ pending (fd_in f1)"
      by blast
    then show ?thesis
    proof cases
      case 1
      then have "r = RcEof \<and> rl' = rl \<and> f' = f"
        using "1.prems"(2) Nil rd by (subst (asm) smf_internal_readcbuf.simps) simp
      with "1.prems"(1) Nil 1 show ?thesis by (simp add: rl_stream_def)
    next
      case 2
      have "smf_internal_readcbuf rl f1 = (r, rl', f')"
        using "1.prems"(2) Nil rd 2 by (subst (asm) smf_internal_readcbuf.simps) simp
      from "1.IH" [OF Nil rd [symmetric] 2(1) _ this] fr pos have
        "flows (fd_in f') \<and> (case rl_stream rl f1 of
            [] \<Rightarrow> r = RcEof \<and> rl_stream rl' f' = []
          | c # s \<Rightarrow> r = RcChar c \<and> rl_stream rl' f' = s)" by blast
      moreover have "rl_stream rl f1 = rl_stream rl f" using 2 by (simp add: rl_stream_def)
      ultimately show ?thesis by simp
    next
      case (3 s)
      then obtain c t where s: "s = c # t" by (cases s) auto
      then have "r = RcChar c \<and> rl' = rl\<lparr>rl_unread := t\<rparr> \<and> f' = f1"
        using "1.prems"(2) Nil rd 3 by (subst (asm) smf_internal_readcbuf.simps) simp
      with fr pos Nil 3 s show ?thesis by (simp add: rl_stream_def)
    qed
  qed
qed

lemma readline_loop_line:
  "flows (fd_in f) \<Longrightarrow> rl_stream rl f = l @ LF # rest \<Longrightarrow> LF \<notin> set l \<Longrightarrow> length l < k \<Longrightarrow>
   \<exists>rl' f'. readline_loop k acc c rl f =
       (LineGot (length acc + length l + 1) (acc @ l @ [LF]), rl', f') \<and>
     flows (fd_in f') \<and> rl_stream rl' f' = rest"
proof (induction l arbitrary: k acc c rl f)
  case Nil
  then obtain k' where k: "k = Suc k'" by (cases k) auto
  obtain r rl' f' where cb: "smf_internal_readcbuf rl f = (r, rl', f')" by (metis prod_cases3)
  from readcbuf_flows [OF Nil.prems(1) cb] Nil k cb show ?case by simp
next
  case (Cons x l)
  then obtain k' where k: "k = Suc k'" by (cases k) auto
  obtain r rl1 f1 where cb: "smf_internal_readcbuf rl f = (r, rl1, f1)" by (metis prod_cases3)
  note rc = readcbuf_flows [OF Cons.prems(1) cb]
  have x: "x \<noteq> LF" using Cons.prems by auto
  have "\<exists>rl' f'. readline_loop k' (acc @ [x]) x rl1 f1 =
      (LineGot (length (acc @ [x]) + length l + 1) ((acc @ [x]) @ l @ [LF]), rl', f') \<and>
      flows (fd_in f') \<and> rl_stream rl' f' = rest"
    by (rule Cons.IH) (use rc Cons.prems k in auto)
  then show ?case using k cb rc x Cons.prems by auto
qed

lemma readline_loop_last:
  "flows (fd_in f) \<Longrightarrow> rl_stream rl f = l \<Longrightarrow> LF \<notin> set l \<Longrightarrow> length l < k \<Longrightarrow> acc @ l \<noteq> [] \<Longrightarrow>
   \<exists>rl' f'. readline_loop k acc c rl f =
       (LineGot (length acc + length l + 1) (acc @ l @ [last (c # l)]), rl', f') \<and>
     flows (fd_in f') \<and> rl_stream rl' f' = []"
proof (induction l arbitrary: k acc c rl f)
  case Nil
  then obtain k' where k: "k = Suc k'" by (cases k) auto
  obtain r rl' f' where cb: "smf_internal_readcbuf rl f = (r, rl', f')" by (metis prod_cases3)
  from readcbuf_flows [OF Nil.prems(1) cb] Nil k cb show ?case by simp
next
  case (Cons x l)
  then obtain k' where k: "k = Suc k'" by (cases k) auto
  obtain r rl1 f1 where cb: "smf_internal_readcbuf rl f = (r, rl1, f1)" by (metis prod_cases3)
  note rc = readcbuf_flows [OF Cons.prems(1) cb]
  have x: "x \<noteq> LF" using Cons.prems by auto
  have "\<exists>rl' f'. readline_loop k' (acc @ [x]) x rl1 f1 =
      (LineGot (length (acc @ [x]) + length l + 1) ((acc @ [x]) @ l @ [last (x # l)]), rl', f') \<and>
      flows (fd_in f') \<and> rl_stream rl' f' = []"
    by (rule Cons.IH) (use rc Cons.prems k in auto)
  then show ?case using k cb rc x Cons.prems by auto
qed

text \<open>A line that fills the buffer: the return value counts a byte that was not read.\<close>

lemma readline_loop_full:
  "flows (fd_in f) \<Longrightarrow> rl_stream rl f = l @ rest \<Longrightarrow> LF \<notin> set l \<Longrightarrow> length l = k \<Longrightarrow>
   \<exists>rl' f'. readline_loop k acc c rl f = (LineGot (length acc + length l + 1) (acc @ l), rl', f') \<and>
     flows (fd_in f') \<and> rl_stream rl' f' = rest"
proof (induction l arbitrary: k acc c rl f)
  case Nil
  then show ?case by simp
next
  case (Cons x l)
  then obtain k' where k: "k = Suc k'" by (cases k) auto
  obtain r rl1 f1 where cb: "smf_internal_readcbuf rl f = (r, rl1, f1)" by (metis prod_cases3)
  note rc = readcbuf_flows [OF Cons.prems(1) cb]
  have x: "x \<noteq> LF" using Cons.prems by auto
  have "\<exists>rl' f'. readline_loop k' (acc @ [x]) x rl1 f1 =
      (LineGot (length (acc @ [x]) + length l + 1) ((acc @ [x]) @ l), rl', f') \<and>
      flows (fd_in f') \<and> rl_stream rl' f' = rest"
    by (rule Cons.IH) (use rc Cons.prems k in auto)
  then show ?case using k cb rc x Cons.prems by auto
qed

lemma readline_loop_end:
  "flows (fd_in f) \<Longrightarrow> rl_stream rl f = [] \<Longrightarrow>
   \<exists>rl' f'. readline_loop (Suc k) [] c rl f = (LineEnd, rl', f') \<and>
     flows (fd_in f') \<and> rl_stream rl' f' = []"
proof -
  assume "flows (fd_in f)" and "rl_stream rl f = []"
  moreover obtain r rl1 f1 where "smf_internal_readcbuf rl f = (r, rl1, f1)" by (metis prod_cases3)
  ultimately show ?thesis using readcbuf_flows by fastforce
qed

section \<open>Lines as an interface\<close>

text \<open>
  What the loops over input lines rely on: a complete line that fits the buffer is returned
  with its line feed, and the end of the input is reported.  \<open>stream\<close> is what is still to be
  read.  The loops of the callers are folds over the lines (\<open>next_lines\<close> below).
\<close>

locale line_source =
  fixes getline :: "'s \<Rightarrow> line_result \<times> 's"
    and stream :: "'s \<Rightarrow> string"
    and live :: "'s \<Rightarrow> bool"
    and limit :: nat
  assumes getline_line:
      "live s \<Longrightarrow> stream s = l @ LF # rest \<Longrightarrow> LF \<notin> set l \<Longrightarrow> length l + 1 < limit \<Longrightarrow>
       \<exists>s'. getline s = (LineGot (length l + 1) (l @ [LF]), s') \<and> live s' \<and> stream s' = rest"
    and getline_end:
      "live s \<Longrightarrow> stream s = [] \<Longrightarrow> \<exists>s'. getline s = (LineEnd, s') \<and> live s' \<and> stream s' = []"

text \<open>A loop that reads lines until the input ends or the step asks to stop.\<close>

fun line_loop ::
  "nat \<Rightarrow> ('s \<Rightarrow> line_result \<times> 's) \<Rightarrow> ('a \<Rightarrow> string \<Rightarrow> 'a \<times> bool) \<Rightarrow> 'a \<Rightarrow> 's \<Rightarrow> ('a \<times> line_result \<times> 's) option"
  where
  "line_loop 0 getline step a s = None"
| "line_loop (Suc fuel) getline step a s =
     (case getline s of
        (LineGot k line, s') \<Rightarrow>
          (case step a line of
             (a', True) \<Rightarrow> Some (a', LineGot k line, s')
           | (a', False) \<Rightarrow> line_loop fuel getline step a' s')
      | (r, s') \<Rightarrow> Some (a, r, s'))"

text \<open>The lines of a text, each with its line feed; a line that fits a buffer.\<close>

definition is_line :: "nat \<Rightarrow> string \<Rightarrow> bool" where
  "is_line limit l \<longleftrightarrow> l \<noteq> [] \<and> last l = LF \<and> LF \<notin> set (butlast l) \<and> length l < limit"

context line_source begin

lemma getline_is_line:
  assumes "live s" and "stream s = l @ rest" and "is_line limit l"
  shows "\<exists>s'. getline s = (LineGot (length l) l, s') \<and> live s' \<and> stream s' = rest"
proof -
  have l: "l = butlast l @ [LF]" using assms(3) by (metis append_butlast_last_id is_line_def)
  then have "stream s = butlast l @ LF # rest" using assms(2) by (metis append.assoc append_Cons append_Nil)
  moreover have "length (butlast l) + 1 = length l" using assms(3) by (simp add: is_line_def Suc_leI)
  ultimately show ?thesis
    using getline_line [of s "butlast l" rest] assms l by (simp add: is_line_def)
qed

text \<open>A loop whose step never stops sees every line, in order, and then the end.\<close>

lemma loop_all:
  assumes "live s" and "stream s = concat ls" and "list_all (is_line limit) ls"
    and "\<And>a l. \<not> snd (step a l)" and "length ls < fuel"
  shows "\<exists>s'. line_loop fuel getline step a s = Some (foldl (\<lambda>a l. fst (step a l)) a ls, LineEnd, s') \<and>
           live s' \<and> stream s' = []"
  using assms(1-3,5)
proof (induction ls arbitrary: s a fuel)
  case Nil
  then obtain s' where "getline s = (LineEnd, s') \<and> live s' \<and> stream s' = []"
    using getline_end by fastforce
  moreover obtain f where "fuel = Suc f" using Nil by (cases fuel) auto
  ultimately show ?case by simp
next
  case (Cons l ls)
  then obtain f where f: "fuel = Suc f" by (cases fuel) auto
  obtain s' where s': "getline s = (LineGot (length l) l, s')" "live s'" "stream s' = concat ls"
    using getline_is_line [of s l "concat ls"] Cons.prems by auto
  obtain a' where "step a l = (a', False)" using assms(4) [of a l] by (cases "step a l") auto
  with Cons.IH [of s' f a'] Cons.prems f s' show ?case by simp
qed

text \<open>A loop that stops at a line leaves the rest of the input unread.\<close>

lemma loop_until:
  assumes "live s" and "stream s = concat ls @ l @ rest" and "list_all (is_line limit) (ls @ [l])"
    and "\<And>a k. k \<in> set ls \<Longrightarrow> \<not> snd (step a k)" and "\<And>a. snd (step a l)" and "length ls < fuel"
  shows "\<exists>s'. line_loop fuel getline step a s =
             Some (foldl (\<lambda>a l. fst (step a l)) a (ls @ [l]), LineGot (length l) l, s') \<and>
           live s' \<and> stream s' = rest"
  using assms(1-4,6)
proof (induction ls arbitrary: s a fuel)
  case Nil
  then obtain s' where "getline s = (LineGot (length l) l, s') \<and> live s' \<and> stream s' = rest"
    using getline_is_line [of s l rest] by auto
  moreover obtain f where "fuel = Suc f" using Nil by (cases fuel) auto
  moreover obtain a' where "step a l = (a', True)" using assms(5) [of a] by (cases "step a l") auto
  ultimately show ?case by simp
next
  case (Cons k ls)
  then obtain f where f: "fuel = Suc f" by (cases fuel) auto
  obtain s' where s': "getline s = (LineGot (length k) k, s')" "live s'" "stream s' = concat ls @ l @ rest"
    using getline_is_line [of s k "concat ls @ l @ rest"] Cons.prems by auto
  obtain a' where "step a k = (a', False)" using Cons.prems(4) [of k a] by (cases "step a k") auto
  with Cons.IH [of s' f a'] Cons.prems f s' show ?case by simp
qed

end

text \<open>The line reader of the code, with its two state components, is such a source.\<close>

definition rl_getline :: "nat \<Rightarrow> readline_t option \<times> fd \<Rightarrow> line_result \<times> readline_t option \<times> fd" where
  "rl_getline nbyte s =
     (case smf_internal_readline nbyte (fst s) (snd s) of
        Inl e \<Rightarrow> (LineErr, s)
      | Inr (r, help, f) \<Rightarrow> (r, help, f))"

definition rl_rest :: "readline_t option \<times> fd \<Rightarrow> string" where
  "rl_rest s = rl_stream (case fst s of None \<Rightarrow> \<lparr>rl_unread = []\<rparr> | Some rl \<Rightarrow> rl) (snd s)"

definition rl_live :: "readline_t option \<times> fd \<Rightarrow> bool" where
  "rl_live s \<longleftrightarrow> flows (fd_in (snd s))"

interpretation lines: line_source "rl_getline 1024" rl_rest rl_live 1024
proof unfold_locales
  fix s l rest
  assume a: "rl_live s" "rl_rest s = l @ LF # rest" "LF \<notin> set l" "length l + 1 < (1024::nat)"
  define rl where "rl = (case fst s of None \<Rightarrow> \<lparr>rl_unread = []\<rparr> | Some rl \<Rightarrow> rl)"
  obtain rl' f' where "readline_loop 1023 [] NUL rl (snd s) = (LineGot (length l + 1) (l @ [LF]), rl', f')"
    "flows (fd_in f')" "rl_stream rl' f' = rest"
    using readline_loop_line [of "snd s" rl l rest 1023 "[]" NUL] a
    by (auto simp: rl_live_def rl_rest_def rl_def)
  then show "\<exists>s'. rl_getline 1024 s = (LineGot (length l + 1) (l @ [LF]), s') \<and> rl_live s' \<and> rl_rest s' = rest"
    by (simp add: rl_getline_def smf_internal_readline_def rl_def [symmetric] rl_live_def rl_rest_def)
next
  fix s
  assume a: "rl_live s" "rl_rest s = []"
  define rl where "rl = (case fst s of None \<Rightarrow> \<lparr>rl_unread = []\<rparr> | Some rl \<Rightarrow> rl)"
  obtain rl' f' where "readline_loop (Suc 1022) [] NUL rl (snd s) = (LineEnd, rl', f')"
    "flows (fd_in f')" "rl_stream rl' f' = []"
    using readline_loop_end [of "snd s" rl 1022 NUL] a
    by (auto simp: rl_live_def rl_rest_def rl_def)
  then show "\<exists>s'. rl_getline 1024 s = (LineEnd, s') \<and> rl_live s' \<and> rl_rest s' = []"
    by (simp add: rl_getline_def smf_internal_readline_def rl_def [symmetric] rl_live_def rl_rest_def
        del: readline_loop.simps)
qed

section \<open>Addresses\<close>

lemma strchr_found: "c \<notin> set a \<Longrightarrow> strchr (a @ c # r) c = Some (c # r)"
  by (simp add: strchr_def)

lemma strchr_absent: "c \<notin> set a \<Longrightarrow> strchr a c = None"
  by (simp add: strchr_def)

lemma strip_plain: "CHR ''<'' \<notin> set addr \<Longrightarrow> smf_internal_strip_email_addr addr = addr"
  by (simp add: smf_internal_strip_email_addr_def strchr_absent)

section \<open>Properties\<close>

text \<open>
  \<open>smf_internal_readn\<close> hides how the bytes arrive: through any sequence of short
  reads and interruptions without an error it stores exactly the first \<open>nbyte\<close> bytes of the
  input (all of it when it is shorter), returns their number, and leaves the rest unread.
\<close>

theorem smf_internal_readn_complete:
  assumes "flows (fd_in f)"
  shows "\<exists>f'. smf_internal_readn nbyte f =
              (int (min nbyte (length (pending (fd_in f)))), take nbyte (pending (fd_in f)), f') \<and>
            pending (fd_in f') = drop nbyte (pending (fd_in f))"
  using readn_loop_flows [OF assms, where n = nbyte and p = "[]"]
  by (auto simp: smf_internal_readn_def min.commute split: prod.splits)

lemma smf_internal_readn_complete_witness:
  "\<exists>f'. smf_internal_readn 5
      \<lparr>fd_in = [RdData ''EH'', RdIntr, RdData ''LO x''], fd_wr = [], fd_out = []\<rparr> = (5, ''EHLO '', f') \<and>
    pending (fd_in f') = ''x''"
  using smf_internal_readn_complete
    [of "\<lparr>fd_in = [RdData ''EH'', RdIntr, RdData ''LO x''], fd_wr = [], fd_out = []\<rparr>" 5]
  by simp

text \<open>
  \<open>smf_internal_writen\<close> writes everything: through any sequence of short writes and
  interruptions without an error, exactly the bytes of the buffer are appended, in order and
  once, and the return value is their number.
\<close>

theorem smf_internal_writen_complete:
  assumes "accepts (fd_wr f)"
  shows "\<exists>f'. smf_internal_writen buf f = (int (length buf), f') \<and> fd_out f' = fd_out f @ buf"
  using writen_loop_accepts [OF assms, of "length buf" buf]
  by (auto simp: smf_internal_writen_def split: prod.splits)

lemma smf_internal_writen_complete_witness:
  "\<exists>f'. smf_internal_writen ''250 OK'' \<lparr>fd_in = [], fd_wr = [WrSome 2, WrIntr, WrSome 1], fd_out = ''> ''\<rparr> =
      (6, f') \<and> fd_out f' = ''> 250 OK''"
  using smf_internal_writen_complete
    [of "\<lparr>fd_in = [], fd_wr = [WrSome 2, WrIntr, WrSome 1], fd_out = ''> ''\<rparr>" "''250 OK''"]
  by simp

text \<open>
  A line that ends in a line feed and fits the buffer is read as one: whatever the
  reader had buffered and however the rest arrives, \<open>smf_internal_readline\<close> returns the line with
  its line feed and its length, and the input after it stays for the next call.
\<close>

theorem smf_internal_readline_line:
  assumes "flows (fd_in f)"
    and "rl_stream (case help of None \<Rightarrow> \<lparr>rl_unread = []\<rparr> | Some rl \<Rightarrow> rl) f = l @ LF # rest"
    and "LF \<notin> set l" and "length l + 1 < nbyte"
  shows "\<exists>rl' f'. smf_internal_readline nbyte help f =
             Inr (LineGot (length l + 1) (l @ [LF]), Some rl', f') \<and> rl_stream rl' f' = rest"
proof -
  have "length l < nbyte - 1" using assms(4) by simp
  from readline_loop_line [OF assms(1-3) this, of "[]" NUL] assms(4) show ?thesis
    by (auto simp: smf_internal_readline_def Let_def)
qed

lemma smf_internal_readline_line_witness:
  "\<exists>rl' f'. smf_internal_readline 1024 None
      \<lparr>fd_in = [RdData ''NO'', RdIntr, RdData (''OP'' @ [CR, LF] @ ''QUIT'')], fd_wr = [], fd_out = []\<rparr> =
      Inr (LineGot (length (''NOOP'' @ [CR, LF])) (''NOOP'' @ [CR, LF]), Some rl', f') \<and> rl_stream rl' f' = ''QUIT''"
  using smf_internal_readline_line
    [of "\<lparr>fd_in = [RdData ''NO'', RdIntr, RdData (''OP'' @ [CR, LF] @ ''QUIT'')], fd_wr = [], fd_out = []\<rparr>"
        None "''NOOP'' @ [CR]" "''QUIT''" 1024]
  by (simp add: rl_stream_def)

text \<open>
  The last line of an input that does not end in a line feed is corrupted: the
  character read last is stored a second time and counted, so a file that ends in \<open>abc\<close> yields
  the line \<open>abcc\<close>.
\<close>

theorem smf_internal_readline_unterminated:
  assumes "flows (fd_in f)" and "rl_stream rl f = l" and "l \<noteq> []" and "LF \<notin> set l"
    and "length l + 1 < nbyte"
  shows "\<exists>rl' f'. smf_internal_readline nbyte (Some rl) f =
             Inr (LineGot (length l + 1) (l @ [last l]), Some rl', f')"
proof -
  have "length l < nbyte - 1" using assms(5) by simp
  from readline_loop_last [OF assms(1,2,4) this, of "[]" NUL] assms(3,5) show ?thesis
    by (auto simp: smf_internal_readline_def Let_def)
qed

lemma smf_internal_readline_unterminated_witness:
  "\<exists>rl' f'. smf_internal_readline 1024 (Some \<lparr>rl_unread = ''a''\<rparr>)
      \<lparr>fd_in = [RdData ''bc''], fd_wr = [], fd_out = []\<rparr> = Inr (LineGot (length ''abcc'') ''abcc'', Some rl', f')"
  using smf_internal_readline_unterminated
    [of "\<lparr>fd_in = [RdData ''bc''], fd_wr = [], fd_out = []\<rparr>" "\<lparr>rl_unread = ''a''\<rparr>" "''abc''" 1024]
  by (simp add: rl_stream_def)

text \<open>
  An address in angle brackets is stripped to what stands between the first \<open><\<close> and
  the first \<open>>\<close> after it, display names and trailing text dropped.
\<close>

theorem smf_internal_strip_email_addr_angle:
  assumes "CHR ''<'' \<notin> set name" and "CHR ''>'' \<notin> set a"
  shows "smf_internal_strip_email_addr (name @ CHR ''<'' # a @ CHR ''>'' # trail) = a"
  using assms by (simp add: smf_internal_strip_email_addr_def strchr_found Let_def)

lemma smf_internal_strip_email_addr_angle_witness:
  "smf_internal_strip_email_addr ''Joe <joe@x.org> SIZE=3'' = ''joe@x.org''"
  using smf_internal_strip_email_addr_angle [of "''Joe ''" "''joe@x.org''" "'' SIZE=3''"] by simp

end
