(* ===== verification/Smf_Dict.thy ===== *)
theory Smf_Dict
  imports Smf_Libc
begin

unbundle bit_operations_syntax

text \<open>
  The dictionary of \<open>smf_dict.c\<close>: three parallel arrays of slots (keys, values, hash
  values), a slot being free when its key is \<open>NULL\<close>.  The record follows \<open>SMFDict_T\<close>; the
  operations keep the loops of the code: a linear scan for a key, a probe for a free slot
  that starts at the entry count and wraps, doubling when the arrays are full.

  The abstract specification is a finite map, stated as the locale \<open>dictionary\<close>; the
  interpretation at the end proves that the arrays implement it.
\<close>

section \<open>State\<close>

record smf_dict =
  d_n :: nat                      \<comment> \<open>number of entries\<close>
  d_size :: nat                   \<comment> \<open>storage size\<close>
  d_val :: "string option list"
  d_key :: "string option list"
  d_hash :: "32 word list"

section \<open>Operations\<close>

text \<open>
  \<open>(unsigned) key[i]\<close> widens a signed \<open>char\<close>, so bytes above 127 are sign-extended.
\<close>

definition dict_hash_step :: "32 word \<Rightarrow> char \<Rightarrow> 32 word" where
  "dict_hash_step h c =
     (let h1 = h + scast (of_char c :: 8 word);
          h2 = h1 + push_bit 10 h1
      in h2 XOR drop_bit 6 h2)"

definition dict_hash :: "string \<Rightarrow> 32 word" where
  "dict_hash key =
     (let h = foldl dict_hash_step 0 key;
          h1 = h + push_bit 3 h;
          h2 = h1 XOR drop_bit 11 h1
      in h2 + push_bit 15 h2)"

definition smf_dict_new :: smf_dict where
  "smf_dict_new =
     \<lparr>d_n = 0, d_size = 128, d_val = replicate 128 None, d_key = replicate 128 None,
      d_hash = replicate 128 0\<rparr>"

text \<open>\<open>_mem_double\<close>; a failed \<open>calloc\<close> leaves a \<open>NULL\<close> array, the empty list here.\<close>

definition mem_double :: "bool \<Rightarrow> 'a \<Rightarrow> 'a list \<Rightarrow> 'a list option" where
  "mem_double ok zero ptr = (if ok then Some (ptr @ replicate (length ptr) zero) else None)"

text \<open>The scan all three lookups share: the first slot with this hash and this key.\<close>

definition dict_match :: "smf_dict \<Rightarrow> string \<Rightarrow> nat \<Rightarrow> bool" where
  "dict_match d key i =
     (case d_key d ! i of
        None \<Rightarrow> False
      | Some k \<Rightarrow> dict_hash key = d_hash d ! i \<and> key = k)"

definition dict_scan :: "smf_dict \<Rightarrow> string \<Rightarrow> nat option" where
  "dict_scan d key = find (dict_match d key) [0..<d_size d]"

text \<open>
  \<open>for (i = dict->n; dict->key[i]; ) if (++i == dict->size) i = 0;\<close>.  The first argument
  bounds the steps; \<open>None\<close> is a loop that goes on.  With \<open>d_size\<close> steps every slot has been
  visited, so \<open>None\<close> means that the loop of the code does not end (\<open>dict_probe_None\<close>).
\<close>

fun dict_probe :: "nat \<Rightarrow> string option list \<Rightarrow> nat \<Rightarrow> nat \<Rightarrow> nat option" where
  "dict_probe 0 ks sz i = None"
| "dict_probe (Suc fuel) ks sz i =
     (if ks ! i = None then Some i
      else dict_probe fuel ks sz (if Suc i = sz then 0 else Suc i))"

text \<open>The tail of \<open>smf_dict_set\<close>: put a new entry into a free slot.\<close>

definition dict_insert :: "smf_dict \<Rightarrow> string \<Rightarrow> string \<Rightarrow> smf_dict option" where
  "dict_insert d key val =
     (case dict_probe (d_size d) (d_key d) (d_size d) (d_n d) of
        None \<Rightarrow> None
      | Some i \<Rightarrow>
          Some (d\<lparr>d_key := (d_key d)[i := Some key], d_val := (d_val d)[i := Some val],
                  d_hash := (d_hash d)[i := dict_hash key], d_n := d_n d + 1\<rparr>))"

definition dict_unNULL :: "'a list option \<Rightarrow> 'a list" where
  "dict_unNULL a = (case a of None \<Rightarrow> [] | Some xs \<Rightarrow> xs)"

text \<open>
  \<open>smf_dict_set\<close>.  The booleans say whether the three allocations of a growth succeed; the
  outer \<open>None\<close> is a call that does not return.
\<close>

definition smf_dict_set_mem ::
  "bool \<times> bool \<times> bool \<Rightarrow> smf_dict \<Rightarrow> string \<Rightarrow> string \<Rightarrow> (int \<times> smf_dict) option" where
  "smf_dict_set_mem oks d key val =
     (case (if 0 < d_n d then dict_scan d key else None) of
        Some i \<Rightarrow> Some (0, d\<lparr>d_val := (d_val d)[i := Some val]\<rparr>)
      | None \<Rightarrow>
          if d_n d = d_size d then
            (let v = mem_double (fst oks) None (d_val d);
                 k = mem_double (fst (snd oks)) None (d_key d);
                 h = mem_double (snd (snd oks)) 0 (d_hash d);
                 d1 = d\<lparr>d_val := dict_unNULL v, d_key := dict_unNULL k, d_hash := dict_unNULL h\<rparr>
             in if v = None \<or> k = None \<or> h = None then Some (- 1, d1)
                else map_option (\<lambda>d'. (0, d'))
                       (dict_insert (d1\<lparr>d_size := d_size d * 2\<rparr>) key val))
          else map_option (\<lambda>d'. (0, d')) (dict_insert d key val))"

definition smf_dict_set :: "smf_dict \<Rightarrow> string \<Rightarrow> string \<Rightarrow> (int \<times> smf_dict) option" where
  "smf_dict_set = smf_dict_set_mem (True, True, True)"

definition smf_dict_get :: "smf_dict \<Rightarrow> string \<Rightarrow> string option" where
  "smf_dict_get d key = (case dict_scan d key of None \<Rightarrow> None | Some i \<Rightarrow> d_val d ! i)"

text \<open>The value, and what is stored through \<open>success\<close>.  The failure value is \<open>(unsigned long) -1\<close>.\<close>

definition smf_dict_get_ulong :: "smf_dict \<Rightarrow> string \<Rightarrow> ulong \<times> bool" where
  "smf_dict_get_ulong d key =
     (case smf_dict_get d key of
        None \<Rightarrow> (- 1, False)
      | Some v \<Rightarrow>
          (case strtoul10 v of
             None \<Rightarrow> (- 1, False)
           | Some (lval, rest) \<Rightarrow> if rest \<noteq> [] then (- 1, False) else (lval, True)))"

definition smf_dict_remove :: "smf_dict \<Rightarrow> string \<Rightarrow> smf_dict" where
  "smf_dict_remove d key =
     (case dict_scan d key of
        None \<Rightarrow> d
      | Some i \<Rightarrow>
          d\<lparr>d_key := (d_key d)[i := None], d_val := (d_val d)[i := None],
            d_hash := (d_hash d)[i := 0], d_n := d_n d - 1\<rparr>)"

definition smf_dict_get_keys :: "smf_dict \<Rightarrow> string list" where
  "smf_dict_get_keys d = List.map_filter (\<lambda>i. d_key d ! i) [0..<d_size d]"

definition smf_dict_map ::
  "smf_dict \<Rightarrow> (string \<Rightarrow> string option \<Rightarrow> 's \<Rightarrow> 's) \<Rightarrow> 's \<Rightarrow> 's" where
  "smf_dict_map d func args =
     foldl (\<lambda>st key. func key (smf_dict_get d key) st) args (smf_dict_get_keys d)"

text \<open>
  What the other components see of a \<open>smf_dict_set\<close> that returns: the dictionary after the
  call.  \<open>dict_put_set\<close> below shows that a well-formed dictionary always gives one.
\<close>

definition dict_put :: "smf_dict \<Rightarrow> string \<Rightarrow> string \<Rightarrow> smf_dict" where
  "dict_put d key val = (case smf_dict_set d key val of None \<Rightarrow> d | Some (rc, d') \<Rightarrow> d')"

section \<open>Invariant\<close>

definition dict_ok :: "smf_dict \<Rightarrow> bool" where
  "dict_ok d \<longleftrightarrow>
     0 < d_size d \<and> length (d_key d) = d_size d \<and> length (d_val d) = d_size d \<and>
     length (d_hash d) = d_size d \<and>
     d_n d = length (filter (\<lambda>x. x \<noteq> None) (d_key d)) \<and>
     (\<forall>i < d_size d. \<forall>k. d_key d ! i = Some k \<longrightarrow>
        d_hash d ! i = dict_hash k \<and> d_val d ! i \<noteq> None) \<and>
     (\<forall>i < d_size d. \<forall>j < d_size d. d_key d ! i \<noteq> None \<longrightarrow> d_key d ! i = d_key d ! j \<longrightarrow> i = j)"

lemma dict_okD:
  assumes "dict_ok d"
  shows "0 < d_size d" "length (d_key d) = d_size d" "length (d_val d) = d_size d"
    "length (d_hash d) = d_size d" "d_n d = length (filter (\<lambda>x. x \<noteq> None) (d_key d))"
    "i < d_size d \<Longrightarrow> d_key d ! i = Some k \<Longrightarrow> d_hash d ! i = dict_hash k"
    "i < d_size d \<Longrightarrow> d_key d ! i = Some k \<Longrightarrow> d_val d ! i \<noteq> None"
    "i < d_size d \<Longrightarrow> j < d_size d \<Longrightarrow> d_key d ! i = Some k \<Longrightarrow> d_key d ! j = Some k \<Longrightarrow> i = j"
  using assms by (auto simp: dict_ok_def)

lemma dict_okI:
  assumes "0 < d_size d" "length (d_key d) = d_size d" "length (d_val d) = d_size d"
    "length (d_hash d) = d_size d" "d_n d = length (filter (\<lambda>x. x \<noteq> None) (d_key d))"
    "\<And>i k. i < d_size d \<Longrightarrow> d_key d ! i = Some k \<Longrightarrow> d_hash d ! i = dict_hash k"
    "\<And>i k. i < d_size d \<Longrightarrow> d_key d ! i = Some k \<Longrightarrow> d_val d ! i \<noteq> None"
    "\<And>i j k. i < d_size d \<Longrightarrow> j < d_size d \<Longrightarrow> d_key d ! i = Some k \<Longrightarrow> d_key d ! j = Some k \<Longrightarrow> i = j"
  shows "dict_ok d"
  unfolding dict_ok_def using assms by (metis not_None_eq)

lemma dict_ok_n_le: "dict_ok d \<Longrightarrow> d_n d \<le> d_size d"
  by (metis dict_okD(2,5) length_filter_le)

lemma dict_ok_new [smf_inv]: "dict_ok smf_dict_new"
  by (simp add: dict_ok_def smf_dict_new_def)

section \<open>The scan and the probe\<close>

lemma dict_match_iff:
  "dict_ok d \<Longrightarrow> i < d_size d \<Longrightarrow> dict_match d key i \<longleftrightarrow> d_key d ! i = Some key"
  by (auto simp: dict_match_def dict_okD split: option.splits)

lemma dict_scan_Some:
  "dict_ok d \<Longrightarrow> dict_scan d key = Some i \<longleftrightarrow> i < d_size d \<and> d_key d ! i = Some key"
  by (auto simp: dict_scan_def find_upt_Some_iff dict_match_iff)
     (metis dict_match_iff dict_okD(8) order.strict_trans nat_neq_iff)

lemma dict_scan_None:
  "dict_ok d \<Longrightarrow> dict_scan d key = None \<longleftrightarrow> (\<forall>i < d_size d. d_key d ! i \<noteq> Some key)"
  by (auto simp: dict_scan_def find_upt_None_iff dict_match_iff)

lemma dict_scan_empty:
  assumes "dict_ok d" and "d_n d = 0"
  shows "dict_scan d key = None"
proof -
  have "\<forall>x \<in> set (d_key d). x = None"
    using assms by (simp add: dict_okD(5) filter_empty_conv)
  then show ?thesis
    using assms(1) by (auto simp: dict_scan_None) (metis dict_okD(2) nth_mem option.distinct(1))
qed

text \<open>Only a scan that found its key decrements the counter, so it never goes below zero.\<close>

lemma dict_scan_Some_pos:
  assumes "dict_ok d" and "dict_scan d key = Some i"
  shows "0 < d_n d"
  using assms dict_scan_empty by fastforce

text \<open>Every slot the probe passes is taken, whatever the number of steps.\<close>

lemma dict_probe_free:
  "dict_probe fuel ks sz i = Some j \<Longrightarrow> i < sz \<Longrightarrow> j < sz \<and> ks ! j = None"
  by (induction fuel ks sz i rule: dict_probe.induct) (auto split: if_splits)

lemma dict_probe_reaches:
  assumes "j < sz" and "ks ! j = None" and "i < sz"
    and "(if i \<le> j then j - i else sz - i + j) < fuel"
  shows "dict_probe fuel ks sz i \<noteq> None"
  using assms(3,4)
proof (induction fuel arbitrary: i)
  case 0
  then show ?case by simp
next
  case (Suc fuel)
  show ?case
  proof (cases "ks ! i = None")
    case True
    then show ?thesis by simp
  next
    case False
    with assms have "i \<noteq> j" by auto
    let ?i = "if Suc i = sz then 0 else Suc i"
    have "?i < sz" using Suc.prems by auto
    moreover have "(if ?i \<le> j then j - ?i else sz - ?i + j) < fuel"
      using Suc.prems \<open>i \<noteq> j\<close> assms(1) by (auto split: if_splits)
    ultimately show ?thesis using Suc.IH False by simp
  qed
qed

lemma dict_probe_total:
  assumes "i < sz" and "j < sz" and "ks ! j = None"
  shows "\<exists>k. dict_probe sz ks sz i = Some k"
proof -
  have "(if i \<le> j then j - i else sz - i + j) < sz" using assms by auto
  with assms dict_probe_reaches show ?thesis by (metis not_None_eq)
qed

lemma dict_probe_all_taken:
  "(\<forall>j < sz. ks ! j \<noteq> None) \<Longrightarrow> i < sz \<Longrightarrow> dict_probe fuel ks sz i = None"
  by (induction fuel ks sz i rule: dict_probe.induct) auto

text \<open>
  Running out of \<open>d_size\<close> steps is the same as running out of any number of steps: the bound
  loses nothing.
\<close>

lemma dict_probe_None:
  assumes "i < sz" and "dict_probe sz ks sz i = None"
  shows "dict_probe fuel ks sz i = None"
  using assms dict_probe_total dict_probe_all_taken by (metis option.distinct(1))

section \<open>Lookup\<close>

lemma dict_get_at:
  "dict_ok d \<Longrightarrow> i < d_size d \<Longrightarrow> d_key d ! i = Some k \<Longrightarrow> smf_dict_get d k = d_val d ! i"
  using dict_scan_Some [of d k i] by (simp add: smf_dict_get_def)

lemma dict_get_absent:
  "dict_ok d \<Longrightarrow> (\<forall>i < d_size d. d_key d ! i \<noteq> Some k) \<Longrightarrow> smf_dict_get d k = None"
  using dict_scan_None [of d k] by (simp add: smf_dict_get_def)

lemma dict_get_present:
  assumes "dict_ok d" and "i < d_size d" and "d_key d ! i = Some k"
  shows "smf_dict_get d k \<noteq> None"
  using assms by (metis dict_get_at dict_okD(7))

lemma dict_get_new: "smf_dict_get smf_dict_new k = None"
  by (rule dict_get_absent [OF dict_ok_new]) (simp add: smf_dict_new_def)

text \<open>Two dictionaries whose slots agree, up to free ones, answer alike.\<close>

lemma dict_get_agree:
  assumes d: "dict_ok d" and d': "dict_ok d'"
    and slots: "\<And>i. i < d_size d \<Longrightarrow> d_key d ! i = Some k \<Longrightarrow>
        i < d_size d' \<and> d_key d' ! i = Some k \<and> d_val d' ! i = d_val d ! i"
    and slots2: "\<And>i. i < d_size d' \<Longrightarrow> d_key d' ! i = Some k \<Longrightarrow>
        i < d_size d \<and> d_key d ! i = Some k"
  shows "smf_dict_get d' k = smf_dict_get d k"
proof (cases "\<exists>i < d_size d. d_key d ! i = Some k")
  case True
  then obtain i where i: "i < d_size d" "d_key d ! i = Some k" by blast
  with slots have "i < d_size d'" "d_key d' ! i = Some k" "d_val d' ! i = d_val d ! i"
    by blast+
  with i show ?thesis by (simp add: dict_get_at [OF d i] dict_get_at [OF d'])
next
  case False
  with slots2 have "\<forall>i < d_size d'. d_key d' ! i \<noteq> Some k" by blast
  with False show ?thesis by (simp add: dict_get_absent [OF d] dict_get_absent [OF d'])
qed

section \<open>Insertion\<close>

lemma dict_ok_fill:
  assumes ok: "dict_ok d" and i: "i < d_size d" "d_key d ! i = None"
    and new: "\<forall>j < d_size d. d_key d ! j \<noteq> Some key"
  shows "dict_ok (d\<lparr>d_key := (d_key d)[i := Some key], d_val := (d_val d)[i := Some val],
                   d_hash := (d_hash d)[i := dict_hash key], d_n := d_n d + 1\<rparr>)"
  using dict_okD(1-5) [OF ok] dict_okD(6-8) [OF ok] i new
    length_filter_update_Some [of i "d_key d" key]
  by (auto simp: dict_ok_def nth_list_update)

lemma dict_insert_spec:
  assumes ok: "dict_ok d" and room: "d_n d < d_size d"
    and new: "\<forall>j < d_size d. d_key d ! j \<noteq> Some key"
  shows "\<exists>d'. dict_insert d key val = Some d' \<and> dict_ok d' \<and>
           smf_dict_get d' = (smf_dict_get d)(key \<mapsto> val)"
proof -
  obtain j where "j < d_size d" "d_key d ! j = None"
    using ex_None_slot [of "d_key d"] room dict_okD(2,5) [OF ok] by auto
  then obtain i where p: "dict_probe (d_size d) (d_key d) (d_size d) (d_n d) = Some i"
    using dict_probe_total room by blast
  then have i: "i < d_size d" "d_key d ! i = None" using dict_probe_free room by blast+
  let ?d = "d\<lparr>d_key := (d_key d)[i := Some key], d_val := (d_val d)[i := Some val],
              d_hash := (d_hash d)[i := dict_hash key], d_n := d_n d + 1\<rparr>"
  have ok': "dict_ok ?d" by (rule dict_ok_fill [OF ok i new])
  have "smf_dict_get ?d k = ((smf_dict_get d)(key \<mapsto> val)) k" for k
  proof (cases "k = key")
    case True
    have "smf_dict_get ?d key = d_val ?d ! i"
      by (rule dict_get_at [OF ok']) (use i dict_okD(2) [OF ok] in auto)
    then show ?thesis using True i dict_okD(3) [OF ok] by simp
  next
    case False
    have "smf_dict_get ?d k = smf_dict_get d k"
      by (rule dict_get_agree [OF ok ok'])
        (use False i dict_okD(2,3) [OF ok] in \<open>auto simp: nth_list_update split: if_splits\<close>)
    with False show ?thesis by simp
  qed
  then have "smf_dict_get ?d = (smf_dict_get d)(key \<mapsto> val)" by blast
  with ok' p show ?thesis by (simp add: dict_insert_def)
qed

text \<open>Doubling a full dictionary changes no entry.\<close>

definition dict_grow :: "smf_dict \<Rightarrow> smf_dict" where
  "dict_grow d =
     d\<lparr>d_val := d_val d @ replicate (length (d_val d)) None,
       d_key := d_key d @ replicate (length (d_key d)) None,
       d_hash := d_hash d @ replicate (length (d_hash d)) 0, d_size := d_size d * 2\<rparr>"

lemma dict_ok_grow: "dict_ok d \<Longrightarrow> dict_ok (dict_grow d)"
  by (auto simp: dict_ok_def dict_grow_def nth_append split: if_splits)

lemma dict_get_grow: "dict_ok d \<Longrightarrow> smf_dict_get (dict_grow d) k = smf_dict_get d k"
  by (rule dict_get_agree [OF _ dict_ok_grow])
    (auto simp: dict_grow_def nth_append dict_okD split: if_splits)

lemma dict_ok_overwrite:
  assumes ok: "dict_ok d" and i: "i < d_size d"
  shows "dict_ok (d\<lparr>d_val := (d_val d)[i := Some val]\<rparr>)"
  by (rule dict_okI) (use dict_okD [OF ok] i in \<open>auto simp: nth_list_update\<close>)

lemma dict_get_overwrite:
  assumes ok: "dict_ok d" and i: "i < d_size d" "d_key d ! i = Some key"
  shows "smf_dict_get (d\<lparr>d_val := (d_val d)[i := Some val]\<rparr>) = (smf_dict_get d)(key \<mapsto> val)"
    (is "smf_dict_get ?d = _")
proof
  fix k
  have ok': "dict_ok ?d" by (rule dict_ok_overwrite [OF ok i(1)])
  show "smf_dict_get ?d k = ((smf_dict_get d)(key \<mapsto> val)) k"
  proof (cases "k = key")
    case True
    have "smf_dict_get ?d key = d_val ?d ! i" by (rule dict_get_at [OF ok']) (use i in auto)
    with True show ?thesis using i dict_okD(3) [OF ok] by simp
  next
    case False
    have "smf_dict_get ?d k = smf_dict_get d k"
      by (rule dict_get_agree [OF ok ok']) (use False i dict_okD(3) [OF ok] in \<open>auto simp: nth_list_update\<close>)
    with False show ?thesis by simp
  qed
qed

text \<open>
  With memory available, \<open>smf_dict_set\<close> returns 0, keeps the invariant and is a map update.
\<close>

lemma dict_set_spec:
  assumes ok: "dict_ok d"
  shows "\<exists>d'. smf_dict_set d key val = Some (0, d') \<and> dict_ok d' \<and>
           smf_dict_get d' = (smf_dict_get d)(key \<mapsto> val)"
proof (cases "if 0 < d_n d then dict_scan d key else None")
  case (Some i)
  then have i: "i < d_size d" "d_key d ! i = Some key"
    using dict_scan_Some [OF ok] by (auto split: if_splits)
  with Some show ?thesis
    by (simp add: smf_dict_set_def smf_dict_set_mem_def dict_ok_overwrite [OF ok i(1)]
        dict_get_overwrite [OF ok i])
next
  case None
  then have "dict_scan d key = None"
    using dict_scan_empty [OF ok] by (auto split: if_splits)
  then have new: "\<forall>j < d_size d. d_key d ! j \<noteq> Some key" by (simp add: dict_scan_None [OF ok])
  show ?thesis
  proof (cases "d_n d = d_size d")
    case False
    then have "d_n d < d_size d" using dict_ok_n_le [OF ok] by simp
    from dict_insert_spec [OF ok this new] show ?thesis
      using None False by (auto simp: smf_dict_set_def smf_dict_set_mem_def)
  next
    case True
    have "\<forall>j < d_size (dict_grow d). d_key (dict_grow d) ! j \<noteq> Some key"
      using new dict_okD(2) [OF ok] by (auto simp: dict_grow_def nth_append)
    moreover have "d_n (dict_grow d) < d_size (dict_grow d)"
      using True dict_okD(1) [OF ok] by (simp add: dict_grow_def)
    ultimately obtain d' where "dict_insert (dict_grow d) key val = Some d'" "dict_ok d'"
      "smf_dict_get d' = (smf_dict_get (dict_grow d))(key \<mapsto> val)"
      using dict_insert_spec [OF dict_ok_grow [OF ok]] by blast
    moreover from this have "smf_dict_get d' = (smf_dict_get d)(key \<mapsto> val)"
      by (simp add: fun_eq_iff dict_get_grow [OF ok])
    ultimately show ?thesis
      using None True
      by (simp add: smf_dict_set_def smf_dict_set_mem_def mem_double_def dict_unNULL_def
          Let_def dict_grow_def)
  qed
qed

lemma dict_put_set: "dict_ok d \<Longrightarrow> smf_dict_set d key val = Some (0, dict_put d key val)"
  using dict_set_spec [of d key val] by (auto simp: dict_put_def)

lemma dict_ok_put [smf_inv]: "dict_ok d \<Longrightarrow> dict_ok (dict_put d key val)"
  using dict_set_spec [of d key val] by (auto simp: dict_put_def)

lemma dict_get_put: "dict_ok d \<Longrightarrow> smf_dict_get (dict_put d key val) = (smf_dict_get d)(key \<mapsto> val)"
  using dict_set_spec [of d key val] by (auto simp: dict_put_def)

section \<open>Removal and enumeration\<close>

lemma dict_ok_remove [smf_inv]:
  assumes ok: "dict_ok d"
  shows "dict_ok (smf_dict_remove d key)"
proof (cases "dict_scan d key")
  case None
  with ok show ?thesis by (simp add: smf_dict_remove_def)
next
  case (Some i)
  then have i: "i < d_size d" "d_key d ! i = Some key" by (simp_all add: dict_scan_Some [OF ok])
  with Some show ?thesis
    using dict_okD(1-5) [OF ok] dict_okD(6-8) [OF ok] length_filter_update_None [of i "d_key d"]
    by (auto simp: dict_ok_def smf_dict_remove_def nth_list_update)
qed

lemma dict_get_remove:
  assumes ok: "dict_ok d"
  shows "smf_dict_get (smf_dict_remove d key) = (smf_dict_get d)(key := None)"
proof
  fix k
  let ?d = "smf_dict_remove d key"
  have ok': "dict_ok ?d" by (rule dict_ok_remove [OF ok])
  show "smf_dict_get ?d k = ((smf_dict_get d)(key := None)) k"
  proof (cases "dict_scan d key")
    case None
    then have "smf_dict_get d key = None" "?d = d"
      by (simp_all add: smf_dict_get_def smf_dict_remove_def)
    then show ?thesis by simp
  next
    case (Some i)
    then have i: "i < d_size d" "d_key d ! i = Some key" by (simp_all add: dict_scan_Some [OF ok])
    show ?thesis
    proof (cases "k = key")
      case True
      have "smf_dict_get ?d key = None"
        by (rule dict_get_absent [OF ok'])
          (use Some i dict_okD(2,8) [OF ok] in \<open>auto simp: smf_dict_remove_def nth_list_update\<close>)
      with True show ?thesis by simp
    next
      case False
      have "smf_dict_get ?d k = smf_dict_get d k"
        by (rule dict_get_agree [OF ok ok'])
          (use False Some i dict_okD(2,3) [OF ok] in
            \<open>auto simp: smf_dict_remove_def nth_list_update split: if_splits\<close>)
      with False show ?thesis by simp
    qed
  qed
qed

lemma dict_keys_set: "dict_ok d \<Longrightarrow> set (smf_dict_get_keys d) = dom (smf_dict_get d)"
proof (rule set_eqI)
  fix k
  assume ok: "dict_ok d"
  have "k \<in> set (smf_dict_get_keys d) \<longleftrightarrow> (\<exists>i < d_size d. d_key d ! i = Some k)"
    by (auto simp: smf_dict_get_keys_def set_map_filter_iff)
  also have "\<dots> \<longleftrightarrow> smf_dict_get d k \<noteq> None"
    by (metis dict_get_present [OF ok] dict_get_absent [OF ok])
  finally show "k \<in> set (smf_dict_get_keys d) \<longleftrightarrow> k \<in> dom (smf_dict_get d)" by auto
qed

lemma dict_keys_distinct: "dict_ok d \<Longrightarrow> distinct (smf_dict_get_keys d)"
  by (auto simp: smf_dict_get_keys_def List.map_filter_def distinct_map inj_on_def dict_okD(8))

lemma dict_keys_length: "dict_ok d \<Longrightarrow> length (smf_dict_get_keys d) = d_n d"
proof -
  assume ok: "dict_ok d"
  have "length (smf_dict_get_keys d) =
          length (filter ((\<lambda>x. x \<noteq> None) \<circ> (\<lambda>i. d_key d ! i)) [0..<d_size d])"
    by (simp add: smf_dict_get_keys_def List.map_filter_def comp_def)
  also have "\<dots> = length (filter (\<lambda>x. x \<noteq> None) (map (\<lambda>i. d_key d ! i) [0..<d_size d]))"
    by (simp add: filter_map)
  also have "map (\<lambda>i. d_key d ! i) [0..<d_size d] = d_key d"
    by (simp add: map_nth flip: dict_okD(2) [OF ok])
  finally show ?thesis by (simp add: dict_okD(5) [OF ok])
qed

section \<open>The contract: a finite map\<close>

text \<open>
  What the components that keep a dictionary rely on.  \<open>get\<close> is the abstract map itself; the
  laws say how an insertion and a removal change it, and that \<open>keys\<close> enumerates its domain.
\<close>

locale dictionary =
  fixes inv :: "'d \<Rightarrow> bool"
    and empty :: 'd
    and put :: "'d \<Rightarrow> 'k \<Rightarrow> 'v \<Rightarrow> 'd"
    and get :: "'d \<Rightarrow> 'k \<rightharpoonup> 'v"
    and del :: "'d \<Rightarrow> 'k \<Rightarrow> 'd"
    and keys :: "'d \<Rightarrow> 'k list"
  assumes inv_empty: "inv empty"
    and get_empty: "get empty = Map.empty"
    and inv_put: "inv d \<Longrightarrow> inv (put d k v)"
    and get_put: "inv d \<Longrightarrow> get (put d k v) = (get d)(k \<mapsto> v)"
    and inv_del: "inv d \<Longrightarrow> inv (del d k)"
    and get_del: "inv d \<Longrightarrow> get (del d k) = (get d)(k := None)"
    and set_keys: "inv d \<Longrightarrow> set (keys d) = dom (get d)"
    and distinct_keys: "inv d \<Longrightarrow> distinct (keys d)"
begin

lemma put_put: "inv d \<Longrightarrow> get (put (put d k v) k w) = get (put d k w)"
  by (simp add: get_put inv_put)

lemma put_commute: "inv d \<Longrightarrow> k \<noteq> k' \<Longrightarrow> get (put (put d k v) k' w) = get (put (put d k' w) k v)"
  by (simp add: get_put inv_put fun_upd_twist)

lemma del_put: "inv d \<Longrightarrow> get d k = None \<Longrightarrow> get (del (put d k v) k) = get d"
  by (auto simp: get_put get_del inv_put fun_eq_iff)

lemma inv_fill: "inv d \<Longrightarrow> inv (foldl (\<lambda>acc k. put acc k (f k)) d ks)"
  by (induction ks arbitrary: d) (auto simp: inv_put)

lemma get_fill:
  "inv d \<Longrightarrow>
   get (foldl (\<lambda>acc k. put acc k (f k)) d ks) k = (if k \<in> set ks then Some (f k) else get d k)"
  by (induction ks arbitrary: d) (auto simp: inv_put get_put)

text \<open>Copying every entry into an empty dictionary gives the same map.\<close>

lemma get_copy:
  assumes "inv d"
  shows "get (foldl (\<lambda>acc k. put acc k (the (get d k))) empty (keys d)) = get d"
proof
  fix k
  show "get (foldl (\<lambda>acc k. put acc k (the (get d k))) empty (keys d)) k = get d k"
    using assms
    by (cases "get d k") (auto simp: get_fill inv_empty get_empty set_keys)
qed

lemma card_keys: "inv d \<Longrightarrow> length (keys d) = card (dom (get d))"
  by (metis set_keys distinct_keys distinct_card)

end

interpretation arrays: dictionary dict_ok smf_dict_new dict_put smf_dict_get smf_dict_remove
  smf_dict_get_keys
  by unfold_locales
    (auto simp: dict_ok_new dict_get_new dict_ok_put dict_get_put dict_ok_remove
      dict_get_remove dict_keys_set dict_keys_distinct fun_eq_iff)

section \<open>Correctness\<close>

text \<open>
  Claim C21.  On a well-formed dictionary \<open>smf_dict_set\<close> returns (the probe for a free slot
  ends, growth included), its return code is 0, the dictionary stays well-formed, and every
  later \<open>smf_dict_get\<close> sees exactly a map update: the new value at the key, every other entry
  unchanged.
\<close>

theorem smf_dict_set_correct:
  assumes "dict_ok d"
  shows "\<exists>d'. smf_dict_set d key val = Some (0, d') \<and> dict_ok d' \<and>
           (\<forall>k. smf_dict_get d' k = (if k = key then Some val else smf_dict_get d k))"
  using dict_set_spec [OF assms, of key val] by (auto simp: fun_eq_iff)

theorem smf_dict_set_correct_witness:
  "\<exists>d'. smf_dict_set smf_dict_new ''451'' ''busy'' = Some (0, d') \<and> dict_ok d' \<and>
     (\<forall>k. smf_dict_get d' k = (if k = ''451'' then Some ''busy'' else smf_dict_get smf_dict_new k))"
  by (rule smf_dict_set_correct [OF dict_ok_new])

text \<open>
  Claim C32.  \<open>smf_dict_remove\<close> deletes exactly the named entry: the dictionary stays
  well-formed, the key is no longer found, every other key keeps its value, and the entry
  count drops by one when the key was there and not at all otherwise (so it is never
  decremented below zero).
\<close>

theorem smf_dict_remove_correct:
  assumes "dict_ok d"
  shows "dict_ok (smf_dict_remove d key) \<and>
         smf_dict_get (smf_dict_remove d key) = (smf_dict_get d)(key := None) \<and>
         d_n d = d_n (smf_dict_remove d key) + (if smf_dict_get d key = None then 0 else 1)"
proof (intro conjI)
  show "dict_ok (smf_dict_remove d key)" by (rule arrays.inv_del [OF assms])
  show "smf_dict_get (smf_dict_remove d key) = (smf_dict_get d)(key := None)"
    by (rule arrays.get_del [OF assms])
  show "d_n d = d_n (smf_dict_remove d key) + (if smf_dict_get d key = None then 0 else 1)"
  proof (cases "dict_scan d key")
    case None
    then show ?thesis by (simp add: smf_dict_get_def smf_dict_remove_def)
  next
    case (Some i)
    then obtain v where "smf_dict_get d key = Some v"
      using dict_get_present [OF assms] by (auto simp: dict_scan_Some [OF assms])
    with Some dict_scan_Some_pos [OF assms Some] show ?thesis
      by (simp add: smf_dict_remove_def)
  qed
qed

theorem smf_dict_remove_correct_witness:
  "dict_ok (smf_dict_remove (dict_put smf_dict_new ''a'' ''1'') ''a'') \<and>
   smf_dict_get (smf_dict_remove (dict_put smf_dict_new ''a'' ''1'') ''a'') =
     (smf_dict_get (dict_put smf_dict_new ''a'' ''1''))(''a'' := None) \<and>
   d_n (dict_put smf_dict_new ''a'' ''1'') =
     d_n (smf_dict_remove (dict_put smf_dict_new ''a'' ''1'') ''a'') +
     (if smf_dict_get (dict_put smf_dict_new ''a'' ''1'') ''a'' = None then 0 else 1)"
  by (rule smf_dict_remove_correct [OF dict_ok_put [OF dict_ok_new]])

text \<open>
  \<open>smf_dict_get_keys\<close> lists every key of the dictionary exactly once: its length is
  the entry count \<open>n\<close>, it has no duplicates, and a key is listed iff a lookup finds it.
\<close>

theorem smf_dict_get_keys_correct:
  assumes "dict_ok d"
  shows "distinct (smf_dict_get_keys d) \<and> length (smf_dict_get_keys d) = d_n d \<and>
         (\<forall>k. k \<in> set (smf_dict_get_keys d) \<longleftrightarrow> smf_dict_get d k \<noteq> None)"
  using dict_keys_length [OF assms] arrays.set_keys [OF assms] arrays.distinct_keys [OF assms]
  by auto

theorem smf_dict_get_keys_correct_witness:
  "distinct (smf_dict_get_keys (dict_put smf_dict_new ''a'' ''1'')) \<and>
   length (smf_dict_get_keys (dict_put smf_dict_new ''a'' ''1'')) =
     d_n (dict_put smf_dict_new ''a'' ''1'') \<and>
   (\<forall>k. k \<in> set (smf_dict_get_keys (dict_put smf_dict_new ''a'' ''1'')) \<longleftrightarrow>
        smf_dict_get (dict_put smf_dict_new ''a'' ''1'') k \<noteq> None)"
  by (rule smf_dict_get_keys_correct [OF dict_ok_put [OF dict_ok_new]])

end
