(* ===== verification/Smf_Session.thy ===== *)
theory Smf_Session
  imports Smf_Message Smf_Core Smf_Internal Smf_Dict
begin

text \<open>
  The state of one SMTP transaction: the envelope (\<open>smf_envelope.c\<close>), the session
  (\<open>smf_session.c\<close>) and the two functions on addresses that \<open>smf_email_address.c\<close> implements
  itself.  Getters are the selectors of the records.
\<close>

section \<open>Addresses\<close>

text \<open>
  \<open>smf_email_address_is_empty\<close>: nothing but white space between the first \<open><\<close> (or the start)
  and the next \<open>>\<close> (or the end).
\<close>

definition smf_email_address_is_empty :: "string \<Rightarrow> bool" where
  "smf_email_address_is_empty email =
     (let p = (case strchr email (CHR ''<'') of Some q \<Rightarrow> tl q | None \<Rightarrow> email)
      in list_all c_isspace (takeWhile (\<lambda>c. c \<noteq> CHR ''>'') p))"

text \<open>The address part \<open>smf_email_address_get_simplified\<close> stores.\<close>

definition smf_email_address_get_simplified :: "string \<Rightarrow> string" where
  "smf_email_address_get_simplified email =
     (case email of
        c # r \<Rightarrow>
          if c = CHR ''<'' then smf_core_strstrip (takeWhile (\<lambda>x. x \<noteq> CHR ''>'') r)
          else smf_core_strstrip email
      | [] \<Rightarrow> smf_core_strstrip email)"

section \<open>Envelope\<close>

record envelope =
  env_recipients :: "string list"
  env_sender :: "string option"
  env_auth_user :: "string option"
  env_auth_pass :: "string option"
  env_nexthop :: "string option"
  env_message :: "message option"

definition smf_envelope_new :: envelope where
  "smf_envelope_new =
     \<lparr>env_recipients = [], env_sender = None, env_auth_user = None, env_auth_pass = None,
      env_nexthop = None, env_message = None\<rparr>"

definition smf_envelope_set_sender :: "string \<Rightarrow> envelope \<Rightarrow> envelope" where
  "smf_envelope_set_sender sender e = e\<lparr>env_sender := Some (smf_internal_strip_email_addr sender)\<rparr>"

definition smf_envelope_add_rcpt :: "string \<Rightarrow> envelope \<Rightarrow> int \<times> envelope" where
  "smf_envelope_add_rcpt rcpt e =
     (0, e\<lparr>env_recipients := env_recipients e @ [smf_internal_strip_email_addr rcpt]\<rparr>)"

definition smf_envelope_foreach_rcpt :: "(string \<Rightarrow> 'a \<Rightarrow> 'a) \<Rightarrow> envelope \<Rightarrow> 'a \<Rightarrow> 'a" where
  "smf_envelope_foreach_rcpt callback e user_data =
     foldl (\<lambda>st s. callback s st) user_data (env_recipients e)"

definition smf_envelope_set_auth_user :: "string \<Rightarrow> envelope \<Rightarrow> envelope" where
  "smf_envelope_set_auth_user auth_user e = e\<lparr>env_auth_user := Some auth_user\<rparr>"

definition smf_envelope_set_auth_pass :: "string \<Rightarrow> envelope \<Rightarrow> envelope" where
  "smf_envelope_set_auth_pass auth_pass e = e\<lparr>env_auth_pass := Some auth_pass\<rparr>"

definition smf_envelope_set_nexthop :: "string \<Rightarrow> envelope \<Rightarrow> envelope" where
  "smf_envelope_set_nexthop nexthop e = e\<lparr>env_nexthop := Some nexthop\<rparr>"

definition smf_envelope_set_message :: "message \<Rightarrow> envelope \<Rightarrow> envelope" where
  "smf_envelope_set_message m e = e\<lparr>env_message := Some m\<rparr>"

section \<open>Session\<close>

record user_data =
  ud_email :: string
  ud_data :: smf_dict

record session =
  ses_envelope :: envelope
  ses_message_size :: nat
  ses_message_file :: "string option"
  ses_helo :: "string option"
  ses_xforward_addr :: "string option"
  ses_response_msg :: "string option"
  ses_id :: string
  ses_local_users :: "user_data list"

definition smf_session_new :: "(nat \<Rightarrow> nat) \<Rightarrow> session" where
  "smf_session_new random =
     \<lparr>ses_envelope = smf_envelope_new, ses_message_size = 0, ses_message_file = None,
      ses_helo = None, ses_xforward_addr = None, ses_response_msg = None,
      ses_id = smf_internal_generate_sid random, ses_local_users = []\<rparr>"

definition smf_session_set_helo :: "string \<Rightarrow> session \<Rightarrow> session" where
  "smf_session_set_helo helo s = s\<lparr>ses_helo := Some helo\<rparr>"

definition smf_session_set_message_file :: "string \<Rightarrow> session \<Rightarrow> session" where
  "smf_session_set_message_file fp s = s\<lparr>ses_message_file := Some fp\<rparr>"

definition smf_session_set_xforward_addr :: "string \<Rightarrow> session \<Rightarrow> session" where
  "smf_session_set_xforward_addr xfwd s =
     (if strcasestr xfwd ''IPv6:'' \<noteq> None then s\<lparr>ses_xforward_addr := Some (drop 5 xfwd)\<rparr>
      else s\<lparr>ses_xforward_addr := Some xfwd\<rparr>)"

definition smf_session_set_response_msg :: "string \<Rightarrow> session \<Rightarrow> session" where
  "smf_session_set_response_msg rmsg s = s\<lparr>ses_response_msg := Some rmsg\<rparr>"

text \<open>The loop both functions on local users share: the first entry of that address.\<close>

fun find_user :: "string \<Rightarrow> user_data list \<Rightarrow> user_data option" where
  "find_user user [] = None"
| "find_user user (d # ds) = (if ud_email d = user then Some d else find_user user ds)"

definition smf_session_is_local :: "session \<Rightarrow> string \<Rightarrow> int" where
  "smf_session_is_local s user = (case find_user user (ses_local_users s) of None \<Rightarrow> 0 | Some _ \<Rightarrow> 1)"

definition smf_session_get_user_data :: "session \<Rightarrow> string \<Rightarrow> smf_dict option" where
  "smf_session_get_user_data s user = map_option ud_data (find_user user (ses_local_users s))"

abbreviation with_envelope :: "(envelope \<Rightarrow> envelope) \<Rightarrow> session \<Rightarrow> session" where
  "with_envelope f s \<equiv> s\<lparr>ses_envelope := f (ses_envelope s)\<rparr>"

section \<open>Lemmas\<close>

lemma find_user_append:
  "find_user u (xs @ ys) = (case find_user u xs of None \<Rightarrow> find_user u ys | Some d \<Rightarrow> Some d)"
  by (induction xs) auto

lemma find_user_None: "find_user u xs = None \<longleftrightarrow> u \<notin> ud_email ` set xs"
  by (induction xs) auto

lemma is_local_iff_data: "smf_session_is_local s u = 1 \<longleftrightarrow> smf_session_get_user_data s u \<noteq> None"
  by (simp add: smf_session_is_local_def smf_session_get_user_data_def split: option.splits)

lemma add_rcpt_order:
  "env_recipients (foldl (\<lambda>e r. snd (smf_envelope_add_rcpt r e)) e rs) =
     env_recipients e @ map smf_internal_strip_email_addr rs"
  by (induction rs arbitrary: e) (simp_all add: smf_envelope_add_rcpt_def)

text \<open>
  The prefix test looks for \<open>IPv6:\<close> anywhere, so an address that has it later loses its first
  five characters.
\<close>

lemma xforward_prefix_anywhere:
  "ses_xforward_addr (smf_session_set_xforward_addr ''[fe80] IPv6:'' s) = Some ''] IPv6:''"
  by (simp add: smf_session_set_xforward_addr_def strcasestr.simps c_tolower_def)

end
