(* ===== verification/Smf_World.thy ===== *)
theory Smf_World
  imports Smf_Message Smf_Session
begin

text \<open>
  The world outside the process as far as a transaction changes it: the files of the queue
  directory with their modification times, the socket of the client and the standard output.
  What the operating system decides (names of temporary files, permissions, failing calls, how
  much a \<open>write\<close> takes) is the record \<open>os\<close>, a parameter of every operation.
\<close>

section \<open>State\<close>

record spool =
  sp_data :: string
  sp_mtime :: nat

record world =
  w_files :: "string \<Rightarrow> spool option"
  w_sock :: fd
  w_stdout :: string
  w_clock :: nat

record os =
  os_mkstemp :: "string \<Rightarrow> (string \<Rightarrow> spool option) \<Rightarrow> string option"
  os_may_open :: "string \<Rightarrow> bool"
  os_may_unlink :: "string \<Rightarrow> bool"
  os_may_rename :: "string \<Rightarrow> string \<Rightarrow> bool"
  os_wr :: "string \<Rightarrow> wr_ev list"            \<comment> \<open>answers to the writes to that file\<close>
  os_lstat :: "string \<Rightarrow> bool option"        \<comment> \<open>the file exists, and whether it is a directory\<close>

section \<open>Operations\<close>

definition put_file :: "string \<Rightarrow> string \<Rightarrow> world \<Rightarrow> world" where
  "put_file name data w = w\<lparr>w_files := (w_files w)(name \<mapsto> \<lparr>sp_data = data, sp_mtime = w_clock w\<rparr>)\<rparr>"

text \<open>\<open>mkstemp\<close> creates an empty file.\<close>

definition sys_mkstemp :: "os \<Rightarrow> string \<Rightarrow> world \<Rightarrow> (string \<times> world) option" where
  "sys_mkstemp os template w =
     (case os_mkstemp os template (w_files w) of
        None \<Rightarrow> None
      | Some name \<Rightarrow> Some (name, put_file name [] w))"

text \<open>\<open>fopen (name, "r")\<close>: the content, when the file is there and may be opened.\<close>

definition fopen_read :: "os \<Rightarrow> string \<Rightarrow> world \<Rightarrow> string option" where
  "fopen_read os name w = (if os_may_open os name then map_option sp_data (w_files w name) else None)"

text \<open>\<open>fopen (name, "w")\<close> and \<open>"w+"\<close>: the file is created, or its content dropped.\<close>

definition fopen_write :: "os \<Rightarrow> string \<Rightarrow> world \<Rightarrow> world option" where
  "fopen_write os name w = (if os_may_open os name then Some (put_file name [] w) else None)"

definition file_fd :: "os \<Rightarrow> string \<Rightarrow> string \<Rightarrow> fd" where
  "file_fd os name content = \<lparr>fd_in = [], fd_wr = os_wr os name, fd_out = content\<rparr>"

definition sys_unlink :: "os \<Rightarrow> string \<Rightarrow> world \<Rightarrow> int \<times> world" where
  "sys_unlink os name w =
     (if os_may_unlink os name \<and> w_files w name \<noteq> None
      then (0, w\<lparr>w_files := (w_files w)(name := None)\<rparr>) else (- 1, w))"

definition sys_rename :: "os \<Rightarrow> string \<Rightarrow> string \<Rightarrow> world \<Rightarrow> int \<times> world" where
  "sys_rename os old new w =
     (case w_files w old of
        None \<Rightarrow> (- 1, w)
      | Some f \<Rightarrow>
          if os_may_rename os old new
          then (0, w\<lparr>w_files := (w_files w)(old := None, new \<mapsto> f)\<rparr>) else (- 1, w))"

text \<open>\<open>stat\<close>: the modification time.\<close>

definition sys_mtime :: "string \<Rightarrow> world \<Rightarrow> nat option" where
  "sys_mtime name w = map_option sp_mtime (w_files w name)"

section \<open>Lemmas\<close>

text \<open>An operating system that refuses nothing, and whose temporary names are fresh.\<close>

definition os_willing :: "os \<Rightarrow> bool" where
  "os_willing os \<longleftrightarrow>
     (\<forall>n. os_may_open os n) \<and> (\<forall>n. os_may_unlink os n) \<and> (\<forall>a b. os_may_rename os a b) \<and>
     (\<forall>n. os_wr os n = [])"

definition mkstemp_fresh :: "os \<Rightarrow> bool" where
  "mkstemp_fresh os \<longleftrightarrow> (\<forall>t fs n. os_mkstemp os t fs = Some n \<longrightarrow> fs n = None)"

lemma os_willingD [simp]:
  assumes "os_willing os"
  shows "os_may_open os n" and "os_may_unlink os n" and "os_may_rename os a b" and "os_wr os n = []"
  using assms by (simp_all add: os_willing_def)

lemma put_file_frame [smf_frame, simp]:
  "w_sock (put_file n d w) = w_sock w" "w_stdout (put_file n d w) = w_stdout w"
  "w_clock (put_file n d w) = w_clock w"
  "w_files (put_file n d w) n = Some \<lparr>sp_data = d, sp_mtime = w_clock w\<rparr>"
  "m \<noteq> n \<Longrightarrow> w_files (put_file n d w) m = w_files w m"
  by (simp_all add: put_file_def)

lemma sys_mkstemp_Some:
  "sys_mkstemp os t w = Some (n, w') \<longleftrightarrow> os_mkstemp os t (w_files w) = Some n \<and> w' = put_file n [] w"
  by (auto simp: sys_mkstemp_def split: option.splits)

lemma sys_unlink_frame [smf_frame]:
  "w_sock (snd (sys_unlink os n w)) = w_sock w"
  "m \<noteq> n \<Longrightarrow> w_files (snd (sys_unlink os n w)) m = w_files w m"
  by (simp_all add: sys_unlink_def)

lemma sys_rename_frame [smf_frame]:
  "w_sock (snd (sys_rename os a b w)) = w_sock w"
  "m \<noteq> a \<Longrightarrow> m \<noteq> b \<Longrightarrow> w_files (snd (sys_rename os a b w)) m = w_files w m"
  by (simp_all add: sys_rename_def split: option.split)

text \<open>
  Replacing a file by a temporary one, as the queue file is: remove the old one, then rename.
  When the rename fails the old content is gone.
\<close>

definition replace_file :: "os \<Rightarrow> string \<Rightarrow> string \<Rightarrow> world \<Rightarrow> int \<times> world" where
  "replace_file os tmpname name w =
     (case sys_unlink os name w of
        (r, w1) \<Rightarrow>
          if r \<noteq> 0 then (- 1, w1)
          else (case sys_rename os tmpname name w1 of (r2, w2) \<Rightarrow> (if r2 \<noteq> 0 then - 1 else 0, w2)))"

lemma replace_file_ok:
  assumes "os_willing os" and "w_files w name = Some old" and "w_files w tmpname = Some new"
    and "tmpname \<noteq> name"
  shows "replace_file os tmpname name w =
    (0, w\<lparr>w_files := (w_files w)(tmpname := None, name \<mapsto> new)\<rparr>)"
proof -
  have "((w_files w)(name := None))(tmpname := None, name \<mapsto> new) =
      (w_files w)(tmpname := None, name \<mapsto> new)"
    by auto
  with assms show ?thesis by (simp add: replace_file_def sys_unlink_def sys_rename_def)
qed

lemma replace_file_lost:
  assumes "os_may_unlink os name" and "w_files w name = Some old" and "tmpname \<noteq> name"
    and "\<not> os_may_rename os tmpname name"
  shows "fst (replace_file os tmpname name w) = - 1 \<and>
    w_files (snd (replace_file os tmpname name w)) name = None"
  using assms
  by (auto simp: replace_file_def sys_unlink_def sys_rename_def split: option.split)

lemma replace_file_frame [smf_frame]:
  "w_sock (snd (replace_file os t n w)) = w_sock w"
  "m \<noteq> t \<Longrightarrow> m \<noteq> n \<Longrightarrow> w_files (snd (replace_file os t n w)) m = w_files w m"
  by (simp_all add: replace_file_def split_beta smf_frame)

end
