(* ===== verification/Smf_Trace.thy ===== *)
theory Smf_Trace
  imports Smf_Libc
begin

text \<open>
  Tracing, \<open>smf_trace.c\<close>: the two static variables, the formatting of a message into buffers of
  1024 bytes, and the choice of the destination.  The variable arguments of a call appear as
  \<open>args\<close>, the function that replaces the conversions of the format string.
\<close>

section \<open>State\<close>

datatype trace_level =
    TRACE_EMERG | TRACE_ALERT | TRACE_CRIT | TRACE_ERR | TRACE_WARNING | TRACE_NOTICE
  | TRACE_INFO | TRACE_DEBUG | TRACE_LOOKUP

datatype trace_dest = TRACE_DEST_SYSLOG | TRACE_DEST_STDERR

record trace_state =
  debug_flag :: int
  debug_dest :: trace_dest

definition trace_init :: trace_state where
  "trace_init = \<lparr>debug_flag = 0, debug_dest = TRACE_DEST_SYSLOG\<rparr>"

definition configure_debug :: "int \<Rightarrow> trace_state \<Rightarrow> trace_state" where
  "configure_debug debug t = t\<lparr>debug_flag := debug\<rparr>"

definition configure_trace_destination :: "trace_dest \<Rightarrow> trace_state \<Rightarrow> trace_state" where
  "configure_trace_destination dest t = t\<lparr>debug_dest := dest\<rparr>"

section \<open>Formatting\<close>

text \<open>The values of the enumeration are powers of two.\<close>

fun trace_log2 :: "trace_level \<Rightarrow> nat" where
  "trace_log2 TRACE_EMERG = 0"
| "trace_log2 TRACE_ALERT = 1"
| "trace_log2 TRACE_CRIT = 2"
| "trace_log2 TRACE_ERR = 3"
| "trace_log2 TRACE_WARNING = 4"
| "trace_log2 TRACE_NOTICE = 5"
| "trace_log2 TRACE_INFO = 6"
| "trace_log2 TRACE_DEBUG = 7"
| "trace_log2 TRACE_LOOKUP = 8"

definition trace_value :: "trace_level \<Rightarrow> nat" where
  "trace_value level = 2 ^ trace_log2 level"

definition trace_to_text :: "trace_level \<Rightarrow> string" where
  "trace_to_text level =
     [''EMERGENCY'', ''Alert'', ''Critical'', ''Error'', ''Warning'', ''Notice'', ''Info'',
      ''Debug'', ''Lookup''] ! trace_log2 level"

text \<open>\<open>snprintf (out, size, ...)\<close>: at most \<open>size - 1\<close> characters and the NUL.\<close>

definition snprintf :: "nat \<Rightarrow> string \<Rightarrow> string" where
  "snprintf sz s = take (sz - 1) s"

definition format_string ::
  "trace_state \<Rightarrow> trace_level \<Rightarrow> string \<Rightarrow> string \<Rightarrow> nat \<Rightarrow> string option \<Rightarrow> string \<Rightarrow> nat \<Rightarrow> string" where
  "format_string t level module function line sid formatstring sz =
     (let sid_format = (case sid of
            None \<Rightarrow> [] | Some s \<Rightarrow> snprintf sz (''SID '' @ s @ '' ''))
      in if debug_flag t = 1 then
           (let debug_format =
                  snprintf sz (''('' @ module @ '':'' @ function @ '':'' @ string_of_nat line @ '')'')
            in snprintf sz (trace_to_text level @ '': '' @ debug_format @ '' '' @ sid_format @
                 formatstring @ lf))
         else snprintf sz (trace_to_text level @ '': '' @ sid_format @ formatstring @ lf))"

text \<open>
  The loop that copies \<open>t\<close> to \<open>message\<close>, the terminating NUL included, drops line ends and, for
  syslog, doubles percent signs.
\<close>

definition trace_escape :: "trace_dest \<Rightarrow> string \<Rightarrow> string" where
  "trace_escape dest t =
     concat (map (\<lambda>c. if c = CHR ''%'' \<and> dest = TRACE_DEST_SYSLOG then ''%%''
                      else if c \<noteq> LF \<and> c \<noteq> CR then [c] else []) (t @ [NUL]))"

datatype syslog_priority =
    LOG_EMERG | LOG_ALERT | LOG_CRIT | LOG_ERR | LOG_WARNING | LOG_NOTICE | LOG_INFO | LOG_DEBUG

fun trace_priority :: "trace_level \<Rightarrow> syslog_priority" where
  "trace_priority TRACE_EMERG = LOG_EMERG"
| "trace_priority TRACE_ALERT = LOG_ALERT"
| "trace_priority TRACE_CRIT = LOG_CRIT"
| "trace_priority TRACE_ERR = LOG_ERR"
| "trace_priority TRACE_WARNING = LOG_WARNING"
| "trace_priority TRACE_NOTICE = LOG_NOTICE"
| "trace_priority TRACE_INFO = LOG_INFO"
| "trace_priority _ = LOG_DEBUG"

datatype trace_out = Syslog syslog_priority string | Stderr string

definition trace_shown :: "trace_state \<Rightarrow> trace_level \<Rightarrow> bool" where
  "trace_shown t level \<longleftrightarrow>
     (128 \<le> trace_value level \<and> debug_flag t = 1) \<or> trace_value level < 128"

definition trace_syslog :: "trace_state \<Rightarrow> trace_level \<Rightarrow> string \<Rightarrow> trace_out list" where
  "trace_syslog t level message =
     (if trace_shown t level then [Syslog (trace_priority level) message] else [])"

definition trace_stderr :: "trace_state \<Rightarrow> trace_level \<Rightarrow> string \<Rightarrow> trace_out list" where
  "trace_stderr t level message = (if trace_shown t level then [Stderr (message @ lf)] else [])"

text \<open>
  \<open>trace\<close>.  The final NUL is stored at index \<open>pos\<close>, which must be inside \<open>message\<close>.
\<close>

definition trace ::
  "trace_state \<Rightarrow> trace_level \<Rightarrow> string \<Rightarrow> string \<Rightarrow> nat \<Rightarrow> string option \<Rightarrow> string \<Rightarrow>
   (string \<Rightarrow> string) \<Rightarrow> trace_out list c_result" where
  "trace st level module function line sid formatstring args =
     (let format = format_string st level module function line sid formatstring 1024;
          t = snprintf 1024 (args format);
          buf = trace_escape (debug_dest st) t;
          message = c_str buf
      in if 1024 \<le> length buf then Inl BufferOverflow
         else Inr (case debug_dest st of
                     TRACE_DEST_SYSLOG \<Rightarrow> trace_syslog st level message
                   | TRACE_DEST_STDERR \<Rightarrow> trace_stderr st level message))"

section \<open>Lemmas\<close>

lemma trace_escape_length:
  "length (trace_escape dest t) =
     Suc (length (filter (\<lambda>c. c \<noteq> LF \<and> c \<noteq> CR) t) +
          (if dest = TRACE_DEST_SYSLOG then count_list t (CHR ''%'') else 0))"
  by (induction t) (auto simp: trace_escape_def)

lemma trace_shown_cases:
  "trace_shown t level \<longleftrightarrow> debug_flag t = 1 \<or> level \<notin> {TRACE_DEBUG, TRACE_LOOKUP}"
  by (cases level) (auto simp: trace_shown_def trace_value_def)

section \<open>Properties\<close>

text \<open>
  Claim C40.  When \<open>trace\<close> stays inside its buffers and when it does not: with \<open>t\<close> the formatted
  text (at most 1023 characters), the call overruns the 1024 bytes of \<open>message\<close> exactly when
  the characters of \<open>t\<close> that are kept, percent signs counted twice for syslog, are 1023 or
  more; otherwise nothing is emitted for debug levels unless debugging is on, and one record
  in all other cases.
\<close>

theorem trace_overflow_iff:
  "let t = snprintf 1024 (args (format_string st level module function line sid fmt 1024));
       kept = length (filter (\<lambda>c. c \<noteq> LF \<and> c \<noteq> CR) t) +
              (if debug_dest st = TRACE_DEST_SYSLOG then count_list t (CHR ''%'') else 0)
   in if 1023 \<le> kept
      then trace st level module function line sid fmt args = Inl BufferOverflow
      else \<exists>out. trace st level module function line sid fmt args = Inr out \<and>
             length out = (if debug_flag st = 1 \<or> level \<notin> {TRACE_DEBUG, TRACE_LOOKUP} then 1 else 0)"
  by (simp add: Let_def trace_def trace_escape_length trace_syslog_def trace_stderr_def
      trace_shown_cases split: trace_dest.split)

lemma trace_overflow_iff_witness:
  "\<exists>out. trace trace_init TRACE_ERR ''smtpd'' ''load'' 7 None ''100% full'' id = Inr out \<and> length out = 1"
proof -
  have len: "length (filter (\<lambda>c. c \<noteq> LF \<and> c \<noteq> CR) (snprintf 1024 (id (format_string trace_init TRACE_ERR
      ''smtpd'' ''load'' 7 None ''100% full'' 1024)))) = 16"
    "count_list (snprintf 1024 (id (format_string trace_init TRACE_ERR
      ''smtpd'' ''load'' 7 None ''100% full'' 1024))) (CHR ''%'') = 1"
    by (simp_all add: format_string_def snprintf_def trace_init_def trace_to_text_def lf_def)
  show ?thesis
    using trace_overflow_iff [of id trace_init TRACE_ERR "''smtpd''" "''load''" 7 None "''100% full''"]
    unfolding Let_def len by (simp add: trace_init_def)
qed

end
