(* ===== verification/Smf_Settings.thy ===== *)
theory Smf_Settings
  imports Smf_Core Smf_Internal Smf_Dict Smf_Trace
begin

text \<open>
  The configuration, \<open>smf_settings.c\<close>: the record \<open>SMFSettings_T\<close>, its defaults, the parser of
  \<open>spmfilter.conf\<close> (lines, sections, keys and values, as the \<open>sscanf\<close> formats of the code read
  them), the assignment of values with the checks the code makes, the final checks, and the
  access to custom groups.  A getter of the code is the selector of the record field.

  Loading a module is \<open>dlopen\<close> of a path: the set of files that exist and the paths that can be
  loaded are parameters.
\<close>

section \<open>State\<close>

text \<open>\<open>SMFModule_T\<close>: type 0 with a handle (\<open>NULL\<close> when loading failed), or a callback.\<close>

datatype module_target = Handle "string option" | Callback string

record smf_module =
  mod_name :: string
  mod_target :: module_target

datatype tls_option = SMF_TLS_DISABLED | SMF_TLS_ENABLED | SMF_TLS_REQUIRED

datatype connection_type = SMF_SQL_CONN | SMF_LDAP_CONN

datatype facility =
    LOG_AUTH | LOG_AUTHPRIV | LOG_CRON | LOG_DAEMON | LOG_FTP | LOG_KERN | LOG_LOCAL0 | LOG_LOCAL1
  | LOG_LOCAL2 | LOG_LOCAL3 | LOG_LOCAL4 | LOG_LOCAL5 | LOG_LOCAL6 | LOG_LOCAL7 | LOG_LPR | LOG_MAIL
  | LOG_NEWS | LOG_USER | LOG_UUCP

record smf_settings =
  s_debug :: int
  s_config_file :: "string option"
  s_queue_dir :: "string option"
  s_engine :: "string option"
  s_modules :: "smf_module list"
  s_module_fail :: int
  s_nexthop :: "string option"
  s_nexthop_fail_code :: int
  s_nexthop_fail_msg :: "string option"
  s_backend :: cptr
  s_backend_connection :: cptr
  s_add_header :: int
  s_max_size :: ulong
  s_tls :: tls_option
  s_lib_dir :: "string option"
  s_pid_file :: "string option"
  s_bind_ip :: "string option"
  s_bind_port :: int
  s_listen_backlog :: int
  s_foreground :: int
  s_user :: "string option"
  s_group :: "string option"
  s_max_childs :: int
  s_spare_childs :: int
  s_syslog_facility :: facility
  s_smtp_codes :: smf_dict
  s_smtpd_timeout :: int
  s_sql_driver :: cptr
  s_sql_name :: "string option"
  s_sql_host :: "string list"
  s_sql_port :: int
  s_sql_user :: "string option"
  s_sql_pass :: "string option"
  s_sql_user_query :: "string option"
  s_sql_encoding :: "string option"
  s_sql_max_connections :: int
  s_ldap_uri :: "string option"
  s_ldap_host :: "string list"
  s_ldap_port :: int
  s_ldap_binddn :: "string option"
  s_ldap_bindpw :: "string option"
  s_ldap_base :: "string option"
  s_ldap_referrals :: int
  s_ldap_scope :: "string option"
  s_ldap_user_query :: "string option"
  s_ldap_result_attributes :: "string list"
  s_lookup_connection_type :: connection_type
  s_lookup_persistent :: int
  s_lookup_connection :: "nat option"
  s_groups :: smf_dict

definition CHILD_LIMIT :: int where
  "CHILD_LIMIT = 1024"

definition MAX_LINE :: nat where
  "MAX_LINE = 200"

definition smf_settings_new :: smf_settings where
  "smf_settings_new =
     \<lparr>s_debug = 0, s_config_file = None, s_queue_dir = None, s_engine = None, s_modules = [],
      s_module_fail = 3, s_nexthop = None, s_nexthop_fail_code = 451, s_nexthop_fail_msg = None,
      s_backend = NullP, s_backend_connection = NullP, s_add_header = 1, s_max_size = 0,
      s_tls = SMF_TLS_DISABLED, s_lib_dir = None, s_pid_file = None, s_bind_ip = None,
      s_bind_port = 10025, s_listen_backlog = 511, s_foreground = 0, s_user = None,
      s_group = None, s_max_childs = 10, s_spare_childs = 2, s_syslog_facility = LOG_MAIL,
      s_smtp_codes = smf_dict_new, s_smtpd_timeout = 300, s_sql_driver = NullP, s_sql_name = None,
      s_sql_host = [], s_sql_port = 0, s_sql_user = None, s_sql_pass = None,
      s_sql_user_query = None, s_sql_encoding = None, s_sql_max_connections = 3,
      s_ldap_uri = None, s_ldap_host = [], s_ldap_port = 0, s_ldap_binddn = None,
      s_ldap_bindpw = None, s_ldap_base = None, s_ldap_referrals = 0, s_ldap_scope = None,
      s_ldap_user_query = None, s_ldap_result_attributes = [],
      s_lookup_connection_type = SMF_SQL_CONN, s_lookup_persistent = 0,
      s_lookup_connection = None, s_groups = smf_dict_new\<rparr>"

section \<open>Values\<close>

definition get_boolean :: "string \<Rightarrow> int" where
  "get_boolean val =
     (case val of
        c # _ \<Rightarrow> if List.member ''yY1tT'' c then 1 else 0
      | [] \<Rightarrow> 0)"

definition get_integer :: "string \<Rightarrow> int" where
  "get_integer val = int_of_long (strtol0 val)"

definition get_list :: "string \<Rightarrow> string list" where
  "get_list val =
     (if strchr val (CHR '';'') \<noteq> None then fst (smf_core_strsplit val '';'')
      else fst (smf_core_strsplit val '',''))"

section \<open>Modules\<close>

text \<open>
  \<open>stat\<close> on the name (is there a regular file of this name) and \<open>dlopen\<close> are parameters.
\<close>

record loader =
  ld_isfile :: "string \<Rightarrow> bool"
  ld_dlopen :: "string \<Rightarrow> bool"
  ld_libdir :: string     \<comment> \<open>the compile time \<open>LIB_DIR\<close>\<close>

definition smf_module_create_handle :: "loader \<Rightarrow> smf_settings \<Rightarrow> string \<Rightarrow> string option" where
  "smf_module_create_handle ld settings name =
     (let lib_path = (case s_lib_dir settings of Some d \<Rightarrow> d | None \<Rightarrow> ld_libdir ld);
          path = (if ld_isfile ld name then name else smf_internal_build_module_path lib_path name)
      in if ld_dlopen ld path then Some path else None)"

definition smf_module_create_callback ::
  "loader \<Rightarrow> smf_settings \<Rightarrow> string \<Rightarrow> string option \<Rightarrow> smf_module" where
  "smf_module_create_callback ld settings name callback =
     \<lparr>mod_name = name,
      mod_target = (case callback of
          None \<Rightarrow> Handle (smf_module_create_handle ld settings name)
        | Some f \<Rightarrow> Callback f)\<rparr>"

definition smf_module_create :: "loader \<Rightarrow> smf_settings \<Rightarrow> string \<Rightarrow> smf_module" where
  "smf_module_create ld settings name = smf_module_create_callback ld settings name None"

definition smf_settings_add_module :: "loader \<Rightarrow> string \<Rightarrow> smf_settings \<Rightarrow> int \<times> smf_settings" where
  "smf_settings_add_module ld module s =
     (0, s\<lparr>s_modules := s_modules s @ [smf_module_create ld s module]\<rparr>)"

section \<open>Parsing a line\<close>

datatype line_status =
    LINE_UNPROCESSED | LINE_ERROR | LINE_EMPTY | LINE_COMMENT | LINE_SECTION | LINE_VALUE

text \<open>
  \<open>%[set]\<close> of \<open>sscanf\<close> reads a non-empty run; white space in a format skips white space.
\<close>

definition scan_set :: "(char \<Rightarrow> bool) \<Rightarrow> string \<Rightarrow> (string \<times> string) option" where
  "scan_set P s = (if takeWhile P s = [] then None else Some (takeWhile P s, dropWhile P s))"

definition scan_char :: "char \<Rightarrow> string \<Rightarrow> string option" where
  "scan_char c s = (case s of x # r \<Rightarrow> if x = c then Some r else None | [] \<Rightarrow> None)"

text \<open>\<open>%[^=] = \<close>: the key and what stands behind the equals sign.\<close>

definition scan_key :: "string \<Rightarrow> (string \<times> string) option" where
  "scan_key line =
     (case scan_set (\<lambda>c. c \<noteq> CHR ''='') line of
        None \<Rightarrow> None
      | Some (key, r) \<Rightarrow>
          map_option (\<lambda>r'. (key, dropWhile c_isspace r')) (scan_char (CHR ''='') (dropWhile c_isspace r)))"

definition scan_quoted :: "char \<Rightarrow> string \<Rightarrow> (string \<times> string) option" where
  "scan_quoted q line =
     (case scan_key line of
        None \<Rightarrow> None
      | Some (key, r) \<Rightarrow>
          (case scan_char q r of
             None \<Rightarrow> None
           | Some r' \<Rightarrow> map_option (\<lambda>(v, _). (key, v)) (scan_set (\<lambda>c. c \<noteq> q) r')))"

definition scan_bare :: "string \<Rightarrow> (string \<times> string) option" where
  "scan_bare line =
     (case scan_key line of
        None \<Rightarrow> None
      | Some (key, r) \<Rightarrow> map_option (\<lambda>(v, _). (key, v)) (scan_set (\<lambda>c. c \<noteq> CHR ''#'') r))"

text \<open>\<open>%[^=] = %[;#]\<close> and \<open>%[^=] %[=]\<close>\<close>

definition scan_comment :: "string \<Rightarrow> (string \<times> string) option" where
  "scan_comment line =
     (case scan_key line of
        None \<Rightarrow> None
      | Some (key, r) \<Rightarrow>
          map_option (\<lambda>(v, _). (key, v)) (scan_set (\<lambda>c. c = CHR '';'' \<or> c = CHR ''#'') r))"

definition scan_empty :: "string \<Rightarrow> (string \<times> string) option" where
  "scan_empty line =
     (case scan_set (\<lambda>c. c \<noteq> CHR ''='') line of
        None \<Rightarrow> None
      | Some (key, r) \<Rightarrow>
          map_option (\<lambda>(v, _). (key, v)) (scan_set (\<lambda>c. c = CHR ''='') (dropWhile c_isspace r)))"

text \<open>
  \<open>_parse_line\<close>: the status, and the buffers \<open>section\<close>, \<open>key\<close> and \<open>value\<close> afterwards (a buffer a
  format did not reach keeps its old content; only the section buffer is read again later).
\<close>

fun orelse :: "'a option \<Rightarrow> 'a option \<Rightarrow> 'a option" where
  "orelse (Some x) y = Some x"
| "orelse None y = y"

definition parse_line :: "string \<Rightarrow> string \<Rightarrow> line_status \<times> string \<times> string \<times> string" where
  "parse_line input_line sect =
     (let line = smf_core_strstrip input_line
      in if line = [] then (LINE_EMPTY, sect, [], [])
         else if hd line = CHR ''#'' \<or> hd line = CHR '';'' then (LINE_COMMENT, sect, [], [])
         else if hd line = CHR ''['' \<and> last line = CHR '']'' then
           (LINE_SECTION,
            (case scan_set (\<lambda>c. c \<noteq> CHR '']'') (tl line) of None \<Rightarrow> sect | Some (s, _) \<Rightarrow> s), [], [])
         else (case orelse (scan_quoted (CHR 0x22) line)
                      (orelse (scan_quoted (CHR 0x27) line) (scan_bare line)) of
             Some (key, value) \<Rightarrow>
               (LINE_VALUE, sect, key,
                if value = [CHR 0x22, CHR 0x22] \<or> value = [CHR 0x27, CHR 0x27] then [] else value)
           | None \<Rightarrow>
               (case orelse (scan_comment line) (scan_empty line) of
                  Some (key, value) \<Rightarrow> (LINE_VALUE, sect, key, [])
                | None \<Rightarrow> (LINE_ERROR, sect, [], []))))"

section \<open>Assigning a value\<close>

definition facilities :: "(string \<times> facility) list" where
  "facilities =
     [(''auth'', LOG_AUTH), (''authpriv'', LOG_AUTHPRIV), (''cron'', LOG_CRON),
      (''daemon'', LOG_DAEMON), (''ftp'', LOG_FTP), (''kern'', LOG_KERN),
      (''local0'', LOG_LOCAL0), (''local1'', LOG_LOCAL1), (''local2'', LOG_LOCAL2),
      (''local3'', LOG_LOCAL3), (''local4'', LOG_LOCAL4), (''local5'', LOG_LOCAL5),
      (''local6'', LOG_LOCAL6), (''local7'', LOG_LOCAL7), (''lpr'', LOG_LPR),
      (''mail'', LOG_MAIL), (''news'', LOG_NEWS), (''user'', LOG_USER), (''uucp'', LOG_UUCP)]"

definition smf_settings_set_syslog_facility :: "string \<Rightarrow> smf_settings \<Rightarrow> smf_settings" where
  "smf_settings_set_syslog_facility facility s =
     (case find (\<lambda>(name, _). strcasecmp_eq facility name) facilities of
        None \<Rightarrow> s
      | Some (_, f) \<Rightarrow> s\<lparr>s_syslog_facility := f\<rparr>)"

text \<open>
  The key of a pointer that is freed before the new value is checked: an invalid value leaves
  the field pointing at the freed block.
\<close>

definition set_checked :: "string list \<Rightarrow> string \<Rightarrow> cptr \<Rightarrow> cptr c_result" where
  "set_checked allowed val old =
     (case c_free old of
        Inl e \<Rightarrow> Inl e
      | Inr _ \<Rightarrow>
          Inr (if List.member allowed val then StrP val
               else case old of NullP \<Rightarrow> NullP | _ \<Rightarrow> DanglingP))"

type_synonym config = "smf_settings \<times> trace_state"

definition set_global_value :: "loader \<Rightarrow> string \<Rightarrow> string \<Rightarrow> config \<Rightarrow> config c_result" where
  "set_global_value ld key val =
     (\<lambda>(s, t).
      if key = ''debug'' then
        Inr (s\<lparr>s_debug := get_boolean val\<rparr>, configure_debug (get_boolean val) t)
      else if key = ''queue_dir'' then Inr (s\<lparr>s_queue_dir := Some val\<rparr>, t)
      else if key = ''modules'' then
        Inr (foldl (\<lambda>s p. snd (smf_settings_add_module ld (smf_core_strstrip p) s))
               (s\<lparr>s_modules := []\<rparr>) (get_list val), t)
      else if key = ''engine'' then Inr (s\<lparr>s_engine := Some val\<rparr>, t)
      else if key = ''module_fail'' then
        (let i = get_integer val
         in Inr (if i = 1 \<or> i = 2 \<or> i = 3 then s\<lparr>s_module_fail := i\<rparr> else s, t))
      else if key = ''nexthop'' then Inr (s\<lparr>s_nexthop := Some val\<rparr>, t)
      else if key = ''backend'' then
        (case set_checked [''sql'', ''ldap''] val (s_backend s) of
           Inl e \<Rightarrow> Inl e | Inr p \<Rightarrow> Inr (s\<lparr>s_backend := p\<rparr>, t))
      else if key = ''backend_connection'' then
        (case set_checked [''balance'', ''failover''] val (s_backend_connection s) of
           Inl e \<Rightarrow> Inl e | Inr p \<Rightarrow> Inr (s\<lparr>s_backend_connection := p\<rparr>, t))
      else if key = ''add_header'' then Inr (s\<lparr>s_add_header := get_boolean val\<rparr>, t)
      else if key = ''max_size'' then Inr (s\<lparr>s_max_size := word_of_int (get_integer val)\<rparr>, t)
      else if key = ''tls_enable'' then
        (let i = get_integer val
         in Inr (if i = 0 then s\<lparr>s_tls := SMF_TLS_DISABLED\<rparr>
                 else if i = 1 then s\<lparr>s_tls := SMF_TLS_ENABLED\<rparr>
                 else if i = 2 then s\<lparr>s_tls := SMF_TLS_REQUIRED\<rparr> else s, t))
      else if key = ''lib_dir'' then Inr (s\<lparr>s_lib_dir := Some val\<rparr>, t)
      else if key = ''pid_file'' then Inr (s\<lparr>s_pid_file := Some val\<rparr>, t)
      else if key = ''bind_ip'' then Inr (s\<lparr>s_bind_ip := Some val\<rparr>, t)
      else if key = ''bind_port'' then Inr (s\<lparr>s_bind_port := get_integer val\<rparr>, t)
      else if key = ''listen_backlog'' then Inr (s\<lparr>s_listen_backlog := get_integer val\<rparr>, t)
      else if key = ''foreground'' then
        (let fg = get_boolean val
         in Inr (s\<lparr>s_foreground := fg\<rparr>,
                 configure_trace_destination
                   (if fg \<noteq> 0 then TRACE_DEST_STDERR else TRACE_DEST_SYSLOG) t))
      else if key = ''user'' then Inr (s\<lparr>s_user := Some val\<rparr>, t)
      else if key = ''group'' then Inr (s\<lparr>s_group := Some val\<rparr>, t)
      else if key = ''max_childs'' then Inr (s\<lparr>s_max_childs := get_integer val\<rparr>, t)
      else if key = ''spare_childs'' then Inr (s\<lparr>s_spare_childs := get_integer val\<rparr>, t)
      else if key = ''lookup_persistent'' then Inr (s\<lparr>s_lookup_persistent := get_boolean val\<rparr>, t)
      else if key = ''syslog_facility'' then Inr (smf_settings_set_syslog_facility val s, t)
      else Inr (s, t))"

definition set_sql_value :: "string \<Rightarrow> string \<Rightarrow> smf_settings \<Rightarrow> smf_settings c_result" where
  "set_sql_value key val s =
     (if key = ''driver'' then
        (case set_checked [''mysql'', ''postgresql'', ''sqlite''] val (s_sql_driver s) of
           Inl e \<Rightarrow> Inl e | Inr p \<Rightarrow> Inr (s\<lparr>s_sql_driver := p\<rparr>))
      else if key = ''name'' then Inr (s\<lparr>s_sql_name := Some val\<rparr>)
      else if key = ''host'' then Inr (s\<lparr>s_sql_host := map smf_core_strstrip (get_list val)\<rparr>)
      else if key = ''user'' then Inr (s\<lparr>s_sql_user := Some val\<rparr>)
      else if key = ''pass'' then Inr (s\<lparr>s_sql_pass := Some val\<rparr>)
      else if key = ''user_query'' then Inr (s\<lparr>s_sql_user_query := Some val\<rparr>)
      else if key = ''encoding'' then Inr (s\<lparr>s_sql_encoding := Some val\<rparr>)
      else if key = ''max_connections'' then Inr (s\<lparr>s_sql_max_connections := get_integer val\<rparr>)
      else if key = ''port'' then Inr (s\<lparr>s_sql_port := get_integer val\<rparr>)
      else Inr s)"

definition set_ldap_value :: "string \<Rightarrow> string \<Rightarrow> smf_settings \<Rightarrow> smf_settings" where
  "set_ldap_value key val s =
     (if key = ''uri'' then s\<lparr>s_ldap_uri := Some val\<rparr>
      else if key = ''host'' then s\<lparr>s_ldap_host := map smf_core_strstrip (get_list val)\<rparr>
      else if key = ''port'' then s\<lparr>s_ldap_port := get_integer val\<rparr>
      else if key = ''binddn'' then s\<lparr>s_ldap_binddn := Some val\<rparr>
      else if key = ''bindpw'' then s\<lparr>s_ldap_bindpw := Some val\<rparr>
      else if key = ''base'' then s\<lparr>s_ldap_base := Some val\<rparr>
      else if key = ''user_query'' then s\<lparr>s_ldap_user_query := Some val\<rparr>
      else if key = ''result_attributes'' then
        s\<lparr>s_ldap_result_attributes := map smf_core_strstrip (get_list val)\<rparr>
      else if key = ''scope'' then s\<lparr>s_ldap_scope := Some val\<rparr>
      else if key = ''referrals'' then s\<lparr>s_ldap_referrals := get_boolean val\<rparr>
      else s)"

definition set_smtpd_value :: "string \<Rightarrow> string \<Rightarrow> smf_settings \<Rightarrow> smf_settings" where
  "set_smtpd_value key val s =
     (if key = ''nexthop_fail_msg'' then s\<lparr>s_nexthop_fail_msg := Some val\<rparr>
      else if key = ''nexthop_fail_code'' then s\<lparr>s_nexthop_fail_code := get_integer val\<rparr>
      else if key = ''smtpd_timeout'' then s\<lparr>s_smtpd_timeout := get_integer val\<rparr>
      else (let i = get_integer key
            in if 250 \<le> i \<and> i < 600 then s\<lparr>s_smtp_codes := dict_put (s_smtp_codes s) key val\<rparr>
               else s))"

definition set_config_value ::
  "loader \<Rightarrow> string \<Rightarrow> string \<Rightarrow> string \<Rightarrow> config \<Rightarrow> config c_result" where
  "set_config_value ld sect key val st =
     (if val = [] then Inr st
      else if sect = ''global'' then set_global_value ld key val st
      else if sect = ''sql'' then
        (case set_sql_value key val (fst st) of Inl e \<Rightarrow> Inl e | Inr s \<Rightarrow> Inr (s, snd st))
      else if sect = ''ldap'' then Inr (set_ldap_value key val (fst st), snd st)
      else if sect = ''smtpd'' then Inr (set_smtpd_value key val (fst st), snd st)
      else Inr ((fst st)\<lparr>s_groups := dict_put (s_groups (fst st)) (sect @ '':'' @ key) val\<rparr>, snd st))"

section \<open>Reading the file\<close>

text \<open>\<open>fgets (buf, n, in)\<close>: the bytes stored, and the rest of the file.\<close>

definition c_fgets :: "nat \<Rightarrow> string \<Rightarrow> (string \<times> string) option" where
  "c_fgets n s =
     (if s = [] then None
      else (let k = min (n - 1) (length (takeWhile (\<lambda>c. c \<noteq> LF) s) + 1)
            in Some (take k s, drop k s)))"

definition known_section :: "string \<Rightarrow> bool" where
  "known_section s \<longleftrightarrow> s = ''global'' \<or> s = ''smtpd'' \<or> s = ''sql'' \<or> s = ''ldap''"

record parser =
  p_section :: "string option"   \<comment> \<open>\<open>clean_section\<close>, \<open>NULL\<close> before the first section line\<close>
  p_errs :: nat
  p_config :: config

text \<open>The \<open>switch\<close> on the status of one complete line.\<close>

definition parse_step :: "loader \<Rightarrow> string \<Rightarrow> parser \<Rightarrow> parser c_result" where
  "parse_step ld line p =
     (case parse_line line (case p_section p of None \<Rightarrow> [] | Some s \<Rightarrow> s) of
        (sta, sect, key, value) \<Rightarrow>
          (case sta of
             LINE_SECTION \<Rightarrow> Inr (p\<lparr>p_section := Some (smf_core_strstrip sect)\<rparr>)
           | LINE_VALUE \<Rightarrow>
               (case p_section p of
                  None \<Rightarrow> Inl NullDeref
                | Some clean_section \<Rightarrow>
                    (let clean_key = smf_core_strstrip key; clean_val = smf_core_strstrip value
                     in if known_section clean_section then
                          (case set_config_value ld clean_section clean_key clean_val (p_config p) of
                             Inl e \<Rightarrow> Inl e
                           | Inr st \<Rightarrow> Inr (p\<lparr>p_config := st\<rparr>))
                        else
                          (let (s, t) = p_config p
                           in Inr (p\<lparr>p_config :=
                                 (s\<lparr>s_groups := dict_put (s_groups s)
                                      (clean_section @ '':'' @ clean_key) clean_val\<rparr>, t)\<rparr>))))
           | LINE_ERROR \<Rightarrow> Inr (p\<lparr>p_errs := Suc (p_errs p)\<rparr>)
           | _ \<Rightarrow> Inr p))"

text \<open>
  The loop.  \<open>pre\<close> is what \<open>last\<close> bytes of \<open>line\<close> an earlier line left behind (one whose last
  byte was a backslash).  A line of one byte is skipped.  Every round reads at least one byte, so
  fuel above the length of the file is enough (\<open>parse_loop_total\<close>).
\<close>

fun parse_loop :: "nat \<Rightarrow> loader \<Rightarrow> string \<Rightarrow> string \<Rightarrow> parser \<Rightarrow> parser c_result option" where
  "parse_loop 0 ld pre inp p = None"
| "parse_loop (Suc fuel) ld pre inp p =
     (case c_fgets (MAX_LINE - length pre) inp of
        None \<Rightarrow> Some (Inr p)
      | Some (chunk, rest) \<Rightarrow>
          (let line = pre @ chunk
           in if length line = 1 then parse_loop fuel ld pre rest p
              else if last line = CHR 0x5C then parse_loop fuel ld (butlast line) rest p
              else (case parse_step ld line p of
                      Inl e \<Rightarrow> Some (Inl e)
                    | Inr p' \<Rightarrow> parse_loop fuel ld [] rest p')))"

section \<open>The final checks\<close>

definition default_to :: "string \<Rightarrow> string option \<Rightarrow> string option" where
  "default_to d v = (case v of None \<Rightarrow> Some d | Some x \<Rightarrow> Some x)"

text \<open>The checks of one backend: whether they passed, and the settings with the defaults.\<close>

definition check_sql :: "smf_settings \<Rightarrow> (bool \<times> smf_settings) c_result" where
  "check_sql s =
     (if s_sql_driver s = NullP then Inr (False, s)
      else if s_sql_name s = None then Inr (False, s)
      else (case c_read (s_sql_driver s) of
         Inl e \<Rightarrow> Inl e
       | Inr None \<Rightarrow> Inr (False, s)
       | Inr (Some driver) \<Rightarrow>
           if (driver = ''mysql'' \<or> driver = ''postgresql'') \<and> s_sql_host s = [] then Inr (False, s)
           else if driver = ''mysql'' \<and> s_sql_port s = 0 then Inr (True, s\<lparr>s_sql_port := 3306\<rparr>)
           else if driver = ''postgresql'' \<and> s_sql_port s = 0 then Inr (True, s\<lparr>s_sql_port := 5432\<rparr>)
           else Inr (True, s)))"

definition check_ldap :: "smf_settings \<Rightarrow> bool \<times> smf_settings" where
  "check_ldap s =
     (let s1 = (if s_ldap_port s = 0 then s\<lparr>s_ldap_port := 389\<rparr> else s);
          s2 = s1\<lparr>s_ldap_base := default_to [] (s_ldap_base s1)\<rparr>
      in case s_ldap_scope s2 of
           None \<Rightarrow> (True, s2\<lparr>s_ldap_scope := Some ''subtree''\<rparr>)
         | Some scope \<Rightarrow> (scope = ''base'' \<or> scope = ''onlevel'' \<or> scope = ''subtree'', s2))"

definition check_backend :: "smf_settings \<Rightarrow> (bool \<times> smf_settings) c_result" where
  "check_backend s =
     (case c_read (s_backend s) of
        Inl e \<Rightarrow> Inl e
      | Inr None \<Rightarrow> Inr (True, s)
      | Inr (Some b) \<Rightarrow>
          if b = ''sql'' then check_sql s
          else if b = ''ldap'' then Inr (check_ldap s)
          else Inr (True, s))"

definition check_settings :: "smf_settings \<Rightarrow> (int \<times> smf_settings) c_result" where
  "check_settings s =
     (let s1 = s\<lparr>s_queue_dir := default_to ''/var/spool/spmfilter'' (s_queue_dir s)\<rparr>
      in if s_engine s1 = None then Inr (- 1, s1)
         else if CHILD_LIMIT < s_max_childs s1 then Inr (- 1, s1)
         else (let s2 = (if s_backend_connection s1 = NullP
                         then s1\<lparr>s_backend_connection := StrP ''failover''\<rparr> else s1)
               in case check_backend s2 of
                    Inl e \<Rightarrow> Inl e
                  | Inr (False, s3) \<Rightarrow> Inr (- 1, s3)
                  | Inr (True, s3) \<Rightarrow>
                      Inr (0, s3\<lparr>s_nexthop_fail_msg := default_to
                        ''Requested action aborted: local error in processing''
                        (s_nexthop_fail_msg s3)\<rparr>)))"

text \<open>
  \<open>smf_settings_parse_config\<close>: \<open>inp\<close> gives the content of a path that can be opened.
\<close>

definition smf_settings_parse_config ::
  "loader \<Rightarrow> (string \<Rightarrow> string option) \<Rightarrow> string option \<Rightarrow> config \<Rightarrow> (int \<times> config) c_result option" where
  "smf_settings_parse_config ld inp alternate_file st =
     (let path = (case alternate_file of Some f \<Rightarrow> f | None \<Rightarrow> ''/etc/spmfilter.conf'');
          s0 = (fst st)\<lparr>s_config_file := Some path\<rparr>
      in case inp path of
           None \<Rightarrow> Some (Inr (- 1, s0, snd st))
         | Some content \<Rightarrow>
             (case parse_loop (Suc (length content)) ld [] content
                     \<lparr>p_section = None, p_errs = 0, p_config = (s0, snd st)\<rparr> of
                None \<Rightarrow> None
              | Some (Inl e) \<Rightarrow> Some (Inl e)
              | Some (Inr p) \<Rightarrow>
                  (case check_settings (fst (p_config p)) of
                     Inl e \<Rightarrow> Some (Inl e)
                   | Inr (rc, s) \<Rightarrow> Some (Inr (rc, s, snd (p_config p))))))"

section \<open>Custom groups and SMTP codes\<close>

definition smf_settings_group_get :: "smf_settings \<Rightarrow> string \<Rightarrow> string \<Rightarrow> string option" where
  "smf_settings_group_get s group_name key = smf_dict_get (s_groups s) (group_name @ '':'' @ key)"

definition smf_settings_group_get_integer :: "smf_settings \<Rightarrow> string \<Rightarrow> string \<Rightarrow> int c_result" where
  "smf_settings_group_get_integer s group_name key =
     (case smf_settings_group_get s group_name key of
        None \<Rightarrow> Inl NullDeref
      | Some v \<Rightarrow> Inr (get_integer v))"

definition smf_settings_group_get_boolean :: "smf_settings \<Rightarrow> string \<Rightarrow> string \<Rightarrow> int" where
  "smf_settings_group_get_boolean s group_name key =
     (case smf_settings_group_get s group_name key of None \<Rightarrow> 0 | Some v \<Rightarrow> get_boolean v)"

definition smf_settings_group_get_list :: "smf_settings \<Rightarrow> string \<Rightarrow> string \<Rightarrow> string list c_result" where
  "smf_settings_group_get_list s group_name key =
     (case smf_settings_group_get s group_name key of
        None \<Rightarrow> Inl AssertFailed
      | Some v \<Rightarrow> Inr (map smf_core_strstrip (fst (smf_core_strsplit v '';''))))"

definition smf_settings_set_smtp_code :: "int \<Rightarrow> string \<Rightarrow> smf_settings \<Rightarrow> int \<times> smf_settings" where
  "smf_settings_set_smtp_code code msg s =
     (0, s\<lparr>s_smtp_codes := dict_put (s_smtp_codes s) (string_of_int code) msg\<rparr>)"

definition smf_settings_get_smtp_code :: "smf_settings \<Rightarrow> int \<Rightarrow> string option" where
  "smf_settings_get_smtp_code s code = smf_dict_get (s_smtp_codes s) (string_of_int code)"

section \<open>The parser returns\<close>

lemma c_fgets_bounds:
  assumes "c_fgets n inp = Some (chunk, rest)" and "2 \<le> n"
  shows "chunk \<noteq> [] \<and> length chunk < n \<and> length rest < length inp \<and> inp = chunk @ rest"
  using assms by (auto simp: c_fgets_def Let_def split: if_splits)

lemma parse_loop_total:
  "length inp < fuel \<Longrightarrow> length pre \<le> 198 \<Longrightarrow> parse_loop fuel ld pre inp p \<noteq> None"
proof (induction fuel arbitrary: pre inp p)
  case 0
  then show ?case by simp
next
  case (Suc fuel)
  show ?case
  proof (cases "c_fgets (MAX_LINE - length pre) inp")
    case None
    then show ?thesis by simp
  next
    case (Some cr)
    obtain chunk rest where cr: "cr = (chunk, rest)" by (cases cr)
    have b: "length chunk < MAX_LINE - length pre" "length rest < length inp"
      using c_fgets_bounds [of "MAX_LINE - length pre" inp chunk rest] Some cr Suc.prems
      by (auto simp: MAX_LINE_def)
    then have "length (butlast (pre @ chunk)) \<le> 198" by (auto simp: MAX_LINE_def)
    then have "parse_loop fuel ld (butlast (pre @ chunk)) rest q \<noteq> None"
      "parse_loop fuel ld [] rest q \<noteq> None" "parse_loop fuel ld pre rest q \<noteq> None" for q
      using Suc.prems b by (intro Suc.IH; simp)+
    then show ?thesis using Some cr by (auto simp: Let_def split: sum.splits)
  qed
qed

section \<open>Invariant\<close>

definition one_of :: "string list \<Rightarrow> cptr \<Rightarrow> bool" where
  "one_of allowed p = (case p of StrP s \<Rightarrow> List.member allowed s | _ \<Rightarrow> True)"

definition is_flag :: "int \<Rightarrow> bool" where
  "is_flag i \<longleftrightarrow> i = 0 \<or> i = 1"

text \<open>What the checks of the code guarantee of every field they guard.\<close>

definition settings_ok :: "smf_settings \<Rightarrow> bool" where
  "settings_ok s \<longleftrightarrow>
     (s_module_fail s = 1 \<or> s_module_fail s = 2 \<or> s_module_fail s = 3) \<and>
     dict_ok (s_smtp_codes s) \<and> dict_ok (s_groups s) \<and>
     list_all (\<lambda>k. 250 \<le> get_integer k \<and> get_integer k < 600) (smf_dict_get_keys (s_smtp_codes s)) \<and>
     one_of [''sql'', ''ldap''] (s_backend s) \<and>
     one_of [''balance'', ''failover''] (s_backend_connection s) \<and>
     one_of [''mysql'', ''postgresql'', ''sqlite''] (s_sql_driver s) \<and>
     is_flag (s_debug s) \<and> is_flag (s_add_header s) \<and> is_flag (s_foreground s) \<and>
     is_flag (s_lookup_persistent s) \<and> is_flag (s_ldap_referrals s)"

lemma is_flag_boolean [simp]: "is_flag (get_boolean val)"
  by (auto simp: is_flag_def get_boolean_def split: list.splits)

lemma one_of_checked: "set_checked allowed val old = Inr p \<Longrightarrow> one_of allowed p"
  by (cases old) (auto simp: set_checked_def one_of_def split: if_splits)

lemma settings_ok_new [smf_inv]: "settings_ok smf_settings_new"
proof -
  have "smf_dict_get_keys smf_dict_new = []"
    using arrays.set_keys [OF dict_ok_new] arrays.get_empty by (metis dom_empty set_empty)
  then show ?thesis
    by (simp add: settings_ok_def smf_settings_new_def dict_ok_new one_of_def is_flag_def)
qed

lemma settings_ok_frame [simp, smf_frame]:
  "settings_ok (s\<lparr>s_config_file := x0\<rparr>) = settings_ok s"
  "settings_ok (s\<lparr>s_queue_dir := x1\<rparr>) = settings_ok s"
  "settings_ok (s\<lparr>s_engine := x2\<rparr>) = settings_ok s"
  "settings_ok (s\<lparr>s_modules := x3\<rparr>) = settings_ok s"
  "settings_ok (s\<lparr>s_nexthop := x4\<rparr>) = settings_ok s"
  "settings_ok (s\<lparr>s_nexthop_fail_code := x5\<rparr>) = settings_ok s"
  "settings_ok (s\<lparr>s_nexthop_fail_msg := x6\<rparr>) = settings_ok s"
  "settings_ok (s\<lparr>s_max_size := x7\<rparr>) = settings_ok s"
  "settings_ok (s\<lparr>s_tls := x8\<rparr>) = settings_ok s"
  "settings_ok (s\<lparr>s_lib_dir := x9\<rparr>) = settings_ok s"
  "settings_ok (s\<lparr>s_pid_file := x10\<rparr>) = settings_ok s"
  "settings_ok (s\<lparr>s_bind_ip := x11\<rparr>) = settings_ok s"
  "settings_ok (s\<lparr>s_bind_port := x12\<rparr>) = settings_ok s"
  "settings_ok (s\<lparr>s_listen_backlog := x13\<rparr>) = settings_ok s"
  "settings_ok (s\<lparr>s_user := x14\<rparr>) = settings_ok s"
  "settings_ok (s\<lparr>s_group := x15\<rparr>) = settings_ok s"
  "settings_ok (s\<lparr>s_max_childs := x16\<rparr>) = settings_ok s"
  "settings_ok (s\<lparr>s_spare_childs := x17\<rparr>) = settings_ok s"
  "settings_ok (s\<lparr>s_syslog_facility := x18\<rparr>) = settings_ok s"
  "settings_ok (s\<lparr>s_smtpd_timeout := x19\<rparr>) = settings_ok s"
  "settings_ok (s\<lparr>s_sql_name := x20\<rparr>) = settings_ok s"
  "settings_ok (s\<lparr>s_sql_host := x21\<rparr>) = settings_ok s"
  "settings_ok (s\<lparr>s_sql_port := x22\<rparr>) = settings_ok s"
  "settings_ok (s\<lparr>s_sql_user := x23\<rparr>) = settings_ok s"
  "settings_ok (s\<lparr>s_sql_pass := x24\<rparr>) = settings_ok s"
  "settings_ok (s\<lparr>s_sql_user_query := x25\<rparr>) = settings_ok s"
  "settings_ok (s\<lparr>s_sql_encoding := x26\<rparr>) = settings_ok s"
  "settings_ok (s\<lparr>s_sql_max_connections := x27\<rparr>) = settings_ok s"
  "settings_ok (s\<lparr>s_ldap_uri := x28\<rparr>) = settings_ok s"
  "settings_ok (s\<lparr>s_ldap_host := x29\<rparr>) = settings_ok s"
  "settings_ok (s\<lparr>s_ldap_port := x30\<rparr>) = settings_ok s"
  "settings_ok (s\<lparr>s_ldap_binddn := x31\<rparr>) = settings_ok s"
  "settings_ok (s\<lparr>s_ldap_bindpw := x32\<rparr>) = settings_ok s"
  "settings_ok (s\<lparr>s_ldap_base := x33\<rparr>) = settings_ok s"
  "settings_ok (s\<lparr>s_ldap_scope := x34\<rparr>) = settings_ok s"
  "settings_ok (s\<lparr>s_ldap_user_query := x35\<rparr>) = settings_ok s"
  "settings_ok (s\<lparr>s_ldap_result_attributes := x36\<rparr>) = settings_ok s"
  "settings_ok (s\<lparr>s_lookup_connection_type := x37\<rparr>) = settings_ok s"
  "settings_ok (s\<lparr>s_lookup_connection := x38\<rparr>) = settings_ok s"
  by (simp_all add: settings_ok_def)

text \<open>The guarded fields: a legal value keeps the invariant.\<close>

lemma settings_ok_guarded [simp, smf_inv]:
  "settings_ok s \<Longrightarrow> is_flag i \<Longrightarrow> settings_ok (s\<lparr>s_debug := i\<rparr>)"
  "settings_ok s \<Longrightarrow> is_flag i \<Longrightarrow> settings_ok (s\<lparr>s_add_header := i\<rparr>)"
  "settings_ok s \<Longrightarrow> is_flag i \<Longrightarrow> settings_ok (s\<lparr>s_foreground := i\<rparr>)"
  "settings_ok s \<Longrightarrow> is_flag i \<Longrightarrow> settings_ok (s\<lparr>s_lookup_persistent := i\<rparr>)"
  "settings_ok s \<Longrightarrow> is_flag i \<Longrightarrow> settings_ok (s\<lparr>s_ldap_referrals := i\<rparr>)"
  "settings_ok s \<Longrightarrow> i = 1 \<or> i = 2 \<or> i = 3 \<Longrightarrow> settings_ok (s\<lparr>s_module_fail := i\<rparr>)"
  "settings_ok s \<Longrightarrow> one_of [''sql'', ''ldap''] p \<Longrightarrow> settings_ok (s\<lparr>s_backend := p\<rparr>)"
  "settings_ok s \<Longrightarrow> one_of [''balance'', ''failover''] p \<Longrightarrow>
   settings_ok (s\<lparr>s_backend_connection := p\<rparr>)"
  "settings_ok s \<Longrightarrow> one_of [''mysql'', ''postgresql'', ''sqlite''] p \<Longrightarrow>
   settings_ok (s\<lparr>s_sql_driver := p\<rparr>)"
  "settings_ok s \<Longrightarrow> dict_ok d \<Longrightarrow> settings_ok (s\<lparr>s_groups := d\<rparr>)"
  by (simp_all add: settings_ok_def)

lemma settings_ok_add_modules [simp]:
  "settings_ok s \<Longrightarrow> settings_ok (foldl (\<lambda>s p. snd (smf_settings_add_module ld (f p) s)) s ps)"
  by (induction ps arbitrary: s) (simp_all add: smf_settings_add_module_def)

lemma settings_ok_facility [simp]:
  "settings_ok (smf_settings_set_syslog_facility f s) = settings_ok s"
  by (simp add: smf_settings_set_syslog_facility_def split: option.splits prod.splits)

lemma is_flag_simps [simp]: "is_flag 0" "is_flag 1"
  by (simp_all add: is_flag_def)

lemma settings_ok_global:
  "settings_ok s \<Longrightarrow> set_global_value ld key val (s, t) = Inr (s', t') \<Longrightarrow> settings_ok s'"
  unfolding set_global_value_def Let_def
  by (simp split: if_split_asm sum.split_asm; clarsimp simp: one_of_checked)

lemma settings_ok_sql:
  "settings_ok s \<Longrightarrow> set_sql_value key val s = Inr s' \<Longrightarrow> settings_ok s'"
  unfolding set_sql_value_def
  by (simp split: if_split_asm sum.split_asm; clarsimp simp: one_of_checked)

lemma settings_ok_ldap: "settings_ok s \<Longrightarrow> settings_ok (set_ldap_value key val s)"
  unfolding set_ldap_value_def by simp

lemma settings_ok_smtpd:
  assumes "settings_ok s"
  shows "settings_ok (set_smtpd_value key val s)"
proof -
  have ok: "dict_ok (s_smtp_codes s)" using assms by (simp add: settings_ok_def)
  then have "set (smf_dict_get_keys (dict_put (s_smtp_codes s) key val)) =
      insert key (set (smf_dict_get_keys (s_smtp_codes s)))"
    by (simp add: arrays.set_keys arrays.inv_put arrays.get_put)
  with assms show ?thesis
    unfolding set_smtpd_value_def Let_def
    by (auto simp: settings_ok_def dict_ok_put list_all_iff)
qed

lemma settings_ok_group_put:
  "settings_ok s \<Longrightarrow> settings_ok (s\<lparr>s_groups := dict_put (s_groups s) k v\<rparr>)"
  by (simp add: dict_ok_put settings_ok_def [of s])

lemma settings_ok_set_config_value [smf_inv]:
  assumes "settings_ok (fst st)" and "set_config_value ld sect key val st = Inr st'"
  shows "settings_ok (fst st')"
  using assms settings_ok_global [of "fst st" ld key val "snd st" "fst st'" "snd st'"]
    settings_ok_sql [of "fst st" key val "fst st'"]
  unfolding set_config_value_def
  by (auto simp: settings_ok_ldap settings_ok_smtpd settings_ok_group_put
      split: if_splits sum.splits)

lemma settings_ok_parse_step:
  assumes "settings_ok (fst (p_config p))" and "parse_step ld line p = Inr p'"
  shows "settings_ok (fst (p_config p'))"
  using assms settings_ok_set_config_value [of "p_config p"] unfolding parse_step_def Let_def
  by (fastforce simp: settings_ok_group_put
      split: prod.splits line_status.splits option.splits if_splits sum.splits)

lemma settings_ok_parse_loop:
  "settings_ok (fst (p_config p)) \<Longrightarrow> parse_loop fuel ld pre inp p = Some (Inr p') \<Longrightarrow>
   settings_ok (fst (p_config p'))"
proof (induction fuel ld pre inp p rule: parse_loop.induct)
  case (1 ld pre inp p)
  then show ?case by simp
next
  case (2 fuel ld pre inp p)
  show ?case
  proof (cases "c_fgets (MAX_LINE - length pre) inp")
    case None
    with "2.prems" show ?thesis by simp
  next
    case (Some cr)
    obtain chunk rest where cr: "cr = (chunk, rest)" by (cases cr)
    show ?thesis
    proof (cases "length (pre @ chunk) = 1 \<or> last (pre @ chunk) = CHR 0x5C")
      case True
      with "2.prems" "2.IH"(1,2) [OF Some cr [symmetric] refl] Some cr show ?thesis
        by (auto simp: Let_def split: if_splits)
    next
      case False
      then obtain q where q: "parse_step ld (pre @ chunk) p = Inr q" "parse_loop fuel ld [] rest q = Some (Inr p')"
        using "2.prems" Some cr by (auto simp: Let_def split: sum.splits)
      from settings_ok_parse_step [OF "2.prems"(1) q(1)] q "2.IH"(3) [OF Some cr [symmetric] refl] False
      show ?thesis by auto
    qed
  qed
qed

section \<open>What a successful run of the parser has established\<close>

definition settings_ready :: "smf_settings \<Rightarrow> bool" where
  "settings_ready s \<longleftrightarrow>
     s_engine s \<noteq> None \<and> s_queue_dir s \<noteq> None \<and> s_max_childs s \<le> CHILD_LIMIT \<and>
     s_nexthop_fail_msg s \<noteq> None \<and> s_backend_connection s \<noteq> NullP \<and>
     (s_backend s = StrP ''sql'' \<longrightarrow> s_sql_driver s \<noteq> NullP \<and> s_sql_name s \<noteq> None) \<and>
     (s_backend s = StrP ''ldap'' \<longrightarrow> s_ldap_port s \<noteq> 0 \<and> s_ldap_base s \<noteq> None \<and>
        (s_ldap_scope s = Some ''base'' \<or> s_ldap_scope s = Some ''onlevel'' \<or>
         s_ldap_scope s = Some ''subtree''))"

lemma default_to_some [simp]: "default_to d v \<noteq> None" "\<exists>y. default_to d v = Some y"
  by (auto simp: default_to_def split: option.splits)

text \<open>The fields the backend checks leave alone.\<close>

definition same_base :: "smf_settings \<Rightarrow> smf_settings \<Rightarrow> bool" where
  "same_base s s' \<longleftrightarrow>
     s_engine s' = s_engine s \<and> s_queue_dir s' = s_queue_dir s \<and> s_max_childs s' = s_max_childs s \<and>
     s_backend_connection s' = s_backend_connection s \<and> s_backend s' = s_backend s"

lemma check_sql_frame:
  assumes "check_sql s = Inr (b, s')"
  shows "(settings_ok s \<longrightarrow> settings_ok s') \<and> same_base s s' \<and>
    (b \<longrightarrow> s_sql_driver s' \<noteq> NullP \<and> s_sql_name s' \<noteq> None)"
proof (cases "s_sql_driver s = NullP \<or> s_sql_name s = None")
  case True
  with assms have "s' = s \<and> \<not> b" by (auto simp: check_sql_def split: if_splits)
  then show ?thesis by (simp add: same_base_def)
next
  case False
  then have "s_sql_driver s \<noteq> NullP" "s_sql_name s \<noteq> None" by auto
  with assms show ?thesis
    by (cases "s_sql_driver s") (auto simp: check_sql_def same_base_def split: if_splits)
qed

lemma check_ldap_frame:
  assumes "check_ldap s = (b, s')"
  shows "(settings_ok s \<longrightarrow> settings_ok s') \<and> same_base s s' \<and>
    (b \<longrightarrow> s_ldap_port s' \<noteq> 0 \<and> s_ldap_base s' \<noteq> None \<and>
       (s_ldap_scope s' = Some ''base'' \<or> s_ldap_scope s' = Some ''onlevel'' \<or>
        s_ldap_scope s' = Some ''subtree''))"
proof (cases "s_ldap_port s = 0")
  case True
  with assms show ?thesis
    by (cases "s_ldap_scope s") (auto simp: check_ldap_def Let_def same_base_def)
next
  case False
  with assms show ?thesis
    by (cases "s_ldap_scope s") (auto simp: check_ldap_def Let_def same_base_def)
qed

lemma check_backend_frame:
  assumes "check_backend s = Inr (b, s')"
  shows "(settings_ok s \<longrightarrow> settings_ok s') \<and> same_base s s' \<and>
    (b \<longrightarrow>
      (s_backend s = StrP ''sql'' \<longrightarrow> s_sql_driver s' \<noteq> NullP \<and> s_sql_name s' \<noteq> None) \<and>
      (s_backend s = StrP ''ldap'' \<longrightarrow> s_ldap_port s' \<noteq> 0 \<and> s_ldap_base s' \<noteq> None \<and>
        (s_ldap_scope s' = Some ''base'' \<or> s_ldap_scope s' = Some ''onlevel'' \<or>
         s_ldap_scope s' = Some ''subtree'')))"
proof (cases "s_backend s")
  case (StrP be)
  consider "be = ''sql''" | "be = ''ldap''" | "be \<noteq> ''sql''" "be \<noteq> ''ldap''" by blast
  then show ?thesis
  proof cases
    case 1
    with assms StrP have "check_sql s = Inr (b, s')" by (simp add: check_backend_def)
    from check_sql_frame [OF this] 1 StrP show ?thesis by auto
  next
    case 2
    with assms StrP have "check_ldap s = (b, s')" by (simp add: check_backend_def)
    from check_ldap_frame [OF this] 2 StrP show ?thesis by auto
  next
    case 3
    with assms StrP show ?thesis by (auto simp: check_backend_def same_base_def)
  qed
qed (use assms in \<open>simp_all add: check_backend_def same_base_def\<close>)

lemma check_settings_ready:
  assumes ok: "settings_ok s" and run: "check_settings s = Inr (rc, s')"
  shows "settings_ok s' \<and> (rc = 0 \<longrightarrow> settings_ready s')"
proof -
  define s1 where "s1 = s\<lparr>s_queue_dir := default_to ''/var/spool/spmfilter'' (s_queue_dir s)\<rparr>"
  define s2 where "s2 = (if s_backend_connection s1 = NullP
      then s1\<lparr>s_backend_connection := StrP ''failover''\<rparr> else s1)"
  have ok1: "settings_ok s1" using ok by (simp add: s1_def)
  then have ok2: "settings_ok s2" by (auto simp: s2_def one_of_def)
  have conn: "s_backend_connection s2 \<noteq> NullP" by (simp add: s2_def)
  have keep: "s_queue_dir s2 \<noteq> None" "s_engine s2 = s_engine s1" "s_max_childs s2 = s_max_childs s1"
    by (simp_all add: s2_def s1_def)
  show ?thesis
  proof (cases "s_engine s1 = None \<or> CHILD_LIMIT < s_max_childs s1")
    case True
    with run have "rc = - 1 \<and> s' = s1"
      unfolding check_settings_def Let_def s1_def [symmetric] by (auto split: if_splits)
    with ok1 show ?thesis by simp
  next
    case False
    obtain b s3 where b: "check_backend s2 = Inr (b, s3)"
      using run False unfolding check_settings_def Let_def s1_def [symmetric] s2_def [symmetric]
      by (auto split: sum.splits prod.splits)
    have res: "rc = (if b then 0 else - 1)" "s' = (if b then s3\<lparr>s_nexthop_fail_msg := default_to
        ''Requested action aborted: local error in processing'' (s_nexthop_fail_msg s3)\<rparr> else s3)"
      using run False b unfolding check_settings_def Let_def s1_def [symmetric] s2_def [symmetric]
      by (auto split: bool.splits)
    note fr = check_backend_frame [OF b]
    show ?thesis
    proof (cases b)
      case True
      with res fr ok2 conn keep False show ?thesis by (auto simp: settings_ready_def same_base_def)
    next
      case False
      with res fr ok2 show ?thesis by simp
    qed
  qed
qed

section \<open>A rendered group is read back\<close>

definition trimmed :: "string \<Rightarrow> bool" where
  "trimmed s \<longleftrightarrow> s \<noteq> [] \<and> \<not> c_isspace (hd s) \<and> \<not> c_isspace (last s)"

lemma strstrip_trimmed [simp]: "trimmed s \<Longrightarrow> smf_core_strstrip s = s"
proof -
  assume t: "trimmed s"
  then have "dropWhile c_isspace s = s" by (cases s) (auto simp: trimmed_def)
  moreover have "dropWhile c_isspace (rev s) = rev s"
    using t by (cases s rule: rev_cases) (auto simp: trimmed_def)
  ultimately show ?thesis by (simp add: smf_core_strstrip_eq)
qed

lemma strstrip_snoc [simp]: "c_isspace c \<Longrightarrow> smf_core_strstrip (s @ [c]) = smf_core_strstrip s"
proof -
  assume c: "c_isspace c"
  show ?thesis
  proof (cases "\<forall>x \<in> set s. c_isspace x")
    case True
    then have "dropWhile c_isspace s = []" "dropWhile c_isspace (s @ [c]) = []"
      using c by (auto simp: dropWhile_eq_Nil_conv)
    then show ?thesis by (simp only: smf_core_strstrip_eq)
  next
    case False
    then have "dropWhile c_isspace (s @ [c]) = dropWhile c_isspace s @ [c]"
      by (induction s) auto
    with c show ?thesis by (simp add: smf_core_strstrip_eq)
  qed
qed

lemma strstrip_nil [simp]: "smf_core_strstrip [] = []"
  by (simp add: smf_core_strstrip_eq)

definition render_entry :: "string \<times> string \<Rightarrow> string" where
  "render_entry = (\<lambda>(k, v). k @ '' = '' @ [CHR 0x22] @ v @ [CHR 0x22])"

definition render_group :: "string \<Rightarrow> (string \<times> string) list \<Rightarrow> string" where
  "render_group g kvs = ''['' @ g @ '']'' @ lf @ concat (map (\<lambda>e. render_entry e @ lf) kvs)"

definition good_name :: "string \<Rightarrow> bool" where
  "good_name g \<longleftrightarrow> trimmed g \<and> CHR '']'' \<notin> set g \<and> LF \<notin> set g \<and> length g < 190 \<and> \<not> known_section g"

definition good_entry :: "string \<times> string \<Rightarrow> bool" where
  "good_entry = (\<lambda>(k, v).
     trimmed k \<and> CHR ''='' \<notin> set k \<and> LF \<notin> set k \<and> \<not> List.member ''#;['' (hd k) \<and>
     (v = [] \<or> trimmed v) \<and> CHR 0x22 \<notin> set v \<and> LF \<notin> set v \<and> v \<noteq> [CHR 0x27, CHR 0x27] \<and>
     length k + length v < 190)"

lemma parse_line_section:
  assumes "good_name g"
  shows "parse_line (''['' @ g @ '']'' @ lf) sect = (LINE_SECTION, g, [], [])"
proof -
  have t: "trimmed (''['' @ g @ '']'')" by (simp add: trimmed_def c_isspace_def)
  then have "smf_core_strstrip ((''['' @ g @ '']'') @ [LF]) = ''['' @ g @ '']''"
    by (simp only: strstrip_snoc c_isspace_simps strstrip_trimmed)
  then have strip: "smf_core_strstrip (''['' @ g @ '']'' @ lf) = ''['' @ g @ '']''"
    by (simp add: lf_def)
  have "scan_set (\<lambda>c. c \<noteq> CHR '']'') (g @ '']'') = Some (g, '']'')"
    using assms by (simp add: scan_set_def good_name_def trimmed_def)
  with strip show ?thesis by (simp add: parse_line_def Let_def)
qed

lemma parse_line_entry:
  assumes "good_entry (k, v)"
  shows "parse_line (render_entry (k, v) @ lf) sect = (LINE_VALUE, sect, k @ '' '', v)"
proof -
  let ?line = "k @ '' = '' @ [CHR 0x22] @ v @ [CHR 0x22]"
  have k: "k \<noteq> []" "\<not> c_isspace (hd k)" "CHR ''='' \<notin> set k" "CHR 0x22 \<notin> set v"
    "hd k \<noteq> CHR ''#''" "hd k \<noteq> CHR '';''" "hd k \<noteq> CHR ''[''" "v \<noteq> [CHR 0x27, CHR 0x27]"
    using assms by (auto simp: good_entry_def trimmed_def)
  have "trimmed ?line" using k by (simp add: trimmed_def c_isspace_def)
  then have "smf_core_strstrip (?line @ [LF]) = ?line"
    by (simp only: strstrip_snoc c_isspace_simps strstrip_trimmed)
  then have strip: "smf_core_strstrip (render_entry (k, v) @ lf) = ?line"
    by (simp add: render_entry_def lf_def)
  have eq: "CHR ''='' \<notin> set (k @ '' '')" using k by simp
  have "scan_set (\<lambda>c. c \<noteq> CHR ''='') ((k @ '' '') @ CHR ''='' # '' '' @ [CHR 0x22] @ v @ [CHR 0x22]) =
      Some (k @ '' '', CHR ''='' # '' '' @ [CHR 0x22] @ v @ [CHR 0x22])"
    unfolding scan_set_def takeWhile_neq_found [OF eq] dropWhile_neq_found [OF eq] by simp
  then have key: "scan_key ?line = Some (k @ '' '', [CHR 0x22] @ v @ [CHR 0x22])"
    by (simp add: scan_key_def scan_char_def c_isspace_def)
  have val: "orelse (scan_quoted (CHR 0x22) ?line) (orelse (scan_quoted (CHR 0x27) ?line) (scan_bare ?line)) =
      Some (k @ '' '', if v = [] then [CHR 0x22, CHR 0x22] else v)"
  proof (cases "v = []")
    case True
    then show ?thesis
      using key by (simp add: scan_quoted_def scan_bare_def scan_char_def scan_set_def)
  next
    case False
    then show ?thesis
      using key k by (simp add: scan_quoted_def scan_char_def scan_set_def)
  qed
  have v2: "v \<noteq> [CHR 0x22, CHR 0x22]" using k by auto
  have "?line \<noteq> []" "hd ?line = hd k" using k by auto
  with strip val k v2 show ?thesis by (auto simp: parse_line_def Let_def)
qed

lemma parse_loop_line:
  assumes "LF \<notin> set l" and "l \<noteq> []" and "length l \<le> 198"
  shows "parse_loop (Suc fuel) ld [] (l @ LF # rest) p =
    (case parse_step ld (l @ lf) p of Inl e \<Rightarrow> Some (Inl e) | Inr p' \<Rightarrow> parse_loop fuel ld [] rest p')"
proof -
  have "c_fgets MAX_LINE (l @ LF # rest) = Some (l @ [LF], rest)"
    using assms by (simp add: c_fgets_def MAX_LINE_def)
  moreover have "length (l @ [LF]) \<noteq> 1" using assms by simp
  ultimately show ?thesis by (simp add: lf_def)
qed

lemma parse_step_section:
  "good_name g \<Longrightarrow> parse_step ld (''['' @ g @ '']'' @ lf) p = Inr (p\<lparr>p_section := Some g\<rparr>)"
  by (simp only: parse_step_def parse_line_section) (simp add: good_name_def)

lemma parse_step_entry:
  assumes "good_entry (k, v)" and "p_section p = Some g" and "\<not> known_section g"
  shows "parse_step ld (render_entry (k, v) @ lf) p =
    Inr (p\<lparr>p_config := ((fst (p_config p))\<lparr>s_groups :=
          dict_put (s_groups (fst (p_config p))) (g @ '':'' @ k) v\<rparr>, snd (p_config p))\<rparr>)"
proof -
  have kv: "trimmed k" "v = [] \<or> trimmed v" using assms(1) by (auto simp: good_entry_def)
  have "smf_core_strstrip (k @ [CHR '' '']) = k" using kv by (simp only: strstrip_snoc c_isspace_simps strstrip_trimmed)
  moreover have "smf_core_strstrip v = v" using kv by auto
  ultimately show ?thesis
    using assms by (simp only: parse_step_def parse_line_entry) (simp add: Let_def split: prod.splits)
qed

text \<open>The map a list of entries stands for: a later entry of a key replaces an earlier one.\<close>

definition group_map :: "string \<Rightarrow> (string \<times> string) list \<Rightarrow> (string \<rightharpoonup> string) \<Rightarrow> string \<rightharpoonup> string" where
  "group_map g kvs m = foldl (\<lambda>m (k, v). m(g @ '':'' @ k \<mapsto> v)) m kvs"

lemma group_map_get:
  "group_map g kvs m (g @ '':'' @ k) =
     (case map_of (rev kvs) k of None \<Rightarrow> m (g @ '':'' @ k) | Some v \<Rightarrow> Some v)"
  by (induction kvs arbitrary: m rule: rev_induct) (auto simp: group_map_def split: option.splits)

lemma parse_entries:
  "list_all good_entry kvs \<Longrightarrow> p_section p = Some g \<Longrightarrow> \<not> known_section g \<Longrightarrow>
   dict_ok (s_groups (fst (p_config p))) \<Longrightarrow>
   length (concat (map (\<lambda>e. render_entry e @ lf) kvs)) < fuel \<Longrightarrow>
   \<exists>d. dict_ok d \<and> smf_dict_get d = group_map g kvs (smf_dict_get (s_groups (fst (p_config p)))) \<and>
     parse_loop fuel ld [] (concat (map (\<lambda>e. render_entry e @ lf) kvs)) p =
       Some (Inr (p\<lparr>p_config := ((fst (p_config p))\<lparr>s_groups := d\<rparr>, snd (p_config p))\<rparr>))"
proof (induction kvs arbitrary: p fuel)
  case Nil
  then obtain f where "fuel = Suc f" by (cases fuel) auto
  then show ?case using Nil by (auto simp: c_fgets_def group_map_def)
next
  case (Cons e kvs)
  obtain k v where e: "e = (k, v)" by (cases e)
  obtain f where f: "fuel = Suc f" using Cons.prems by (cases fuel) auto
  define d1 where "d1 = dict_put (s_groups (fst (p_config p))) (g @ '':'' @ k) v"
  define p1 where "p1 = p\<lparr>p_config := ((fst (p_config p))\<lparr>s_groups := d1\<rparr>, snd (p_config p))\<rparr>"
  have ge: "good_entry (k, v)" using Cons.prems(1) e by simp
  have line: "LF \<notin> set (render_entry e)" "render_entry e \<noteq> []" "length (render_entry e) \<le> 198"
    using ge e by (auto simp: good_entry_def render_entry_def)
  have d1: "dict_ok d1"
    "smf_dict_get d1 = (smf_dict_get (s_groups (fst (p_config p))))(g @ '':'' @ k \<mapsto> v)"
    using Cons.prems(4) by (simp_all add: d1_def arrays.inv_put arrays.get_put)
  have step: "parse_step ld (render_entry e @ lf) p = Inr p1"
    unfolding p1_def d1_def e by (rule parse_step_entry [OF ge Cons.prems(2,3)])
  have "parse_loop fuel ld [] (concat (map (\<lambda>e. render_entry e @ lf) (e # kvs))) p =
      parse_loop f ld [] (concat (map (\<lambda>e. render_entry e @ lf) kvs)) p1"
    using parse_loop_line [OF line, of f ld "concat (map (\<lambda>e. render_entry e @ lf) kvs)" p] f step
    by (simp add: lf_def del: parse_loop.simps)
  moreover have "\<exists>d. dict_ok d \<and> smf_dict_get d = group_map g kvs (smf_dict_get (s_groups (fst (p_config p1)))) \<and>
     parse_loop f ld [] (concat (map (\<lambda>e. render_entry e @ lf) kvs)) p1 =
       Some (Inr (p1\<lparr>p_config := ((fst (p_config p1))\<lparr>s_groups := d\<rparr>, snd (p_config p1))\<rparr>))"
    by (rule Cons.IH) (use Cons.prems d1 f in \<open>auto simp: p1_def lf_def\<close>)
  ultimately show ?case using d1 e by (auto simp: p1_def group_map_def)
qed

lemma parse_group:
  assumes "good_name g" and "list_all good_entry kvs" and "dict_ok (s_groups (fst (p_config p)))"
  shows "\<exists>d. dict_ok d \<and> smf_dict_get d = group_map g kvs (smf_dict_get (s_groups (fst (p_config p)))) \<and>
     parse_loop (Suc (length (render_group g kvs))) ld [] (render_group g kvs) p =
       Some (Inr (p\<lparr>p_section := Some g,
                    p_config := ((fst (p_config p))\<lparr>s_groups := d\<rparr>, snd (p_config p))\<rparr>))"
proof -
  let ?rest = "concat (map (\<lambda>e. render_entry e @ lf) kvs)"
  have line: "LF \<notin> set (''['' @ g @ '']'')" "''['' @ g @ '']'' \<noteq> []" "length (''['' @ g @ '']'') \<le> 198"
    using assms(1) by (auto simp: good_name_def)
  have whole: "render_group g kvs = (''['' @ g @ '']'') @ LF # ?rest"
    by (simp add: render_group_def lf_def)
  have "parse_loop (Suc (length (render_group g kvs))) ld [] (render_group g kvs) p =
      parse_loop (length (render_group g kvs)) ld [] ?rest (p\<lparr>p_section := Some g\<rparr>)"
    unfolding whole parse_loop_line [OF line] using parse_step_section [OF assms(1), of ld p] by simp
  moreover have "\<exists>d. dict_ok d \<and>
     smf_dict_get d = group_map g kvs (smf_dict_get (s_groups (fst (p_config (p\<lparr>p_section := Some g\<rparr>))))) \<and>
     parse_loop (length (render_group g kvs)) ld [] ?rest (p\<lparr>p_section := Some g\<rparr>) =
       Some (Inr (p\<lparr>p_section := Some g, p_config := ((fst (p_config (p\<lparr>p_section := Some g\<rparr>)))\<lparr>s_groups := d\<rparr>,
         snd (p_config (p\<lparr>p_section := Some g\<rparr>)))\<rparr>))"
    by (rule parse_entries) (use assms in \<open>auto simp: good_name_def whole\<close>)
  ultimately show ?thesis by simp
qed

lemma mod_once: "m \<le> a \<Longrightarrow> a < 2 * m \<Longrightarrow> a mod m = a - m" for a m :: int
proof -
  assume "m \<le> a" "a < 2 * m"
  have "a mod m = (a - m) mod m" by simp
  also have "\<dots> = a - m" by (rule mod_pos_pos_trivial) (use \<open>m \<le> a\<close> \<open>a < 2 * m\<close> in auto)
  finally show ?thesis .
qed

lemma mod_neg_once: "- m \<le> a \<Longrightarrow> a < 0 \<Longrightarrow> a mod m = a + m" for a m :: int
proof -
  assume "- m \<le> a" "a < 0"
  have "a mod m = (a + m) mod m" by simp
  also have "\<dots> = a + m" by (rule mod_pos_pos_trivial) (use \<open>- m \<le> a\<close> \<open>a < 0\<close> in auto)
  finally show ?thesis .
qed

lemma check_settings_plain:
  assumes "s_engine s \<noteq> None" and "s_max_childs s \<le> CHILD_LIMIT" and "s_backend s = NullP"
  shows "\<exists>s'. check_settings s = Inr (0, s') \<and> s_groups s' = s_groups s"
  using assms by (auto simp: check_settings_def Let_def check_backend_def)

lemma parse_config_group:
  assumes "good_name g" and "list_all good_entry kvs" and "dict_ok (s_groups s)"
    and "s_engine s \<noteq> None" and "s_max_childs s \<le> CHILD_LIMIT" and "s_backend s = NullP"
    and "inp path = Some (render_group g kvs)"
  shows "\<exists>s'. smf_settings_parse_config ld inp (Some path) (s, t) = Some (Inr (0, s', t)) \<and>
    (\<forall>k. smf_settings_group_get s' g k =
       (case map_of (rev kvs) k of None \<Rightarrow> smf_settings_group_get s g k | Some v \<Rightarrow> Some v))"
proof -
  let ?p = "\<lparr>p_section = None, p_errs = 0, p_config = (s\<lparr>s_config_file := Some path\<rparr>, t)\<rparr>"
  obtain d where d: "dict_ok d" "smf_dict_get d = group_map g kvs (smf_dict_get (s_groups s))"
    "parse_loop (Suc (length (render_group g kvs))) ld [] (render_group g kvs) ?p =
       Some (Inr (?p\<lparr>p_section := Some g,
         p_config := (s\<lparr>s_config_file := Some path, s_groups := d\<rparr>, t)\<rparr>))"
    using parse_group [OF assms(1,2), of ?p ld] assms(3) by auto
  obtain s' where s': "check_settings (s\<lparr>s_config_file := Some path, s_groups := d\<rparr>) = Inr (0, s')"
    "s_groups s' = d"
    using check_settings_plain [of "s\<lparr>s_config_file := Some path, s_groups := d\<rparr>"] assms(4-6) by auto
  have "smf_settings_parse_config ld inp (Some path) (s, t) = Some (Inr (0, s', t))"
    using d(3) s' assms(7) by (simp add: smf_settings_parse_config_def Let_def del: parse_loop.simps)
  moreover have "smf_settings_group_get s' g k =
      (case map_of (rev kvs) k of None \<Rightarrow> smf_settings_group_get s g k | Some v \<Rightarrow> Some v)" for k
    by (simp only: smf_settings_group_get_def d(2) s'(2) group_map_get)
  ultimately show ?thesis by blast
qed

lemma parse_config_cases:
  assumes "smf_settings_parse_config ld inp f (s, t) = Some (Inr (rc, s', t'))" and "settings_ok s"
    and "rc = 0"
  shows "settings_ok s' \<and> settings_ready s'"
proof -
  define path where "path = (case f of Some f \<Rightarrow> f | None \<Rightarrow> ''/etc/spmfilter.conf'')"
  obtain content where c: "inp path = Some content"
    using assms(1,3) unfolding smf_settings_parse_config_def Let_def path_def [symmetric]
    by (auto split: option.splits)
  obtain p where p: "parse_loop (Suc (length content)) ld [] content
      \<lparr>p_section = None, p_errs = 0, p_config = (s\<lparr>s_config_file := Some path\<rparr>, t)\<rparr> = Some (Inr p)"
    "check_settings (fst (p_config p)) = Inr (rc, s')"
    using assms(1) c unfolding smf_settings_parse_config_def Let_def path_def [symmetric]
    by (auto split: option.splits sum.splits prod.splits simp del: parse_loop.simps)
  have "settings_ok (fst (p_config p))"
    using settings_ok_parse_loop [OF _ p(1)] assms(2) by simp
  from check_settings_ready [OF this p(2)] assms(3) show ?thesis by simp
qed

section \<open>Properties\<close>




text \<open>
  Claim C26.  A custom group is read back: writing a group of keys and values in the documented
  form (section line, \<open>key = "value"\<close> lines) and parsing the file makes
  \<open>smf_settings_group_get\<close> return, for every key, the value written last, and leaves the keys
  that were not written as they were.
\<close>

theorem smf_settings_group_roundtrip:
  assumes "good_name g" and "list_all good_entry kvs" and "dict_ok (s_groups s)"
    and "s_engine s \<noteq> None" and "s_max_childs s \<le> CHILD_LIMIT" and "s_backend s = NullP"
    and "inp path = Some (render_group g kvs)"
  shows "\<exists>s'. smf_settings_parse_config ld inp (Some path) (s, t) = Some (Inr (0, s', t)) \<and>
    (\<forall>k. smf_settings_group_get s' g k =
       (case map_of (rev kvs) k of None \<Rightarrow> smf_settings_group_get s g k | Some v \<Rightarrow> Some v))"
  by (rule parse_config_group [where inp = inp and path = path, OF assms])

lemma smf_settings_group_roundtrip_witness:
  "\<exists>s'. smf_settings_parse_config \<lparr>ld_isfile = (\<lambda>_. False), ld_dlopen = (\<lambda>_. True), ld_libdir = ''/lib''\<rparr>
       (\<lambda>_. Some (render_group ''clamav'' [(''port'', ''3310''), (''host'', []), (''port'', ''1 2'')]))
       (Some ''/c'') (smf_settings_new\<lparr>s_engine := Some ''smtpd''\<rparr>, trace_init) =
       Some (Inr (0, s', trace_init)) \<and>
     smf_settings_group_get s' ''clamav'' ''port'' = Some ''1 2'' \<and>
     smf_settings_group_get s' ''clamav'' ''host'' = Some []"
  using smf_settings_group_roundtrip [of "''clamav''"
      "[(''port'', ''3310''), (''host'', []), (''port'', ''1 2'')]"
      "smf_settings_new\<lparr>s_engine := Some ''smtpd''\<rparr>"
      "\<lambda>_. Some (render_group ''clamav'' [(''port'', ''3310''), (''host'', []), (''port'', ''1 2'')])" "''/c''"
      "\<lparr>ld_isfile = (\<lambda>_. False), ld_dlopen = (\<lambda>_. True), ld_libdir = ''/lib''\<rparr>" trace_init]
  by (auto simp: good_name_def good_entry_def trimmed_def known_section_def c_isspace_def
      smf_settings_new_def dict_ok_new CHILD_LIMIT_def)

text \<open>
  Claim C39.  An invalid \<open>backend\<close> after a valid one leaves a pointer to freed memory: the first
  bad line is accepted silently, the final checks then read the freed block, and any further
  \<open>backend\<close> line frees it a second time.
\<close>

theorem smf_settings_backend_dangling:
  assumes "s_backend s = StrP b" and "v \<noteq> []" and "v \<noteq> ''sql''" and "v \<noteq> ''ldap''"
    and "w \<noteq> []" and "s_engine s \<noteq> None" and "s_max_childs s \<le> CHILD_LIMIT"
  shows "\<exists>s1. set_config_value ld ''global'' ''backend'' v (s, t) = Inr (s1, t) \<and>
           check_settings s1 = Inl DanglingRead \<and>
           set_config_value ld ''global'' ''backend'' w (s1, t) = Inl DoubleFree"
  using assms
  by (auto simp: set_config_value_def set_global_value_def set_checked_def check_settings_def
      Let_def check_backend_def)

lemma smf_settings_backend_dangling_witness:
  "\<exists>s1. set_config_value \<lparr>ld_isfile = (\<lambda>_. False), ld_dlopen = (\<lambda>_. True), ld_libdir = ''/lib''\<rparr>
       ''global'' ''backend'' ''db4''
       (smf_settings_new\<lparr>s_engine := Some ''smtpd'', s_backend := StrP ''sql''\<rparr>, trace_init) =
       Inr (s1, trace_init) \<and>
     check_settings s1 = Inl DanglingRead \<and>
     set_config_value \<lparr>ld_isfile = (\<lambda>_. False), ld_dlopen = (\<lambda>_. True), ld_libdir = ''/lib''\<rparr>
       ''global'' ''backend'' ''ldap'' (s1, trace_init) = Inl DoubleFree"
  by (rule smf_settings_backend_dangling) (simp_all add: smf_settings_new_def CHILD_LIMIT_def)

text \<open>
  A size limit of two gigabytes or more is not a limit: \<open>max_size\<close> is read as an
  \<open>int\<close>, so a value from \<open>2^31\<close> to \<open>2^32 - 1\<close> becomes negative and, widened to
  \<open>unsigned long\<close>, a number above \<open>2^63\<close>.
\<close>

theorem smf_settings_max_size_wraps:
  assumes "2 ^ 31 \<le> k" and "k < 2 ^ 32"
  shows "\<exists>s1. set_config_value ld ''global'' ''max_size'' (string_of_nat k) (s, t) = Inr (s1, t) \<and>
           unat (s_max_size s1) = 2 ^ 64 - (2 ^ 32 - k) \<and> (2 ^ 63 :: nat) < unat (s_max_size s1)"
proof -
  have i: "get_integer (string_of_nat k) = int k - 2 ^ 32"
  proof -
    have "strtol0 (string_of_nat k) = int k" using assms by (intro strtol0_string_of_nat) simp
    moreover have "(int k + 2 ^ 31) mod 2 ^ 32 = int k + 2 ^ 31 - 2 ^ 32"
      by (rule mod_once) (use assms in auto)
    ultimately show ?thesis by (simp add: get_integer_def int_of_long_def)
  qed
  have u: "uint (word_of_int x :: ulong) = x mod 2 ^ 64" for x by (simp add: uint_word_of_int)
  have "unat (word_of_int (int k - 2 ^ 32) :: ulong) = nat ((int k - 2 ^ 32) mod 2 ^ 64)"
    unfolding unat_eq_nat_uint u ..
  also have "(int k - 2 ^ 32) mod 2 ^ 64 = int k - 2 ^ 32 + 2 ^ 64"
    by (rule mod_neg_once) (use assms in auto)
  also have "nat (int k - 2 ^ 32 + 2 ^ 64) = 2 ^ 64 - (2 ^ 32 - k)"
    using assms by (simp add: nat_eq_iff of_nat_diff)
  finally have w: "unat (word_of_int (int k - 2 ^ 32) :: ulong) = 2 ^ 64 - (2 ^ 32 - k)" .
  have "set_config_value ld ''global'' ''max_size'' (string_of_nat k) (s, t) =
      Inr (s\<lparr>s_max_size := word_of_int (get_integer (string_of_nat k))\<rparr>, t)"
    by (simp add: set_config_value_def set_global_value_def)
  moreover have "unat (word_of_int (get_integer (string_of_nat k)) :: ulong) = 2 ^ 64 - (2 ^ 32 - k)"
    unfolding i w ..
  moreover have "(2 ^ 63 :: nat) < 2 ^ 64 - (2 ^ 32 - k)" using assms by simp
  ultimately show ?thesis
    by (intro exI [of _ "s\<lparr>s_max_size := word_of_int (get_integer (string_of_nat k))\<rparr>"]) simp
qed

lemma smf_settings_max_size_wraps_witness:
  "\<exists>s1. set_config_value \<lparr>ld_isfile = (\<lambda>_. False), ld_dlopen = (\<lambda>_. True), ld_libdir = ''/lib''\<rparr>
       ''global'' ''max_size'' (string_of_nat 3000000000) (smf_settings_new, trace_init) = Inr (s1, trace_init) \<and>
     (2 ^ 63 :: nat) < unat (s_max_size s1)"
  using smf_settings_max_size_wraps [of 3000000000
      "\<lparr>ld_isfile = (\<lambda>_. False), ld_dlopen = (\<lambda>_. True), ld_libdir = ''/lib''\<rparr>" smf_settings_new trace_init]
  by auto

end
