(* ===== verification/Smf_Smtp.thy ===== *)
theory Smf_Smtp
  imports Smf_World Smf_Settings
begin

text \<open>
  Delivery by SMTP, \<open>smf_smtp.c\<close>.  The protocol itself is run by libesmtp, a library that is not
  part of the repository; what the code asks of it in one delivery is the record \<open>esmtp_request\<close>,
  and the library is the record \<open>esmtp\<close> of functions, a parameter.
\<close>

section \<open>State\<close>

record smtp_status =
  st_text :: "string option"
  st_code :: int

definition smf_smtp_status_new :: smtp_status where
  "smf_smtp_status_new = \<lparr>st_text = None, st_code = 0\<rparr>"

datatype esmtp_body = BodyFile string | BodyString string   \<comment> \<open>the content handed over\<close>

record esmtp_request =
  rq_server :: string
  rq_starttls :: tls_option
  rq_auth :: "(string \<times> string) option"
  rq_reverse_path :: string
  rq_body :: esmtp_body
  rq_recipients :: "string list"

datatype esmtp_result = NotStarted string | Transferred int "string option"

record esmtp =
  es_reverse_path :: "string \<Rightarrow> bool"
  es_message_str :: "string \<Rightarrow> bool"
  es_recipient :: "string \<Rightarrow> bool"
  es_session :: "esmtp_request \<Rightarrow> esmtp_result"
  es_strerror :: string                          \<comment> \<open>\<open>strerror (errno)\<close> and \<open>errno\<close> of a failed open\<close>

section \<open>Callbacks\<close>

text \<open>The login data asked for, field by field: user, password or something else.\<close>

datatype auth_field = AuthUser | AuthPass | AuthOther

fun smf_smtp_authinteract ::
  "envelope \<Rightarrow> auth_field list \<Rightarrow> int \<times> string option list" where
  "smf_smtp_authinteract env [] = (1, [])"
| "smf_smtp_authinteract env (f # fs) =
     (case f of
        AuthOther \<Rightarrow> (0, [])
      | _ \<Rightarrow>
          (case smf_smtp_authinteract env fs of
             (r, result) \<Rightarrow>
               (r, (if f = AuthUser then env_auth_user env else env_auth_pass env) # result)))"

text \<open>Every verification result is accepted; the name of the error only goes into the log.\<close>

definition smf_smtp_handle_invalid_peer_certificate :: "int \<Rightarrow> int" where
  "smf_smtp_handle_invalid_peer_certificate vfy_result = 1"

datatype smtp_event =
    Ev_Connect | Ev_Mailstatus | Ev_Rcptstatus | Ev_Messagedata | Ev_Messagesent | Ev_Disconnect
  | Ev_Extna_Starttls | Ev_Weak_Cipher int | Ev_Starttls_Ok | Ev_Invalid_Peer_Certificate int
  | Ev_No_Peer_Certificate | Ev_Wrong_Peer_Certificate | Ev_No_Client_Certificate | Ev_Other nat

text \<open>What the callback stores in \<open>*ok\<close>, when it stores anything.\<close>

fun smf_smtp_event_cb :: "smtp_event \<Rightarrow> int option" where
  "smf_smtp_event_cb (Ev_Weak_Cipher bits) = Some 1"
| "smf_smtp_event_cb (Ev_Invalid_Peer_Certificate vfy_result) =
     Some (smf_smtp_handle_invalid_peer_certificate vfy_result)"
| "smf_smtp_event_cb Ev_No_Peer_Certificate = Some 1"
| "smf_smtp_event_cb Ev_Wrong_Peer_Certificate = Some 1"
| "smf_smtp_event_cb Ev_No_Client_Certificate = Some 1"
| "smf_smtp_event_cb _ = None"

section \<open>Delivery\<close>

definition smtp_server :: "string \<Rightarrow> string" where
  "smtp_server nexthop = (if strstr nexthop '':'' \<noteq> None then nexthop else nexthop @ '':25'')"

definition smtp_auth :: "envelope \<Rightarrow> (string \<times> string) option" where
  "smtp_auth env =
     (case (env_auth_user env, env_auth_pass env) of (Some u, Some p) \<Rightarrow> Some (u, p) | _ \<Rightarrow> None)"

definition smtp_reverse_path :: "envelope \<Rightarrow> string" where
  "smtp_reverse_path env = (case env_sender env of Some s \<Rightarrow> s | None \<Rightarrow> ''<>'')"

text \<open>The message content: the file when there is a file name, else the message object.\<close>

definition smtp_body ::
  "os \<Rightarrow> cmime \<Rightarrow> esmtp \<Rightarrow> world \<Rightarrow> envelope \<Rightarrow> string option \<Rightarrow> string + esmtp_body" where
  "smtp_body os cm es w env msg_file =
     (case msg_file of
        Some name \<Rightarrow>
          (case fopen_read os name w of
             None \<Rightarrow> Inl (''unable to open file: '' @ es_strerror es)
           | Some content \<Rightarrow> Inr (BodyFile content))
      | None \<Rightarrow>
          (case env_message env of
             Some m \<Rightarrow>
               (let msg_string = cm_to_string cm m
                in if es_message_str es msg_string then Inr (BodyString msg_string)
                   else Inl ''failed to create message object'')
           | None \<Rightarrow> Inl ''no message content provided''))"

definition smtp_failure :: "string \<Rightarrow> smtp_status" where
  "smtp_failure reason = \<lparr>st_text = Some reason, st_code = - 1\<rparr>"

definition smtp_request :: "envelope \<Rightarrow> tls_option \<Rightarrow> esmtp \<Rightarrow> string \<Rightarrow> esmtp_body \<Rightarrow> esmtp_request" where
  "smtp_request env tls es nexthop body =
     \<lparr>rq_server = smtp_server nexthop, rq_starttls = tls, rq_auth = smtp_auth env,
      rq_reverse_path = smtp_reverse_path env, rq_body = body,
      rq_recipients = filter (es_recipient es) (env_recipients env)\<rparr>"

text \<open>
  \<open>smf_smtp_deliver\<close>; the first component is the request libesmtp gets, when it gets one.
\<close>

definition smf_smtp_deliver ::
  "os \<Rightarrow> cmime \<Rightarrow> esmtp \<Rightarrow> world \<Rightarrow> envelope \<Rightarrow> tls_option \<Rightarrow> string option \<Rightarrow>
   esmtp_request option \<times> smtp_status" where
  "smf_smtp_deliver os cm es w env tls msg_file =
     (case env_nexthop env of
        None \<Rightarrow> (None, smtp_failure ''invalid smtp host'')
      | Some nexthop \<Rightarrow>
          if \<not> es_reverse_path es (smtp_reverse_path env)
          then (None, smtp_failure ''failed to set reverse_path'')
          else (case smtp_body os cm es w env msg_file of
            Inl reason \<Rightarrow> (None, smtp_failure reason)
          | Inr body \<Rightarrow>
              if env_recipients env = [] then (None, smtp_failure ''no recipients provided'')
              else (let rq = smtp_request env tls es nexthop body
                    in case es_session es rq of
                         NotStarted reason \<Rightarrow>
                           (Some rq, smtp_failure (''failed to initialize smtp session: '' @ reason))
                       | Transferred code text \<Rightarrow> (Some rq, \<lparr>st_text = text, st_code = code\<rparr>))))"

section \<open>Lemmas\<close>

lemma smtp_server_has_port: "sublist '':'' (smtp_server nexthop)"
proof -
  have "sublist '':'' (nexthop @ '':25'')"
    using sublist_appendI [of "'':''" nexthop "''25''"] by simp
  then show ?thesis unfolding smtp_server_def strstr_Some_iff by simp
qed

lemma deliver_code_250:
  assumes "st_code (snd (smf_smtp_deliver os cm es w env tls msg_file)) = 250"
  shows "\<exists>rq text. fst (smf_smtp_deliver os cm es w env tls msg_file) = Some rq \<and>
    es_session es rq = Transferred 250 text \<and> env_recipients env \<noteq> [] \<and>
    rq_recipients rq = filter (es_recipient es) (env_recipients env)"
  using assms
  by (auto simp: smf_smtp_deliver_def smtp_failure_def smtp_request_def Let_def
      split: option.splits if_splits sum.splits esmtp_result.splits)

lemma deliver_file_request:
  assumes "env_nexthop env = Some nexthop" and "es_reverse_path es (smtp_reverse_path env)"
    and "fopen_read os name w = Some content" and "env_recipients env \<noteq> []"
  shows "fst (smf_smtp_deliver os cm es w env tls (Some name)) =
    Some (smtp_request env tls es nexthop (BodyFile content))"
  using assms
  by (simp add: smf_smtp_deliver_def smtp_body_def Let_def split: esmtp_result.split)

text \<open>
  Certificates: whatever the verification of the peer says, the connection goes on.
\<close>

lemma event_cb_accepts: "smf_smtp_event_cb ev = Some ok \<Longrightarrow> ok = 1"
  by (cases ev) (auto simp: smf_smtp_handle_invalid_peer_certificate_def)

section \<open>Fixtures\<close>

text \<open>A concrete system and concrete libraries the witnesses run on: every call succeeds.\<close>

definition ex_os :: os where
  "ex_os =
     \<lparr>os_mkstemp = (\<lambda>t fs. if fs ''/q/tmp'' = None then Some ''/q/tmp'' else None),
      os_may_open = (\<lambda>n. True), os_may_unlink = (\<lambda>n. True), os_may_rename = (\<lambda>a b. True),
      os_wr = (\<lambda>n. []), os_lstat = (\<lambda>n. None)\<rparr>"

definition ex_cm :: cmime where
  "ex_cm =
     \<lparr>cm_generate_id = ''id@host'',
      cm_set_header = (\<lambda>m h. (0, m\<lparr>msg_headers := msg_headers m @
         [\<lparr>h_name = takeWhile (\<lambda>c. c \<noteq> CHR '':'') h, h_values = [drop 2 (dropWhile (\<lambda>c. c \<noteq> CHR '':'') h)]\<rparr>]\<rparr>)),
      cm_get_header = (\<lambda>m h. None),
      cm_from_file = (\<lambda>d header_only. (0, \<lparr>msg_headers = [], msg_rest = (if header_only then [] else d)\<rparr>)),
      cm_to_string = (\<lambda>m. concat (map (\<lambda>h. h_name h @ '': '' @ concat (h_values h) @ crlf) (msg_headers m)) @ crlf @ msg_rest m),
      cm_to_file = (\<lambda>m. (1, msg_rest m)),
      cm_get_recipients = (\<lambda>m. []), cm_get_message_id = (\<lambda>m. None)\<rparr>"

definition ex_es :: esmtp where
  "ex_es =
     \<lparr>es_reverse_path = (\<lambda>s. True), es_message_str = (\<lambda>s. True), es_recipient = (\<lambda>s. True),
      es_session = (\<lambda>rq. Transferred 250 (Some ''ok'')), es_strerror = []\<rparr>"

lemma ex_os_willing: "os_willing ex_os"
  by (simp add: ex_os_def os_willing_def)

text \<open>One queue file, and a session whose message it is.\<close>

definition ex_world :: world where
  "ex_world =
     \<lparr>w_files = [''/q/m'' \<mapsto> \<lparr>sp_data = ''To: c'' @ crlf @ crlf @ ''hi'', sp_mtime = 3\<rparr>],
      w_sock = \<lparr>fd_in = [], fd_wr = [], fd_out = []\<rparr>, w_stdout = [], w_clock = 5\<rparr>"

definition ex_session :: session where
  "ex_session = (smf_session_new (\<lambda>i. 0))
     \<lparr>ses_message_file := Some ''/q/m'',
      ses_envelope := smf_envelope_new\<lparr>env_sender := Some ''a@b'', env_recipients := [''c@d''],
        env_message := Some \<lparr>msg_headers = [\<lparr>h_name = ''To'', h_values = [''c'']\<rparr>], msg_rest = []\<rparr>\<rparr>\<rparr>"

definition ex_settings :: "smf_module list \<Rightarrow> smf_settings" where
  "ex_settings ms =
     smf_settings_new\<lparr>s_queue_dir := Some ''/q'', s_modules := ms, s_nexthop := Some ''mx'', s_add_header := 1\<rparr>"

lemma ex_session_fields:
  "ses_message_file ex_session = Some ''/q/m''"
  "ses_envelope ex_session = smf_envelope_new\<lparr>env_sender := Some ''a@b'', env_recipients := [''c@d''],
     env_message := Some \<lparr>msg_headers = [\<lparr>h_name = ''To'', h_values = [''c'']\<rparr>], msg_rest = []\<rparr>\<rparr>"
  "w_files ex_world = [''/q/m'' \<mapsto> \<lparr>sp_data = ''To: c'' @ crlf @ crlf @ ''hi'', sp_mtime = 3\<rparr>]"
  "w_clock ex_world = 5"
  by (simp_all add: ex_session_def ex_world_def)

lemma ex_settings_fields:
  "s_modules (ex_settings ms) = ms" "s_add_header (ex_settings ms) = 1" "s_nexthop (ex_settings ms) = Some ''mx''"
  "s_queue_dir (ex_settings ms) = Some ''/q''" "s_tls (ex_settings ms) = SMF_TLS_DISABLED"
  "s_backend (ex_settings ms) = NullP"
  by (simp_all add: ex_settings_def smf_settings_new_def)

lemma ex_lib_fields:
  "os_lstat ex_os n = None" "fs ''/q/tmp'' = None \<Longrightarrow> os_mkstemp ex_os t fs = Some ''/q/tmp''"
  "es_reverse_path ex_es a" "es_recipient ex_es a" "es_session ex_es rq = Transferred 250 (Some ''ok'')"
  by (simp_all add: ex_os_def ex_es_def)

end
