(* ===== verification/Smf_Nexthop.thy ===== *)
theory Smf_Nexthop
  imports Smf_Smtp
begin

text \<open>
  Handing a message on, \<open>smf_nexthop.c\<close>: the destination is a file or pipe when a file of that
  name exists, else an SMTP server.
\<close>

section \<open>Delivery to a server\<close>

definition copy_recipients :: "cmime \<Rightarrow> message \<Rightarrow> envelope \<Rightarrow> int \<times> envelope" where
  "copy_recipients cm from to =
     (let rcpts = cm_get_recipients cm from
      in (int (length rcpts), foldl (\<lambda>e addr. snd (smf_envelope_add_rcpt addr e)) to rcpts))"

text \<open>Without a message the recipients cannot be read: an assertion of the wrapper fails.\<close>

definition smtp_delivery_nexthop ::
  "os \<Rightarrow> cmime \<Rightarrow> esmtp \<Rightarrow> world \<Rightarrow> smf_settings \<Rightarrow> session \<Rightarrow>
   (int \<times> session \<times> esmtp_request option) c_result" where
  "smtp_delivery_nexthop os cm es w settings session =
     (let env = ses_envelope session;
          env1 = (if env_sender env = None then smf_envelope_set_sender ''<>'' env else env);
          copied = (if env_recipients env1 \<noteq> [] then Inr (1, env1)
                    else case env_message env1 of
                      None \<Rightarrow> Inl AssertFailed
                    | Some m \<Rightarrow> Inr (copy_recipients cm m env1))
      in case copied of
           Inl e \<Rightarrow> Inl e
         | Inr (n, env2) \<Rightarrow>
             if n = 0 then Inr (- 1, session\<lparr>ses_envelope := env2\<rparr>, None)
             else (case (env_nexthop env2, s_nexthop settings) of
                 (None, None) \<Rightarrow> Inl AssertFailed
               | (nh, dflt) \<Rightarrow>
                   (let env3 = (case nh of
                                  None \<Rightarrow> smf_envelope_set_nexthop (the dflt) env2 | Some _ \<Rightarrow> env2);
                        d = smf_smtp_deliver os cm es w env3 (s_tls settings) (ses_message_file session)
                    in Inr (if st_code (snd d) \<noteq> 250 then - 1 else 0,
                            session\<lparr>ses_envelope := env3\<rparr>, fst d))))"

section \<open>Delivery to a file\<close>

text \<open>
  The copying loop over blocks of 512 bytes.  A \<open>fwrite\<close> that takes only part of a block is not
  an error here: the rest of the block is dropped.
\<close>

function file_copy_loop :: "string \<Rightarrow> fd \<Rightarrow> int \<times> fd" where
  "file_copy_loop src dest =
     (if src = [] then (0, dest)
      else case sys_write (take 512 src) dest of
        (Wrote n, dest') \<Rightarrow> file_copy_loop (drop 512 src) dest'
      | (_, dest') \<Rightarrow> (- 1, dest'))"
  by pat_completeness auto
termination
  by (relation "measure (\<lambda>(src, dest). length src)") auto

declare file_copy_loop.simps [simp del]

definition file_delivery_nexthop ::
  "os \<Rightarrow> cmime \<Rightarrow> world \<Rightarrow> string \<Rightarrow> session \<Rightarrow> int \<times> world" where
  "file_delivery_nexthop os cm w nexthop session =
     (case ses_message_file session of
        Some name \<Rightarrow>
          (case fopen_read os name w of
             None \<Rightarrow> (- 1, w)
           | Some _ \<Rightarrow>
               (case fopen_write os nexthop w of
                  None \<Rightarrow> (- 1, w)
                | Some w1 \<Rightarrow>
                    (let src = (case w_files w1 name of None \<Rightarrow> [] | Some f \<Rightarrow> sp_data f);
                         r = file_copy_loop src (file_fd os nexthop [])
                     in (fst r, put_file nexthop (fd_out (snd r)) w1))))
      | None \<Rightarrow>
          (case env_message (ses_envelope session) of
             Some m \<Rightarrow>
               (case cm_to_file cm m of
                  (nitems, data) \<Rightarrow> (if 0 < nitems then 0 else - 1, put_file nexthop data w))
           | None \<Rightarrow> (- 1, w)))"

section \<open>Choosing\<close>

datatype nexthop_function = FileDelivery | SmtpDelivery

definition smf_nexthop_find :: "os \<Rightarrow> smf_settings \<Rightarrow> nexthop_function option" where
  "smf_nexthop_find os settings =
     (case s_nexthop settings of
        None \<Rightarrow> None
      | Some name \<Rightarrow>
          (case os_lstat os name of
             Some is_dir \<Rightarrow> if is_dir then Some SmtpDelivery else Some FileDelivery
           | None \<Rightarrow> Some SmtpDelivery))"

text \<open>Calling the function that was found; the requests made of libesmtp are kept.\<close>

definition run_nexthop ::
  "os \<Rightarrow> cmime \<Rightarrow> esmtp \<Rightarrow> nexthop_function \<Rightarrow> smf_settings \<Rightarrow> session \<Rightarrow> world \<Rightarrow>
   (int \<times> session \<times> world \<times> esmtp_request option) c_result" where
  "run_nexthop os cm es f settings session w =
     (case f of
        FileDelivery \<Rightarrow>
          (case s_nexthop settings of
             None \<Rightarrow> Inl NullDeref
           | Some name \<Rightarrow>
               (case file_delivery_nexthop os cm w name session of (r, w') \<Rightarrow> Inr (r, session, w', None)))
      | SmtpDelivery \<Rightarrow>
          (case smtp_delivery_nexthop os cm es w settings session of
             Inl e \<Rightarrow> Inl e
           | Inr (r, session', rq) \<Rightarrow> Inr (r, session', w, rq)))"

section \<open>Lemmas\<close>

lemma file_copy_loop_plain:
  "fd_wr dest = [] \<Longrightarrow> file_copy_loop src dest = (0, dest\<lparr>fd_out := fd_out dest @ src\<rparr>)"
proof (induction src dest rule: file_copy_loop.induct)
  case (1 src dest)
  show ?case
  proof (cases "src = []")
    case True
    then show ?thesis by (simp add: file_copy_loop.simps)
  next
    case False
    have w: "sys_write (take 512 src) dest =
        (Wrote (length (take 512 src)), dest\<lparr>fd_out := fd_out dest @ take 512 src\<rparr>)"
      using "1.prems" by (simp add: sys_write.simps)
    from "1.IH" [OF False w [symmetric] refl] "1.prems" False w show ?thesis
      by (subst file_copy_loop.simps) simp
  qed
qed

text \<open>A short write in the middle of a file: the delivery claims success.\<close>

lemma file_copy_loop_short:
  assumes "k < length src" and "length src \<le> 512"
  shows "file_copy_loop src \<lparr>fd_in = [], fd_wr = [WrSome k], fd_out = []\<rparr> =
           (0, \<lparr>fd_in = [], fd_wr = [], fd_out = take k src\<rparr>)"
proof -
  have "src \<noteq> []" using assms by auto
  moreover have "drop 512 src = []" "take 512 src = src" using assms by simp_all
  ultimately show ?thesis
    by (subst file_copy_loop.simps) (simp add: sys_write.simps file_copy_loop.simps)
qed

lemma copy_recipients_order:
  "copy_recipients cm m e =
     (int (length (cm_get_recipients cm m)),
      e\<lparr>env_recipients := env_recipients e @
          map smf_internal_strip_email_addr (cm_get_recipients cm m)\<rparr>)"
proof -
  have "foldl (\<lambda>e addr. snd (smf_envelope_add_rcpt addr e)) e rs =
      e\<lparr>env_recipients := env_recipients e @ map smf_internal_strip_email_addr rs\<rparr>" for rs
    by (induction rs arbitrary: e) (simp_all add: smf_envelope_add_rcpt_def)
  then show ?thesis by (simp add: copy_recipients_def Let_def)
qed

section \<open>Properties\<close>

text \<open>
  Claim C24.  Delivery to an SMTP next hop reports success only for an answered transfer: when the
  return value is 0, libesmtp was given one request, it answered 250, the request was for the
  recipients of the envelope (those of the message when there were none), and its content is the
  queue file as it is at that moment.
\<close>

theorem smtp_delivery_nexthop_success:
  assumes "smtp_delivery_nexthop os cm es w settings session = Inr (0, session', sent)"
    and "ses_message_file session = Some name"
  shows "\<exists>rq content answer. sent = Some rq \<and> es_session es rq = Transferred 250 answer \<and>
    fopen_read os name w = Some content \<and> rq_body rq = BodyFile content \<and>
    rq_recipients rq = filter (es_recipient es) (env_recipients (ses_envelope session')) \<and>
    env_recipients (ses_envelope session') \<noteq> []"
proof -
  obtain env nexthop where env: "ses_envelope session' = env" and nh: "env_nexthop env = Some nexthop"
    and sent: "sent = fst (smf_smtp_deliver os cm es w env (s_tls settings) (Some name))"
    and code: "st_code (snd (smf_smtp_deliver os cm es w env (s_tls settings) (Some name))) = 250"
  proof (cases "env_nexthop (ses_envelope session')")
    case None
    with assms show ?thesis
      by (auto simp: smtp_delivery_nexthop_def Let_def smf_envelope_set_nexthop_def smf_smtp_deliver_def
          smtp_failure_def split: sum.splits prod.splits option.splits if_splits)
  next
    case (Some nexthop)
    with assms that show ?thesis
      by (auto simp: smtp_delivery_nexthop_def Let_def
          split: sum.splits prod.splits option.splits if_splits)
  qed
  obtain rq answer where rq: "sent = Some rq" "es_session es rq = Transferred 250 answer"
    "env_recipients env \<noteq> []" "rq_recipients rq = filter (es_recipient es) (env_recipients env)"
    using deliver_code_250 [OF code] sent by auto
  obtain content where content: "fopen_read os name w = Some content"
    using rq sent nh by (auto simp: smf_smtp_deliver_def smtp_body_def split: option.splits if_splits)
  have "rq_body rq = BodyFile content"
    using rq sent nh content
    by (auto simp: smf_smtp_deliver_def smtp_body_def smtp_request_def Let_def
        split: option.splits if_splits esmtp_result.splits)
  with rq content env show ?thesis by blast
qed

lemma smtp_delivery_nexthop_success_witness:
  "\<exists>se rq. smtp_delivery_nexthop ex_os ex_cm ex_es ex_world (ex_settings []) ex_session = Inr (0, se, Some rq) \<and>
     rq_body rq = BodyFile (''To: c'' @ crlf @ crlf @ ''hi'')"
proof -
  have "\<exists>se sent. smtp_delivery_nexthop ex_os ex_cm ex_es ex_world (ex_settings []) ex_session = Inr (0, se, sent)"
    by (simp add: smtp_delivery_nexthop_def Let_def ex_session_fields ex_settings_fields ex_lib_fields smf_envelope_new_def
        smf_envelope_set_nexthop_def smf_smtp_deliver_def smtp_body_def fopen_read_def os_willingD [OF ex_os_willing])
  then obtain se sent where r: "smtp_delivery_nexthop ex_os ex_cm ex_es ex_world (ex_settings []) ex_session =
      Inr (0, se, sent)" by blast
  from smtp_delivery_nexthop_success [OF r, of "''/q/m''"] r
  show ?thesis by (auto simp: fopen_read_def ex_session_fields os_willingD [OF ex_os_willing])
qed

text \<open>
  Delivery to a file copies the queue file: when nothing is refused, the return value
  is 0, the destination holds the queue file byte for byte, and no other file changes.
\<close>

theorem file_delivery_nexthop_copies:
  assumes "os_willing os" and "ses_message_file session = Some name" and "w_files w name = Some f"
    and "name \<noteq> nexthop"
  shows "\<exists>w'. file_delivery_nexthop os cm w nexthop session = (0, w') \<and>
    map_option sp_data (w_files w' nexthop) = Some (sp_data f) \<and>
    (\<forall>n. n \<noteq> nexthop \<longrightarrow> w_files w' n = w_files w n)"
  using assms
  by (simp add: file_delivery_nexthop_def fopen_read_def fopen_write_def file_fd_def
      file_copy_loop_plain Let_def)

lemma file_delivery_nexthop_copies_witness:
  "\<exists>w'. file_delivery_nexthop ex_os ex_cm ex_world ''out'' ex_session = (0, w') \<and>
     map_option sp_data (w_files w' ''out'') = Some (''To: c'' @ crlf @ crlf @ ''hi'')"
  using file_delivery_nexthop_copies [OF ex_os_willing, of ex_session "''/q/m''" ex_world
      "\<lparr>sp_data = ''To: c'' @ crlf @ crlf @ ''hi'', sp_mtime = 3\<rparr>" "''out''" ex_cm]
  by (auto simp: ex_session_fields)

text \<open>
  A full disk is not noticed: when the only \<open>fwrite\<close> of a short message takes just its
  first \<open>k\<close> bytes, the destination is truncated and the delivery still reports success.
\<close>

theorem file_delivery_nexthop_truncates:
  assumes "\<forall>n. os_may_open os n" and "os_wr os nexthop = [WrSome k]"
    and "ses_message_file session = Some name" and "w_files w name = Some f" and "name \<noteq> nexthop"
    and "k < length (sp_data f)" and "length (sp_data f) \<le> 512"
  shows "\<exists>w'. file_delivery_nexthop os cm w nexthop session = (0, w') \<and>
    map_option sp_data (w_files w' nexthop) = Some (take k (sp_data f))"
  using assms file_copy_loop_short [OF assms(6,7)]
  by (simp add: file_delivery_nexthop_def fopen_read_def fopen_write_def file_fd_def Let_def)

lemma file_delivery_nexthop_truncates_witness:
  "\<exists>w'. file_delivery_nexthop (ex_os\<lparr>os_wr := (\<lambda>n. [WrSome 1])\<rparr>) ex_cm ex_world ''out'' ex_session = (0, w') \<and>
     map_option sp_data (w_files w' ''out'') = Some ''T''"
  using file_delivery_nexthop_truncates [of "ex_os\<lparr>os_wr := (\<lambda>n. [WrSome 1])\<rparr>" "''out''" 1 ex_session "''/q/m''" ex_world
      "\<lparr>sp_data = ''To: c'' @ crlf @ crlf @ ''hi'', sp_mtime = 3\<rparr>" ex_cm]
  by (auto simp: ex_session_fields os_willingD [OF ex_os_willing] crlf_def)

end
