(* ===== verification/Smf_Lookup.thy ===== *)
theory Smf_Lookup
  imports Smf_Settings Smf_Session
begin

text \<open>
  User lookups: \<open>smf_lookup_ldap.c\<close> and \<open>smf_lookup_sql.c\<close> (connection set-up with failover,
  scope, queries and the conversion of results to dictionaries).  The client libraries OpenLDAP
  and libzdb are the fields of two records of functions, parameters of the model; a connection
  is the number the library gave it.
\<close>

section \<open>Choosing a host\<close>

text \<open>
  The loop of the two \<open>get_rand_host\<close> functions, which returns the first element whose position
  differs from the random number.
\<close>

fun rand_host_loop :: "nat \<Rightarrow> nat \<Rightarrow> string list \<Rightarrow> string option" where
  "rand_host_loop random count [] = None"
| "rand_host_loop random count (h # hs) =
     (if Suc count \<noteq> random then Some h else rand_host_loop random (Suc count) hs)"

definition get_rand_host :: "nat \<Rightarrow> string list \<Rightarrow> string option c_result" where
  "get_rand_host rnd hosts =
     (if hosts = [] then Inl DivideByZero
      else Inr (rand_host_loop (rnd mod length hosts) 0 hosts))"

definition smf_lookup_ldap_get_rand_host :: "nat \<Rightarrow> smf_settings \<Rightarrow> string option c_result" where
  "smf_lookup_ldap_get_rand_host rnd s = get_rand_host rnd (s_ldap_host s)"

definition smf_lookup_sql_get_rand_host :: "nat \<Rightarrow> smf_settings \<Rightarrow> string option c_result" where
  "smf_lookup_sql_get_rand_host rnd s = get_rand_host rnd (s_sql_host s)"

text \<open>\<open>printf\<close> of a \<open>NULL\<close> string, and the head of a list.\<close>

definition printf_str :: "string option \<Rightarrow> string" where
  "printf_str s = (case s of None \<Rightarrow> ''(null)'' | Some x \<Rightarrow> x)"

definition list_head_data :: "string list \<Rightarrow> string c_result" where
  "list_head_data l = (case l of [] \<Rightarrow> Inl NullDeref | x # _ \<Rightarrow> Inr x)"

text \<open>The host of a connection that names none: at random, or the first.\<close>

definition default_host :: "nat \<Rightarrow> smf_settings \<Rightarrow> string list \<Rightarrow> string c_result" where
  "default_host rnd s hosts =
     (case c_read (s_backend_connection s) of
        Inl e \<Rightarrow> Inl e
      | Inr None \<Rightarrow> Inl NullDeref
      | Inr (Some conn) \<Rightarrow>
          if strcasecmp_eq conn ''balance'' then
            (case get_rand_host rnd hosts of Inl e \<Rightarrow> Inl e | Inr h \<Rightarrow> Inr (printf_str h))
          else list_head_data hosts)"

section \<open>LDAP\<close>

record ldap_lib =
  ldap_initialize :: "string \<Rightarrow> nat option"
  ldap_sasl_bind :: "nat \<Rightarrow> string \<Rightarrow> string \<Rightarrow> bool"
  ldap_search :: "nat \<Rightarrow> string \<Rightarrow> int \<Rightarrow> string \<Rightarrow> (string \<times> string list) list list"

definition LDAP_SCOPE_BASE :: int where "LDAP_SCOPE_BASE = 0"

definition LDAP_SCOPE_ONELEVEL :: int where "LDAP_SCOPE_ONELEVEL = 1"

definition LDAP_SCOPE_SUBTREE :: int where "LDAP_SCOPE_SUBTREE = 2"

definition ldap_host_uri :: "string \<Rightarrow> int \<Rightarrow> string" where
  "ldap_host_uri host port = ''ldap://'' @ host @ '':'' @ string_of_int port"

definition smf_lookup_ldap_get_uri :: "nat \<Rightarrow> smf_settings \<Rightarrow> string option \<Rightarrow> string c_result" where
  "smf_lookup_ldap_get_uri rnd s host =
     (case host of
        Some h \<Rightarrow> Inr (ldap_host_uri h (s_ldap_port s))
      | None \<Rightarrow>
          (case s_ldap_uri s of
             Some uri \<Rightarrow> Inr uri
           | None \<Rightarrow>
               (case default_host rnd s (s_ldap_host s) of
                  Inl e \<Rightarrow> Inl e
                | Inr h \<Rightarrow> Inr (ldap_host_uri h (s_ldap_port s)))))"

definition smf_lookup_ldap_init_ld :: "ldap_lib \<Rightarrow> string \<Rightarrow> smf_settings \<Rightarrow> smf_settings" where
  "smf_lookup_ldap_init_ld lib uri s = s\<lparr>s_lookup_connection := ldap_initialize lib uri\<rparr>"

definition smf_lookup_ldap_bind :: "ldap_lib \<Rightarrow> smf_settings \<Rightarrow> int c_result" where
  "smf_lookup_ldap_bind lib s =
     (case s_lookup_connection s of
        None \<Rightarrow> Inl AssertFailed
      | Some c \<Rightarrow>
          (case (s_ldap_base s, s_ldap_binddn s, s_ldap_bindpw s) of
             (Some base, Some dn, Some pw) \<Rightarrow> Inr (if ldap_sasl_bind lib c dn pw then 0 else - 1)
           | _ \<Rightarrow> Inr (- 1)))"

text \<open>One attempt: build the URI, initialise, bind.\<close>

definition ldap_attempt ::
  "ldap_lib \<Rightarrow> nat \<Rightarrow> string option \<Rightarrow> smf_settings \<Rightarrow> (int \<times> smf_settings) c_result" where
  "ldap_attempt lib rnd host s =
     (case smf_lookup_ldap_get_uri rnd s host of
        Inl e \<Rightarrow> Inl e
      | Inr uri \<Rightarrow>
          (let s' = smf_lookup_ldap_init_ld lib uri s
           in case smf_lookup_ldap_bind lib s' of Inl e \<Rightarrow> Inl e | Inr rc \<Rightarrow> Inr (rc, s')))"

text \<open>The failover loop of both connect functions: the hosts in order, until one works.\<close>

fun failover_loop ::
  "('h \<Rightarrow> 's \<Rightarrow> (int \<times> 's) c_result) \<Rightarrow> 'h list \<Rightarrow> int \<Rightarrow> 's \<Rightarrow> (int \<times> 's) c_result" where
  "failover_loop attempt [] ret s = Inr (ret, s)"
| "failover_loop attempt (h # hs) ret s =
     (case attempt h s of
        Inl e \<Rightarrow> Inl e
      | Inr (rc, s') \<Rightarrow> if rc = 0 then Inr (0, s') else failover_loop attempt hs rc s')"

definition connect_with ::
  "(string option \<Rightarrow> 's \<Rightarrow> (int \<times> 's) c_result) \<Rightarrow> string list \<Rightarrow> 's \<Rightarrow> (int \<times> 's) c_result" where
  "connect_with attempt hosts s =
     (case attempt None s of
        Inl e \<Rightarrow> Inl e
      | Inr (rc, s') \<Rightarrow>
          if rc = 0 then Inr (0, s') else failover_loop (\<lambda>h. attempt (Some h)) hosts rc s')"

definition smf_lookup_ldap_connect ::
  "ldap_lib \<Rightarrow> nat \<Rightarrow> smf_settings \<Rightarrow> (int \<times> smf_settings) c_result" where
  "smf_lookup_ldap_connect lib rnd s =
     (if s_backend_connection s = NullP then Inr (- 1, s)
      else connect_with (ldap_attempt lib rnd) (s_ldap_host s) s)"

definition smf_lookup_ldap_disconnect :: "smf_settings \<Rightarrow> smf_settings" where
  "smf_lookup_ldap_disconnect s = s\<lparr>s_lookup_connection := None\<rparr>"

definition smf_lookup_ldap_get_scope :: "smf_settings \<Rightarrow> int c_result" where
  "smf_lookup_ldap_get_scope s =
     (case s_ldap_scope s of
        None \<Rightarrow> Inl NullDeref
      | Some scope \<Rightarrow>
          Inr (if strcasecmp_eq scope ''subtree'' then LDAP_SCOPE_SUBTREE
               else if strcasecmp_eq scope ''onelevel'' then LDAP_SCOPE_ONELEVEL
               else if strcasecmp_eq scope ''base'' then LDAP_SCOPE_BASE
               else LDAP_SCOPE_SUBTREE))"

definition smf_lookup_ldap_get_connection ::
  "ldap_lib \<Rightarrow> nat \<Rightarrow> smf_settings \<Rightarrow> (nat option \<times> smf_settings) c_result" where
  "smf_lookup_ldap_get_connection lib rnd s =
     (case s_lookup_connection s of
        Some c \<Rightarrow> Inr (Some c, s)
      | None \<Rightarrow>
          (case smf_lookup_ldap_connect lib rnd s of
             Inl e \<Rightarrow> Inl e
           | Inr (rc, s') \<Rightarrow> if rc \<noteq> 0 then Inr (None, s') else Inr (s_lookup_connection s', s')))"

text \<open>An entry becomes a dictionary: the values of an attribute, joined by commas.\<close>

definition ldap_entry_dict :: "(string \<times> string list) list \<Rightarrow> smf_dict" where
  "ldap_entry_dict entry =
     foldl (\<lambda>d (attr, vals). dict_put d attr (join '','' vals)) smf_dict_new entry"

definition release_connection :: "smf_settings \<Rightarrow> smf_settings" where
  "release_connection s =
     (if s_lookup_persistent s \<noteq> 1 then smf_lookup_ldap_disconnect s else s)"

definition smf_lookup_ldap_query ::
  "ldap_lib \<Rightarrow> nat \<Rightarrow> smf_settings \<Rightarrow> string \<Rightarrow> (smf_dict list option \<times> smf_settings) c_result" where
  "smf_lookup_ldap_query lib rnd s query =
     (case s_ldap_base s of
        None \<Rightarrow> Inr (None, s)
      | Some base \<Rightarrow>
          (case smf_lookup_ldap_get_connection lib rnd s of
             Inl e \<Rightarrow> Inl e
           | Inr (None, s1) \<Rightarrow> Inr (None, s1)
           | Inr (Some c, s1) \<Rightarrow>
               if query = [] then Inr (None, s1)
               else (case smf_lookup_ldap_get_scope s1 of
                  Inl e \<Rightarrow> Inl e
                | Inr scope \<Rightarrow>
                    (case ldap_search lib c base scope query of
                       [] \<Rightarrow> Inr (None, release_connection s1)
                     | entries \<Rightarrow>
                         Inr (Some (map ldap_entry_dict entries), release_connection s1)))))"

section \<open>SQL\<close>

datatype conn_try = ConnNone | ConnDead | ConnOk   \<comment> \<open>no connection, one that does not answer, one that does\<close>

record sql_lib =
  sql_pool_new :: "string \<Rightarrow> nat option"
  sql_pool_ping :: "nat \<Rightarrow> bool"                \<comment> \<open>the test connection of a new pool\<close>
  sql_get_conn :: "nat \<Rightarrow> nat \<Rightarrow> conn_try"       \<comment> \<open>pool, number of the try\<close>
  sql_execute :: "nat \<Rightarrow> string \<Rightarrow> (string \<times> string option) list list option"
  sql_home :: "string option"                   \<comment> \<open>\<open>getenv ("HOME")\<close>\<close>

text \<open>The host part of the DSN; a driver compares without case.\<close>

definition dsn_host :: "nat \<Rightarrow> smf_settings \<Rightarrow> string \<Rightarrow> string option \<Rightarrow> string c_result" where
  "dsn_host rnd s driver host =
     (case host of
        Some h \<Rightarrow> Inr h
      | None \<Rightarrow>
          (case c_read (s_backend_connection s) of
             Inl e \<Rightarrow> Inl e
           | Inr None \<Rightarrow> Inl NullDeref
           | Inr (Some conn) \<Rightarrow>
               if strcasecmp_eq driver ''sqlite'' then Inr []
               else default_host rnd s (s_sql_host s)))"

text \<open>\<open>%u\<close> of an \<open>int\<close>; the name of an SQLite database, where a leading \<open>~\<close> is the home directory.\<close>

definition dsn_port :: "smf_settings \<Rightarrow> string" where
  "dsn_port s =
     (if s_sql_port s \<noteq> 0 then '':'' @ string_of_nat (nat (s_sql_port s mod 2 ^ 32)) else [])"

definition expand_home :: "sql_lib \<Rightarrow> string \<Rightarrow> string" where
  "expand_home lib name =
     (case name of
        c # r \<Rightarrow> if c = CHR ''~'' then printf_str (sql_home lib) @ r else name
      | [] \<Rightarrow> name)"

definition nonempty :: "string option \<Rightarrow> string option" where
  "nonempty v = (case v of None \<Rightarrow> None | Some x \<Rightarrow> if x = [] then None else Some x)"

definition dsn_login :: "smf_settings \<Rightarrow> string \<Rightarrow> string" where
  "dsn_login s driver =
     (case nonempty (s_sql_user s) of
        None \<Rightarrow> []
      | Some user \<Rightarrow>
          ''?user='' @ user @
          (case nonempty (s_sql_pass s) of None \<Rightarrow> [] | Some pw \<Rightarrow> ''&password='' @ pw) @
          (if strcasecmp_eq driver ''mysql'' then
             (case nonempty (s_sql_encoding s) of None \<Rightarrow> [] | Some e \<Rightarrow> ''&charset='' @ e)
           else []))"

text \<open>\<open>smf_lookup_sql_get_dsn\<close>; expanding \<open>~\<close> changes the setting.\<close>

definition smf_lookup_sql_get_dsn ::
  "sql_lib \<Rightarrow> nat \<Rightarrow> smf_settings \<Rightarrow> string option \<Rightarrow> (string option \<times> smf_settings) c_result" where
  "smf_lookup_sql_get_dsn lib rnd s host =
     (case c_read (s_sql_driver s) of
        Inl e \<Rightarrow> Inl e
      | Inr None \<Rightarrow> Inr (None, s)
      | Inr (Some driver) \<Rightarrow>
          (case dsn_host rnd s driver host of
             Inl e \<Rightarrow> Inl e
           | Inr h \<Rightarrow>
               (let sqlite = strcasecmp_eq driver ''sqlite'';
                    s1 = (if sqlite then s\<lparr>s_sql_name := map_option (expand_home lib) (s_sql_name s)\<rparr> else s);
                    name = (case s_sql_name s1 of
                              None \<Rightarrow> [] | Some n \<Rightarrow> if sqlite then n else ''/'' @ n)
                in Inr (Some (driver @ ''://'' @ h @ dsn_port s @ name @ dsn_login s driver), s1))))"

definition smf_lookup_sql_disconnect :: "smf_settings \<Rightarrow> smf_settings" where
  "smf_lookup_sql_disconnect s = s\<lparr>s_lookup_connection := None\<rparr>"

text \<open>
  \<open>smf_lookup_sql_start_pool\<close>: a pool that cannot be made or does not answer is closed again.
  (The limits of the pool are settings of the library.)
\<close>

definition smf_lookup_sql_start_pool ::
  "sql_lib \<Rightarrow> smf_settings \<Rightarrow> string option \<Rightarrow> (int \<times> smf_settings) c_result" where
  "smf_lookup_sql_start_pool lib s dsn =
     (case dsn of
        None \<Rightarrow> Inl AssertFailed
      | Some d \<Rightarrow>
          (let s1 = smf_lookup_sql_disconnect s
           in case sql_pool_new lib d of
                None \<Rightarrow> Inr (- 1, smf_lookup_sql_disconnect s1)
              | Some pool \<Rightarrow>
                  (let s2 = s1\<lparr>s_lookup_connection := Some pool\<rparr>
                   in if sql_pool_ping lib pool then Inr (0, s2)
                      else Inr (- 1, smf_lookup_sql_disconnect s2))))"

definition sql_attempt ::
  "sql_lib \<Rightarrow> nat \<Rightarrow> string option \<Rightarrow> smf_settings \<Rightarrow> (int \<times> smf_settings) c_result" where
  "sql_attempt lib rnd host s =
     (case smf_lookup_sql_get_dsn lib rnd s host of
        Inl e \<Rightarrow> Inl e
      | Inr (dsn, s1) \<Rightarrow> smf_lookup_sql_start_pool lib s1 dsn)"

definition smf_lookup_sql_connect ::
  "sql_lib \<Rightarrow> nat \<Rightarrow> smf_settings \<Rightarrow> (int \<times> smf_settings) c_result" where
  "smf_lookup_sql_connect lib rnd s = connect_with (sql_attempt lib rnd) (s_sql_host s) s"

text \<open>
  \<open>smf_lookup_sql_get_connection\<close>: thirty tries.  A connection that did not answer at the last
  try has been closed, but the pointer is used all the same.
\<close>

fun sql_tries :: "(nat \<Rightarrow> conn_try) \<Rightarrow> nat \<Rightarrow> nat \<Rightarrow> conn_try \<Rightarrow> conn_try" where
  "sql_tries conn 0 i prev = prev"
| "sql_tries conn (Suc k) i prev =
     (case conn i of ConnOk \<Rightarrow> ConnOk | c \<Rightarrow> sql_tries conn k (Suc i) c)"

definition smf_lookup_sql_get_connection :: "sql_lib \<Rightarrow> nat \<Rightarrow> unit c_result" where
  "smf_lookup_sql_get_connection lib pool =
     (case sql_tries (sql_get_conn lib pool) 30 1 ConnNone of
        ConnOk \<Rightarrow> Inr ()
      | ConnNone \<Rightarrow> Inl AssertFailed
      | ConnDead \<Rightarrow> Inl DanglingRead)"

text \<open>A row becomes a dictionary; a column that is \<open>NULL\<close> trips the assertion of \<open>smf_dict_set\<close>.\<close>

fun sql_row_dict :: "smf_dict \<Rightarrow> (string \<times> string option) list \<Rightarrow> smf_dict c_result" where
  "sql_row_dict d [] = Inr d"
| "sql_row_dict d ((col, None) # cols) = Inl AssertFailed"
| "sql_row_dict d ((col, Some v) # cols) = sql_row_dict (dict_put d col v) cols"

fun sql_rows :: "(string \<times> string option) list list \<Rightarrow> smf_dict list c_result" where
  "sql_rows [] = Inr []"
| "sql_rows (r # rs) =
     (case sql_row_dict smf_dict_new r of
        Inl e \<Rightarrow> Inl e
      | Inr d \<Rightarrow> (case sql_rows rs of Inl e \<Rightarrow> Inl e | Inr ds \<Rightarrow> Inr (d # ds)))"

text \<open>\<open>q\<close> is a format string for \<open>vasprintf\<close>; \<open>formatted\<close> is what it becomes.\<close>

definition smf_lookup_sql_query ::
  "sql_lib \<Rightarrow> nat \<Rightarrow> (string \<Rightarrow> string) \<Rightarrow> smf_settings \<Rightarrow> string \<Rightarrow>
   (smf_dict list option \<times> smf_settings) c_result" where
  "smf_lookup_sql_query lib rnd formatted s q =
     (let query = smf_core_strstrip (formatted q)
      in if query = [] then Inr (None, s)
         else (case (if s_lookup_connection s = None then smf_lookup_sql_connect lib rnd s
                     else Inr (0, s)) of
            Inl e \<Rightarrow> Inl e
          | Inr (rc, s1) \<Rightarrow>
              if rc \<noteq> 0 then Inr (None, s1)
              else (case s_lookup_connection s1 of
                 None \<Rightarrow> Inl NullDeref
               | Some pool \<Rightarrow>
                   (case smf_lookup_sql_get_connection lib pool of
                      Inl e \<Rightarrow> Inl e
                    | Inr _ \<Rightarrow>
                        (case sql_execute lib pool query of
                           None \<Rightarrow> Inr (None, s1)
                         | Some rows \<Rightarrow>
                             (case sql_rows rows of
                                Inl e \<Rightarrow> Inl e
                              | Inr ds \<Rightarrow>
                                  Inr (Some ds,
                                    if s_lookup_persistent s1 \<noteq> 1 then smf_lookup_sql_disconnect s1
                                    else s1)))))))"

section \<open>The random host is one of the first two\<close>

lemma rand_host_loop_eq:
  "rand_host_loop r 0 hosts =
     (case hosts of [] \<Rightarrow> None
      | h # hs \<Rightarrow> if r \<noteq> 1 then Some h else (case hs of [] \<Rightarrow> None | h' # _ \<Rightarrow> Some h'))"
  by (cases hosts; cases "tl hosts") auto

section \<open>Failover\<close>

text \<open>
  What the failover loop needs of an attempt to connect: with settings that are good, an attempt
  ends; it succeeds exactly for the hosts that are up, and leaves the settings good and, if it
  succeeded, connected to that host.
\<close>

locale failover =
  fixes attempt :: "'h \<Rightarrow> 's \<Rightarrow> (int \<times> 's) c_result"
    and up :: "'h \<Rightarrow> bool"
    and good :: "'s \<Rightarrow> bool"
    and connected :: "'h \<Rightarrow> 's \<Rightarrow> bool"
  assumes attempt_up:
      "good s \<Longrightarrow> up h \<Longrightarrow> \<exists>s'. attempt h s = Inr (0, s') \<and> good s' \<and> connected h s'"
    and attempt_down:
      "good s \<Longrightarrow> \<not> up h \<Longrightarrow> \<exists>rc s'. attempt h s = Inr (rc, s') \<and> rc \<noteq> 0 \<and> good s'"
begin

lemma loop_first_up:
  "good s \<Longrightarrow> find up hs = Some h \<Longrightarrow>
   \<exists>s'. failover_loop attempt hs ret s = Inr (0, s') \<and> good s' \<and> connected h s'"
proof (induction hs arbitrary: ret s)
  case Nil
  then show ?case by simp
next
  case (Cons k hs)
  show ?case
  proof (cases "up k")
    case True
    with Cons.prems attempt_up [OF Cons.prems(1) True] show ?thesis by auto
  next
    case False
    then obtain rc s' where "attempt k s = Inr (rc, s')" "rc \<noteq> 0" "good s'"
      using attempt_down [OF Cons.prems(1) False] by blast
    with Cons.IH [of s' rc] Cons.prems False show ?thesis by simp
  qed
qed

lemma loop_all_down:
  "good s \<Longrightarrow> find up hs = None \<Longrightarrow> ret \<noteq> 0 \<Longrightarrow>
   \<exists>rc s'. failover_loop attempt hs ret s = Inr (rc, s') \<and> rc \<noteq> 0 \<and> good s'"
proof (induction hs arbitrary: ret s)
  case Nil
  then show ?case by simp
next
  case (Cons k hs)
  then have "\<not> up k" "find up hs = None" by (auto split: if_splits)
  then obtain rc s' where "attempt k s = Inr (rc, s')" "rc \<noteq> 0" "good s'"
    using attempt_down [OF Cons.prems(1)] by blast
  with Cons.IH [of s' rc] \<open>find up hs = None\<close> show ?case by simp
qed

end

text \<open>The LDAP client: credentials are set and every URI can be initialised.\<close>

definition ldap_good :: "ldap_lib \<Rightarrow> smf_settings \<Rightarrow> smf_settings \<Rightarrow> bool" where
  "ldap_good lib s0 s \<longleftrightarrow>
     (\<forall>uri. ldap_initialize lib uri \<noteq> None) \<and>
     s_ldap_port s = s_ldap_port s0 \<and> s_ldap_base s = s_ldap_base s0 \<and>
     s_ldap_binddn s = s_ldap_binddn s0 \<and> s_ldap_bindpw s = s_ldap_bindpw s0 \<and>
     s_ldap_base s0 \<noteq> None"

definition ldap_up :: "ldap_lib \<Rightarrow> smf_settings \<Rightarrow> string \<Rightarrow> bool" where
  "ldap_up lib s0 h =
     (case (ldap_initialize lib (ldap_host_uri h (s_ldap_port s0)), s_ldap_binddn s0, s_ldap_bindpw s0) of
        (Some c, Some dn, Some pw) \<Rightarrow> ldap_sasl_bind lib c dn pw
      | _ \<Rightarrow> False)"

definition ldap_connected :: "ldap_lib \<Rightarrow> smf_settings \<Rightarrow> string \<Rightarrow> smf_settings \<Rightarrow> bool" where
  "ldap_connected lib s0 h s \<longleftrightarrow>
     s_lookup_connection s = ldap_initialize lib (ldap_host_uri h (s_ldap_port s0)) \<and>
     s_lookup_connection s \<noteq> None"

interpretation ldap: failover "\<lambda>h. ldap_attempt lib rnd (Some h)" "ldap_up lib s0" "ldap_good lib s0"
  "ldap_connected lib s0" for lib rnd s0
proof unfold_locales
  fix s h
  assume g: "ldap_good lib s0 s" and u: "ldap_up lib s0 h"
  then obtain c where "ldap_initialize lib (ldap_host_uri h (s_ldap_port s0)) = Some c"
    by (auto simp: ldap_up_def split: option.splits)
  with g u show "\<exists>s'. ldap_attempt lib rnd (Some h) s = Inr (0, s') \<and> ldap_good lib s0 s' \<and> ldap_connected lib s0 h s'"
    by (auto simp: ldap_attempt_def smf_lookup_ldap_get_uri_def smf_lookup_ldap_init_ld_def
        smf_lookup_ldap_bind_def ldap_good_def ldap_up_def ldap_connected_def Let_def split: option.splits)
next
  fix s h
  assume g: "ldap_good lib s0 s" and u: "\<not> ldap_up lib s0 h"
  then obtain c where "ldap_initialize lib (ldap_host_uri h (s_ldap_port s0)) = Some c"
    by (auto simp: ldap_good_def)
  with g u show "\<exists>rc s'. ldap_attempt lib rnd (Some h) s = Inr (rc, s') \<and> rc \<noteq> 0 \<and> ldap_good lib s0 s'"
    by (auto simp: ldap_attempt_def smf_lookup_ldap_get_uri_def smf_lookup_ldap_init_ld_def
        smf_lookup_ldap_bind_def ldap_good_def ldap_up_def Let_def split: option.splits)
qed

text \<open>The SQL client: a driver other than SQLite is set, so no setting changes on the way.\<close>

definition sql_good :: "smf_settings \<Rightarrow> smf_settings \<Rightarrow> bool" where
  "sql_good s0 s \<longleftrightarrow>
     (\<exists>driver. s_sql_driver s0 = StrP driver \<and> \<not> strcasecmp_eq driver ''sqlite'') \<and>
     s\<lparr>s_lookup_connection := None\<rparr> = s0\<lparr>s_lookup_connection := None\<rparr>"

definition sql_host_dsn :: "smf_settings \<Rightarrow> string \<Rightarrow> string" where
  "sql_host_dsn s h =
     (case s_sql_driver s of
        StrP driver \<Rightarrow>
          driver @ ''://'' @ h @ dsn_port s @
          (case s_sql_name s of None \<Rightarrow> [] | Some n \<Rightarrow> ''/'' @ n) @ dsn_login s driver
      | _ \<Rightarrow> [])"

definition sql_up :: "sql_lib \<Rightarrow> smf_settings \<Rightarrow> string \<Rightarrow> bool" where
  "sql_up lib s0 h =
     (case sql_pool_new lib (sql_host_dsn s0 h) of None \<Rightarrow> False | Some p \<Rightarrow> sql_pool_ping lib p)"

definition sql_connected :: "sql_lib \<Rightarrow> smf_settings \<Rightarrow> string \<Rightarrow> smf_settings \<Rightarrow> bool" where
  "sql_connected lib s0 h s \<longleftrightarrow>
     s_lookup_connection s = sql_pool_new lib (sql_host_dsn s0 h) \<and> s_lookup_connection s \<noteq> None"

lemma dsn_connection [simp]:
  "dsn_port (s\<lparr>s_lookup_connection := c\<rparr>) = dsn_port s"
  "dsn_login (s\<lparr>s_lookup_connection := c\<rparr>) driver = dsn_login s driver"
  by (simp_all add: dsn_port_def dsn_login_def cong: option.case_cong)

lemma sql_attempt_good:
  assumes "sql_good s0 s"
  shows "sql_attempt lib rnd (Some h) s = smf_lookup_sql_start_pool lib s (Some (sql_host_dsn s0 h))"
proof -
  define c where "c = s_lookup_connection s"
  have "s = (s\<lparr>s_lookup_connection := None\<rparr>)\<lparr>s_lookup_connection := c\<rparr>" by (simp add: c_def)
  also have "\<dots> = (s0\<lparr>s_lookup_connection := None\<rparr>)\<lparr>s_lookup_connection := c\<rparr>"
    using assms by (simp only: sql_good_def)
  finally have s: "s = s0\<lparr>s_lookup_connection := c\<rparr>" by simp
  obtain driver where d: "s_sql_driver s0 = StrP driver" "\<not> strcasecmp_eq driver ''sqlite''"
    using assms by (auto simp: sql_good_def)
  then show ?thesis
    by (simp add: s sql_attempt_def smf_lookup_sql_get_dsn_def dsn_host_def sql_host_dsn_def Let_def
        cong: option.case_cong)
qed

lemma sql_good_connection [simp]:
  "sql_good s0 (s\<lparr>s_lookup_connection := c\<rparr>) = sql_good s0 s"
  by (simp add: sql_good_def)

interpretation sql: failover "\<lambda>h. sql_attempt lib rnd (Some h)" "sql_up lib s0" "sql_good s0"
  "sql_connected lib s0" for lib rnd s0
proof unfold_locales
  fix s h
  assume g: "sql_good s0 s" and u: "sql_up lib s0 h"
  then show "\<exists>s'. sql_attempt lib rnd (Some h) s = Inr (0, s') \<and> sql_good s0 s' \<and> sql_connected lib s0 h s'"
    by (auto simp: sql_attempt_good smf_lookup_sql_start_pool_def smf_lookup_sql_disconnect_def
        sql_up_def sql_connected_def Let_def split: option.splits)
next
  fix s h
  assume g: "sql_good s0 s" and u: "\<not> sql_up lib s0 h"
  then show "\<exists>rc s'. sql_attempt lib rnd (Some h) s = Inr (rc, s') \<and> rc \<noteq> 0 \<and> sql_good s0 s'"
    by (auto simp: sql_attempt_good smf_lookup_sql_start_pool_def smf_lookup_sql_disconnect_def
        sql_up_def Let_def split: option.splits)
qed

section \<open>Properties\<close>

text \<open>
  "Random" load balancing reaches two hosts at most: whatever number is drawn and
  however many hosts are configured, the host returned is the first of the list, or the second
  when the number is 1 modulo the length; with no host the function divides by zero.
\<close>

theorem rand_host_first_two:
  "smf_lookup_ldap_get_rand_host rnd s =
     (case s_ldap_host s of
        [] \<Rightarrow> Inl DivideByZero
      | [h] \<Rightarrow> Inr (Some h)
      | h # h' # hs \<Rightarrow> Inr (Some (if rnd mod length (s_ldap_host s) = 1 then h' else h))) \<and>
   smf_lookup_sql_get_rand_host rnd s =
     (case s_sql_host s of
        [] \<Rightarrow> Inl DivideByZero
      | [h] \<Rightarrow> Inr (Some h)
      | h # h' # hs \<Rightarrow> Inr (Some (if rnd mod length (s_sql_host s) = 1 then h' else h)))"
  by (auto simp: smf_lookup_ldap_get_rand_host_def smf_lookup_sql_get_rand_host_def
      get_rand_host_def rand_host_loop_eq split: list.splits)



text \<open>
  A failed LDAP connection is taken for a good one by the next query: when no host
  accepts the bind, the handle of the last attempt stays in \<open>lookup_connection\<close>, and
  \<open>smf_lookup_ldap_get_connection\<close> then returns it without binding.
\<close>

theorem smf_lookup_ldap_failed_bind_kept:
  assumes "ldap_good lib s s" and "s_backend_connection s \<noteq> NullP" and "s_ldap_uri s = Some uri"
    and "\<And>c dn pw. \<not> ldap_sasl_bind lib c dn pw" and "s_lookup_connection s = None"
  shows "\<exists>s1 c. smf_lookup_ldap_get_connection lib rnd s = Inr (None, s1) \<and>
           smf_lookup_ldap_get_connection lib rnd' s1 = Inr (Some c, s1)"
proof -
  have step: "\<exists>rc s'. ldap_attempt lib rnd h t = Inr (rc, s') \<and> rc = - 1 \<and> ldap_good lib s s' \<and>
      s_lookup_connection s' \<noteq> None" if "ldap_good lib s t" "h \<noteq> None \<or> s_ldap_uri t = Some uri" for h t
    using that assms(4)
    by (cases h)
       (auto simp: ldap_attempt_def smf_lookup_ldap_get_uri_def smf_lookup_ldap_init_ld_def Let_def
         smf_lookup_ldap_bind_def ldap_good_def split: option.splits)
  have loop: "\<exists>s'. failover_loop (\<lambda>h. ldap_attempt lib rnd (Some h)) hs (- 1) t = Inr (- 1, s') \<and>
      s_lookup_connection s' \<noteq> None" if "ldap_good lib s t" "s_lookup_connection t \<noteq> None" for hs t
    using that
  proof (induction hs arbitrary: t)
    case (Cons h hs)
    with step [of t "Some h"] show ?case by fastforce
  qed simp
  obtain s1 where s1: "ldap_attempt lib rnd None s = Inr (- 1, s1)" "ldap_good lib s s1"
    "s_lookup_connection s1 \<noteq> None"
    using step [OF assms(1), of None] assms(3) by auto
  obtain s2 where "failover_loop (\<lambda>h. ldap_attempt lib rnd (Some h)) (s_ldap_host s) (- 1) s1 = Inr (- 1, s2)"
    "s_lookup_connection s2 \<noteq> None"
    using loop [OF s1(2,3)] by blast
  with s1 assms show ?thesis
    by (auto simp: smf_lookup_ldap_get_connection_def smf_lookup_ldap_connect_def connect_with_def)
qed

lemma smf_lookup_ldap_failed_bind_kept_witness:
  "\<exists>s1 c. smf_lookup_ldap_get_connection
       \<lparr>ldap_initialize = (\<lambda>uri. Some (length uri)), ldap_sasl_bind = (\<lambda>c dn pw. False),
        ldap_search = (\<lambda>c b sc q. [])\<rparr> 0
       (smf_settings_new\<lparr>s_backend_connection := StrP ''failover'', s_ldap_host := [''b''],
         s_ldap_base := Some [], s_ldap_uri := Some ''ldap://a''\<rparr>) = Inr (None, s1) \<and>
     smf_lookup_ldap_get_connection
       \<lparr>ldap_initialize = (\<lambda>uri. Some (length uri)), ldap_sasl_bind = (\<lambda>c dn pw. False),
        ldap_search = (\<lambda>c b sc q. [])\<rparr> 0 s1 = Inr (Some c, s1)"
  by (rule smf_lookup_ldap_failed_bind_kept [where uri = "''ldap://a''"])
     (simp_all add: ldap_good_def smf_settings_new_def)

text \<open>
  The LDAP scope "one level" cannot be configured: the final checks accept the
  misspelt \<open>onlevel\<close>, which the lookup maps to the whole subtree, and reject \<open>onelevel\<close>, the
  only spelling the lookup knows.
\<close>

theorem ldap_scope_onelevel_unreachable:
  assumes "settings_ready s" and "s_backend s = StrP ''ldap''"
  shows "(smf_lookup_ldap_get_scope s = Inr LDAP_SCOPE_BASE \<or>
          smf_lookup_ldap_get_scope s = Inr LDAP_SCOPE_SUBTREE) \<and>
         smf_lookup_ldap_get_scope (s\<lparr>s_ldap_scope := Some ''onlevel''\<rparr>) = Inr LDAP_SCOPE_SUBTREE \<and>
         smf_lookup_ldap_get_scope (s\<lparr>s_ldap_scope := Some ''onelevel''\<rparr>) = Inr LDAP_SCOPE_ONELEVEL \<and>
         \<not> fst (check_ldap (s\<lparr>s_ldap_scope := Some ''onelevel''\<rparr>))"
proof -
  have eval: "\<not> strcasecmp_eq ''base'' ''subtree''" "\<not> strcasecmp_eq ''base'' ''onelevel''"
    "\<not> strcasecmp_eq ''onlevel'' ''subtree''" "\<not> strcasecmp_eq ''onlevel'' ''onelevel''"
    "\<not> strcasecmp_eq ''onlevel'' ''base''" "\<not> strcasecmp_eq ''onelevel'' ''subtree''"
    by (simp_all add: strcasecmp_eq_def c_tolower_def)
  show ?thesis
    using assms eval
    by (auto simp: settings_ready_def smf_lookup_ldap_get_scope_def check_ldap_def Let_def)
qed

lemma ldap_scope_onelevel_unreachable_witness:
  "\<not> fst (check_ldap (smf_settings_new\<lparr>s_engine := Some ''smtpd'', s_queue_dir := Some ''/q'',
      s_backend := StrP ''ldap'', s_backend_connection := StrP ''failover'', s_nexthop_fail_msg := Some [],
      s_ldap_port := 389, s_ldap_base := Some [], s_ldap_scope := Some ''onelevel''\<rparr>))"
  using ldap_scope_onelevel_unreachable
    [of "smf_settings_new\<lparr>s_engine := Some ''smtpd'', s_queue_dir := Some ''/q'',
      s_backend := StrP ''ldap'', s_backend_connection := StrP ''failover'', s_nexthop_fail_msg := Some [],
      s_ldap_port := 389, s_ldap_base := Some [], s_ldap_scope := Some ''base''\<rparr>"]
  by (simp add: settings_ready_def smf_settings_new_def CHILD_LIMIT_def)

end
