(* ===== verification/Smf_Users.thy ===== *)
theory Smf_Users
  imports Smf_Lookup
begin

text \<open>
  Local users: the part of \<open>smf_internal.c\<close> that looks up every address of a transaction in the
  configured backend and keeps what it finds in the session.
\<close>

section \<open>Operations\<close>

text \<open>
  What the build and the outside world contribute: which backends are compiled in, the two
  client libraries, the random number of a load-balanced connection, and what \<open>vasprintf\<close> makes
  of an SQL query used as a format.
\<close>

record lookup_env =
  le_have_ldap :: bool
  le_have_zdb :: bool
  le_ldap :: ldap_lib
  le_sql :: sql_lib
  le_random :: nat
  le_formatted :: "string \<Rightarrow> string"

text \<open>\<open>smf_internal_user_match\<close>: the two nested loops over keys and attributes.\<close>

fun match_attrs :: "string list \<Rightarrow> smf_dict \<Rightarrow> string \<Rightarrow> string \<Rightarrow> bool c_result" where
  "match_attrs [] d addr attr = Inr False"
| "match_attrs (lookup_attr # attrs) d addr attr =
     (if lookup_attr = attr then
        (case smf_dict_get d attr of
           None \<Rightarrow> Inl NullDeref
         | Some value \<Rightarrow>
             if strstr value addr \<noteq> None then Inr True else match_attrs attrs d addr attr)
      else match_attrs attrs d addr attr)"

fun match_keys :: "string list \<Rightarrow> string list \<Rightarrow> smf_dict \<Rightarrow> string \<Rightarrow> int c_result" where
  "match_keys [] attrs d addr = Inr 0"
| "match_keys (attr # keys) attrs d addr =
     (case match_attrs attrs d addr attr of
        Inl e \<Rightarrow> Inl e
      | Inr True \<Rightarrow> Inr 1
      | Inr False \<Rightarrow> match_keys keys attrs d addr)"

definition smf_internal_user_match :: "string list \<Rightarrow> smf_dict \<Rightarrow> string \<Rightarrow> int c_result" where
  "smf_internal_user_match result_attributes d addr =
     match_keys (smf_dict_get_keys d) result_attributes d addr"

text \<open>\<open>smf_dict_set\<close> asserts that the value is there.\<close>

fun copy_entries :: "smf_dict \<Rightarrow> string list \<Rightarrow> smf_dict \<Rightarrow> smf_dict c_result" where
  "copy_entries origin [] d = Inr d"
| "copy_entries origin (k # ks) d =
     (case smf_dict_get origin k of
        None \<Rightarrow> Inl AssertFailed
      | Some v \<Rightarrow> copy_entries origin ks (dict_put d k v))"

definition smf_internal_copy_user_data :: "smf_dict option \<Rightarrow> smf_dict c_result" where
  "smf_internal_copy_user_data origin =
     (case origin of
        None \<Rightarrow> Inr smf_dict_new
      | Some o' \<Rightarrow> copy_entries o' (smf_dict_get_keys o') smf_dict_new)"

text \<open>The LDAP loop: \<open>d\<close> is the entry looked at last, whether it matched or not.\<close>

fun pick_entry :: "string list \<Rightarrow> string \<Rightarrow> smf_dict option \<Rightarrow> smf_dict list \<Rightarrow> smf_dict option c_result" where
  "pick_entry attrs addr d [] = Inr d"
| "pick_entry attrs addr d (e # es) =
     (case smf_internal_user_match attrs e addr of
        Inl err \<Rightarrow> Inl err
      | Inr m \<Rightarrow> if m = 1 then Inr (Some e) else pick_entry attrs addr (Some e) es)"

definition smf_internal_get_user_result ::
  "lookup_env \<Rightarrow> smf_settings \<Rightarrow> smf_dict list \<Rightarrow> string \<Rightarrow> smf_dict c_result" where
  "smf_internal_get_user_result env settings result addr =
     (case (if le_have_ldap env then pick_entry (s_ldap_result_attributes settings) addr None result
            else if le_have_zdb env then
              Inr (case result of [] \<Rightarrow> None | d # _ \<Rightarrow> Some d)
            else Inr None) of
        Inl e \<Rightarrow> Inl e
      | Inr d \<Rightarrow> smf_internal_copy_user_data d)"

text \<open>
  The query of one backend: -1 when the template cannot be expanded, else the result list.
  A missing template trips the assertion of \<open>smf_core_expand_string\<close>.
\<close>

definition backend_query ::
  "(smf_settings \<Rightarrow> string \<Rightarrow> (smf_dict list option \<times> smf_settings) c_result) \<Rightarrow> string option \<Rightarrow>
   smf_settings \<Rightarrow> string \<Rightarrow> ((smf_dict list option \<times> smf_settings) option) c_result" where
  "backend_query run user_query settings addr =
     (case user_query of
        None \<Rightarrow> Inl AssertFailed
      | Some q \<Rightarrow>
          (case smf_core_expand_string q addr of
             BadFormat e \<Rightarrow> Inr None
           | Expanded query n \<Rightarrow>
               (case run settings query of Inl e \<Rightarrow> Inl e | Inr r \<Rightarrow> Inr (Some r))))"

definition run_lookup ::
  "lookup_env \<Rightarrow> string \<Rightarrow> smf_settings \<Rightarrow> string \<Rightarrow> ((smf_dict list option \<times> smf_settings) option) c_result"
  where
  "run_lookup env backend settings addr =
     (if le_have_ldap env \<and> backend = ''ldap'' then
        backend_query (smf_lookup_ldap_query (le_ldap env) (le_random env))
          (s_ldap_user_query settings) settings addr
      else if le_have_zdb env \<and> backend = ''sql'' then
        backend_query (smf_lookup_sql_query (le_sql env) (le_random env) (le_formatted env))
          (s_sql_user_query settings) settings addr
      else Inr (Some (None, settings)))"

definition smf_internal_query_user ::
  "lookup_env \<Rightarrow> smf_settings \<Rightarrow> session \<Rightarrow> string \<Rightarrow> (int \<times> smf_settings \<times> session) c_result" where
  "smf_internal_query_user env settings session addr =
     (if addr = [] then Inr (0, settings, session)
      else case c_read (s_backend settings) of
        Inl e \<Rightarrow> Inl e
      | Inr None \<Rightarrow> Inl NullDeref
      | Inr (Some backend) \<Rightarrow>
          (case run_lookup env backend settings addr of
             Inl e \<Rightarrow> Inl e
           | Inr None \<Rightarrow> Inr (- 1, settings, session)
           | Inr (Some (None, settings')) \<Rightarrow> Inr (0, settings', session)
           | Inr (Some (Some result, settings')) \<Rightarrow>
               (case smf_internal_get_user_result env settings' result addr of
                  Inl e \<Rightarrow> Inl e
                | Inr data \<Rightarrow>
                    Inr (0, settings', session\<lparr>ses_local_users :=
                      ses_local_users session @ [\<lparr>ud_email = addr, ud_data = data\<rparr>]\<rparr>))))"

text \<open>The loop over the recipients; a failure of one lookup is only logged.\<close>

fun query_users ::
  "lookup_env \<Rightarrow> string list \<Rightarrow> smf_settings \<Rightarrow> session \<Rightarrow> (smf_settings \<times> session) c_result" where
  "query_users env [] settings session = Inr (settings, session)"
| "query_users env (addr # addrs) settings session =
     (case smf_internal_query_user env settings session addr of
        Inl e \<Rightarrow> Inl e
      | Inr (rc, settings', session') \<Rightarrow> query_users env addrs settings' session')"

definition smf_internal_fetch_user_data ::
  "lookup_env \<Rightarrow> smf_settings \<Rightarrow> session \<Rightarrow> (int \<times> smf_settings \<times> session) c_result" where
  "smf_internal_fetch_user_data env settings session =
     (case c_read (s_backend settings) of
        Inl e \<Rightarrow> Inl e
      | Inr None \<Rightarrow> Inr (0, settings, session)
      | Inr (Some backend) \<Rightarrow>
          if backend = ''ldap'' \<and> s_ldap_user_query settings = None then Inr (0, settings, session)
          else if backend = ''sql'' \<and> s_sql_user_query settings = None then Inr (0, settings, session)
          else (case query_users env (env_recipients (ses_envelope session) @
                       (case env_sender (ses_envelope session) of None \<Rightarrow> [] | Some a \<Rightarrow> [a]))
                     settings session of
             Inl e \<Rightarrow> Inl e
           | Inr (settings', session') \<Rightarrow> Inr (0, settings', session')))"

section \<open>Lemmas\<close>

definition user_matches :: "string list \<Rightarrow> string \<Rightarrow> smf_dict \<Rightarrow> bool" where
  "user_matches attrs addr d \<longleftrightarrow>
     list_ex (\<lambda>k. List.member attrs k \<and> sublist addr (the (smf_dict_get d k))) (smf_dict_get_keys d)"

lemma match_attrs_eq:
  "smf_dict_get d attr = Some value \<Longrightarrow>
   match_attrs attrs d addr attr = Inr (attr \<in> set attrs \<and> sublist addr value)"
  by (induction attrs) (auto simp: strstr_Some_iff simp del: not_None_eq)

lemma match_keys_eq:
  "(\<And>k. k \<in> set keys \<Longrightarrow> smf_dict_get d k \<noteq> None) \<Longrightarrow>
   match_keys keys attrs d addr =
     Inr (if list_ex (\<lambda>k. k \<in> set attrs \<and> sublist addr (the (smf_dict_get d k))) keys then 1 else 0)"
proof (induction keys)
  case Nil
  then show ?case by simp
next
  case (Cons k keys)
  then obtain v where v: "smf_dict_get d k = Some v" by (metis list.set_intros(1) not_None_eq)
  show ?case using Cons by (auto simp: match_attrs_eq [OF v] v split: bool.splits)
qed

lemma user_match_eq:
  assumes "dict_ok d"
  shows "smf_internal_user_match attrs d addr = Inr (if user_matches attrs addr d then 1 else 0)"
proof -
  have "k \<in> set (smf_dict_get_keys d) \<Longrightarrow> smf_dict_get d k \<noteq> None" for k
    using arrays.set_keys [OF assms] by auto
  from match_keys_eq [OF this] show ?thesis
    by (simp add: smf_internal_user_match_def user_matches_def)
qed

lemma pick_entry_eq:
  "list_all dict_ok es \<Longrightarrow>
   pick_entry attrs addr d es =
     Inr (case find (user_matches attrs addr) es of
            Some e \<Rightarrow> Some e | None \<Rightarrow> if es = [] then d else Some (last es))"
  by (induction es arbitrary: d) (auto simp: user_match_eq split: option.splits)

lemma copy_entries_eq:
  "(\<And>k. k \<in> set ks \<Longrightarrow> smf_dict_get src k \<noteq> None) \<Longrightarrow>
   copy_entries src ks d = Inr (foldl (\<lambda>acc k. dict_put acc k (the (smf_dict_get src k))) d ks)"
proof (induction ks arbitrary: d)
  case Nil
  then show ?case by simp
next
  case (Cons k ks)
  then obtain v where "smf_dict_get src k = Some v" by (metis list.set_intros(1) not_None_eq)
  with Cons show ?case by simp
qed

lemma copy_user_data_eq:
  assumes "dict_ok d"
  shows "\<exists>d'. smf_internal_copy_user_data (Some d) = Inr d' \<and> dict_ok d' \<and> smf_dict_get d' = smf_dict_get d"
proof -
  have "k \<in> set (smf_dict_get_keys d) \<Longrightarrow> smf_dict_get d k \<noteq> None" for k
    using arrays.set_keys [OF assms] by auto
  from copy_entries_eq [OF this, of "smf_dict_get_keys d" smf_dict_new]
  have "smf_internal_copy_user_data (Some d) =
      Inr (foldl (\<lambda>acc k. dict_put acc k (the (smf_dict_get d k))) smf_dict_new (smf_dict_get_keys d))"
    by (simp add: smf_internal_copy_user_data_def)
  then show ?thesis
    using arrays.get_copy [OF assms] arrays.inv_fill [OF dict_ok_new] by auto
qed

section \<open>Properties\<close>

text \<open>
  Which LDAP entry becomes the data of a user: a copy of the first entry in which one
  of the result attributes contains the address as a substring; when no entry does, not nothing
  but a copy of the last entry of the result, so a user can get the data of somebody else.
\<close>

theorem smf_internal_get_user_result_choice:
  assumes "le_have_ldap env" and "list_all dict_ok result" and "result \<noteq> []"
  shows "\<exists>d. smf_internal_get_user_result env settings result addr = Inr d \<and> dict_ok d \<and>
    smf_dict_get d = smf_dict_get
      (case find (user_matches (s_ldap_result_attributes settings) addr) result of
         Some e \<Rightarrow> e | None \<Rightarrow> last result)"
proof -
  let ?e = "case find (user_matches (s_ldap_result_attributes settings) addr) result of
         Some e \<Rightarrow> e | None \<Rightarrow> last result"
  have "pick_entry (s_ldap_result_attributes settings) addr None result = Inr (Some ?e)"
    using assms by (simp add: pick_entry_eq split: option.splits)
  moreover have "dict_ok ?e"
    using assms by (auto simp: list_all_iff find_Some_iff split: option.splits)
  ultimately show ?thesis
    using assms(1) copy_user_data_eq [of ?e] by (simp add: smf_internal_get_user_result_def)
qed

lemma smf_internal_get_user_result_choice_witness:
  "\<exists>d. smf_internal_get_user_result
      \<lparr>le_have_ldap = True, le_have_zdb = False, le_ldap = undefined, le_sql = undefined, le_random = 0,
       le_formatted = id\<rparr>
      (smf_settings_new\<lparr>s_ldap_result_attributes := []\<rparr>)
      [smf_dict_new, dict_put smf_dict_new ''mail'' ''joe@x.org''] ''ann@x.org'' = Inr d \<and>
    smf_dict_get d ''mail'' = Some ''joe@x.org''"
proof -
  have ok: "list_all dict_ok [smf_dict_new, dict_put smf_dict_new ''mail'' ''joe@x.org'']"
    by (simp add: dict_ok_new dict_ok_put)
  have none: "\<not> user_matches [] a d" for a d by (simp add: user_matches_def list_ex_iff)
  show ?thesis
    using smf_internal_get_user_result_choice [of "\<lparr>le_have_ldap = True, le_have_zdb = False,
        le_ldap = undefined, le_sql = undefined, le_random = 0, le_formatted = id\<rparr>"
        "[smf_dict_new, dict_put smf_dict_new ''mail'' ''joe@x.org'']"
        "smf_settings_new\<lparr>s_ldap_result_attributes := []\<rparr>" "''ann@x.org''", OF _ ok]
    by (auto simp: none arrays.get_put dict_ok_new)
qed

end
