(* ===== verification/Smf_Modules.thy ===== *)
theory Smf_Modules
  imports Smf_Nexthop Smf_Users
begin

text \<open>
  Running the modules over a message, \<open>smf_modules.c\<close>: loading the engine, invoking one module,
  the processing queue with its error callbacks, the flush of changed headers to the queue file
  and the call of the next hop.  Modules and engines are shared objects outside the repository:
  what \<open>dlsym\<close> finds and what the function found does to the state are fields of \<open>platform\<close>.
\<close>

section \<open>State\<close>

text \<open>
  What a module may change: it gets the settings and the session, and may touch files.  The
  message of the envelope is changed in place.  \<open>rs_sent\<close> records the requests made of libesmtp.
\<close>

record run_state =
  rs_settings :: smf_settings
  rs_session :: session
  rs_world :: world
  rs_sent :: "esmtp_request list"

record platform =
  pf_os :: os
  pf_cm :: cmime
  pf_es :: esmtp
  pf_lookup :: lookup_env
  pf_dlsym :: "string option \<Rightarrow> string option"   \<comment> \<open>the symbol \<open>load\<close> of a handle; \<open>None\<close> is \<open>NULL\<close>\<close>
  pf_run :: "string \<Rightarrow> smf_settings \<Rightarrow> session \<Rightarrow> world \<Rightarrow> int \<times> smf_settings \<times> session \<times> world"

record pqueue =
  q_load_error :: "smf_settings \<Rightarrow> session \<Rightarrow> world \<Rightarrow> (int \<times> world) c_result"
  q_processing_error :: "smf_settings \<Rightarrow> session \<Rightarrow> int \<Rightarrow> world \<Rightarrow> (int \<times> world) c_result"
  q_nexthop_error :: "smf_settings \<Rightarrow> session \<Rightarrow> world \<Rightarrow> (int \<times> world) c_result"

definition smf_modules_pqueue_init ::
  "(smf_settings \<Rightarrow> session \<Rightarrow> world \<Rightarrow> (int \<times> world) c_result) \<Rightarrow>
   (smf_settings \<Rightarrow> session \<Rightarrow> int \<Rightarrow> world \<Rightarrow> (int \<times> world) c_result) \<Rightarrow>
   (smf_settings \<Rightarrow> session \<Rightarrow> world \<Rightarrow> (int \<times> world) c_result) \<Rightarrow> pqueue" where
  "smf_modules_pqueue_init loaderr processerr nhoperr =
     \<lparr>q_load_error = loaderr, q_processing_error = processerr, q_nexthop_error = nhoperr\<rparr>"

section \<open>The engine\<close>

text \<open>
  \<open>None\<close>: the library or its symbol is missing (\<open>-1\<close>).  Otherwise the path of the engine, whose
  \<open>load\<close> function is called with the settings and whose result is returned.
\<close>

definition smf_modules_engine_load ::
  "loader \<Rightarrow> (string \<Rightarrow> bool) \<Rightarrow> smf_settings \<Rightarrow> string option c_result" where
  "smf_modules_engine_load ld has_load settings =
     (case s_engine settings of
        None \<Rightarrow> Inl NullDeref
      | Some engine \<Rightarrow>
          (let dir = (case s_lib_dir settings of Some d \<Rightarrow> d | None \<Rightarrow> ld_libdir ld);
               engine_path = smf_internal_build_module_path dir engine
           in if \<not> ld_dlopen ld engine_path then Inr None
              else if \<not> has_load engine_path then Inr None
              else Inr (Some engine_path)))"

section \<open>One module\<close>

definition message_file_mtime :: "session \<Rightarrow> world \<Rightarrow> nat" where
  "message_file_mtime session w =
     (case ses_message_file session of
        None \<Rightarrow> 0
      | Some name \<Rightarrow> (case sys_mtime name w of None \<Rightarrow> 0 | Some t \<Rightarrow> t))"

definition module_runner :: "platform \<Rightarrow> smf_module \<Rightarrow> string option" where
  "module_runner pf m =
     (case mod_target m of Handle h \<Rightarrow> pf_dlsym pf h | Callback f \<Rightarrow> Some f)"

text \<open>
  The second component says whether the message object was replaced by one read from the changed
  queue file; the old object is freed then.
\<close>

definition smf_module_invoke :: "platform \<Rightarrow> smf_module \<Rightarrow> run_state \<Rightarrow> int \<times> bool \<times> run_state" where
  "smf_module_invoke pf m st =
     (case module_runner pf m of
        None \<Rightarrow> (- 1, False, st)
      | Some runner \<Rightarrow>
          (let mtime_before = message_file_mtime (rs_session st) (rs_world st)
           in case pf_run pf runner (rs_settings st) (rs_session st) (rs_world st) of
                (result, settings, session, w) \<Rightarrow>
                  let st1 = st\<lparr>rs_settings := settings, rs_session := session, rs_world := w\<rparr>
                  in case ses_message_file session of
                       None \<Rightarrow> (result, False, st1)
                     | Some name \<Rightarrow>
                         if result = 0 \<and> mtime_before < message_file_mtime session w
                         then (case w_files w name of
                             None \<Rightarrow> (0, False, st1)
                           | Some f \<Rightarrow>
                               (case cm_from_file (pf_cm pf) (sp_data f) False of
                                  (r, m') \<Rightarrow>
                                    if r = 0
                                    then (0, True, st1\<lparr>rs_session :=
                                            with_envelope (\<lambda>e. e\<lparr>env_message := Some m'\<rparr>) session\<rparr>)
                                    else (r, False, st1)))
                         else (result, False, st1)))"

text \<open>
  Giving a module up; \<open>dlclose\<close> tells whether unloading a handle works.  The list of modules ignores
  the result.
\<close>

definition smf_module_destroy :: "(string \<Rightarrow> bool) \<Rightarrow> smf_module option \<Rightarrow> int c_result" where
  "smf_module_destroy dlclose module =
     (case module of
        None \<Rightarrow> Inl AssertFailed
      | Some m \<Rightarrow>
          (case mod_target m of
             Handle (Some h) \<Rightarrow> Inr (if \<not> dlclose h then - 1 else 0)
           | _ \<Rightarrow> Inr 0))"

definition mod_list_destroy :: "(string \<Rightarrow> bool) \<Rightarrow> smf_module option \<Rightarrow> unit c_result" where
  "mod_list_destroy dlclose module = map_sum id (\<lambda>_. ()) (smf_module_destroy dlclose module)"

section \<open>Flushing changed headers\<close>

definition copy_header :: "header \<Rightarrow> header" where
  "copy_header o' =
     foldl (\<lambda>n s. header_add_value s n) \<lparr>h_name = h_name o', h_values = []\<rparr> (h_values o')"

text \<open>The comparison of two value lists of the same length, and of two headers.\<close>

fun values_changed :: "string list \<Rightarrow> string list \<Rightarrow> bool" where
  "values_changed (v # vs) (u # us) = (v \<noteq> u \<or> values_changed vs us)"
| "values_changed _ _ = False"

definition header_changed :: "header \<Rightarrow> header \<Rightarrow> bool" where
  "header_changed h_msg h_init =
     (if length (h_values h_msg) \<noteq> length (h_values h_init) then True
      else values_changed (h_values h_msg) (h_values h_init))"

text \<open>The outer loop over the headers of the message; the inner one stops at the first namesake.\<close>

fun dirty_loop :: "header list \<Rightarrow> header list \<Rightarrow> bool" where
  "dirty_loop init [] = False"
| "dirty_loop init (h # hs) =
     (case find (\<lambda>i. h_name i = h_name h) init of
        None \<Rightarrow> True
      | Some i \<Rightarrow> header_changed h i \<or> dirty_loop init hs)"

definition headers_dirty :: "header list \<Rightarrow> header list \<Rightarrow> bool" where
  "headers_dirty init hs = (if length hs \<noteq> length init then True else dirty_loop init hs)"

definition tmp_template :: "string option \<Rightarrow> string" where
  "tmp_template dir = take 4095 ((case dir of None \<Rightarrow> ''(null)'' | Some d \<Rightarrow> d) @ ''/XXXXXX'')"

text \<open>Writing the new queue file and putting it in the place of the old one.\<close>

definition flush_message :: "platform \<Rightarrow> string option \<Rightarrow> message \<Rightarrow> string \<Rightarrow> world \<Rightarrow> int \<times> world" where
  "flush_message pf queue_dir m message_file w =
     (case sys_mkstemp (pf_os pf) (tmp_template queue_dir) w of
        None \<Rightarrow> (- 1, w)
      | Some (tmpname, w1) \<Rightarrow>
          (case smf_message_to_fd (pf_cm pf) m (file_fd (pf_os pf) tmpname []) of
             (r, out) \<Rightarrow>
               let w2 = put_file tmpname (fd_out out) w1
               in if r = - 1 then (- 1, w2)
                  else if \<not> os_may_open (pf_os pf) tmpname then (- 1, w2)
                  else (case fopen_read (pf_os pf) message_file w2 of
                      None \<Rightarrow> (- 1, w2)
                    | Some old \<Rightarrow>
                        (case smf_message_write_skip_header old out of
                           (r2, out2) \<Rightarrow>
                             let w3 = put_file tmpname (fd_out out2) w2
                             in if r2 = - 1 then (- 1, w3)
                                else replace_file (pf_os pf) tmpname message_file w3))))"

definition smf_modules_flush_dirty ::
  "platform \<Rightarrow> header list \<Rightarrow> run_state \<Rightarrow> (int \<times> run_state) c_result" where
  "smf_modules_flush_dirty pf initial_headers st =
     (case env_message (ses_envelope (rs_session st)) of
        None \<Rightarrow> Inl NullDeref
      | Some m \<Rightarrow>
          if \<not> headers_dirty initial_headers (msg_headers m) then Inr (0, st)
          else (case ses_message_file (rs_session st) of
              None \<Rightarrow> Inl NullDeref
            | Some name \<Rightarrow>
                (case flush_message pf (s_queue_dir (rs_settings st)) m name (rs_world st) of
                   (r, w) \<Rightarrow> Inr (r, st\<lparr>rs_world := w\<rparr>))))"

section \<open>The processing queue\<close>

text \<open>
  The loop over the modules.  The result says whether the function returns at once and with
  what, else \<open>ret\<close>, the header text and whether the message object taken before the loop has
  been freed.
\<close>

datatype queue_end = Returned int | Finished int "string option" bool

definition extend_header :: "run_state \<Rightarrow> nat \<Rightarrow> smf_module \<Rightarrow> string option \<Rightarrow> string option c_result" where
  "extend_header st mod_count m header =
     (if s_add_header (rs_settings st) = 1
      then (case smf_core_strcat_printf header
                   (Some (if mod_count = length (s_modules (rs_settings st)) then mod_name m
                          else mod_name m @ '', '')) of
              Inl e \<Rightarrow> Inl e
            | Inr h \<Rightarrow> Inr (Some h))
      else Inr header)"

fun queue_loop ::
  "platform \<Rightarrow> pqueue \<Rightarrow> smf_module list \<Rightarrow> nat \<Rightarrow> int \<Rightarrow> string option \<Rightarrow> bool \<Rightarrow> run_state \<Rightarrow>
   (queue_end \<times> run_state) c_result" where
  "queue_loop pf q [] mod_count ret header stale st = Inr (Finished ret header stale, st)"
| "queue_loop pf q (m # ms) mod_count ret header stale st =
     (case smf_module_invoke pf m st of
        (r, reloaded, st1) \<Rightarrow>
          let stale1 = (stale \<or> reloaded);
              verdict = (if r \<noteq> 0
                then q_processing_error q (rs_settings st1) (rs_session st1) r (rs_world st1)
                else Inr (0, rs_world st1))
          in case verdict of
               Inl e \<Rightarrow> Inl e
             | Inr (v, w) \<Rightarrow>
                 let st2 = st1\<lparr>rs_world := w\<rparr>
                 in if r \<noteq> 0 \<and> v = 0 then Inr (Returned (- 1), st2)
                    else if r \<noteq> 0 \<and> v = 1 then Inr (Returned 1, st2)
                    else if r \<noteq> 0 \<and> v = 2 then Inr (Finished 2 header stale1, st2)
                    else (case extend_header st2 (mod_count + 1) m header of
                        Inl e \<Rightarrow> Inl e
                      | Inr header1 \<Rightarrow> queue_loop pf q ms (mod_count + 1) v header1 stale1 st2))"

text \<open>The \<open>X-Spmfilter\<close> header goes to the message object that was taken before the loop.\<close>

definition set_queue_header ::
  "platform \<Rightarrow> string option \<Rightarrow> bool \<Rightarrow> run_state \<Rightarrow> run_state c_result" where
  "set_queue_header pf header stale st =
     (if s_add_header (rs_settings st) \<noteq> 1 then Inr st
      else case header of
        None \<Rightarrow> Inl AssertFailed
      | Some h \<Rightarrow>
          if stale then Inl DanglingRead
          else (case env_message (ses_envelope (rs_session st)) of
              None \<Rightarrow> Inl NullDeref
            | Some m \<Rightarrow>
                Inr (st\<lparr>rs_session := with_envelope
                      (\<lambda>e. e\<lparr>env_message := Some (snd (cm_set_header (pf_cm pf) m h))\<rparr>) (rs_session st)\<rparr>)))"

definition call_nexthop :: "platform \<Rightarrow> pqueue \<Rightarrow> run_state \<Rightarrow> (int \<times> run_state) c_result" where
  "call_nexthop pf q st =
     (case smf_nexthop_find (pf_os pf) (rs_settings st) of
        None \<Rightarrow> Inr (0, st)
      | Some f \<Rightarrow>
          (case run_nexthop (pf_os pf) (pf_cm pf) (pf_es pf) f (rs_settings st) (rs_session st) (rs_world st) of
             Inl e \<Rightarrow> Inl e
           | Inr (ret, session, w, rq) \<Rightarrow>
               let st1 = st\<lparr>rs_session := session, rs_world := w,
                            rs_sent := rs_sent st @ (case rq of None \<Rightarrow> [] | Some x \<Rightarrow> [x])\<rparr>
               in if ret = 0 then Inr (0, st1)
                  else (case q_nexthop_error q (rs_settings st1) session w of
                      Inl e \<Rightarrow> Inl e
                    | Inr (_, w2) \<Rightarrow> Inr (ret, st1\<lparr>rs_world := w2\<rparr>))))"

definition finish_queue ::
  "platform \<Rightarrow> pqueue \<Rightarrow> header list \<Rightarrow> int \<Rightarrow> string option \<Rightarrow> bool \<Rightarrow> run_state \<Rightarrow>
   (int \<times> run_state) c_result" where
  "finish_queue pf q initial_headers ret header stale st =
     (if ret = 0 \<or> ret = 2
      then (case set_queue_header pf header stale st of
          Inl e \<Rightarrow> Inl e
        | Inr st1 \<Rightarrow>
            (case smf_modules_flush_dirty pf initial_headers st1 of
               Inl e \<Rightarrow> Inl e
             | Inr (r, st2) \<Rightarrow> if r \<noteq> 0 then Inr (r, st2) else call_nexthop pf q st2))
      else Inr (ret, st))"

definition fetch_users :: "platform \<Rightarrow> run_state \<Rightarrow> run_state c_result" where
  "fetch_users pf st =
     (case smf_internal_fetch_user_data (pf_lookup pf) (rs_settings st) (rs_session st) of
        Inl e \<Rightarrow> Inl e
      | Inr (_, settings, session) \<Rightarrow> Inr (st\<lparr>rs_settings := settings, rs_session := session\<rparr>))"

definition x_spmfilter :: string where
  "x_spmfilter = ''X-Spmfilter: ''"

definition smf_modules_process ::
  "platform \<Rightarrow> pqueue \<Rightarrow> run_state \<Rightarrow> (int \<times> run_state) c_result" where
  "smf_modules_process pf q st =
     (case env_message (ses_envelope (rs_session st)) of
        None \<Rightarrow> Inl NullDeref
      | Some m \<Rightarrow>
          (let initial_headers = map copy_header (msg_headers m);
               header = (if s_add_header (rs_settings st) = 1 then Some x_spmfilter else None)
           in case fetch_users pf st of
                Inl e \<Rightarrow> Inl e
              | Inr st1 \<Rightarrow>
                  (case queue_loop pf q (s_modules (rs_settings st1)) 0 0 header False st1 of
                     Inl e \<Rightarrow> Inl e
                   | Inr (Returned r, st2) \<Rightarrow> Inr (r, st2)
                   | Inr (Finished ret header1 stale, st2) \<Rightarrow>
                       finish_queue pf q initial_headers ret header1 stale st2)))"

section \<open>Comparing headers\<close>

lemma copy_header_id [simp]: "copy_header h = h"
proof -
  have "foldl (\<lambda>n s. header_add_value s n) k vs = k\<lparr>h_values := h_values k @ vs\<rparr>" for k vs
    by (induction vs arbitrary: k) (simp_all add: header_add_value_def)
  then show ?thesis by (simp add: copy_header_def)
qed

lemma values_changed_iff: "length vs = length us \<Longrightarrow> values_changed vs us \<longleftrightarrow> vs \<noteq> us"
  by (induction vs us rule: list_induct2) auto

lemma header_changed_iff: "h_name h = h_name i \<Longrightarrow> header_changed h i \<longleftrightarrow> h \<noteq> i"
  by (cases h; cases i) (auto simp: header_changed_def values_changed_iff)

lemma find_namesake:
  assumes "distinct (map h_name init)"
  shows "(case find (\<lambda>i. h_name i = h_name h) init of None \<Rightarrow> True | Some i \<Rightarrow> h \<noteq> i) \<longleftrightarrow>
    h \<notin> set init"
  using assms
  by (induction init) (auto simp: image_iff)

lemma dirty_loop_iff:
  assumes "distinct (map h_name init)"
  shows "dirty_loop init hs \<longleftrightarrow> \<not> set hs \<subseteq> set init"
proof (induction hs)
  case Nil
  then show ?case by simp
next
  case (Cons h hs)
  note nm = find_namesake [OF assms, of h]
  show ?case
  proof (cases "find (\<lambda>i. h_name i = h_name h) init")
    case None
    with nm show ?thesis by simp
  next
    case (Some i)
    then have "h_name h = h_name i" by (auto simp: find_Some_iff)
    with nm Some have "header_changed h i \<longleftrightarrow> h \<notin> set init" by (simp add: header_changed_iff)
    with Some Cons show ?thesis by simp
  qed
qed

section \<open>The queue\<close>

text \<open>
  The documented contract of a module that does not reconfigure the program, and the state after
  a run of modules that all return 0 (the flag: a module changed the queue file).
\<close>

definition keeps_settings :: "platform \<Rightarrow> bool" where
  "keeps_settings pf \<longleftrightarrow> (\<forall>r s se w. fst (snd (pf_run pf r s se w)) = s)"

fun all_ok :: "platform \<Rightarrow> smf_module list \<Rightarrow> run_state \<Rightarrow> (bool \<times> run_state) option" where
  "all_ok pf [] st = Some (False, st)"
| "all_ok pf (m # ms) st =
     (case smf_module_invoke pf m st of
        (r, reloaded, st1) \<Rightarrow>
          if r = 0 then map_option (\<lambda>(b, s). (reloaded \<or> b, s)) (all_ok pf ms st1) else None)"

fun header_text :: "nat \<Rightarrow> nat \<Rightarrow> smf_module list \<Rightarrow> string" where
  "header_text n k [] = []"
| "header_text n k (m # ms) =
     (if k + 1 = n then mod_name m else mod_name m @ '', '') @ header_text n (k + 1) ms"

lemma header_text_join: "k + length ms = n \<Longrightarrow> header_text n k ms = join '', '' (map mod_name ms)"
proof (induction ms arbitrary: k)
  case Nil
  then show ?case by simp
next
  case (Cons m ms)
  then have "header_text n (k + 1) ms = join '', '' (map mod_name ms)" by simp
  moreover have "k + 1 = n \<longleftrightarrow> ms = []" using Cons.prems by auto
  ultimately show ?case by (cases ms) simp_all
qed

lemma invoke_settings:
  "keeps_settings pf \<Longrightarrow> smf_module_invoke pf m st = (r, b, st1) \<Longrightarrow> rs_settings st1 = rs_settings st"
  unfolding keeps_settings_def smf_module_invoke_def
  by (auto simp: Let_def split: option.splits prod.splits if_splits) (metis fst_conv snd_conv)+

definition header_after :: "run_state \<Rightarrow> nat \<Rightarrow> smf_module list \<Rightarrow> string option \<Rightarrow> string option" where
  "header_after st k ms header =
     (if s_add_header (rs_settings st) = 1
      then map_option (\<lambda>h. h @ header_text (length (s_modules (rs_settings st))) k ms) header
      else header)"

lemma all_ok_settings:
  "keeps_settings pf \<Longrightarrow> all_ok pf ms st = Some (b, st1) \<Longrightarrow> rs_settings st1 = rs_settings st"
  by (induction ms arbitrary: st b) (auto split: prod.splits if_splits dest: invoke_settings)

lemma queue_loop_ok:
  "all_ok pf ms st = Some (b, st1) \<Longrightarrow> keeps_settings pf \<Longrightarrow>
   (s_add_header (rs_settings st) = 1 \<Longrightarrow> header \<noteq> None) \<Longrightarrow>
   rs_settings st1 = rs_settings st \<and>
   queue_loop pf q (ms @ ms') k 0 header stale st =
     queue_loop pf q ms' (k + length ms) 0 (header_after st k ms header) (stale \<or> b) st1"
proof (induction ms arbitrary: st b k header stale)
  case Nil
  then show ?case by (cases header) (simp_all add: header_after_def)
next
  case (Cons m ms)
  obtain r rel s where inv: "smf_module_invoke pf m st = (r, rel, s)" by (metis prod_cases3)
  with Cons.prems(1) obtain b' where r: "r = 0" and ok: "all_ok pf ms s = Some (b', st1)"
    and b: "b = (rel \<or> b')" by (auto split: if_splits)
  have set: "rs_settings s = rs_settings st" by (rule invoke_settings [OF Cons.prems(2) inv])
  have ext: "extend_header s (k + 1) m header = Inr (header_after st k [m] header)"
    using Cons.prems(3) set
    by (auto simp: extend_header_def header_after_def smf_core_strcat_printf_def)
  have ih: "rs_settings st1 = rs_settings s \<and>
      queue_loop pf q (ms @ ms') (k + 1) 0 (header_after st k [m] header) (stale \<or> rel) s =
      queue_loop pf q ms' (k + 1 + length ms) 0
        (header_after s (k + 1) ms (header_after st k [m] header)) ((stale \<or> rel) \<or> b') st1"
    by (rule Cons.IH [OF ok Cons.prems(2)]) (use Cons.prems(3) set in \<open>auto simp: header_after_def\<close>)
  have "header_after s (k + 1) ms (header_after st k [m] header) = header_after st k (m # ms) header"
    using set by (cases header) (simp_all add: header_after_def)
  with ih inv r set ext b show ?case by (auto simp: Let_def disj_assoc)
qed

section \<open>The flush\<close>

lemma headers_dirty_iff:
  assumes "distinct (map h_name init)" and "distinct (map h_name hs)"
  shows "headers_dirty init hs \<longleftrightarrow> set hs \<noteq> set init"
proof -
  have "distinct init" "distinct hs" using assms by (simp_all add: distinct_map)
  then have card: "card (set init) = length init" "card (set hs) = length hs"
    by (simp_all add: distinct_card)
  have "set hs = set init" if "set hs \<subseteq> set init" and "length hs = length init"
    by (rule card_subset_eq) (use that card in simp_all)
  moreover have "length hs = length init" if "set hs = set init" using that card by simp
  ultimately show ?thesis
    using dirty_loop_iff [OF assms(1), of hs] by (auto simp: headers_dirty_def)
qed

lemma flush_message_ok:
  assumes "os_willing (pf_os pf)"
    and tmp: "os_mkstemp (pf_os pf) (tmp_template dir) (w_files w) = Some tmp" "w_files w tmp = None"
    and old: "w_files w name = Some f" "sp_data f = concat hs @ blank @ body"
    and hs: "list_all header_line hs" "blank = lf \<or> blank = crlf"
  shows "flush_message pf dir m name w =
    (0, w\<lparr>w_files := (w_files w)
      (name \<mapsto> \<lparr>sp_data = cm_to_string (pf_cm pf) m @ body, sp_mtime = w_clock w\<rparr>)\<rparr>)"
proof -
  let ?s = "cm_to_string (pf_cm pf) m"
  have ne: "name \<noteq> tmp" using tmp old by auto
  have fd: "smf_message_to_fd (pf_cm pf) m (file_fd (pf_os pf) tmp []) =
      (int (length ?s), file_fd (pf_os pf) tmp ?s)"
    using assms(1) by (simp add: smf_message_to_fd_def file_fd_def to_fd_loop_plain)
  have skip: "smf_message_write_skip_header (concat hs @ blank @ body) (file_fd (pf_os pf) tmp ?s) =
      (int (length body), file_fd (pf_os pf) tmp (?s @ body))"
    using assms(1) hs
    by (simp add: smf_message_write_skip_header_def skip_header_lines skip_header_blank file_fd_def
        copy_body_plain)
  let ?w = "put_file tmp (?s @ body) (put_file tmp ?s (put_file tmp [] w))"
  have rep: "replace_file (pf_os pf) tmp name ?w =
      (0, ?w\<lparr>w_files := (w_files ?w)(tmp := None,
        name \<mapsto> \<lparr>sp_data = ?s @ body, sp_mtime = w_clock w\<rparr>)\<rparr>)"
    by (rule replace_file_ok) (use assms(1) ne old in simp_all)
  have "(w_files ?w)(tmp := None) = w_files w" using tmp by (auto simp: put_file_def)
  then have "?w\<lparr>w_files := (w_files ?w)(tmp := None,
        name \<mapsto> \<lparr>sp_data = ?s @ body, sp_mtime = w_clock w\<rparr>)\<rparr> =
      w\<lparr>w_files := (w_files w)(name \<mapsto> \<lparr>sp_data = ?s @ body, sp_mtime = w_clock w\<rparr>)\<rparr>"
    by (simp add: put_file_def)
  moreover have "fopen_read (pf_os pf) name (put_file tmp ?s (put_file tmp [] w)) =
      Some (concat hs @ blank @ body)"
    using assms(1) ne old by (simp add: fopen_read_def)
  moreover have "sys_mkstemp (pf_os pf) (tmp_template dir) w = Some (tmp, put_file tmp [] w)"
    using tmp by (simp add: sys_mkstemp_def)
  moreover have "fd_out (file_fd (pf_os pf) tmp x) = x" for x by (simp add: file_fd_def)
  ultimately show ?thesis
    using assms(1) fd skip rep by (simp add: flush_message_def Let_def)
qed

lemma flush_message_lost:
  assumes tmp: "os_mkstemp (pf_os pf) (tmp_template dir) (w_files w) = Some tmp" "w_files w tmp = None"
    and old: "w_files w name = Some f"
    and os: "\<forall>n. os_may_open (pf_os pf) n" "os_wr (pf_os pf) tmp = []" "os_may_unlink (pf_os pf) name"
      "\<not> os_may_rename (pf_os pf) tmp name"
  shows "fst (flush_message pf dir m name w) = - 1 \<and>
    w_files (snd (flush_message pf dir m name w)) name = None"
proof -
  let ?s = "cm_to_string (pf_cm pf) m"
  have ne: "name \<noteq> tmp" using tmp old by auto
  have fd: "smf_message_to_fd (pf_cm pf) m (file_fd (pf_os pf) tmp []) =
      (int (length ?s), file_fd (pf_os pf) tmp ?s)"
    using os by (simp add: smf_message_to_fd_def file_fd_def to_fd_loop_plain)
  obtain r out where skip: "smf_message_write_skip_header (sp_data f) (file_fd (pf_os pf) tmp ?s) = (r, out)"
    by fastforce
  have r: "r \<noteq> - 1"
    using skip os
    by (auto simp: smf_message_write_skip_header_def file_fd_def copy_body_plain split: option.splits)
  let ?w = "put_file tmp (fd_out out) (put_file tmp ?s (put_file tmp [] w))"
  have "w_files ?w name = Some f" using ne old by simp
  from replace_file_lost [OF os(3) this ne [symmetric] os(4)]
  have "fst (replace_file (pf_os pf) tmp name ?w) = - 1"
    "w_files (snd (replace_file (pf_os pf) tmp name ?w)) name = None" by simp_all
  moreover have "fopen_read (pf_os pf) name (put_file tmp ?s (put_file tmp [] w)) = Some (sp_data f)"
    using os ne old by (simp add: fopen_read_def)
  moreover have "sys_mkstemp (pf_os pf) (tmp_template dir) w = Some (tmp, put_file tmp [] w)"
    using tmp by (simp add: sys_mkstemp_def)
  moreover have "fd_out (file_fd (pf_os pf) tmp ?s) = ?s" by (simp add: file_fd_def)
  ultimately show ?thesis
    using os fd skip r by (simp add: flush_message_def Let_def)
qed

section \<open>Fixtures\<close>

definition ex_lookup :: lookup_env where
  "ex_lookup =
     \<lparr>le_have_ldap = False, le_have_zdb = False,
      le_ldap = \<lparr>ldap_initialize = (\<lambda>u. None), ldap_sasl_bind = (\<lambda>c a b. False), ldap_search = (\<lambda>c a b d. [])\<rparr>,
      le_sql = \<lparr>sql_pool_new = (\<lambda>d. None), sql_pool_ping = (\<lambda>c. False), sql_get_conn = (\<lambda>p i. ConnNone),
                sql_execute = (\<lambda>c q. None), sql_home = None\<rparr>,
      le_random = 0, le_formatted = (\<lambda>s. s)\<rparr>"

text \<open>
  Three modules: \<open>ok\<close> leaves everything alone, \<open>deny\<close> returns 554, \<open>edit\<close> writes the queue file.
\<close>

definition ex_pf :: platform where
  "ex_pf =
     \<lparr>pf_os = ex_os, pf_cm = ex_cm, pf_es = ex_es, pf_lookup = ex_lookup,
      pf_dlsym = (\<lambda>h. h),
      pf_run = (\<lambda>r s se w. (if r = ''deny'' then 554 else 0, s, se,
        if r = ''edit'' then put_file ''/q/m'' ''To: c'' w else w))\<rparr>"

definition ex_queue :: pqueue where
  "ex_queue = smf_modules_pqueue_init (\<lambda>s se w. Inr (0, w)) (\<lambda>s se r w. Inr (1, w)) (\<lambda>s se w. Inr (0, w))"

definition ex_state :: "smf_module list \<Rightarrow> run_state" where
  "ex_state ms =
     \<lparr>rs_settings = ex_settings ms, rs_session = ex_session, rs_world = ex_world, rs_sent = []\<rparr>"

lemma ex_pf_fields:
  "pf_os ex_pf = ex_os" "pf_cm ex_pf = ex_cm" "pf_es ex_pf = ex_es" "rs_settings (ex_state ms) = ex_settings ms"
  "rs_session (ex_state ms) = ex_session" "rs_world (ex_state ms) = ex_world" "rs_sent (ex_state ms) = []"
  by (simp_all add: ex_pf_def ex_state_def)

lemmas ex_fields = ex_pf_fields ex_session_fields ex_settings_fields ex_lib_fields

lemma ex_keeps: "keeps_settings ex_pf"
  by (simp add: ex_pf_def keeps_settings_def)

lemma ex_fetch: "fetch_users ex_pf (ex_state ms) = Inr (ex_state ms)"
  by (simp add: fetch_users_def ex_state_def smf_internal_fetch_user_data_def ex_settings_fields)

lemma ex_invoke_ok:
  "mod_target m = Callback ''ok'' \<Longrightarrow> smf_module_invoke ex_pf m (ex_state ms) = (0, False, ex_state ms)"
  by (simp add: smf_module_invoke_def module_runner_def ex_pf_def Let_def ex_state_def ex_session_fields)

lemma ex_invoke_deny:
  "mod_target m = Callback ''deny'' \<Longrightarrow> smf_module_invoke ex_pf m (ex_state ms) = (554, False, ex_state ms)"
  by (simp add: smf_module_invoke_def module_runner_def ex_pf_def Let_def ex_state_def ex_session_fields)

section \<open>Properties\<close>

text \<open>A module that returns something else than 0 when the callback says to stop.\<close>

lemma process_stops:
  assumes "env_message (ses_envelope (rs_session st)) = Some m0" and "fetch_users pf st = Inr st0"
    and "s_modules (rs_settings st0) = ms1 @ m # ms2" and "keeps_settings pf"
    and "s_add_header (rs_settings st0) = s_add_header (rs_settings st)"
    and "all_ok pf ms1 st0 = Some (b, st1)"
    and "smf_module_invoke pf m st1 = (r, reloaded, st2)" and "r \<noteq> 0"
    and "q_processing_error q (rs_settings st2) (rs_session st2) r (rs_world st2) = Inr (v, w)"
    and "v = 0 \<or> v = 1"
  shows "smf_modules_process pf q st = Inr (if v = 0 then - 1 else 1, st2\<lparr>rs_world := w\<rparr>)"
proof -
  let ?h = "if s_add_header (rs_settings st) = 1 then Some x_spmfilter else None"
  have "queue_loop pf q (ms1 @ m # ms2) 0 0 ?h False st0 =
      Inr (Returned (if v = 0 then - 1 else 1), st2\<lparr>rs_world := w\<rparr>)"
    using queue_loop_ok [OF assms(6,4), of ?h q "m # ms2" 0 False] assms(5,7-10) by auto
  with assms show ?thesis by (simp add: smf_modules_process_def Let_def)
qed

text \<open>
  Claim C17.  A module can stop a message: when the modules before it returned 0, it returns
  something else and the error callback of the engine answers 0 or 1, then processing ends
  there with -1 or 1.  No later module runs, the queue file is not rewritten, and nothing is
  handed to the next hop: the final state is the one the callback left.
\<close>

theorem smf_modules_process_stops:
  assumes "env_message (ses_envelope (rs_session st)) = Some m0" and "fetch_users pf st = Inr st0"
    and "s_modules (rs_settings st0) = ms1 @ m # ms2" and "keeps_settings pf"
    and "s_add_header (rs_settings st0) = s_add_header (rs_settings st)"
    and "all_ok pf ms1 st0 = Some (b, st1)"
    and "smf_module_invoke pf m st1 = (r, reloaded, st2)" and "r \<noteq> 0"
    and "q_processing_error q (rs_settings st2) (rs_session st2) r (rs_world st2) = Inr (v, w)"
    and "v = 0 \<or> v = 1"
  shows "smf_modules_process pf q st = Inr (if v = 0 then - 1 else 1, st2\<lparr>rs_world := w\<rparr>)"
  by (rule process_stops [OF assms])

lemma smf_modules_process_stops_witness:
  "smf_modules_process ex_pf ex_queue
     (ex_state [\<lparr>mod_name = ''a'', mod_target = Callback ''ok''\<rparr>, \<lparr>mod_name = ''b'', mod_target = Callback ''deny''\<rparr>]) =
   Inr (1, ex_state [\<lparr>mod_name = ''a'', mod_target = Callback ''ok''\<rparr>, \<lparr>mod_name = ''b'', mod_target = Callback ''deny''\<rparr>])"
proof -
  let ?a = "\<lparr>mod_name = ''a'', mod_target = Callback ''ok''\<rparr>"
  let ?b = "\<lparr>mod_name = ''b'', mod_target = Callback ''deny''\<rparr>"
  let ?st = "ex_state [?a, ?b]"
  have "smf_modules_process ex_pf ex_queue ?st =
      Inr (if (1::int) = 0 then - 1 else 1, ?st\<lparr>rs_world := rs_world ?st\<rparr>)"
    by (rule smf_modules_process_stops [OF _ ex_fetch _ ex_keeps refl, where ?ms1.0 = "[?a]" and m = ?b and
          ?ms2.0 = "[]" and b = False and ?st1.0 = ?st and r = 554 and reloaded = False and ?st2.0 = ?st])
      (simp_all add: ex_invoke_ok ex_invoke_deny, simp_all add: ex_fields ex_queue_def smf_modules_pqueue_init_def)
  then show ?thesis by simp
qed

text \<open>
  Claim C20.  The flush keeps the queue file in step with the message: with different header
  names, the file is rewritten exactly when the set of headers differs from the one before the
  modules ran.  It then holds the text of the message and the old body, byte for byte; no other
  file changes, and the temporary file is gone.
\<close>

theorem smf_modules_flush_dirty_content:
  assumes "env_message (ses_envelope (rs_session st)) = Some m" and "ses_message_file (rs_session st) = Some name"
    and "distinct (map h_name init)" and "distinct (map h_name (msg_headers m))"
    and "os_willing (pf_os pf)"
    and "os_mkstemp (pf_os pf) (tmp_template (s_queue_dir (rs_settings st))) (w_files (rs_world st)) = Some tmp"
    and "w_files (rs_world st) tmp = None"
    and "w_files (rs_world st) name = Some f" and "sp_data f = concat hs @ blank @ body"
    and "list_all header_line hs" and "blank = lf \<or> blank = crlf"
  shows "smf_modules_flush_dirty pf init st = Inr (0,
    if set (msg_headers m) = set init then st
    else st\<lparr>rs_world := (rs_world st)\<lparr>w_files := (w_files (rs_world st))
      (name \<mapsto> \<lparr>sp_data = cm_to_string (pf_cm pf) m @ body, sp_mtime = w_clock (rs_world st)\<rparr>)\<rparr>\<rparr>)"
  using headers_dirty_iff [OF assms(3,4)] flush_message_ok [OF assms(5-11)] assms(1,2)
  by (auto simp: smf_modules_flush_dirty_def)

lemma smf_modules_flush_dirty_content_witness:
  "smf_modules_flush_dirty ex_pf [] (ex_state []) = Inr (0,
     (ex_state [])\<lparr>rs_world := (rs_world (ex_state []))\<lparr>w_files := [''/q/m'' \<mapsto>
        \<lparr>sp_data = (''To: c'' @ crlf @ crlf) @ ''hi'', sp_mtime = 5\<rparr>]\<rparr>\<rparr>)"
proof -
  have tmp: "os_mkstemp (pf_os ex_pf) (tmp_template (s_queue_dir (rs_settings (ex_state []))))
      (w_files (rs_world (ex_state []))) = Some ''/q/tmp''"
    by (simp add: ex_fields)
  have hl: "list_all header_line [''To: c'' @ crlf]" by (simp add: header_line_def crlf_def lf_def)
  show ?thesis
    using smf_modules_flush_dirty_content [of "ex_state []" "\<lparr>msg_headers = [\<lparr>h_name = ''To'', h_values = [''c'']\<rparr>], msg_rest = []\<rparr>"
      "''/q/m''" "[]" ex_pf "''/q/tmp''" _ "[''To: c'' @ crlf]" crlf "''hi''", OF _ _ _ _ _ tmp _ _ _ hl]
    by (simp add: ex_fields ex_os_willing ex_cm_def)
qed

text \<open>
  Claim C9.  The way of an accepted message to an SMTP next hop: when every module returns 0 and
  none touches the queue file, the header \<open>X-Spmfilter\<close> with the names of all modules is set,
  the queue file is rewritten, and the next hop gets exactly one message: from the sender, to the
  recipients libesmtp takes, with the changed headers and the unchanged body.  Its answer 250 makes
  processing return 0.
\<close>

theorem smf_modules_process_delivers:
  assumes "env_message (ses_envelope (rs_session st)) = Some m0" and "fetch_users pf st = Inr st0"
    and "keeps_settings pf" and "s_add_header (rs_settings st) = 1" and "s_add_header (rs_settings st0) = 1"
    and "all_ok pf (s_modules (rs_settings st0)) st0 = Some (False, st1)"
    and env: "ses_envelope (rs_session st1) = env" "env_message env = Some m1" "env_sender env = Some mailfrom"
      "env_recipients env = rcpts" "rcpts \<noteq> []" "env_nexthop env = None"
    and "cm_set_header (pf_cm pf) m1
           (x_spmfilter @ join '', '' (map mod_name (s_modules (rs_settings st0)))) = (0, m2)"
    and "headers_dirty (msg_headers m0) (msg_headers m2)"
    and "ses_message_file (rs_session st1) = Some name"
    and os: "os_willing (pf_os pf)"
      "os_mkstemp (pf_os pf) (tmp_template (s_queue_dir (rs_settings st0))) (w_files (rs_world st1)) = Some tmp"
      "w_files (rs_world st1) tmp = None"
      "w_files (rs_world st1) name = Some f" "sp_data f = concat hs @ blank @ body"
      "list_all header_line hs" "blank = lf \<or> blank = crlf"
    and "s_nexthop (rs_settings st0) = Some host" and "os_lstat (pf_os pf) host = None"
    and "es_reverse_path (pf_es pf) mailfrom"
    and rq: "rq = \<lparr>rq_server = smtp_server host, rq_starttls = s_tls (rs_settings st0), rq_auth = smtp_auth env,
        rq_reverse_path = mailfrom, rq_body = BodyFile (cm_to_string (pf_cm pf) m2 @ body),
        rq_recipients = filter (es_recipient (pf_es pf)) rcpts\<rparr>"
    and "es_session (pf_es pf) rq = Transferred 250 answer"
  shows "\<exists>st'. smf_modules_process pf q st = Inr (0, st') \<and> rs_sent st' = rs_sent st1 @ [rq]"
proof -
  let ?h = "x_spmfilter @ join '', '' (map mod_name (s_modules (rs_settings st0)))"
  have set1: "rs_settings st1 = rs_settings st0"
    and "queue_loop pf q (s_modules (rs_settings st0)) 0 0 (Some x_spmfilter) False st0 =
      Inr (Finished 0 (header_after st0 0 (s_modules (rs_settings st0)) (Some x_spmfilter)) False, st1)"
    using queue_loop_ok [OF assms(6,3), of "Some x_spmfilter" q "[]" 0 False] by simp_all
  then have loop: "queue_loop pf q (s_modules (rs_settings st0)) 0 0 (Some x_spmfilter) False st0 =
      Inr (Finished 0 (Some ?h) False, st1)"
    using assms(5) by (simp add: header_after_def header_text_join)
  define st2 where "st2 = st1\<lparr>rs_session := with_envelope (\<lambda>e. e\<lparr>env_message := Some m2\<rparr>) (rs_session st1)\<rparr>"
  have hdr: "set_queue_header pf (Some ?h) False st1 = Inr st2"
    using assms(4,5,13) set1 env by (simp add: set_queue_header_def st2_def)
  let ?w = "(rs_world st1)\<lparr>w_files := (w_files (rs_world st1))
      (name \<mapsto> \<lparr>sp_data = cm_to_string (pf_cm pf) m2 @ body, sp_mtime = w_clock (rs_world st1)\<rparr>)\<rparr>"
  have flush: "smf_modules_flush_dirty pf (msg_headers m0) st2 = Inr (0, st2\<lparr>rs_world := ?w\<rparr>)"
    using flush_message_ok [OF os] assms(14,15) set1
    by (simp add: smf_modules_flush_dirty_def st2_def)
  let ?env = "env\<lparr>env_message := Some m2, env_nexthop := Some host\<rparr>"
  have "snd (smf_smtp_deliver (pf_os pf) (pf_cm pf) (pf_es pf) ?w ?env (s_tls (rs_settings st0)) (Some name)) =
        \<lparr>st_text = answer, st_code = 250\<rparr>"
    "fst (smf_smtp_deliver (pf_os pf) (pf_cm pf) (pf_es pf) ?w ?env (s_tls (rs_settings st0)) (Some name)) = Some rq"
    using assms(23-25,27) env os(1)
    by (simp_all add: smf_smtp_deliver_def smtp_body_def fopen_read_def smtp_request_def smtp_reverse_path_def
        smtp_auth_def Let_def rq cong: option.case_cong)
  then have "\<exists>st'. call_nexthop pf q (st2\<lparr>rs_world := ?w\<rparr>) = Inr (0, st') \<and> rs_sent st' = rs_sent st1 @ [rq]"
    using assms(23,24) set1 env assms(15)
    by (simp add: call_nexthop_def smf_nexthop_find_def st2_def run_nexthop_def smtp_delivery_nexthop_def
        smf_envelope_set_nexthop_def Let_def)
  moreover have "map copy_header (msg_headers m0) = msg_headers m0" by (simp add: map_idI)
  ultimately show ?thesis
    using assms(1,2,4) loop hdr flush by (simp add: smf_modules_process_def finish_queue_def Let_def)
qed

lemma smf_modules_process_delivers_witness:
  "\<exists>st'. smf_modules_process ex_pf ex_queue (ex_state [\<lparr>mod_name = ''a'', mod_target = Callback ''ok''\<rparr>]) = Inr (0, st') \<and>
     map rq_body (rs_sent st') =
       [BodyFile ((''To: c'' @ crlf @ ''X-Spmfilter: a'' @ crlf @ crlf) @ ''hi'')]"
proof -
  let ?m = "\<lparr>mod_name = ''a'', mod_target = Callback ''ok''\<rparr>"
  let ?st = "ex_state [?m]"
  let ?m0 = "\<lparr>msg_headers = [\<lparr>h_name = ''To'', h_values = [''c'']\<rparr>], msg_rest = []\<rparr>"
  let ?m2 = "\<lparr>msg_headers = [\<lparr>h_name = ''To'', h_values = [''c'']\<rparr>, \<lparr>h_name = ''X-Spmfilter'', h_values = [''a'']\<rparr>],
      msg_rest = []\<rparr>"
  let ?env = "smf_envelope_new\<lparr>env_sender := Some ''a@b'', env_recipients := [''c@d''], env_message := Some ?m0\<rparr>"
  let ?rq = "\<lparr>rq_server = smtp_server ''mx'', rq_starttls = SMF_TLS_DISABLED, rq_auth = smtp_auth ?env,
      rq_reverse_path = ''a@b'', rq_body = BodyFile (cm_to_string ex_cm ?m2 @ ''hi''), rq_recipients = [''c@d'']\<rparr>"
  have hl: "list_all header_line [''To: c'' @ crlf]" by (simp add: header_line_def crlf_def lf_def)
  have ok: "all_ok ex_pf (s_modules (rs_settings ?st)) ?st = Some (False, ?st)"
    by (simp add: ex_fields ex_invoke_ok)
  have env: "ses_envelope (rs_session ?st) = ?env" "env_message ?env = Some ?m0" "env_sender ?env = Some ''a@b''"
    "env_recipients ?env = [''c@d'']" "[''c@d''] \<noteq> []" "env_nexthop ?env = None"
    by (simp_all add: ex_fields smf_envelope_new_def)
  have m0: "env_message (ses_envelope (rs_session ?st)) = Some ?m0" by (simp add: ex_fields)
  have hdr: "cm_set_header (pf_cm ex_pf) ?m0
      (x_spmfilter @ join '', '' (map mod_name (s_modules (rs_settings ?st)))) = (0, ?m2)"
    by (simp add: ex_fields x_spmfilter_def ex_cm_def)
  have dirty: "headers_dirty (msg_headers ?m0) (msg_headers ?m2)" by (simp add: headers_dirty_def)
  have os: "os_willing (pf_os ex_pf)"
    "os_mkstemp (pf_os ex_pf) (tmp_template (s_queue_dir (rs_settings ?st))) (w_files (rs_world ?st)) = Some ''/q/tmp''"
    "w_files (rs_world ?st) ''/q/tmp'' = None"
    "w_files (rs_world ?st) ''/q/m'' = Some \<lparr>sp_data = ''To: c'' @ crlf @ crlf @ ''hi'', sp_mtime = 3\<rparr>"
    "sp_data \<lparr>sp_data = ''To: c'' @ crlf @ crlf @ ''hi'', sp_mtime = 3\<rparr> = concat [''To: c'' @ crlf] @ crlf @ ''hi''"
    by (simp_all add: ex_fields ex_os_willing)
  have rq: "?rq = \<lparr>rq_server = smtp_server ''mx'', rq_starttls = s_tls (rs_settings ?st), rq_auth = smtp_auth ?env,
        rq_reverse_path = ''a@b'', rq_body = BodyFile (cm_to_string (pf_cm ex_pf) ?m2 @ ''hi''),
        rq_recipients = filter (es_recipient (pf_es ex_pf)) [''c@d'']\<rparr>"
    by (simp add: ex_fields)
  have nh: "s_nexthop (rs_settings ?st) = Some ''mx''" "os_lstat (pf_os ex_pf) ''mx'' = None"
    "es_reverse_path (pf_es ex_pf) ''a@b''" by (simp_all add: ex_fields)
  have "\<exists>st'. smf_modules_process ex_pf ex_queue ?st = Inr (0, st') \<and> rs_sent st' = rs_sent ?st @ [?rq]"
    by (rule smf_modules_process_delivers [OF m0 ex_fetch ex_keeps _ _ ok env hdr dirty _ os hl _ nh rq])
      (simp_all add: ex_fields)
  then obtain st' where st': "smf_modules_process ex_pf ex_queue ?st = Inr (0, st')"
    and sent: "rs_sent st' = rs_sent ?st @ [?rq]" by blast
  have "rs_sent ?st = []" by (simp add: ex_fields)
  moreover have "cm_to_string ex_cm ?m2 = ''To: c'' @ crlf @ ''X-Spmfilter: a'' @ crlf @ crlf" by (simp add: ex_cm_def)
  ultimately have "map rq_body (rs_sent st') =
      [BodyFile ((''To: c'' @ crlf @ ''X-Spmfilter: a'' @ crlf @ crlf) @ ''hi'')]"
    using sent by simp
  with st' show ?thesis by (intro exI [of _ st'] conjI)
qed

text \<open>
  A module that changes the queue file breaks the \<open>X-Spmfilter\<close> header: the message is
  read again and the old object freed, but the header is set on the pointer taken before the
  modules ran.  With \<open>add_header\<close> on, an accepted message ends in a use of freed memory.
\<close>

theorem smf_modules_process_stale_message:
  assumes "env_message (ses_envelope (rs_session st)) = Some m0" and "fetch_users pf st = Inr st0"
    and "keeps_settings pf" and "s_add_header (rs_settings st) = 1" and "s_add_header (rs_settings st0) = 1"
    and "all_ok pf (s_modules (rs_settings st0)) st0 = Some (True, st1)"
  shows "smf_modules_process pf q st = Inl DanglingRead"
proof -
  have "rs_settings st1 = rs_settings st0"
    and "\<exists>h. queue_loop pf q (s_modules (rs_settings st0)) 0 0 (Some x_spmfilter) False st0 =
      Inr (Finished 0 (Some h) True, st1)"
    using queue_loop_ok [OF assms(6,3), of "Some x_spmfilter" q "[]" 0 False] assms(5)
    by (simp_all add: header_after_def)
  with assms show ?thesis
    by (auto simp: smf_modules_process_def finish_queue_def set_queue_header_def Let_def)
qed

lemma smf_modules_process_stale_message_witness:
  "smf_modules_process ex_pf ex_queue (ex_state [\<lparr>mod_name = ''a'', mod_target = Callback ''edit''\<rparr>]) = Inl DanglingRead"
proof -
  let ?st = "ex_state [\<lparr>mod_name = ''a'', mod_target = Callback ''edit''\<rparr>]"
  have "\<exists>st1. all_ok ex_pf (s_modules (rs_settings ?st)) ?st = Some (True, st1)"
    by (simp add: ex_state_def smf_module_invoke_def module_runner_def ex_pf_def Let_def ex_cm_def
        message_file_mtime_def sys_mtime_def ex_session_fields ex_settings_fields)
  then obtain st1 where "all_ok ex_pf (s_modules (rs_settings ?st)) ?st = Some (True, st1)" by blast
  from smf_modules_process_stale_message [OF _ ex_fetch ex_keeps _ _ this]
  show ?thesis by (simp add: ex_fields)
qed

text \<open>
  The flush can lose a message: the queue file is removed before the new one gets its
  name, so when \<open>rename\<close> fails, the flush returns -1 and no queue file is left.
\<close>

theorem smf_modules_flush_dirty_loses_file:
  assumes "env_message (ses_envelope (rs_session st)) = Some m" and "ses_message_file (rs_session st) = Some name"
    and "headers_dirty init (msg_headers m)"
    and tmp: "os_mkstemp (pf_os pf) (tmp_template (s_queue_dir (rs_settings st))) (w_files (rs_world st)) = Some tmp"
      "w_files (rs_world st) tmp = None"
    and old: "w_files (rs_world st) name = Some f"
    and os: "\<forall>n. os_may_open (pf_os pf) n" "os_wr (pf_os pf) tmp = []" "os_may_unlink (pf_os pf) name"
      "\<not> os_may_rename (pf_os pf) tmp name"
  shows "\<exists>st'. smf_modules_flush_dirty pf init st = Inr (- 1, st') \<and> w_files (rs_world st') name = None"
  using flush_message_lost [OF tmp old os, of m] assms(1-3)
  by (auto simp: smf_modules_flush_dirty_def split: prod.splits)

lemma smf_modules_flush_dirty_loses_file_witness:
  "\<exists>st'. smf_modules_flush_dirty (ex_pf\<lparr>pf_os := ex_os\<lparr>os_may_rename := (\<lambda>a b. False)\<rparr>\<rparr>) [] (ex_state []) = Inr (- 1, st') \<and>
     w_files (rs_world st') ''/q/m'' = None"
  by (rule smf_modules_flush_dirty_loses_file
        [where m = "\<lparr>msg_headers = [\<lparr>h_name = ''To'', h_values = [''c'']\<rparr>], msg_rest = []\<rparr>" and tmp = "''/q/tmp''"])
    (simp_all add: ex_fields ex_os_def headers_dirty_def)

end
