(* ===== verification/Smf_Reply.thy ===== *)
theory Smf_Reply
  imports Smf_Modules
begin

text \<open>
  The replies of the SMTP daemon and its error callbacks, the first part of \<open>smf_smtpd.c\<close>:
  formatted replies, replies by code with the configured texts, and what the processing queue
  asks of the engine when a module or the next hop fails.
\<close>

section \<open>Formatted output\<close>

datatype printf_arg = PStr "string option" | PInt int

text \<open>
  \<open>vasprintf\<close> for the conversions the code uses.  A conversion without an argument reads an
  argument that was never passed.
\<close>

fun c_printf :: "string \<Rightarrow> printf_arg list \<Rightarrow> string c_result" where
  "c_printf [] args = Inr []"
| "c_printf [c] args = (if c = CHR ''%'' then Inl UninitRead else Inr [c])"
| "c_printf (c # d # r) args =
     (if c \<noteq> CHR ''%'' then map_sum id (Cons c) (c_printf (d # r) args)
      else if d = CHR ''%'' then map_sum id (Cons (CHR ''%'')) (c_printf r args)
      else (case args of
          PStr s # rest \<Rightarrow>
            if d = CHR ''s''
            then map_sum id (append (case s of None \<Rightarrow> ''(null)'' | Some t \<Rightarrow> t)) (c_printf r rest)
            else Inl UninitRead
        | PInt i # rest \<Rightarrow>
            if d = CHR ''d'' \<or> d = CHR ''i'' then map_sum id (append (string_of_int i)) (c_printf r rest)
            else Inl UninitRead
        | [] \<Rightarrow> Inl UninitRead))"

section \<open>Replies\<close>

text \<open>Whatever \<open>smf_internal_writen\<close> returns only goes into the log.\<close>

definition say :: "string \<Rightarrow> world \<Rightarrow> world" where
  "say out w = w\<lparr>w_sock := snd (smf_internal_writen out (w_sock w))\<rparr>"

definition smf_smtpd_string_reply :: "string \<Rightarrow> printf_arg list \<Rightarrow> world \<Rightarrow> world c_result" where
  "smf_smtpd_string_reply format args w =
     (case c_printf format args of
        Inl e \<Rightarrow> Inl e
      | Inr out \<Rightarrow> if out = [] then Inr w else Inr (say out w))"

definition CODE_221 :: string where
  "CODE_221 = ''221 Goodbye. Please recommend us to others!'' @ crlf"

definition CODE_250 :: string where "CODE_250 = ''250 OK'' @ crlf"

definition CODE_250_ACCEPTED :: string where "CODE_250_ACCEPTED = ''250 OK message accepted'' @ crlf"

definition CODE_451 :: string where
  "CODE_451 = ''451 Requested action aborted: local error in processing'' @ crlf"

definition CODE_502 :: string where "CODE_502 = ''502 Command not implemented'' @ crlf"

definition CODE_552 :: string where
  "CODE_552 = ''552 Requested action aborted: local error in processing'' @ crlf"

definition default_code :: "int \<Rightarrow> string" where
  "default_code code =
     (if code = 221 then CODE_221
      else if code = 250 then CODE_250
      else if code = 451 then CODE_451
      else if code = 502 then CODE_502
      else if code = 552 then CODE_552
      else CODE_451)"

definition code_text :: "smf_dict \<Rightarrow> int \<Rightarrow> string" where
  "code_text codes code =
     (case smf_dict_get codes (string_of_int code) of
        Some code_msg \<Rightarrow> string_of_int code @ '' '' @ code_msg @ crlf
      | None \<Rightarrow> default_code code)"

definition smf_smtpd_code_reply :: "int \<Rightarrow> smf_dict \<Rightarrow> world \<Rightarrow> world" where
  "smf_smtpd_code_reply code codes w = say (code_text codes code) w"

section \<open>Callbacks of the queue\<close>

definition smf_smtpd_handle_q_error :: "smf_settings \<Rightarrow> session \<Rightarrow> world \<Rightarrow> (int \<times> world) c_result" where
  "smf_smtpd_handle_q_error settings session w =
     Inr (if s_module_fail settings = 1 then (1, w)
          else if s_module_fail settings = 2 then (0, smf_smtpd_code_reply 552 (s_smtp_codes settings) w)
          else if s_module_fail settings = 3 then (0, smf_smtpd_code_reply 451 (s_smtp_codes settings) w)
          else (0, w))"

text \<open>The text that was put together is used as the format of the reply.\<close>

definition smf_smtpd_handle_q_processing_error ::
  "smf_settings \<Rightarrow> session \<Rightarrow> int \<Rightarrow> world \<Rightarrow> (int \<times> world) c_result" where
  "smf_smtpd_handle_q_processing_error settings session retval w =
     (if retval = - 1 then
        Inr (if s_module_fail settings = 1 then (1, w)
             else if s_module_fail settings = 2 then (0, smf_smtpd_code_reply 552 (s_smtp_codes settings) w)
             else if s_module_fail settings = 3 then (0, smf_smtpd_code_reply 451 (s_smtp_codes settings) w)
             else (0, w))
      else if retval = 1 then
        map_sum id (Pair 1)
          (case ses_response_msg session of
             Some msg \<Rightarrow> smf_smtpd_string_reply (''250 '' @ msg @ crlf) [] w
           | None \<Rightarrow> smf_smtpd_string_reply CODE_250_ACCEPTED [] w)
      else if retval = 2 then Inr (2, w)
      else map_sum id (Pair 1)
          (case ses_response_msg session of
             Some msg \<Rightarrow> smf_smtpd_string_reply (string_of_int retval @ '' '' @ msg @ crlf) [] w
           | None \<Rightarrow> Inr (smf_smtpd_code_reply retval (s_smtp_codes settings) w)))"

definition smf_smtpd_handle_nexthop_error ::
  "smf_settings \<Rightarrow> session \<Rightarrow> world \<Rightarrow> (int \<times> world) c_result" where
  "smf_smtpd_handle_nexthop_error settings session w =
     map_sum id (Pair 0)
       (smf_smtpd_string_reply
          (string_of_int (s_nexthop_fail_code settings) @ '' '' @
           (case s_nexthop_fail_msg settings of None \<Rightarrow> ''(null)'' | Some m \<Rightarrow> m) @ crlf) [] w)"

definition smtpd_queue :: pqueue where
  "smtpd_queue =
     smf_modules_pqueue_init smf_smtpd_handle_q_error smf_smtpd_handle_q_processing_error
       smf_smtpd_handle_nexthop_error"

text \<open>\<open>smf_smtpd_process_modules\<close>: the reply to the client when processing went through.\<close>

definition smf_smtpd_process_modules :: "platform \<Rightarrow> run_state \<Rightarrow> (int \<times> run_state) c_result" where
  "smf_smtpd_process_modules pf st =
     (case smf_modules_process pf smtpd_queue st of
        Inl e \<Rightarrow> Inl e
      | Inr (ret, st1) \<Rightarrow>
          if ret = - 1 then Inr (- 1, st1)
          else if ret = 1 then Inr (0, st1)
          else map_sum id (\<lambda>w. (0, st1\<lparr>rs_world := w\<rparr>))
            (case ses_response_msg (rs_session st1) of
               Some msg \<Rightarrow> smf_smtpd_string_reply (''250 '' @ msg @ crlf) [] (rs_world st1)
             | None \<Rightarrow>
                 smf_smtpd_string_reply (''250 Ok: processed as '' @ ses_id (rs_session st1) @ crlf) []
                   (rs_world st1)))"

section \<open>Lemmas\<close>

lemma c_printf_plain: "CHR ''%'' \<notin> set s \<Longrightarrow> c_printf s args = Inr s"
  by (induction s args rule: c_printf.induct) auto

lemma string_reply_plain:
  "CHR ''%'' \<notin> set s \<Longrightarrow> s \<noteq> [] \<Longrightarrow> smf_smtpd_string_reply s [] w = Inr (say s w)"
  by (simp add: smf_smtpd_string_reply_def c_printf_plain)

lemma c_printf_bad:
  "CHR ''%'' \<notin> set a \<Longrightarrow> d \<noteq> CHR ''%'' \<Longrightarrow> c_printf (a @ CHR ''%'' # d # r) [] = Inl UninitRead"
proof (induction a)
  case Nil
  then show ?case by simp
next
  case (Cons c a)
  then have "c \<noteq> CHR ''%''" and "c_printf (a @ CHR ''%'' # d # r) [] = Inl UninitRead" by auto
  then show ?case by (cases a) simp_all
qed

lemma say_accepts:
  "accepts (fd_wr (w_sock w)) \<Longrightarrow> fd_out (w_sock (say s w)) = fd_out (w_sock w) @ s"
  using smf_internal_writen_out [of "w_sock w" s] by (simp add: say_def)

section \<open>Properties\<close>

text \<open>
  A reply text of a module is used as a format: when a module that stopped or accepted
  the message left a response with a percent sign in front of anything but a second one, the
  daemon reads an argument that was never passed.
\<close>

theorem smf_smtpd_response_is_format:
  assumes "ses_response_msg session = Some (a @ CHR ''%'' # d # r)" and "CHR ''%'' \<notin> set a" and "d \<noteq> CHR ''%''"
  shows "smf_smtpd_handle_q_processing_error settings session 1 w = Inl UninitRead"
proof -
  have f: "''250 '' @ (a @ CHR ''%'' # d # r) @ crlf = (''250 '' @ a) @ CHR ''%'' # d # r @ crlf" by simp
  have "CHR ''%'' \<notin> set (''250 '' @ a)" using assms(2) by simp
  from c_printf_bad [OF this assms(3), of "r @ crlf"] show ?thesis
    using assms(1) by (simp add: smf_smtpd_handle_q_processing_error_def smf_smtpd_string_reply_def)
qed

lemma smf_smtpd_response_is_format_witness:
  "smf_smtpd_handle_q_processing_error smf_settings_new
     (ex_session\<lparr>ses_response_msg := Some ''quota 90% used''\<rparr>) 1 ex_world = Inl UninitRead"
  by (rule smf_smtpd_response_is_format [of _ "''quota 90''" "CHR '' ''" "''used''"]) simp_all

text \<open>
  What the client hears and what happens next when a module returns \<open>r\<close> other than 0,
  on the three outcomes a module can choose: 1 accepts (250) and stops, 2 goes on to the next hop
  without a reply, any other positive code is the code of the reply and stops.
\<close>

theorem smf_smtpd_processing_error_replies:
  assumes "ses_response_msg session = Some msg" and "CHR ''%'' \<notin> set msg" and "accepts (fd_wr (w_sock w))"
    and "r = 1 \<or> r = 2 \<or> 2 < r"
  shows "\<exists>w'. smf_smtpd_handle_q_processing_error settings session r w = Inr (if r = 2 then 2 else 1, w') \<and>
    fd_out (w_sock w') = fd_out (w_sock w) @
      (if r = 2 then [] else string_of_int (if r = 1 then 250 else r) @ '' '' @ msg @ crlf)"
proof -
  have c250: "string_of_int 250 = ''250''"
    by (simp add: string_of_int_def string_of_nat.simps digit_char_def char_of_def bit_iff_odd)
  have digits: "CHR ''%'' \<notin> set (string_of_int i)" for i
    by (rule percent_notin_string_of_int)
  have "CHR ''%'' \<notin> set (string_of_int i @ '' '' @ msg @ crlf)" for i
    using digits [of i] assms(2) by (auto simp: crlf_def)
  then have "smf_smtpd_string_reply (string_of_int i @ '' '' @ msg @ crlf) [] w =
      Inr (say (string_of_int i @ '' '' @ msg @ crlf) w)" for i
    by (rule string_reply_plain) simp
  from this [of 250] this [of r] say_accepts [OF assms(3)] assms(1,4) c250 show ?thesis
    by (auto simp: smf_smtpd_handle_q_processing_error_def)
qed

lemma smf_smtpd_processing_error_replies_witness:
  "\<exists>w'. smf_smtpd_handle_q_processing_error smf_settings_new
       (ex_session\<lparr>ses_response_msg := Some ''no''\<rparr>) 554 ex_world = Inr (1, w') \<and>
     fd_out (w_sock w') = string_of_int 554 @ '' no'' @ crlf"
proof -
  have "accepts (fd_wr (w_sock ex_world))" "fd_out (w_sock ex_world) = []" by (simp_all add: ex_world_def)
  then show ?thesis
    using smf_smtpd_processing_error_replies [of "ex_session\<lparr>ses_response_msg := Some ''no''\<rparr>" "''no''" ex_world 554 smf_settings_new]
    by simp
qed

text \<open>
  Claim C30.  With \<open>module_fail = 1\<close>, documented as \<open>proceed and ignore\<close>, a failing module loses the
  message: the callback answers 1, which makes the queue stop as if the module had accepted the
  message.  No later module runs, nothing goes to the next hop, and the client gets no reply:
  the result is 0 and the state the one the module left.
\<close>

theorem smf_smtpd_ignore_loses_message:
  assumes "env_message (ses_envelope (rs_session st)) = Some m0" and "fetch_users pf st = Inr st0"
    and "s_modules (rs_settings st0) = ms1 @ m # ms2" and "keeps_settings pf"
    and "s_add_header (rs_settings st0) = s_add_header (rs_settings st)" and "s_module_fail (rs_settings st0) = 1"
    and "all_ok pf ms1 st0 = Some (b, st1)" and "smf_module_invoke pf m st1 = (- 1, reloaded, st2)"
  shows "smf_smtpd_process_modules pf st = Inr (0, st2)"
proof -
  have "rs_settings st1 = rs_settings st0" using all_ok_settings [OF assms(4,7)] .
  then have "s_module_fail (rs_settings st2) = 1" using invoke_settings [OF assms(4,8)] assms(6) by simp
  then have cb: "q_processing_error smtpd_queue (rs_settings st2) (rs_session st2) (- 1) (rs_world st2) =
      Inr (1, rs_world st2)"
    by (simp add: smtpd_queue_def smf_modules_pqueue_init_def smf_smtpd_handle_q_processing_error_def)
  have "smf_modules_process pf smtpd_queue st = Inr (1, st2)"
    using process_stops [OF assms(1-5,7,8) _ cb] by simp
  then show ?thesis by (simp add: smf_smtpd_process_modules_def)
qed

lemma smf_smtpd_ignore_loses_message_witness:
  "\<exists>st. smf_smtpd_process_modules ex_pf st = Inr (0, st) \<and> s_modules (rs_settings st) \<noteq> [] \<and>
     fd_out (w_sock (rs_world st)) = [] \<and> rs_sent st = []"
proof -
  let ?m = "\<lparr>mod_name = ''gone'', mod_target = Handle None\<rparr>"
  let ?st = "(ex_state [?m])\<lparr>rs_settings := (rs_settings (ex_state [?m]))\<lparr>s_module_fail := 1\<rparr>\<rparr>"
  have inv: "smf_module_invoke ex_pf ?m ?st = (- 1, False, ?st)"
    by (simp add: smf_module_invoke_def module_runner_def ex_pf_def)
  have fetch: "fetch_users ex_pf ?st = Inr ?st"
    by (simp add: fetch_users_def smf_internal_fetch_user_data_def ex_fields)
  have "smf_smtpd_process_modules ex_pf ?st = Inr (0, ?st)"
    by (rule smf_smtpd_ignore_loses_message [OF _ fetch _ ex_keeps refl _ _ inv, where ?ms1.0 = "[]" and ?ms2.0 = "[]" and b = False])
      (simp_all add: ex_fields)
  then show ?thesis by (intro exI [of _ ?st]) (simp add: ex_fields ex_world_def)
qed

end
