(* ===== verification/Smf_Data.thy ===== *)
theory Smf_Data
  imports Smf_Reply
begin

text \<open>
  Receiving a message, the middle part of \<open>smf_smtpd.c\<close>: the loop over the lines between \<open>DATA\<close>
  and the final dot, the header lines that are added when the client left them out, and
  \<open>smf_smtpd_process_data\<close>, which spools the message, checks its size and runs the modules.
\<close>

section \<open>Lines of the message\<close>

text \<open>\<open>smf_smtpd_stuffing\<close> drops the first dot of the line, wherever it is.\<close>

fun smf_smtpd_stuffing :: "string \<Rightarrow> string" where
  "smf_smtpd_stuffing [] = []"
| "smf_smtpd_stuffing (c # r) = (if c = CHR ''.'' then r else c # smf_smtpd_stuffing r)"

definition data_end :: "string \<Rightarrow> bool" where
  "data_end buf \<longleftrightarrow> strncasecmp_eq buf (''.'' @ crlf) 3 \<or> strncasecmp_eq buf (''.'' @ lf) 2"

record data_state =
  ds_mid :: bool
  ds_to :: bool
  ds_from :: bool
  ds_date :: bool
  ds_header :: bool
  ds_in_header :: bool
  ds_nl :: "string option"
  ds_spool :: fd
  ds_size :: nat

definition data_start :: "fd \<Rightarrow> nat \<Rightarrow> data_state" where
  "data_start spool len =
     \<lparr>ds_mid = False, ds_to = False, ds_from = False, ds_date = False, ds_header = False,
      ds_in_header = True, ds_nl = None, ds_spool = spool, ds_size = len\<rparr>"

text \<open>
  What the body of the loop does with one line that is not the end.  The expression
  \<open>[A-Za-z0-9\._-]*:.*\<close> is not anchored and its first part may be empty, so it matches every line
  with a colon.  \<open>fwrite\<close> returns an unsigned number: the test for a negative one is never true.
\<close>

definition data_flags :: "string \<Rightarrow> data_state \<Rightarrow> data_state" where
  "data_flags buf ds =
     ds\<lparr>ds_mid := ds_mid ds \<or> ds_in_header ds \<and> strncasecmp_eq buf ''Message-ID:'' 11,
        ds_date := ds_date ds \<or> ds_in_header ds \<and> strncasecmp_eq buf ''Date:'' 5,
        ds_to := ds_to ds \<or> ds_in_header ds \<and> strncasecmp_eq buf ''To:'' 3,
        ds_from := ds_from ds \<or> ds_in_header ds \<and> strncasecmp_eq buf ''From:'' 5,
        ds_nl := (case ds_nl ds of None \<Rightarrow> smf_internal_determine_linebreak buf | Some n \<Rightarrow> Some n),
        ds_in_header := ds_in_header ds \<and>
          \<not> (strncmp_eq buf lf 1 \<or> strncmp_eq buf crlf 2 \<or> strncmp_eq buf cr 1),
        ds_header := ds_header ds \<or> strchr buf (CHR '':'') \<noteq> None\<rparr>"

definition data_store :: "nat \<Rightarrow> string \<Rightarrow> data_state \<Rightarrow> data_state" where
  "data_store br buf ds =
     (let ds1 = data_flags buf ds
      in ds1\<lparr>ds_spool := snd (sys_write buf (ds_spool ds1)), ds_size := ds_size ds1 + br\<rparr>)"

text \<open>
  The result of \<open>readline\<close> is a C string to the loop: it ends at a NUL byte.  The size counts what
  \<open>readline\<close> returned.
\<close>

definition data_step :: "data_state \<Rightarrow> nat \<Rightarrow> string \<Rightarrow> data_state \<times> bool" where
  "data_step ds br line =
     (let buf = c_str line
      in if data_end buf then (ds, True)
         else (let buf1 = (if strncasecmp_eq buf ''.'' 1 then smf_smtpd_stuffing buf else buf)
               in (data_store br buf1 ds, False)))"

text \<open>
  The loop.  \<open>data_weight\<close> bounds the number of lines: every one takes at least one byte from the
  buffer or from the socket.
\<close>

function data_loop :: "readline_t option \<Rightarrow> fd \<Rightarrow> data_state \<Rightarrow> data_state \<times> line_result \<times> fd" where
  "data_loop rl sock ds =
     (case smf_internal_readline 1024 rl sock of
        Inl e \<Rightarrow> (ds, LineErr, sock)
      | Inr (LineGot br line, rl', sock') \<Rightarrow>
          (case data_step ds br line of
             (ds', stop) \<Rightarrow> if stop then (ds', LineGot br line, sock') else data_loop rl' sock' ds')
      | Inr (r, rl', sock') \<Rightarrow> (ds, r, sock'))"
  by pat_completeness auto

definition rl_weight :: "readline_t option \<Rightarrow> fd \<Rightarrow> nat" where
  "rl_weight help f = length (case help of None \<Rightarrow> [] | Some rl \<Rightarrow> rl_unread rl) + rd_weight (fd_in f)"

lemma sys_read_weight_le:
  assumes "sys_read n f = (r, f')" and "0 < n"
  shows "rd_weight (fd_in f') \<le> rd_weight (fd_in f)"
  using assms by (auto simp: sys_read.simps split: list.splits rd_ev.splits if_splits)

lemma sys_read_got_weight:
  assumes "sys_read n f = (Got s, f')" and "0 < n" and "s \<noteq> []"
  shows "length s + rd_weight (fd_in f') \<le> rd_weight (fd_in f)"
  using assms by (auto simp: sys_read.simps split: list.splits rd_ev.splits if_splits)

lemma readcbuf_weight:
  "smf_internal_readcbuf rl f = (r, rl', f') \<Longrightarrow>
   length (rl_unread rl') + rd_weight (fd_in f') + (case r of RcChar _ \<Rightarrow> 1 | _ \<Rightarrow> 0) \<le>
     length (rl_unread rl) + rd_weight (fd_in f)"
proof (induction rl f arbitrary: r rl' f' rule: smf_internal_readcbuf.induct)
  case (1 rl f)
  show ?case
  proof (cases "rl_unread rl")
    case (Cons c s)
    with "1.prems" show ?thesis by (subst (asm) smf_internal_readcbuf.simps) auto
  next
    case Nil
    obtain q f1 where rd: "sys_read rl_bufsize f = (q, f1)" by fastforce
    have pos: "0 < rl_bufsize" by (simp add: rl_bufsize_def)
    note le = sys_read_weight_le [OF rd pos]
    show ?thesis
    proof (cases q)
      case (Got s)
      then show ?thesis
        using "1.prems" Nil rd le sys_read_got_weight [OF _ pos, of f s f1]
        by (subst (asm) smf_internal_readcbuf.simps) (cases s, auto)
    next
      case Intr
      then have "smf_internal_readcbuf rl f1 = (r, rl', f')"
        using "1.prems" Nil rd by (subst (asm) smf_internal_readcbuf.simps) simp
      from "1.IH" [OF Nil rd [symmetric] Intr this] le show ?thesis by simp
    next
      case Failed
      then show ?thesis
        using "1.prems" Nil rd le by (subst (asm) smf_internal_readcbuf.simps) auto
    qed
  qed
qed

lemma readline_loop_weight:
  "readline_loop k acc c rl f = (r, rl', f') \<Longrightarrow>
   length (rl_unread rl') + rd_weight (fd_in f') \<le> length (rl_unread rl) + rd_weight (fd_in f)"
proof (induction k arbitrary: acc c rl f)
  case 0
  then show ?case by simp
next
  case (Suc k)
  obtain q rl1 f1 where cb: "smf_internal_readcbuf rl f = (q, rl1, f1)" by (metis prod_cases3)
  show ?case
  proof (cases q)
    case (RcChar ch)
    with Suc.prems cb readcbuf_weight [OF cb] show ?thesis
      using Suc.IH [of "acc @ [ch]" ch rl1 f1] by (auto split: if_splits)
  next
    case RcEof
    with Suc.prems cb readcbuf_weight [OF cb] show ?thesis by auto
  next
    case RcErr
    with Suc.prems cb readcbuf_weight [OF cb] show ?thesis by auto
  qed
qed

lemma readline_loop_consumes:
  assumes "readline_loop (Suc k) [] c rl f = (LineGot br line, rl', f')"
  shows "length (rl_unread rl') + rd_weight (fd_in f') < length (rl_unread rl) + rd_weight (fd_in f)"
proof -
  obtain q rl1 f1 where cb: "smf_internal_readcbuf rl f = (q, rl1, f1)" by (metis prod_cases3)
  then obtain ch where q: "q = RcChar ch" using assms by (cases q) auto
  note le = readcbuf_weight [OF cb]
  show ?thesis
  proof (cases "ch = LF")
    case True
    with assms cb q le show ?thesis by auto
  next
    case False
    with assms cb q have "readline_loop k [ch] ch rl1 f1 = (LineGot br line, rl', f')" by simp
    from readline_loop_weight [OF this] le q show ?thesis by simp
  qed
qed

lemma readline_weight:
  assumes "smf_internal_readline 1024 help f = Inr (r, help', f')"
  shows "rl_weight help' f' \<le> rl_weight help f"
    and "r = LineGot br line \<Longrightarrow> rl_weight help' f' < rl_weight help f"
proof -
  define rl where "rl = (case help of None \<Rightarrow> \<lparr>rl_unread = []\<rparr> | Some rl \<Rightarrow> rl)"
  have un: "rl_unread rl = (case help of None \<Rightarrow> [] | Some rl \<Rightarrow> rl_unread rl)"
    by (simp add: rl_def split: option.split)
  obtain rl' where h: "help' = Some rl'" and loop: "readline_loop (Suc 1022) [] NUL rl f = (r, rl', f')"
    using assms
    by (auto simp: smf_internal_readline_def rl_def [symmetric] simp del: readline_loop.simps
        split: prod.splits)
  show "rl_weight help' f' \<le> rl_weight help f"
    using readline_loop_weight [OF loop] by (simp add: rl_weight_def h un)
  show "rl_weight help' f' < rl_weight help f" if "r = LineGot br line"
    using readline_loop_consumes [of 1022 NUL rl f br line rl' f'] loop that
    by (simp add: rl_weight_def h un)
qed

termination data_loop
  by (relation "measure (\<lambda>(rl, sock, ds). rl_weight rl sock)") (auto dest: readline_weight(2))

declare data_loop.simps [simp del]

section \<open>Missing header lines\<close>

text \<open>The daemon's surroundings: the platform, its host name, and what \<open>strftime\<close> and \<open>random\<close> give.\<close>

record smtpd_env =
  sv_pf :: platform
  sv_hostname :: string
  sv_date :: string                  \<comment> \<open>the \<open>Date:\<close> line without its line end\<close>
  sv_random :: "nat \<Rightarrow> nat \<Rightarrow> nat"   \<comment> \<open>session number, call number\<close>

definition c_string :: "string option \<Rightarrow> string" where   \<comment> \<open>\<open>%s\<close>\<close>
  "c_string s = (case s of None \<Rightarrow> ''(null)'' | Some t \<Rightarrow> t)"

definition missing_lines ::
  "smtpd_env \<Rightarrow> session \<Rightarrow> bool \<Rightarrow> bool \<Rightarrow> bool \<Rightarrow> bool \<Rightarrow> bool \<Rightarrow> string option \<Rightarrow> string list" where
  "missing_lines env session mid to_found from_found date headers nl =
     (if mid then [] else [''Message-Id: '' @ smf_message_generate_message_id (pf_cm (sv_pf env)) @ c_string nl]) @
     (if date then [] else [sv_date env @ c_string nl]) @
     (if from_found then [] else [''From: '' @ c_string (env_sender (ses_envelope session)) @ c_string nl]) @
     (if to_found then [] else [''To: undisclosed-recipients:;'' @ c_string nl]) @
     (if headers then [] else [c_string nl])"

text \<open>\<open>fputs\<close> of all lines; a failing one ends the function.\<close>

fun fputs_all :: "string list \<Rightarrow> fd \<Rightarrow> bool \<times> fd" where
  "fputs_all [] f = (True, f)"
| "fputs_all (l # ls) f =
     (case sys_write l f of
        (Wrote _, f') \<Rightarrow> fputs_all ls f'
      | (_, f') \<Rightarrow> (False, f'))"

text \<open>The copying loop; its test for a failed \<open>fwrite\<close> is never true.\<close>

function copy_blocks :: "string \<Rightarrow> fd \<Rightarrow> fd" where
  "copy_blocks src dest =
     (if src = [] then dest else copy_blocks (drop 1024 src) (snd (sys_write (take 1024 src) dest)))"
  by pat_completeness auto
termination
  by (relation "measure (\<lambda>(src, dest). length src)") auto

declare copy_blocks.simps [simp del]

definition smf_smtpd_append_missing_headers ::
  "smtpd_env \<Rightarrow> session \<Rightarrow> string option \<Rightarrow> string list \<Rightarrow> world \<Rightarrow> (int \<times> world) c_result" where
  "smf_smtpd_append_missing_headers env session queue_dir ls w =
     (let os = pf_os (sv_pf env)
      in case ses_message_file session of
           None \<Rightarrow> Inl NullDeref
         | Some name \<Rightarrow>
             (case sys_mkstemp os (tmp_template queue_dir) w of
                None \<Rightarrow> Inr (- 1, w)
              | Some (tmpname, w1) \<Rightarrow>
                  (case fopen_write os tmpname w1 of
                     None \<Rightarrow> Inr (- 1, w1)
                   | Some w2 \<Rightarrow>
                       (case fputs_all ls (file_fd os tmpname []) of
                          (False, new) \<Rightarrow> Inr (- 1, put_file tmpname (fd_out new) w2)
                        | (True, new) \<Rightarrow>
                            (case fopen_read os name w2 of
                               None \<Rightarrow> Inr (- 1, put_file tmpname (fd_out new) w2)
                             | Some old \<Rightarrow>
                                 Inr (replace_file os tmpname name
                                        (put_file tmpname (fd_out (copy_blocks old new)) w2)))))))"

section \<open>The message is complete\<close>

text \<open>
  What follows the loop: the missing headers, the size check, reading the header and the call of
  the modules.  The result of adding headers is not looked at.
\<close>

definition data_complete ::
  "smtpd_env \<Rightarrow> data_state \<Rightarrow> run_state \<Rightarrow> run_state c_result" where
  "data_complete env ds st =
     (let session = rs_session st; settings = rs_settings st
      in case (if \<not> ds_mid ds \<or> \<not> ds_to ds \<or> \<not> ds_from ds \<or> \<not> ds_date ds
               then smf_smtpd_append_missing_headers env session (s_queue_dir settings)
                      (missing_lines env session (ds_mid ds) (ds_to ds) (ds_from ds) (ds_date ds)
                         (ds_header ds) (ds_nl ds)) (rs_world st)
               else Inr (0, rs_world st)) of
           Inl e \<Rightarrow> Inl e
         | Inr (_, w) \<Rightarrow> Inr (st\<lparr>rs_world := w\<rparr>))"

definition remove_spool :: "platform \<Rightarrow> run_state \<Rightarrow> run_state c_result" where
  "remove_spool pf st =
     (case ses_message_file (rs_session st) of
        None \<Rightarrow> Inl NullDeref
      | Some name \<Rightarrow> Inr (st\<lparr>rs_world := snd (sys_unlink (pf_os pf) name (rs_world st))\<rparr>))"

definition message_too_big :: "run_state \<Rightarrow> bool" where
  "message_too_big st \<longleftrightarrow>
     unat (s_max_size (rs_settings st)) < ses_message_size (rs_session st) \<and> s_max_size (rs_settings st) \<noteq> 0"

definition size_error :: string where
  "size_error = ''552 message size exceeds fixed maximium message size'' @ crlf"

definition with_world :: "(world \<Rightarrow> world) \<Rightarrow> run_state \<Rightarrow> run_state" where
  "with_world f st = st\<lparr>rs_world := f (rs_world st)\<rparr>"

definition reply_code :: "int \<Rightarrow> run_state \<Rightarrow> run_state" where
  "reply_code code st = with_world (smf_smtpd_code_reply code (s_smtp_codes (rs_settings st))) st"

definition data_process :: "smtpd_env \<Rightarrow> run_state \<Rightarrow> run_state c_result" where
  "data_process env st =
     (if message_too_big st then
        (case smf_smtpd_string_reply size_error [] (rs_world st) of
           Inl e \<Rightarrow> Inl e
         | Inr w \<Rightarrow> remove_spool (sv_pf env) (st\<lparr>rs_world := w\<rparr>))
      else (case ses_message_file (rs_session st) of
          None \<Rightarrow> Inl AssertFailed
        | Some name \<Rightarrow>
            (case map_option (\<lambda>f. cm_from_file (pf_cm (sv_pf env)) (sp_data f) True)
                    (w_files (rs_world st) name) of
               None \<Rightarrow> Inr (reply_code 451 st)
             | Some (r, message) \<Rightarrow>
                 if r \<noteq> 0 then Inr (reply_code 451 st)
                 else (case cm_get_message_id (pf_cm (sv_pf env)) message of
                    None \<Rightarrow> Inl NullDeref
                  | Some mid \<Rightarrow>
                      (case smf_smtpd_process_modules (sv_pf env)
                              (st\<lparr>rs_session := with_envelope (\<lambda>e. e\<lparr>env_message := Some message\<rparr>) (rs_session st)\<rparr>) of
                         Inl e \<Rightarrow> Inl e
                       | Inr (_, st1) \<Rightarrow> remove_spool (sv_pf env) st1)))))"

definition data_prompt :: string where
  "data_prompt = ''354 End data with <CR><LF>.<CR><LF>'' @ crlf"

text \<open>
  \<open>smf_smtpd_process_data\<close>.  \<open>smf_core_gen_queue_file\<close> always sets a name, so the test for \<open>NULL\<close>
  never succeeds; when \<open>mkstemp\<close> fails, the file of the unchanged template is opened.  The line
  buffer is a new one, and what is left in it at the end is dropped.
\<close>

definition smf_smtpd_process_data :: "smtpd_env \<Rightarrow> run_state \<Rightarrow> run_state c_result" where
  "smf_smtpd_process_data env st =
     (let os = pf_os (sv_pf env); settings = rs_settings st; w = rs_world st;
          gen = smf_core_gen_queue_file (\<lambda>t. os_mkstemp os t (w_files w)) (c_string (s_queue_dir settings))
                  (ses_id (rs_session st));
          name = snd gen;
          w1 = (if fst gen = 0 then put_file name [] w else w);
          session1 = (rs_session st)\<lparr>ses_message_file := Some name\<rparr>
      in case fopen_write os name w1 of
           None \<Rightarrow> Inr (reply_code 451 (st\<lparr>rs_session := session1, rs_world := w1\<rparr>))
         | Some w2 \<Rightarrow>
             (let w3 = say data_prompt w2
              in case data_loop None (w_sock w3) (data_start (file_fd os name []) (ses_message_size session1)) of
                   (ds, _, sock) \<Rightarrow>
                     (let w4 = put_file name (fd_out (ds_spool ds)) (w3\<lparr>w_sock := sock\<rparr>);
                          st1 = st\<lparr>rs_session := session1\<lparr>ses_message_size := ds_size ds\<rparr>, rs_world := w4\<rparr>
                      in case data_complete env ds st1 of
                           Inl e \<Rightarrow> Inl e
                         | Inr st2 \<Rightarrow> data_process env st2)))"

lemma data_prompt_reply: "smf_smtpd_string_reply data_prompt [] w = Inr (say data_prompt w)"
  by (rule string_reply_plain) (simp_all add: data_prompt_def crlf_def)

section \<open>The loop: lemmas\<close>

lemma getline_readline:
  "rl_getline 1024 (help, f) = (LineGot br l, help', f') \<Longrightarrow>
   smf_internal_readline 1024 help f = Inr (LineGot br l, help', f')"
  by (auto simp: rl_getline_def split: sum.splits prod.splits)

lemma getline_readline_end:
  "rl_getline 1024 (help, f) = (LineEnd, help', f') \<Longrightarrow>
   smf_internal_readline 1024 help f = Inr (LineEnd, help', f')"
  by (auto simp: rl_getline_def split: sum.splits prod.splits)

text \<open>What a client sends for a line of a message, and the lines it may send.\<close>

definition dot_stuff :: "string \<Rightarrow> string" where
  "dot_stuff l = (case l of c # r \<Rightarrow> if c = CHR ''.'' then CHR ''.'' # l else l | [] \<Rightarrow> l)"

definition message_line :: "string \<Rightarrow> bool" where
  "message_line l \<longleftrightarrow> is_line 1023 l \<and> NUL \<notin> set l"

lemma dot_stuff_line: "message_line l \<Longrightarrow> is_line 1024 (dot_stuff l) \<and> NUL \<notin> set (dot_stuff l)"
  by (cases l) (auto simp: message_line_def is_line_def dot_stuff_def)

lemma data_step_line:
  assumes "message_line l"
  shows "data_step ds br (dot_stuff l) = (data_store br l ds, False)"
proof -
  have cs: "c_str (dot_stuff l) = dot_stuff l" using dot_stuff_line [OF assms] by (simp add: c_str_id)
  obtain c r where l: "l = c # r" using assms by (cases l) (auto simp: message_line_def is_line_def)
  have low: "c_tolower x = CHR ''.'' \<longleftrightarrow> x = CHR ''.''" for x
    using c_tolower_dot [of x] .
  show ?thesis
  proof (cases "c = CHR ''.''")
    case True
    then have d: "dot_stuff l = CHR ''.'' # CHR ''.'' # r" by (simp add: dot_stuff_def l)
    then have "\<not> data_end (dot_stuff l)"
      by (simp add: data_end_def strncasecmp_eq_def crlf_def lf_def numeral_3_eq_3 numeral_2_eq_2 c_tolower_def)
    moreover have "strncasecmp_eq (dot_stuff l) ''.'' 1" by (simp add: d strncasecmp_eq_def)
    ultimately show ?thesis using cs d l True by (simp add: data_step_def)
  next
    case False
    then have d: "dot_stuff l = l" by (simp add: dot_stuff_def l)
    have "c_tolower c \<noteq> c_tolower (CHR ''.'')" using False low by (simp add: c_tolower_def)
    then have "\<not> data_end l" "\<not> strncasecmp_eq l ''.'' 1"
      by (simp_all add: data_end_def strncasecmp_eq_def crlf_def lf_def l numeral_3_eq_3 numeral_2_eq_2)
    with cs d show ?thesis by (simp add: data_step_def)
  qed
qed

lemma data_step_end: "data_step ds br (''.'' @ crlf) = (ds, True)"
  by (simp add: data_step_def c_str_id crlf_def data_end_def strncasecmp_eq_def)

text \<open>The state after the lines of a message have been stored.\<close>

definition data_lines :: "string list \<Rightarrow> data_state \<Rightarrow> data_state" where
  "data_lines ls ds = foldl (\<lambda>ds l. data_store (length (dot_stuff l)) l ds) ds ls"

lemma data_loop_lines:
  "rl_live (rl, sock) \<Longrightarrow> rl_rest (rl, sock) = concat (map dot_stuff ls) @ rest \<Longrightarrow> list_all message_line ls \<Longrightarrow>
   \<exists>rl' sock'. data_loop rl sock ds = data_loop rl' sock' (data_lines ls ds) \<and>
     rl_live (rl', sock') \<and> rl_rest (rl', sock') = rest"
proof (induction ls arbitrary: rl sock ds)
  case Nil
  then show ?case by (auto simp: data_lines_def)
next
  case (Cons l ls)
  then have ln: "message_line l" by simp
  obtain rl1 sock1 where g: "rl_getline 1024 (rl, sock) = (LineGot (length (dot_stuff l)) (dot_stuff l), rl1, sock1)"
    and live: "rl_live (rl1, sock1)" "rl_rest (rl1, sock1) = concat (map dot_stuff ls) @ rest"
    using lines.getline_is_line [of "(rl, sock)" "dot_stuff l"] Cons.prems dot_stuff_line [OF ln] by auto
  have "data_loop rl sock ds = data_loop rl1 sock1 (data_store (length (dot_stuff l)) l ds)"
    using getline_readline [OF g] data_step_line [OF ln] by (subst data_loop.simps) simp
  with Cons.IH [OF live] Cons.prems(3) show ?case by (simp add: data_lines_def)
qed

lemma data_loop_terminated:
  assumes "rl_live (rl, sock)" and "list_all message_line ls"
    and "rl_rest (rl, sock) = concat (map dot_stuff ls) @ (''.'' @ crlf) @ rest"
  shows "\<exists>rl' sock'. data_loop rl sock ds = (data_lines ls ds, LineGot 3 (''.'' @ crlf), sock') \<and>
    rl_rest (rl', sock') = rest \<and> rl_live (rl', sock')"
proof -
  obtain rl1 sock1 where d: "data_loop rl sock ds = data_loop rl1 sock1 (data_lines ls ds)"
    and live: "rl_live (rl1, sock1)" "rl_rest (rl1, sock1) = (''.'' @ crlf) @ rest"
    using data_loop_lines [OF assms(1,3,2)] by blast
  have "is_line 1024 (''.'' @ crlf)" by (simp add: is_line_def crlf_def)
  then obtain rl2 sock2 where g: "rl_getline 1024 (rl1, sock1) = (LineGot 3 (''.'' @ crlf), rl2, sock2)"
    "rl_rest (rl2, sock2) = rest" "rl_live (rl2, sock2)"
    using lines.getline_is_line [OF live] by (auto simp: crlf_def)
  have "data_loop rl1 sock1 (data_lines ls ds) = (data_lines ls ds, LineGot 3 (''.'' @ crlf), sock2)"
    using getline_readline [OF g(1)] by (subst data_loop.simps) (simp only: sum.case prod.case line_result.case data_step_end if_True)
  with d g(2,3) show ?thesis by auto
qed

lemma data_loop_eof:
  assumes "rl_live (rl, sock)" and "list_all message_line ls"
    and "rl_rest (rl, sock) = concat (map dot_stuff ls)"
  shows "\<exists>sock'. data_loop rl sock ds = (data_lines ls ds, LineEnd, sock')"
proof -
  have rest: "rl_rest (rl, sock) = concat (map dot_stuff ls) @ []" using assms(3) by simp
  obtain rl1 sock1 where d: "data_loop rl sock ds = data_loop rl1 sock1 (data_lines ls ds)"
    and live: "rl_live (rl1, sock1)" "rl_rest (rl1, sock1) = []"
    using data_loop_lines [OF assms(1) rest assms(2)] by blast
  obtain rl2 sock2 where g: "rl_getline 1024 (rl1, sock1) = (LineEnd, rl2, sock2)"
    using lines.getline_end [OF live] by auto
  have "data_loop rl1 sock1 (data_lines ls ds) = (data_lines ls ds, LineEnd, sock2)"
    using getline_readline_end [OF g] by (subst data_loop.simps) simp
  with d show ?thesis by auto
qed

lemma data_lines_spool:
  "fd_wr (ds_spool ds) = [] \<Longrightarrow>
   ds_spool (data_lines ls ds) = (ds_spool ds)\<lparr>fd_out := fd_out (ds_spool ds) @ concat ls\<rparr>"
proof (induction ls arbitrary: ds)
  case Nil
  then show ?case by (simp add: data_lines_def)
next
  case (Cons l ls)
  let ?ds = "data_store (length (dot_stuff l)) l ds"
  have sp: "ds_spool ?ds = (ds_spool ds)\<lparr>fd_out := fd_out (ds_spool ds) @ l\<rparr>"
    using Cons.prems by (simp add: data_store_def data_flags_def Let_def sys_write.simps)
  have "data_lines (l # ls) ds = data_lines ls ?ds" by (simp add: data_lines_def)
  then show ?case using Cons.IH [of ?ds] Cons.prems sp by simp
qed

lemma data_lines_size: "ds_size (data_lines ls ds) = ds_size ds + length (concat (map dot_stuff ls))"
proof (induction ls arbitrary: ds)
  case Nil
  then show ?case by (simp add: data_lines_def)
next
  case (Cons l ls)
  have "data_lines (l # ls) ds = data_lines ls (data_store (length (dot_stuff l)) l ds)"
    by (simp add: data_lines_def)
  then show ?case using Cons by (simp add: data_store_def data_flags_def Let_def)
qed

lemma readcbuf_drains:
  "smf_internal_readcbuf rl f = (r, rl', f') \<Longrightarrow>
   fd_in f = [] \<or> rl_unread rl = [] \<and> (\<exists>s. fd_in f = [RdData s] \<and> length s \<le> 1024) \<Longrightarrow> fd_in f' = []"
  by (subst (asm) smf_internal_readcbuf.simps)
     (auto simp: sys_read.simps rl_bufsize_def split: list.splits if_splits)

lemma readline_loop_drained: "readline_loop k acc c rl f = (r, rl', f') \<Longrightarrow> fd_in f = [] \<Longrightarrow> fd_in f' = []"
proof (induction k arbitrary: acc c rl f)
  case 0
  then show ?case by simp
next
  case (Suc k)
  obtain q rl1 f1 where cb: "smf_internal_readcbuf rl f = (q, rl1, f1)" by (metis prod_cases3)
  have "fd_in f1 = []" using readcbuf_drains [OF cb] Suc.prems(2) by blast
  with Suc.prems(1) cb Suc.IH [of _ _ rl1 f1] show ?case by (cases q) (auto split: if_splits)
qed

lemma readline_loop_drains:
  assumes "readline_loop (Suc k) acc c rl f = (r, rl', f')"
    and "fd_in f = [] \<or> rl_unread rl = [] \<and> (\<exists>s. fd_in f = [RdData s] \<and> length s \<le> 1024)"
  shows "fd_in f' = []"
proof -
  obtain q rl1 f1 where cb: "smf_internal_readcbuf rl f = (q, rl1, f1)" by (metis prod_cases3)
  have "fd_in f1 = []" using readcbuf_drains [OF cb] assms(2) by blast
  with assms(1) cb readline_loop_drained [of k _ _ rl1 f1 r rl' f'] show ?thesis
    by (cases q) (auto split: if_splits)
qed

lemma readline_drains:
  assumes "smf_internal_readline 1024 help f = Inr (r, help', f')"
    and "fd_in f = [] \<or> help = None \<and> (\<exists>s. fd_in f = [RdData s] \<and> length s \<le> 1024)"
  shows "fd_in f' = []"
proof -
  define rl where "rl = (case help of None \<Rightarrow> \<lparr>rl_unread = []\<rparr> | Some rl \<Rightarrow> rl)"
  obtain rl' where "readline_loop (Suc 1022) [] NUL rl f = (r, rl', f')"
    using assms(1)
    by (auto simp: smf_internal_readline_def rl_def [symmetric] simp del: readline_loop.simps split: prod.splits)
  from readline_loop_drains [OF this] assms(2) show ?thesis by (auto simp: rl_def)
qed

lemma data_loop_drained: "fd_in sock = [] \<Longrightarrow> fd_in (snd (snd (data_loop rl sock ds))) = []"
proof (induction rl sock ds rule: data_loop.induct)
  case (1 rl sock ds)
  show ?case
  proof (cases "smf_internal_readline 1024 rl sock")
    case (Inl e)
    with "1.prems" show ?thesis by (simp add: data_loop.simps)
  next
    case (Inr q)
    obtain r rl' sock' where q: "q = (r, rl', sock')" by (metis prod_cases3)
    have dr: "fd_in sock' = []" by (rule readline_drains) (use Inr q "1.prems" in auto)
    show ?thesis
    proof (cases r)
      case (LineGot br line)
      obtain ds' stop where st: "data_step ds br line = (ds', stop)" by fastforce
      show ?thesis
      proof (cases stop)
        case True
        with Inr q LineGot st dr show ?thesis by (subst data_loop.simps) simp
      next
        case False
        with "1.IH" [OF Inr q [symmetric] LineGot refl st [symmetric] False dr] Inr q LineGot st show ?thesis
          by (subst data_loop.simps) simp
      qed
    qed (use Inr q dr in \<open>subst data_loop.simps, simp\<close>)+
  qed
qed

lemma data_loop_drains:
  assumes "fd_in sock = [RdData s]" and "length s \<le> 1024"
  shows "fd_in (snd (snd (data_loop None sock ds))) = []"
proof -
  obtain r rl' sock' where "readline_loop 1023 [] NUL \<lparr>rl_unread = []\<rparr> sock = (r, rl', sock')"
    by (metis prod_cases3)
  then have rd: "smf_internal_readline 1024 None sock = Inr (r, Some rl', sock')"
    by (simp add: smf_internal_readline_def)
  have dr: "fd_in sock' = []" by (rule readline_drains [OF rd]) (use assms in auto)
  show ?thesis
  proof (cases r)
    case (LineGot br line)
    obtain ds' stop where "data_step ds br line = (ds', stop)" by fastforce
    with rd LineGot dr data_loop_drained [OF dr] show ?thesis by (subst data_loop.simps) simp
  qed (use rd dr in \<open>subst data_loop.simps, simp\<close>)+
qed

section \<open>Adding headers\<close>

lemma copy_blocks_plain: "fd_wr dest = [] \<Longrightarrow> copy_blocks src dest = dest\<lparr>fd_out := fd_out dest @ src\<rparr>"
proof (induction src dest rule: copy_blocks.induct)
  case (1 src dest)
  show ?case
  proof (cases "src = []")
    case True
    then show ?thesis by (simp add: copy_blocks.simps)
  next
    case False
    with "1.IH" [OF False] "1.prems" show ?thesis
      by (subst copy_blocks.simps) (simp add: sys_write.simps)
  qed
qed

lemma fputs_all_plain: "fd_wr f = [] \<Longrightarrow> fputs_all ls f = (True, f\<lparr>fd_out := fd_out f @ concat ls\<rparr>)"
  by (induction ls arbitrary: f) (simp_all add: sys_write.simps)

lemma append_missing_headers_ok:
  assumes os: "os_willing (pf_os (sv_pf env))" and msg: "ses_message_file session = Some name"
    and tmp: "os_mkstemp (pf_os (sv_pf env)) (tmp_template dir) (w_files w) = Some tmp" "w_files w tmp = None"
    and old: "w_files w name = Some f"
  shows "smf_smtpd_append_missing_headers env session dir ls w = Inr (0, w\<lparr>w_files := (w_files w)
      (name \<mapsto> \<lparr>sp_data = concat ls @ sp_data f, sp_mtime = w_clock w\<rparr>)\<rparr>)"
proof -
  have ne: "name \<noteq> tmp" using tmp old by auto
  have ms: "sys_mkstemp (pf_os (sv_pf env)) (tmp_template dir) w = Some (tmp, put_file tmp [] w)"
    using tmp by (simp add: sys_mkstemp_def)
  let ?w = "put_file tmp (concat ls @ sp_data f) (put_file tmp [] (put_file tmp [] w))"
  have rep: "replace_file (pf_os (sv_pf env)) tmp name ?w =
      (0, ?w\<lparr>w_files := (w_files ?w)(tmp := None,
        name \<mapsto> \<lparr>sp_data = concat ls @ sp_data f, sp_mtime = w_clock w\<rparr>)\<rparr>)"
    by (rule replace_file_ok) (use os ne old in simp_all)
  have "(w_files ?w)(tmp := None) = w_files w" using tmp by (auto simp: put_file_def)
  then have "?w\<lparr>w_files := (w_files ?w)(tmp := None,
        name \<mapsto> \<lparr>sp_data = concat ls @ sp_data f, sp_mtime = w_clock w\<rparr>)\<rparr> =
      w\<lparr>w_files := (w_files w)(name \<mapsto> \<lparr>sp_data = concat ls @ sp_data f, sp_mtime = w_clock w\<rparr>)\<rparr>"
    by (simp add: put_file_def)
  with ms rep os ne old msg show ?thesis
    by (simp add: smf_smtpd_append_missing_headers_def Let_def fopen_write_def fopen_read_def file_fd_def
        fputs_all_plain copy_blocks_plain)
qed

section \<open>Properties\<close>

text \<open>
  Claim C10.  A message survives the transfer: when the client sends its lines with leading dots
  doubled and ends with a dot on a line of its own, then through any sequence of partial reads
  and interruptions the spool file is exactly the lines, in order, leading dots single again,
  and the size counts the bytes of the transfer.
\<close>

theorem smf_smtpd_data_roundtrip:
  assumes "flows (fd_in sock)" and "list_all message_line ls"
    and "pending (fd_in sock) = concat (map dot_stuff ls) @ (''.'' @ crlf) @ rest"
    and "fd_wr spool = []"
  shows "\<exists>ds r sock'. data_loop None sock (data_start spool n) = (ds, r, sock') \<and>
    fd_out (ds_spool ds) = fd_out spool @ concat ls \<and>
    ds_size ds = n + length (concat (map dot_stuff ls))"
proof -
  have "rl_live (None, sock)" "rl_rest (None, sock) = pending (fd_in sock)"
    using assms(1) by (simp_all add: rl_live_def rl_rest_def rl_stream_def)
  with data_loop_terminated [of None sock ls rest "data_start spool n"] assms(2-4)
  show ?thesis by (auto simp: data_lines_spool data_lines_size data_start_def)
qed

lemma smf_smtpd_data_roundtrip_witness:
  "\<exists>ds r sock'. data_loop None \<lparr>fd_in = [RdData (''To: a'' @ crlf @ ''..''), RdIntr, RdData (crlf @ ''.'' @ crlf)], fd_wr = [], fd_out = []\<rparr>
       (data_start \<lparr>fd_in = [], fd_wr = [], fd_out = []\<rparr> 0) = (ds, r, sock') \<and>
     fd_out (ds_spool ds) = ''To: a'' @ crlf @ ''.'' @ crlf"
  using smf_smtpd_data_roundtrip
    [of "\<lparr>fd_in = [RdData (''To: a'' @ crlf @ ''..''), RdIntr, RdData (crlf @ ''.'' @ crlf)], fd_wr = [], fd_out = []\<rparr>"
        "[''To: a'' @ crlf, ''.'' @ crlf]" "[]" "\<lparr>fd_in = [], fd_wr = [], fd_out = []\<rparr>" 0]
  by (auto simp: message_line_def is_line_def crlf_def dot_stuff_def)



text \<open>
  What the client sent behind the final dot is lost when it arrives with the message:
  the loop reads it into a buffer of its own, which is dropped, so commands sent ahead are never
  answered.
\<close>

theorem smf_smtpd_data_drops_pipelined:
  assumes "fd_in sock = [RdData (concat (map dot_stuff ls) @ (''.'' @ crlf) @ rest)]"
    and "list_all message_line ls" and "length (concat (map dot_stuff ls) @ (''.'' @ crlf) @ rest) \<le> 1024"
  shows "\<exists>sock'. data_loop None sock ds = (data_lines ls ds, LineGot 3 (''.'' @ crlf), sock') \<and>
    pending (fd_in sock') = []"
proof -
  have "rl_live (None, sock)" "rl_rest (None, sock) = concat (map dot_stuff ls) @ (''.'' @ crlf) @ rest"
    using assms(1) by (simp_all add: rl_live_def rl_rest_def rl_stream_def)
  with data_loop_terminated [of None sock ls rest ds] assms(2)
  obtain sock' where d: "data_loop None sock ds = (data_lines ls ds, LineGot 3 (''.'' @ crlf), sock')" by blast
  have "fd_in sock' = []" using data_loop_drains [OF assms(1,3), of ds] d by simp
  with d show ?thesis by simp
qed

lemma smf_smtpd_data_drops_pipelined_witness:
  "\<exists>ds sock'. data_loop None \<lparr>fd_in = [RdData (''hi'' @ crlf @ ''.'' @ crlf @ ''QUIT'' @ crlf)], fd_wr = [], fd_out = []\<rparr>
       (data_start \<lparr>fd_in = [], fd_wr = [], fd_out = []\<rparr> 0) = (ds, LineGot 3 (''.'' @ crlf), sock') \<and>
     pending (fd_in sock') = []"
  using smf_smtpd_data_drops_pipelined
    [of "\<lparr>fd_in = [RdData (''hi'' @ crlf @ ''.'' @ crlf @ ''QUIT'' @ crlf)], fd_wr = [], fd_out = []\<rparr>" "[''hi'' @ crlf]" "''QUIT'' @ crlf"
        "data_start \<lparr>fd_in = [], fd_wr = [], fd_out = []\<rparr> 0"]
  by (auto simp: message_line_def is_line_def crlf_def dot_stuff_def)

end
