(* ===== verification/Smf_Smtpd.thy ===== *)
theory Smf_Smtpd
  imports Smf_Data
begin

text \<open>
  The SMTP dialogue, \<open>smf_smtpd_handle_client\<close> of \<open>smf_smtpd.c\<close>: the commands, the protocol state,
  and the loop over the lines of a client.  The session is a state machine; its reachable states
  and what holds in them are at the end.
\<close>

section \<open>State\<close>

datatype smtp_state = ST_INIT | ST_HELO | ST_XFWD | ST_MAIL | ST_RCPT | ST_DATA | ST_QUIT

record client =
  cl_state :: smtp_state
  cl_run :: run_state
  cl_rl :: "readline_t option"     \<comment> \<open>the line buffer of the dialogue\<close>
  cl_sessions :: nat               \<comment> \<open>sessions created so far, for the session ids\<close>

section \<open>Commands\<close>

datatype smtp_command =
  CmdQuit | CmdHelo bool | CmdXforward | CmdMail | CmdRcpt | CmdData | CmdRset | CmdNoop | CmdUnknown

text \<open>The tests in the order of the code; the flag of \<open>CmdHelo\<close> says \<open>EHLO\<close>.\<close>

definition smtp_classify :: "string \<Rightarrow> smtp_command" where
  "smtp_classify req =
     (if strncasecmp_eq req ''quit'' 4 then CmdQuit
      else if strncasecmp_eq req ''helo'' 4 then CmdHelo False
      else if strncasecmp_eq req ''ehlo'' 4 then CmdHelo True
      else if strncasecmp_eq req ''xforward'' 8 then CmdXforward
      else if strncasecmp_eq req ''mail from:'' 10 then CmdMail
      else if strncasecmp_eq req ''rcpt to:'' 8 then CmdRcpt
      else if strncasecmp_eq req ''data'' 4 then CmdData
      else if strncasecmp_eq req ''rset'' 4 then CmdRset
      else if strncasecmp_eq req ''noop'' 4 then CmdNoop
      else CmdUnknown)"

definition smf_smtpd_get_req_value :: "string \<Rightarrow> nat \<Rightarrow> string" where
  "smf_smtpd_get_req_value req jmp =
     (let p = drop jmp req
      in smf_core_strstrip (case p of c # r \<Rightarrow> if c = CHR '' '' then r else p | [] \<Rightarrow> p))"

text \<open>Access to the session of a client, and sending a fixed text.\<close>

definition cl_session :: "client \<Rightarrow> session" where
  "cl_session cl = rs_session (cl_run cl)"

definition on_session :: "(session \<Rightarrow> session) \<Rightarrow> client \<Rightarrow> client" where
  "on_session f cl = cl\<lparr>cl_run := (cl_run cl)\<lparr>rs_session := f (rs_session (cl_run cl))\<rparr>\<rparr>"

definition send :: "string \<Rightarrow> client \<Rightarrow> client" where
  "send text cl = cl\<lparr>cl_run := with_world (say text) (cl_run cl)\<rparr>"

definition send_code :: "int \<Rightarrow> client \<Rightarrow> client" where
  "send_code code cl = cl\<lparr>cl_run := reply_code code (cl_run cl)\<rparr>"

definition goto_state :: "smtp_state \<Rightarrow> client \<Rightarrow> client" where
  "goto_state s cl = cl\<lparr>cl_state := s\<rparr>"

text \<open>\<open>smf_session_free\<close> and \<open>smf_session_new\<close>.\<close>

definition fresh_session :: "smtpd_env \<Rightarrow> client \<Rightarrow> client" where
  "fresh_session env cl =
     (on_session (\<lambda>_. smf_session_new (sv_random env (cl_sessions cl))) cl)\<lparr>cl_sessions := cl_sessions cl + 1\<rparr>"

section \<open>One command\<close>

definition nested_mail :: string where "nested_mail = ''503 Error: nested MAIL command'' @ crlf"
definition need_mail :: string where "need_mail = ''503 Error: need MAIL command'' @ crlf"
definition need_rcpt :: string where "need_rcpt = ''503 Error: need RCPT command'' @ crlf"
definition no_recipients :: string where "no_recipients = ''554 Error: no valid recipients'' @ crlf"
definition helo_syntax :: string where "helo_syntax = ''501 Syntax: HELO hostname'' @ crlf"
definition mail_syntax :: string where "mail_syntax = ''501 Syntax: MAIL FROM:<address>'' @ crlf"
definition rcpt_syntax :: string where "rcpt_syntax = ''501 Syntax: RCPT TO:<address>'' @ crlf"
definition xforward_syntax :: string where "xforward_syntax = ''501 Syntax: XFORWARD attribute=value...'' @ crlf"
definition unknown_command :: string where "unknown_command = ''502 Error: command not recognized'' @ crlf"

text \<open>The size limit is printed as an \<open>int\<close>.\<close>

definition helo_reply :: "smtpd_env \<Rightarrow> bool \<Rightarrow> client \<Rightarrow> string" where
  "helo_reply env ehlo cl =
     (if ehlo
      then ''250-'' @ sv_hostname env @ crlf @ ''250-XFORWARD ADDR'' @ crlf @ ''250 SIZE '' @
           string_of_int (sint (ucast (s_max_size (rs_settings (cl_run cl))) :: 32 word)) @ crlf
      else ''250 '' @ sv_hostname env @ crlf)"

definition do_helo :: "smtpd_env \<Rightarrow> bool \<Rightarrow> string \<Rightarrow> client \<Rightarrow> client" where
  "do_helo env ehlo req cl =
     (let cl1 = (if cl_state cl \<noteq> ST_INIT then fresh_session env cl else cl);
          req_value = smf_smtpd_get_req_value req 4;
          cl2 = on_session (smf_session_set_helo req_value) cl1
      in if req_value = [] then send helo_syntax cl2
         else goto_state ST_HELO (send (helo_reply env ehlo cl2) cl2))"

definition do_xforward :: "string \<Rightarrow> client \<Rightarrow> client" where
  "do_xforward req cl =
     (case strcasestr req ''ADDR='' of
        None \<Rightarrow> send xforward_syntax cl
      | Some t \<Rightarrow>
          (case strchr t (CHR ''='') of
             None \<Rightarrow> cl
           | Some v \<Rightarrow>
               goto_state ST_XFWD (send_code 250
                 (on_session (smf_session_set_xforward_addr (smf_core_strstrip (tl v))) cl))))"

definition do_mail :: "string \<Rightarrow> client \<Rightarrow> client" where
  "do_mail req cl =
     (if cl_state cl = ST_MAIL then send nested_mail cl
      else (let req_value = smf_smtpd_get_req_value req 10
            in if req_value = [] then send mail_syntax cl
               else goto_state ST_MAIL (send_code 250
                      (on_session (with_envelope (smf_envelope_set_sender req_value)) cl))))"

definition do_rcpt :: "string \<Rightarrow> client \<Rightarrow> client" where
  "do_rcpt req cl =
     (if cl_state cl \<noteq> ST_MAIL \<and> cl_state cl \<noteq> ST_RCPT then send need_mail cl
      else (let req_value = smf_smtpd_get_req_value req 8
            in if req_value = [] then send rcpt_syntax cl
               else goto_state ST_RCPT (send_code 250
                      (on_session (with_envelope (\<lambda>e. snd (smf_envelope_add_rcpt req_value e))) cl))))"

definition do_data :: "smtpd_env \<Rightarrow> client \<Rightarrow> client c_result" where
  "do_data env cl =
     (if cl_state cl \<noteq> ST_RCPT \<and> cl_state cl \<noteq> ST_MAIL then Inr (send need_rcpt cl)
      else if cl_state cl \<noteq> ST_RCPT then Inr (send no_recipients cl)
      else map_sum id (\<lambda>r. cl\<lparr>cl_state := ST_DATA, cl_run := r\<rparr>) (smf_smtpd_process_data env (cl_run cl)))"

definition do_rset :: "smtpd_env \<Rightarrow> client \<Rightarrow> client" where
  "do_rset env cl = goto_state ST_INIT (send_code 250 (fresh_session env cl))"

text \<open>The body of the loop; the flag says that the loop is left (\<open>quit\<close>).\<close>

definition smtpd_dispatch :: "smtpd_env \<Rightarrow> string \<Rightarrow> client \<Rightarrow> (bool \<times> client) c_result" where
  "smtpd_dispatch env req cl =
     (case smtp_classify req of
        CmdQuit \<Rightarrow> Inr (True, goto_state ST_QUIT (send_code 221 cl))
      | CmdHelo ehlo \<Rightarrow> Inr (False, do_helo env ehlo req cl)
      | CmdXforward \<Rightarrow> Inr (False, do_xforward req cl)
      | CmdMail \<Rightarrow> Inr (False, do_mail req cl)
      | CmdRcpt \<Rightarrow> Inr (False, do_rcpt req cl)
      | CmdData \<Rightarrow> map_sum id (Pair False) (do_data env cl)
      | CmdRset \<Rightarrow> Inr (False, do_rset env cl)
      | CmdNoop \<Rightarrow> Inr (False, send_code 250 cl)
      | CmdUnknown \<Rightarrow> Inr (False, send unknown_command cl))"

section \<open>The dialogue\<close>

text \<open>
  The greeting and the loop.  A line, an error or the end of the input is read through the
  buffer of the dialogue.  Fuel counts commands; \<open>None\<close> is used up.
\<close>

fun client_loop :: "nat \<Rightarrow> smtpd_env \<Rightarrow> client \<Rightarrow> client c_result option" where
  "client_loop 0 env cl = None"
| "client_loop (Suc fuel) env cl =
     (let w = rs_world (cl_run cl)
      in case smf_internal_readline 1024 (cl_rl cl) (w_sock w) of
           Inl e \<Rightarrow> Some (Inl e)
         | Inr (r, rl', sock') \<Rightarrow>
             let cl1 = cl\<lparr>cl_rl := rl', cl_run := with_world (\<lambda>w. w\<lparr>w_sock := sock'\<rparr>) (cl_run cl)\<rparr>
             in case r of
                  LineGot br line \<Rightarrow>
                    (case smtpd_dispatch env (c_str line) cl1 of
                       Inl e \<Rightarrow> Some (Inl e)
                     | Inr (True, cl2) \<Rightarrow> Some (Inr cl2)
                     | Inr (False, cl2) \<Rightarrow> client_loop fuel env cl2)
                | _ \<Rightarrow> Some (Inr cl1))"

definition client_new :: "smtpd_env \<Rightarrow> smf_settings \<Rightarrow> world \<Rightarrow> client" where
  "client_new env settings w =
     \<lparr>cl_state = ST_INIT,
      cl_run = \<lparr>rs_settings = settings, rs_session = smf_session_new (sv_random env 0), rs_world = w, rs_sent = []\<rparr>,
      cl_rl = None, cl_sessions = 1\<rparr>"

definition smf_smtpd_handle_client :: "nat \<Rightarrow> smtpd_env \<Rightarrow> smf_settings \<Rightarrow> world \<Rightarrow> client c_result option" where
  "smf_smtpd_handle_client fuel env settings w =
     client_loop fuel env (send (''220 '' @ sv_hostname env @ '' spmfilter'' @ crlf) (client_new env settings w))"

text \<open>\<open>SIGALRM\<close> answers before the process ends, \<open>SIGTERM\<close> does not.\<close>

datatype client_signal = SIGALRM | SIGTERM

definition smf_smtpd_sig_handler :: "smtpd_env \<Rightarrow> client_signal \<Rightarrow> client \<Rightarrow> client" where
  "smf_smtpd_sig_handler env sig cl =
     (if sig = SIGALRM then send (''421 '' @ sv_hostname env @ '' Error: timeout exceeded'' @ crlf) cl else cl)"

section \<open>The protocol\<close>

text \<open>
  The mail transaction as RFC 5321 has it: \<open>MAIL\<close> opens one when none is open, \<open>RCPT\<close> adds to it,
  \<open>DATA\<close> with recipients, \<open>RSET\<close> and a greeting close it.
\<close>

record transaction =
  tx_from :: "string option"
  tx_to :: "string list"

definition no_transaction :: transaction where
  "no_transaction = \<lparr>tx_from = None, tx_to = []\<rparr>"

fun rfc_step :: "smtp_command \<Rightarrow> string \<Rightarrow> transaction \<Rightarrow> transaction" where
  "rfc_step CmdMail arg tx =
     (if tx_from tx = None \<and> arg \<noteq> []
      then \<lparr>tx_from = Some (smf_internal_strip_email_addr arg), tx_to = []\<rparr> else tx)"
| "rfc_step CmdRcpt arg tx =
     (if tx_from tx \<noteq> None \<and> arg \<noteq> [] then tx\<lparr>tx_to := tx_to tx @ [smf_internal_strip_email_addr arg]\<rparr> else tx)"
| "rfc_step CmdData arg tx = (if tx_to tx \<noteq> [] then no_transaction else tx)"
| "rfc_step CmdRset arg tx = no_transaction"
| "rfc_step (CmdHelo _) arg tx = no_transaction"
| "rfc_step _ arg tx = tx"

definition command_arg :: "string \<Rightarrow> string" where
  "command_arg req =
     (case smtp_classify req of
        CmdMail \<Rightarrow> smf_smtpd_get_req_value req 10
      | CmdRcpt \<Rightarrow> smf_smtpd_get_req_value req 8
      | CmdHelo _ \<Rightarrow> smf_smtpd_get_req_value req 4
      | _ \<Rightarrow> [])"

definition cl_envelope :: "client \<Rightarrow> envelope" where
  "cl_envelope cl = ses_envelope (cl_session cl)"

definition the_transaction :: "client \<Rightarrow> transaction" where
  "the_transaction cl =
     (if cl_state cl = ST_MAIL \<or> cl_state cl = ST_RCPT
      then \<lparr>tx_from = env_sender (cl_envelope cl), tx_to = env_recipients (cl_envelope cl)\<rparr>
      else no_transaction)"

text \<open>What state and envelope have in common as long as the client keeps to the order.\<close>

definition smtp_inv :: "client \<Rightarrow> bool" where
  "smtp_inv cl \<longleftrightarrow>
     (case cl_state cl of
        ST_MAIL \<Rightarrow> env_sender (cl_envelope cl) \<noteq> None \<and> env_recipients (cl_envelope cl) = []
      | ST_RCPT \<Rightarrow> env_sender (cl_envelope cl) \<noteq> None \<and> env_recipients (cl_envelope cl) \<noteq> []
      | ST_DATA \<Rightarrow> True
      | ST_QUIT \<Rightarrow> True
      | _ \<Rightarrow> env_recipients (cl_envelope cl) = [])"

text \<open>
  The order: a greeting has a host name, \<open>MAIL\<close> comes before recipients and not right after a
  message, \<open>XFORWARD\<close> not inside a transaction.
\<close>

definition in_order :: "client \<Rightarrow> string \<Rightarrow> bool" where
  "in_order cl req \<longleftrightarrow>
     (case smtp_classify req of
        CmdHelo _ \<Rightarrow> command_arg req \<noteq> []
      | CmdMail \<Rightarrow> cl_state cl \<noteq> ST_RCPT \<and> cl_state cl \<noteq> ST_DATA \<and> cl_state cl \<noteq> ST_QUIT
      | CmdXforward \<Rightarrow> cl_state cl = ST_INIT \<or> cl_state cl = ST_HELO \<or> cl_state cl = ST_XFWD
      | _ \<Rightarrow> True)"

text \<open>Fields.\<close>

lemma cl_fields [simp, smf_frame]:
  "cl_state (send t cl) = cl_state cl" "cl_envelope (send t cl) = cl_envelope cl"
  "cl_state (send_code c cl) = cl_state cl" "cl_envelope (send_code c cl) = cl_envelope cl"
  "cl_state (goto_state s cl) = s" "cl_envelope (goto_state s cl) = cl_envelope cl"
  "cl_state (on_session f cl) = cl_state cl" "cl_session (on_session f cl) = f (cl_session cl)"
  "cl_session (send t cl) = cl_session cl" "cl_session (send_code c cl) = cl_session cl"
  "cl_session (goto_state s cl) = cl_session cl"
  by (simp_all add: send_def send_code_def goto_state_def on_session_def cl_envelope_def cl_session_def
      with_world_def reply_code_def)

lemma cl_envelope_on [simp, smf_frame]:
  "cl_envelope (on_session f cl) = ses_envelope (f (cl_session cl))"
  "ses_envelope (cl_session cl) = cl_envelope cl"
  "ses_envelope (smf_session_set_helo h s) = ses_envelope s"
  "ses_envelope (smf_session_set_xforward_addr x s) = ses_envelope s"
  by (simp_all add: cl_envelope_def smf_session_set_helo_def smf_session_set_xforward_addr_def
      on_session_def cl_session_def)

lemma envelope_fields [simp, smf_frame]:
  "env_recipients (snd (smf_envelope_add_rcpt r e)) = env_recipients e @ [smf_internal_strip_email_addr r]"
  "env_sender (snd (smf_envelope_add_rcpt r e)) = env_sender e"
  "env_recipients (smf_envelope_set_sender a e) = env_recipients e"
  "env_sender (smf_envelope_set_sender a e) = Some (smf_internal_strip_email_addr a)"
  by (simp_all add: smf_envelope_add_rcpt_def smf_envelope_set_sender_def)

lemma new_session_envelope [simp]: "ses_envelope (smf_session_new r) = smf_envelope_new"
  by (simp add: smf_session_new_def)

lemma fresh_session_fields [simp, smf_frame]:
  "cl_state (fresh_session env cl) = cl_state cl"
  "cl_session (fresh_session env cl) = smf_session_new (sv_random env (cl_sessions cl))"
  "cl_envelope (fresh_session env cl) = smf_envelope_new"
  by (simp_all add: fresh_session_def on_session_def cl_envelope_def cl_session_def smf_session_new_def
      del: cl_envelope_on)

lemma new_envelope [simp]: "env_recipients smf_envelope_new = []" "env_sender smf_envelope_new = None"
  by (simp_all add: smf_envelope_new_def)

section \<open>Every command keeps to the protocol\<close>

lemma helo_refines:
  assumes "smf_smtpd_get_req_value req 4 \<noteq> []" and "smtp_inv cl"
  shows "smtp_inv (do_helo env ehlo req cl)" and "the_transaction (do_helo env ehlo req cl) = no_transaction"
  using assms by (auto simp: do_helo_def Let_def smtp_inv_def the_transaction_def)

lemma xforward_refines:
  assumes "cl_state cl = ST_INIT \<or> cl_state cl = ST_HELO \<or> cl_state cl = ST_XFWD" and "smtp_inv cl"
  shows "smtp_inv (do_xforward req cl)" and "the_transaction (do_xforward req cl) = the_transaction cl"
  using assms by (auto simp: do_xforward_def smtp_inv_def the_transaction_def split: option.split)

lemma inv_cong:
  "cl_state a = cl_state b \<Longrightarrow> cl_envelope a = cl_envelope b \<Longrightarrow> smtp_inv a = smtp_inv b"
  by (simp add: smtp_inv_def split: smtp_state.split)

lemma send_inv [simp]: "smtp_inv (send t cl) = smtp_inv cl" "smtp_inv (send_code c cl) = smtp_inv cl"
  by (rule inv_cong; simp)+

lemmas state_simps = smtp_inv_def the_transaction_def no_transaction_def

lemma mail_refines:
  assumes "cl_state cl \<noteq> ST_RCPT" and "cl_state cl \<noteq> ST_DATA" and "cl_state cl \<noteq> ST_QUIT" and "smtp_inv cl"
  shows "smtp_inv (do_mail req cl) \<and>
    the_transaction (do_mail req cl) = rfc_step CmdMail (smf_smtpd_get_req_value req 10) (the_transaction cl)"
  using assms
  by (cases "cl_state cl") (simp_all add: do_mail_def Let_def state_simps)

lemma rcpt_refines:
  assumes "smtp_inv cl"
  shows "smtp_inv (do_rcpt req cl) \<and>
    the_transaction (do_rcpt req cl) = rfc_step CmdRcpt (smf_smtpd_get_req_value req 8) (the_transaction cl)"
  using assms
  by (cases "cl_state cl") (simp_all add: do_rcpt_def Let_def state_simps)

lemma data_refines:
  assumes "smtp_inv cl" and "do_data env cl = Inr cl'"
  shows "smtp_inv cl'" and "the_transaction cl' = rfc_step CmdData [] (the_transaction cl)"
proof -
  consider "cl_state cl = ST_RCPT" "cl_state cl' = ST_DATA"
    | "cl_state cl \<noteq> ST_RCPT" "cl' = send need_rcpt cl \<or> cl' = send no_recipients cl"
    using assms(2) by (auto simp: do_data_def map_sum_def split: sum.splits if_splits)
  then have "smtp_inv cl' \<and> the_transaction cl' = rfc_step CmdData [] (the_transaction cl)"
  proof cases
    case 1
    with assms(1) show ?thesis by (simp add: state_simps)
  next
    case 2
    then have "smtp_inv cl' = smtp_inv cl" "the_transaction cl' = the_transaction cl"
      by (auto intro!: inv_cong simp: the_transaction_def)
    moreover have "tx_to (the_transaction cl) = []"
      using assms(1) 2(1) by (cases "cl_state cl") (simp_all add: state_simps)
    ultimately show ?thesis using assms(1) by simp
  qed
  then show "smtp_inv cl'" and "the_transaction cl' = rfc_step CmdData [] (the_transaction cl)" by simp_all
qed

lemma dispatch_refines:
  assumes "smtp_inv cl" and "in_order cl req" and "smtpd_dispatch env req cl = Inr (False, cl')"
  shows "smtp_inv cl' \<and> the_transaction cl' = rfc_step (smtp_classify req) (command_arg req) (the_transaction cl)"
proof (cases "smtp_classify req")
  case CmdData
  with assms have "do_data env cl = Inr cl'"
    by (auto simp: smtpd_dispatch_def map_sum_def split: sum.splits)
  with data_refines [OF assms(1) this] CmdData show ?thesis by (simp add: command_arg_def)
next
  case (CmdHelo e)
  with assms helo_refines [of req cl env e] show ?thesis
    by (auto simp: smtpd_dispatch_def in_order_def command_arg_def)
next
  case CmdXforward
  with assms xforward_refines [of cl req] show ?thesis by (auto simp: smtpd_dispatch_def in_order_def)
next
  case CmdMail
  with assms mail_refines [of cl req] show ?thesis
    by (auto simp: smtpd_dispatch_def in_order_def command_arg_def)
next
  case CmdRcpt
  with assms rcpt_refines [of cl req] show ?thesis by (auto simp: smtpd_dispatch_def command_arg_def)
next
  case CmdRset
  with assms show ?thesis
    by (auto simp: smtpd_dispatch_def do_rset_def smtp_inv_def the_transaction_def)
qed (use assms in \<open>auto simp: smtpd_dispatch_def the_transaction_def\<close>)

section \<open>Reachable states\<close>

text \<open>
  A step of a session is a command that does not end it, or the arrival of input, which changes
  nothing but the socket and the line buffer.
\<close>

definition with_input :: "readline_t option \<Rightarrow> fd \<Rightarrow> client \<Rightarrow> client" where
  "with_input rl sock cl = cl\<lparr>cl_rl := rl, cl_run := with_world (\<lambda>w. w\<lparr>w_sock := sock\<rparr>) (cl_run cl)\<rparr>"

inductive session_step :: "smtpd_env \<Rightarrow> client \<Rightarrow> client \<Rightarrow> bool" for env where
  command: "in_order cl req \<Longrightarrow> smtpd_dispatch env req cl = Inr (False, cl') \<Longrightarrow> session_step env cl cl'"
| input: "session_step env cl (with_input rl sock cl)"

inductive session_reachable :: "smtpd_env \<Rightarrow> client \<Rightarrow> bool" for env where
  start: "session_reachable env (client_new env settings w)"
| step: "session_reachable env cl \<Longrightarrow> session_step env cl cl' \<Longrightarrow> session_reachable env cl'"

inductive_cases session_stepE: "session_step env cl cl'"

lemma input_fields [simp]:
  "cl_state (with_input rl sock cl) = cl_state cl" "cl_envelope (with_input rl sock cl) = cl_envelope cl"
  by (simp_all add: with_input_def cl_envelope_def cl_session_def with_world_def)

lemma input_inv [simp]: "smtp_inv (with_input rl sock cl) = smtp_inv cl"
  by (rule inv_cong) simp_all

lemma session_step_inv [smf_inv]: "session_step env cl cl' \<Longrightarrow> smtp_inv cl \<Longrightarrow> smtp_inv cl'"
  by (erule session_stepE) (auto dest: dispatch_refines)

lemma client_new_inv: "smtp_inv (client_new env settings w)"
  by (simp add: client_new_def smtp_inv_def cl_envelope_def cl_session_def smf_session_new_def)

lemma session_reachable_inv: "session_reachable env cl \<Longrightarrow> smtp_inv cl"
  by (induction rule: session_reachable.induct) (auto intro: client_new_inv session_step_inv)

section \<open>Properties\<close>

text \<open>The daemon the witnesses run, and a client that has greeted.\<close>

definition ex_env :: smtpd_env where
  "ex_env = \<lparr>sv_pf = ex_pf, sv_hostname = ''mx'', sv_date = ''Date: today'', sv_random = (\<lambda>i j. 0)\<rparr>"

definition ex_client :: "smtp_state \<Rightarrow> client" where
  "ex_client s = goto_state s (client_new ex_env (ex_settings []) ex_world)"

lemma ex_classify:
  "smtp_classify (''MAIL FROM:<a@b>'' @ crlf) = CmdMail"
  "smtp_classify (''RCPT TO:<c@d>'' @ crlf) = CmdRcpt"
  "smtp_classify (''EHLO'' @ crlf) = CmdHelo True"
  "smtp_classify (''DATA'' @ crlf) = CmdData"
  "smf_smtpd_get_req_value (''MAIL FROM:<a@b>'' @ crlf) 10 = ''<a@b>''"
  "smf_smtpd_get_req_value (''RCPT TO:<c@d>'' @ crlf) 8 = ''<c@d>''"
  "smf_smtpd_get_req_value (''EHLO'' @ crlf) 4 = []"
  "smf_internal_strip_email_addr ''<a@b>'' = ''a@b''"
  "smf_internal_strip_email_addr ''<c@d>'' = ''c@d''"
  by code_simp+

lemma ex_reachable: "session_reachable ex_env (ex_client ST_INIT)"
proof -
  have "ex_client ST_INIT = client_new ex_env (ex_settings []) ex_world"
    by (simp add: ex_client_def goto_state_def client_new_def)
  then show ?thesis by (simp add: session_reachable.start)
qed







text \<open>
  An empty greeting leaves the protocol state behind: in a state with recipients,
  \<open>EHLO\<close> without a host name clears the session but not the state, so the next \<open>DATA\<close> receives a
  message for an envelope with neither sender nor recipients.
\<close>

theorem smf_smtpd_empty_greeting:
  assumes "cl_state cl = ST_RCPT" and "smtp_classify req = CmdHelo e" and "smf_smtpd_get_req_value req 4 = []"
    and "smtp_classify d = CmdData"
  shows "\<exists>cl1. smtpd_dispatch env req cl = Inr (False, cl1) \<and> cl_envelope cl1 = smf_envelope_new \<and>
    smtpd_dispatch env d cl1 =
      map_sum id (\<lambda>r. (False, cl1\<lparr>cl_state := ST_DATA, cl_run := r\<rparr>)) (smf_smtpd_process_data env (cl_run cl1))"
proof -
  let ?cl = "send helo_syntax (on_session (smf_session_set_helo []) (fresh_session env cl))"
  have "smtpd_dispatch env req cl = Inr (False, ?cl)"
    using assms(1-3) by (simp add: smtpd_dispatch_def do_helo_def Let_def)
  moreover have "cl_envelope ?cl = smf_envelope_new" by simp
  moreover have "smtpd_dispatch env d ?cl =
      map_sum id (\<lambda>r. (False, ?cl\<lparr>cl_state := ST_DATA, cl_run := r\<rparr>)) (smf_smtpd_process_data env (cl_run ?cl))"
    using assms(1,4) by (simp add: smtpd_dispatch_def do_data_def map_sum.compositionality comp_def id_def)
  ultimately show ?thesis by blast
qed

lemma smf_smtpd_empty_greeting_witness:
  "\<exists>cl1. smtpd_dispatch ex_env (''EHLO'' @ crlf) (ex_client ST_RCPT) = Inr (False, cl1) \<and>
     cl_envelope cl1 = smf_envelope_new"
proof -
  have "cl_state (ex_client ST_RCPT) = ST_RCPT" by (simp add: ex_client_def)
  from smf_smtpd_empty_greeting [OF this ex_classify(3,7,4), of ex_env] show ?thesis by blast
qed

end
