(* ===== verification/Smf_Pipe.thy ===== *)
theory Smf_Pipe
  imports Smf_Modules
begin

text \<open>
  The pipe engine, \<open>smf_pipe.c\<close>: the message comes from the standard input, is spooled, run through
  the modules and handed on; the result is the exit code.
\<close>

section \<open>Callbacks of the queue\<close>

definition smf_pipe_handle_q_error :: "smf_settings \<Rightarrow> session \<Rightarrow> world \<Rightarrow> (int \<times> world) c_result" where
  "smf_pipe_handle_q_error settings session w = Inr (if s_module_fail settings = 1 then 1 else 0, w)"

definition smf_pipe_handle_q_processing_error ::
  "smf_settings \<Rightarrow> session \<Rightarrow> int \<Rightarrow> world \<Rightarrow> (int \<times> world) c_result" where
  "smf_pipe_handle_q_processing_error settings session retval w =
     Inr (if retval = - 1 then (if s_module_fail settings = 1 then (1, w) else (0, w))
          else if retval = 1 then (1, w)
          else if retval = 2 then (2, w)
          else (1, case ses_response_msg session of
                     None \<Rightarrow> w | Some msg \<Rightarrow> w\<lparr>w_stdout := w_stdout w @ msg @ lf\<rparr>))"

definition smf_pipe_handle_nexthop_error :: "smf_settings \<Rightarrow> session \<Rightarrow> world \<Rightarrow> (int \<times> world) c_result" where
  "smf_pipe_handle_nexthop_error settings session w = Inr (0, w)"

definition pipe_queue :: pqueue where
  "pipe_queue =
     smf_modules_pqueue_init smf_pipe_handle_q_error smf_pipe_handle_q_processing_error
       smf_pipe_handle_nexthop_error"

section \<open>Spooling\<close>

text \<open>The standard input: its bytes, and whether reading fails behind them.\<close>

record stdin =
  in_data :: string
  in_error :: bool

text \<open>The copying loop with its buffer of 1024 bytes, one less used; here short writes are noticed.\<close>

function pipe_copy :: "string \<Rightarrow> bool \<Rightarrow> fd \<Rightarrow> bool \<times> fd" where
  "pipe_copy src err spool =
     (if src = [] then (\<not> err, spool)
      else case sys_write (take 1023 src) spool of
        (Wrote n, spool') \<Rightarrow>
          if n \<noteq> length (take 1023 src) then (False, spool') else pipe_copy (drop 1023 src) err spool'
      | (_, spool') \<Rightarrow> (False, spool'))"
  by pat_completeness auto
termination
  by (relation "measure (\<lambda>(src, err, spool). length src)") auto

declare pipe_copy.simps [simp del]

text \<open>
  \<open>load\<close> of the pipe engine.  A failure before the modules leaves the spool file where it is.
\<close>

definition smf_pipe_load ::
  "platform \<Rightarrow> (nat \<Rightarrow> nat) \<Rightarrow> stdin \<Rightarrow> smf_settings \<Rightarrow> world \<Rightarrow> (int \<times> run_state) c_result" where
  "smf_pipe_load pf random inp settings w =
     (let os = pf_os pf; session = smf_session_new random;
          gen = smf_core_gen_queue_file (\<lambda>t. os_mkstemp os t (w_files w))
                  (case s_queue_dir settings of None \<Rightarrow> ''(null)'' | Some d \<Rightarrow> d) (ses_id session);
          name = snd gen;
          w1 = (if fst gen = 0 then put_file name [] w else w);
          st = \<lparr>rs_settings = settings, rs_session = session\<lparr>ses_message_file := Some name\<rparr>,
                rs_world = w1, rs_sent = []\<rparr>
      in case fopen_write os name w1 of
           None \<Rightarrow> Inr (- 1, st)
         | Some w2 \<Rightarrow>
             (case pipe_copy (in_data inp) (in_error inp) (file_fd os name []) of
                (ok, spool) \<Rightarrow>
                  let w3 = put_file name (fd_out spool) w2; st1 = st\<lparr>rs_world := w3\<rparr>
                  in if \<not> ok then Inr (- 1, st1)
                     else (case cm_from_file (pf_cm pf) (fd_out spool) True of
                        (r, message) \<Rightarrow>
                          if r \<noteq> 0 then Inr (- 1, st1)
                          else (case smf_modules_process pf pipe_queue
                                  (st1\<lparr>rs_session := with_envelope (\<lambda>e. e\<lparr>env_message := Some message\<rparr>) (rs_session st1)\<rparr>) of
                             Inl e \<Rightarrow> Inl e
                           | Inr (ret, st2) \<Rightarrow>
                               (case ses_message_file (rs_session st2) of
                                  None \<Rightarrow> Inl NullDeref
                                | Some n \<Rightarrow>
                                    Inr (ret, st2\<lparr>rs_world := snd (sys_unlink os n (rs_world st2))\<rparr>))))))"

section \<open>Lemmas\<close>

lemma pipe_copy_plain:
  "fd_wr spool = [] \<Longrightarrow> pipe_copy src err spool = (\<not> err, spool\<lparr>fd_out := fd_out spool @ src\<rparr>)"
proof (induction src err spool rule: pipe_copy.induct)
  case (1 src err spool)
  show ?case
  proof (cases "src = []")
    case True
    then show ?thesis by (simp add: pipe_copy.simps)
  next
    case False
    have w: "sys_write (take 1023 src) spool =
        (Wrote (length (take 1023 src)), spool\<lparr>fd_out := fd_out spool @ take 1023 src\<rparr>)"
      using "1.prems" by (simp add: sys_write.simps)
    from "1.IH" [OF False w [symmetric] refl] "1.prems" False w show ?thesis
      by (subst pipe_copy.simps) simp
  qed
qed

text \<open>Whatever the writes answer, success means that every byte is in the spool file.\<close>

lemma pipe_copy_honest:
  "pipe_copy src err spool = (True, spool') \<Longrightarrow> fd_out spool' = fd_out spool @ src \<and> \<not> err"
proof (induction src err spool rule: pipe_copy.induct)
  case (1 src err spool)
  show ?case
  proof (cases "src = []")
    case True
    with "1.prems" show ?thesis by (auto simp: pipe_copy.simps)
  next
    case False
    obtain q s1 where wr: "sys_write (take 1023 src) spool = (q, s1)" by fastforce
    then obtain n where q: "q = Wrote n" "n = length (take 1023 src)" "pipe_copy (drop 1023 src) err s1 = (True, spool')"
      using "1.prems" False by (subst (asm) pipe_copy.simps) (cases q; auto split: if_splits)
    have "take n (take 1023 src) = take 1023 src" unfolding q(2) by (rule take_all) simp
    then have "fd_out s1 = fd_out spool @ take 1023 src"
      using sys_write_some [of "take 1023 src" spool n s1] wr q(1) by simp
    with "1.IH" [OF False wr [symmetric] q(1) _ q(3)] q(2) show ?thesis by simp
  qed
qed

section \<open>Properties\<close>

text \<open>
  The pipe engine never processes half a message: however the writes to the spool file
  go, when its copying loop reports success, the file holds the standard input byte for byte
  and reading it did not fail.
\<close>

theorem smf_pipe_spool_complete:
  assumes "pipe_copy (in_data inp) (in_error inp) spool = (True, spool')"
  shows "fd_out spool' = fd_out spool @ in_data inp \<and> \<not> in_error inp"
  by (rule pipe_copy_honest [OF assms])

lemma smf_pipe_spool_complete_witness:
  "\<exists>f. pipe_copy ''hi'' False \<lparr>fd_in = [], fd_wr = [WrSome 2], fd_out = []\<rparr> = (True, f) \<and> fd_out f = ''hi''"
proof -
  let ?f = "\<lparr>fd_in = [], fd_wr = [], fd_out = ''hi''\<rparr>"
  have "pipe_copy (in_data \<lparr>in_data = ''hi'', in_error = False\<rparr>) (in_error \<lparr>in_data = ''hi'', in_error = False\<rparr>)
      \<lparr>fd_in = [], fd_wr = [WrSome 2], fd_out = []\<rparr> = (True, ?f)"
    by (simp add: pipe_copy.simps sys_write.simps)
  from smf_pipe_spool_complete [OF this] this show ?thesis by auto
qed

end
