(* ===== verification/Smf_Relay.thy ===== *)
theory Smf_Relay
  imports Smf_Smtpd Smf_Pipe
begin

text \<open>
  Properties that span components: a message on its way from the socket of a client through the
  spool file and the queue to the next hop, and from the standard input to a file.
\<close>

section \<open>From the client to the next hop\<close>

lemma fetch_users_none:
  assumes "s_backend (rs_settings st) = NullP"
  shows "fetch_users pf st = Inr st"
proof -
  have "st\<lparr>rs_settings := rs_settings st, rs_session := rs_session st\<rparr> = st" by (cases st) simp
  with assms show ?thesis by (simp add: fetch_users_def smf_internal_fetch_user_data_def)
qed

text \<open>Without modules and without a header of its own, processing is the call of the next hop.\<close>

lemma process_plain:
  assumes "env_message (ses_envelope (rs_session st)) = Some m" and "distinct (map h_name (msg_headers m))"
    and "s_backend (rs_settings st) = NullP" and "s_modules (rs_settings st) = []"
    and "s_add_header (rs_settings st) \<noteq> 1"
  shows "smf_modules_process pf q st = call_nexthop pf q st"
proof -
  have "\<not> headers_dirty (msg_headers m) (msg_headers m)"
    using headers_dirty_iff [OF assms(2,2)] by simp
  moreover have "map copy_header (msg_headers m) = msg_headers m" by (simp add: map_idI)
  ultimately show ?thesis
    using assms by (simp add: smf_modules_process_def Let_def fetch_users_none finish_queue_def set_queue_header_def
        smf_modules_flush_dirty_def)
qed

lemma call_nexthop_smtp:
  assumes "s_nexthop (rs_settings st) = Some host" and "os_lstat (pf_os pf) host = None"
    and env: "ses_envelope (rs_session st) = env" "env_sender env = Some mailfrom" "env_recipients env = rcpts" "rcpts \<noteq> []"
      "env_nexthop env = None"
    and "ses_message_file (rs_session st) = Some name"
    and "fopen_read (pf_os pf) name (rs_world st) = Some content"
    and "es_reverse_path (pf_es pf) mailfrom"
    and rq: "rq = \<lparr>rq_server = smtp_server host, rq_starttls = s_tls (rs_settings st), rq_auth = smtp_auth env,
        rq_reverse_path = mailfrom, rq_body = BodyFile content, rq_recipients = filter (es_recipient (pf_es pf)) rcpts\<rparr>"
    and "es_session (pf_es pf) rq = Transferred 250 answer"
  shows "call_nexthop pf q st = Inr (0, st\<lparr>rs_session := with_envelope (\<lambda>e. e\<lparr>env_nexthop := Some host\<rparr>) (rs_session st),
    rs_sent := rs_sent st @ [rq]\<rparr>)"
proof -
  let ?env = "env\<lparr>env_nexthop := Some host\<rparr>"
  have d: "smf_smtp_deliver (pf_os pf) (pf_cm pf) (pf_es pf) (rs_world st) ?env (s_tls (rs_settings st)) (Some name) =
      (Some rq, \<lparr>st_text = answer, st_code = 250\<rparr>)"
    using assms by (simp add: smf_smtp_deliver_def smtp_body_def smtp_request_def smtp_reverse_path_def smtp_auth_def Let_def
        cong: option.case_cong)
  have w: "st\<lparr>rs_session := se, rs_world := rs_world st, rs_sent := x\<rparr> = st\<lparr>rs_session := se, rs_sent := x\<rparr>" for se x
    by (cases st) simp
  have "smtp_delivery_nexthop (pf_os pf) (pf_cm pf) (pf_es pf) (rs_world st) (rs_settings st) (rs_session st) =
      Inr (0, with_envelope (\<lambda>e. e\<lparr>env_nexthop := Some host\<rparr>) (rs_session st), Some rq)"
    using assms d by (simp add: smtp_delivery_nexthop_def Let_def smf_envelope_set_nexthop_def)
  with assms(1,2) w show ?thesis by (simp add: call_nexthop_def smf_nexthop_find_def run_nexthop_def Let_def)
qed

text \<open>The state in which the modules are called.\<close>

definition received ::
  "run_state \<Rightarrow> string \<Rightarrow> string \<Rightarrow> nat \<Rightarrow> world \<Rightarrow> run_state" where
  "received st name data n w =
     st\<lparr>rs_session := (rs_session st)\<lparr>ses_message_file := Some name, ses_message_size := n\<rparr>,
        rs_world := put_file name data w\<rparr>"

lemma process_data_receives:
  assumes os: "os_willing (pf_os (sv_pf env))"
    and gen: "smf_core_gen_queue_file (\<lambda>t. os_mkstemp (pf_os (sv_pf env)) t (w_files (rs_world st)))
        (c_string (s_queue_dir (rs_settings st))) (ses_id (rs_session st)) = (0, name)"
    and inp: "flows (fd_in (w_sock (rs_world st)))" "list_all message_line ls"
      "pending (fd_in (w_sock (rs_world st))) = concat (map dot_stuff ls) @ (''.'' @ crlf) @ rest"
    and ds: "ds = data_lines ls (data_start (file_fd (pf_os (sv_pf env)) name []) (ses_message_size (rs_session st)))"
      "ds_mid ds" "ds_to ds" "ds_from ds" "ds_date ds"
  shows "\<exists>w. smf_smtpd_process_data env st = data_process env (received st name (concat ls) (ds_size ds) w) \<and>
    flows (fd_in (w_sock w)) \<and> (rest = [] \<longrightarrow> pending (fd_in (w_sock w)) = [])"
proof -
  let ?os = "pf_os (sv_pf env)" and ?w = "rs_world st"
  define w2 where "w2 = put_file name [] (put_file name [] ?w)"
  define w3 where "w3 = say data_prompt w2"
  have sock: "fd_in (w_sock w3) = fd_in (w_sock ?w)"
    by (simp add: w3_def w2_def say_def writen_frame)
  have "rl_live (None, w_sock w3)" "rl_rest (None, w_sock w3) = concat (map dot_stuff ls) @ (''.'' @ crlf) @ rest"
    using inp by (simp_all add: rl_live_def rl_rest_def rl_stream_def sock)
  from data_loop_terminated [OF this(1) inp(2) this(2)] obtain rl' sock' where
    loop: "data_loop None (w_sock w3) (data_start (file_fd ?os name []) (ses_message_size (rs_session st))) =
      (ds, LineGot 3 (''.'' @ crlf), sock')"
    and left: "rl_rest (rl', sock') = rest" "rl_live (rl', sock')" unfolding ds(1) by blast
  have out: "fd_out (ds_spool ds) = concat ls"
    using os by (simp add: ds(1) data_lines_spool data_start_def file_fd_def)
  have fo: "fopen_write ?os name (put_file name [] ?w) = Some w2"
    using os by (simp add: fopen_write_def w2_def)
  have same: "st\<lparr>rs_session := se, rs_world := w\<rparr>\<lparr>rs_world := w\<rparr> = st\<lparr>rs_session := se, rs_world := w\<rparr>" for se w
    by simp
  have "data_complete env ds (received st name (concat ls) (ds_size ds) (w3\<lparr>w_sock := sock'\<rparr>)) =
      Inr (received st name (concat ls) (ds_size ds) (w3\<lparr>w_sock := sock'\<rparr>))"
    using ds(2-5) same by (simp add: data_complete_def Let_def received_def)
  then have "smf_smtpd_process_data env st =
      data_process env (received st name (concat ls) (ds_size ds) (w3\<lparr>w_sock := sock'\<rparr>))"
    using gen fo loop out by (simp add: smf_smtpd_process_data_def Let_def w3_def received_def)
  with left show ?thesis
    by (intro exI [of _ "w3\<lparr>w_sock := sock'\<rparr>"]) (auto simp: rl_rest_def rl_live_def rl_stream_def)
qed

lemma relay:
  assumes os: "os_willing (pf_os (sv_pf env))"
    and gen: "smf_core_gen_queue_file (\<lambda>t. os_mkstemp (pf_os (sv_pf env)) t (w_files (rs_world st)))
        (c_string (s_queue_dir (rs_settings st))) (ses_id (rs_session st)) = (0, name)"
    and inp: "flows (fd_in (w_sock (rs_world st)))" "list_all message_line ls"
      "pending (fd_in (w_sock (rs_world st))) = concat (map dot_stuff ls) @ (''.'' @ crlf) @ rest"
    and ds: "ds = data_lines ls (data_start (file_fd (pf_os (sv_pf env)) name []) (ses_message_size (rs_session st)))"
      "ds_mid ds" "ds_to ds" "ds_from ds" "ds_date ds"
    and settings: "s_backend (rs_settings st) = NullP" "s_modules (rs_settings st) = []"
      "s_add_header (rs_settings st) \<noteq> 1" "s_max_size (rs_settings st) = 0" "s_nexthop (rs_settings st) = Some host"
    and msg: "cm_from_file (pf_cm (sv_pf env)) (concat ls) True = (0, m)"
      "cm_get_message_id (pf_cm (sv_pf env)) m = Some mid" "distinct (map h_name (msg_headers m))"
    and ses: "ses_response_msg (rs_session st) = None" "CHR ''%'' \<notin> set (ses_id (rs_session st))"
      "ses_envelope (rs_session st) = e" "env_sender e = Some mailfrom" "env_recipients e = rcpts" "rcpts \<noteq> []"
      "env_nexthop e = None"
    and nh: "os_lstat (pf_os (sv_pf env)) host = None" "es_reverse_path (pf_es (sv_pf env)) mailfrom"
    and rq: "rq = \<lparr>rq_server = smtp_server host, rq_starttls = s_tls (rs_settings st), rq_auth = smtp_auth e,
        rq_reverse_path = mailfrom, rq_body = BodyFile (concat ls),
        rq_recipients = filter (es_recipient (pf_es (sv_pf env))) rcpts\<rparr>"
    and answer: "es_session (pf_es (sv_pf env)) rq = Transferred 250 answer"
  shows "\<exists>st'. smf_smtpd_process_data env st = Inr st' \<and> rs_sent st' = rs_sent st @ [rq] \<and>
    w_files (rs_world st') name = None \<and>
    flows (fd_in (w_sock (rs_world st'))) \<and> (rest = [] \<longrightarrow> pending (fd_in (w_sock (rs_world st'))) = [])"
proof -
  let ?pf = "sv_pf env"
  obtain w where recv: "smf_smtpd_process_data env st = data_process env (received st name (concat ls) (ds_size ds) w)"
    and left: "flows (fd_in (w_sock w)) \<and> (rest = [] \<longrightarrow> pending (fd_in (w_sock w)) = [])"
    using process_data_receives [OF os gen inp ds] by blast
  define st1 where "st1 = received st name (concat ls) (ds_size ds) w"
  define st2 where "st2 = st1\<lparr>rs_session := with_envelope (\<lambda>e. e\<lparr>env_message := Some m\<rparr>) (rs_session st1)\<rparr>"
  define st3 where "st3 = st2\<lparr>rs_session := with_envelope (\<lambda>e. e\<lparr>env_nexthop := Some host\<rparr>) (rs_session st2),
    rs_sent := rs_sent st2 @ [rq]\<rparr>"
  have f2: "rs_settings st2 = rs_settings st" "ses_message_file (rs_session st2) = Some name"
    "ses_envelope (rs_session st2) = e\<lparr>env_message := Some m\<rparr>" "rs_sent st2 = rs_sent st"
    "w_files (rs_world st2) name = Some \<lparr>sp_data = concat ls, sp_mtime = w_clock w\<rparr>"
    using ses by (simp_all add: st2_def st1_def received_def)
  have "smf_modules_process ?pf smtpd_queue st2 = call_nexthop ?pf smtpd_queue st2"
    by (rule process_plain) (use f2 settings msg in simp_all)
  also have "\<dots> = Inr (0, st3)"
    unfolding st3_def
    by (rule call_nexthop_smtp [where name = name and content = "concat ls" and host = host and mailfrom = mailfrom
          and rcpts = rcpts and env = "e\<lparr>env_message := Some m\<rparr>" and answer = answer])
      (use f2 settings ses nh rq answer os in \<open>simp_all add: fopen_read_def smtp_auth_def\<close>)
  finally have proc: "smf_modules_process ?pf smtpd_queue st2 = Inr (0, st3)" .
  have f3: "ses_response_msg (rs_session st3) = None" "ses_id (rs_session st3) = ses_id (rs_session st)"
    "ses_message_file (rs_session st3) = Some name" "rs_sent st3 = rs_sent st @ [rq]"
    using ses f2 by (simp_all add: st3_def st2_def st1_def received_def)
  have "CHR ''%'' \<notin> set (''250 Ok: processed as '' @ ses_id (rs_session st) @ crlf)"
    using ses(2) by (simp add: crlf_def)
  from string_reply_plain [OF this] obtain w4 where
    "smf_smtpd_process_modules ?pf st2 = Inr (0, st3\<lparr>rs_world := w4\<rparr>)"
    and w4: "fd_in (w_sock w4) = fd_in (w_sock (rs_world st3))"
    using proc f3 by (simp add: smf_smtpd_process_modules_def say_def writen_frame)
  moreover have "data_process env st1 = (case smf_smtpd_process_modules ?pf st2 of
      Inl e \<Rightarrow> Inl e | Inr (_, st) \<Rightarrow> remove_spool ?pf st)"
    using settings msg by (simp add: data_process_def message_too_big_def st1_def st2_def received_def)
  ultimately have "smf_smtpd_process_data env st = remove_spool ?pf (st3\<lparr>rs_world := w4\<rparr>)"
    using recv by (simp add: st1_def)
  moreover have "fd_in (w_sock (rs_world st3)) = fd_in (w_sock w)" by (simp add: st3_def st2_def st1_def received_def)
  ultimately show ?thesis
    using f3 os w4 left by (simp add: remove_spool_def sys_unlink_def)
qed

section \<open>Properties\<close>

text \<open>
  Claim C2.  The daemon relays faithfully.  Without modules and added headers, a message that
  brings its own header lines goes from the socket to the SMTP next hop byte for byte: whatever
  way the bytes arrive, exactly one message is handed on, from the sender and to the recipients of
  the envelope, its content is exactly the lines the client meant (leading dots single), and the
  spool file is gone afterwards.
\<close>

theorem smf_smtpd_relays_message:
  assumes os: "os_willing (pf_os (sv_pf env))"
    and gen: "smf_core_gen_queue_file (\<lambda>t. os_mkstemp (pf_os (sv_pf env)) t (w_files (rs_world st)))
        (c_string (s_queue_dir (rs_settings st))) (ses_id (rs_session st)) = (0, name)"
    and inp: "flows (fd_in (w_sock (rs_world st)))" "list_all message_line ls"
      "pending (fd_in (w_sock (rs_world st))) = concat (map dot_stuff ls) @ (''.'' @ crlf) @ rest"
    and ds: "ds = data_lines ls (data_start (file_fd (pf_os (sv_pf env)) name []) (ses_message_size (rs_session st)))"
      "ds_mid ds" "ds_to ds" "ds_from ds" "ds_date ds"
    and settings: "s_backend (rs_settings st) = NullP" "s_modules (rs_settings st) = []"
      "s_add_header (rs_settings st) \<noteq> 1" "s_max_size (rs_settings st) = 0" "s_nexthop (rs_settings st) = Some host"
    and msg: "cm_from_file (pf_cm (sv_pf env)) (concat ls) True = (0, m)"
      "cm_get_message_id (pf_cm (sv_pf env)) m = Some mid" "distinct (map h_name (msg_headers m))"
    and ses: "ses_response_msg (rs_session st) = None" "CHR ''%'' \<notin> set (ses_id (rs_session st))"
      "ses_envelope (rs_session st) = e" "env_sender e = Some mailfrom" "env_recipients e = rcpts" "rcpts \<noteq> []"
      "env_nexthop e = None"
    and nh: "os_lstat (pf_os (sv_pf env)) host = None" "es_reverse_path (pf_es (sv_pf env)) mailfrom"
    and rq: "rq = \<lparr>rq_server = smtp_server host, rq_starttls = s_tls (rs_settings st), rq_auth = smtp_auth e,
        rq_reverse_path = mailfrom, rq_body = BodyFile (concat ls),
        rq_recipients = filter (es_recipient (pf_es (sv_pf env))) rcpts\<rparr>"
    and answer: "es_session (pf_es (sv_pf env)) rq = Transferred 250 answer"
  shows "\<exists>st'. smf_smtpd_process_data env st = Inr st' \<and> rs_sent st' = rs_sent st @ [rq] \<and>
    w_files (rs_world st') name = None"
  using relay [OF assms] by blast

lemma data_store_fields:
  "ds_mid (data_store n l ds) \<longleftrightarrow> ds_mid ds \<or> ds_in_header ds \<and> strncasecmp_eq l ''Message-ID:'' 11"
  "ds_date (data_store n l ds) \<longleftrightarrow> ds_date ds \<or> ds_in_header ds \<and> strncasecmp_eq l ''Date:'' 5"
  "ds_to (data_store n l ds) \<longleftrightarrow> ds_to ds \<or> ds_in_header ds \<and> strncasecmp_eq l ''To:'' 3"
  "ds_from (data_store n l ds) \<longleftrightarrow> ds_from ds \<or> ds_in_header ds \<and> strncasecmp_eq l ''From:'' 5"
  "ds_in_header (data_store n l ds) \<longleftrightarrow> ds_in_header ds \<and>
     \<not> (strncmp_eq l lf 1 \<or> strncmp_eq l crlf 2 \<or> strncmp_eq l cr 1)"
  by (simp_all add: data_store_def data_flags_def Let_def)

text \<open>A message of six lines, and the daemon that has got its envelope.\<close>

definition ex_lines :: "string list" where
  "ex_lines = [''Message-ID: <1>'' @ crlf, ''To: c'' @ crlf, ''From: a'' @ crlf, ''Date: now'' @ crlf, crlf, ''.hi'' @ crlf]"

definition ex_daemon :: smtpd_env where
  "ex_daemon = ex_env\<lparr>sv_pf := ex_pf\<lparr>pf_cm := ex_cm\<lparr>cm_get_message_id := (\<lambda>m. Some ''<1>'')\<rparr>\<rparr>\<rparr>"

definition ex_dialogue :: run_state where
  "ex_dialogue =
     \<lparr>rs_settings = (ex_settings [])\<lparr>s_add_header := 0\<rparr>, rs_session = ex_session,
      rs_world = ex_world\<lparr>w_sock := \<lparr>fd_in = [RdData (concat (map dot_stuff ex_lines)), RdIntr, RdData (''.'' @ crlf)],
        fd_wr = [], fd_out = []\<rparr>\<rparr>, rs_sent = []\<rparr>"

lemma ex_lines_flags:
  "ds_mid (data_lines ex_lines (data_start f n))" "ds_to (data_lines ex_lines (data_start f n))"
  "ds_from (data_lines ex_lines (data_start f n))" "ds_date (data_lines ex_lines (data_start f n))"
  by (simp_all add: ex_lines_def data_lines_def data_store_fields data_start_def strncasecmp_eq_def strncmp_eq_def
      c_tolower_def crlf_def lf_def cr_def numeral_3_eq_3 numeral_2_eq_2)

lemma ex_lines_ok: "list_all message_line ex_lines" "concat (map dot_stuff ex_lines) \<noteq> []"
  by (simp_all add: ex_lines_def message_line_def is_line_def crlf_def dot_stuff_def)

lemma ex_daemon_fields:
  "pf_os (sv_pf ex_daemon) = ex_os" "pf_es (sv_pf ex_daemon) = ex_es"
  "pf_cm (sv_pf ex_daemon) = ex_cm\<lparr>cm_get_message_id := (\<lambda>m. Some ''<1>'')\<rparr>"
  by (simp_all add: ex_daemon_def ex_env_def ex_fields)

lemma smf_smtpd_relays_message_witness:
  "\<exists>st'. smf_smtpd_process_data ex_daemon ex_dialogue = Inr st' \<and>
     map rq_body (rs_sent st') = [BodyFile (concat ex_lines)]"
proof -
  let ?ds = "data_lines ex_lines (data_start (file_fd (pf_os (sv_pf ex_daemon)) ''/q/tmp'' []) (ses_message_size (rs_session ex_dialogue)))"
  let ?rq = "\<lparr>rq_server = smtp_server ''mx'', rq_starttls = s_tls (rs_settings ex_dialogue),
      rq_auth = smtp_auth (ses_envelope ex_session), rq_reverse_path = ''a@b'', rq_body = BodyFile (concat ex_lines),
      rq_recipients = filter (es_recipient (pf_es (sv_pf ex_daemon))) [''c@d'']\<rparr>"
  note pf = ex_daemon_fields
  have os: "os_willing (pf_os (sv_pf ex_daemon))" by (simp add: pf ex_os_willing)
  have id: "ses_id (rs_session ex_dialogue) = ''000000000000''"
    by (simp add: ex_dialogue_def ex_session_def smf_session_new_def smf_internal_generate_sid_def sid_chars_def upt_rec)
  have gen: "smf_core_gen_queue_file (\<lambda>t. os_mkstemp (pf_os (sv_pf ex_daemon)) t (w_files (rs_world ex_dialogue)))
      (c_string (s_queue_dir (rs_settings ex_dialogue))) (ses_id (rs_session ex_dialogue)) = (0, ''/q/tmp'')"
    by (simp add: smf_core_gen_queue_file_def pf ex_fields ex_dialogue_def Let_def)
  note lines = ex_lines_ok(1) and ne = ex_lines_ok(2)
  have inp: "flows (fd_in (w_sock (rs_world ex_dialogue)))"
    "pending (fd_in (w_sock (rs_world ex_dialogue))) = concat (map dot_stuff ex_lines) @ (''.'' @ crlf) @ []"
    using ne by (simp_all add: ex_dialogue_def)
  note ds = ex_lines_flags [of "file_fd (pf_os (sv_pf ex_daemon)) ''/q/tmp'' []" "ses_message_size (rs_session ex_dialogue)"]
  have env: "env_sender (ses_envelope ex_session) = Some ''a@b''" "env_recipients (ses_envelope ex_session) = [''c@d'']"
    "[''c@d''] \<noteq> []" "env_nexthop (ses_envelope ex_session) = None"
    by (simp_all add: ex_fields smf_envelope_new_def)
  have "\<exists>st'. smf_smtpd_process_data ex_daemon ex_dialogue = Inr st' \<and> rs_sent st' = rs_sent ex_dialogue @ [?rq] \<and>
      w_files (rs_world st') ''/q/tmp'' = None"
    by (rule smf_smtpd_relays_message [OF os gen inp(1) lines inp(2) refl ds _ _ _ _ _ _ _ _ _ _ _ env, where host = "''mx''"])
      (simp_all add: pf id ex_fields, simp_all add: ex_dialogue_def ex_fields ex_cm_def ex_session_def
        ex_settings_def smf_settings_new_def smf_session_new_def, simp)
  then obtain st' where "smf_smtpd_process_data ex_daemon ex_dialogue = Inr st'" "rs_sent st' = rs_sent ex_dialogue @ [?rq]"
    by blast
  moreover have "rs_sent ex_dialogue = []" by (simp add: ex_dialogue_def)
  ultimately show ?thesis by (intro exI [of _ st']) simp
qed

section \<open>From the standard input to a file\<close>

lemma call_nexthop_file:
  assumes "s_nexthop (rs_settings st) = Some dest" and "os_lstat (pf_os pf) dest = Some False"
    and "ses_message_file (rs_session st) = Some name" and "w_files (rs_world st) name = Some f" and "name \<noteq> dest"
    and "os_willing (pf_os pf)"
  shows "\<exists>w. call_nexthop pf q st = Inr (0, st\<lparr>rs_world := w\<rparr>) \<and>
    map_option sp_data (w_files w dest) = Some (sp_data f) \<and> (\<forall>n. n \<noteq> dest \<longrightarrow> w_files w n = w_files (rs_world st) n)"
proof -
  have s: "st\<lparr>rs_session := rs_session st, rs_world := w, rs_sent := rs_sent st\<rparr> = st\<lparr>rs_world := w\<rparr>" for w
    by (cases st) simp
  let ?w = "put_file dest (sp_data f) (put_file dest [] (rs_world st))"
  have "call_nexthop pf q st = Inr (0, st\<lparr>rs_world := ?w\<rparr>)"
    using assms s
    by (simp add: call_nexthop_def smf_nexthop_find_def run_nexthop_def file_delivery_nexthop_def fopen_read_def
        fopen_write_def file_fd_def file_copy_loop_plain Let_def)
  then show ?thesis by (intro exI [of _ ?w]) simp
qed

text \<open>
  Claim C28.  The pipe engine delivers what it was given: without modules, added headers and a user
  database, the standard input arrives in the next-hop file byte for byte, the exit code is 0, and
  the spool file is gone.
\<close>

theorem smf_pipe_delivers_to_file:
  assumes os: "os_willing (pf_os pf)"
    and gen: "smf_core_gen_queue_file (\<lambda>t. os_mkstemp (pf_os pf) t (w_files w))
        (case s_queue_dir settings of None \<Rightarrow> ''(null)'' | Some d \<Rightarrow> d) (ses_id (smf_session_new random)) = (0, name)"
    and inp: "\<not> in_error inp"
    and msg: "cm_from_file (pf_cm pf) (in_data inp) True = (0, m)" "distinct (map h_name (msg_headers m))"
    and settings: "s_backend settings = NullP" "s_modules settings = []" "s_add_header settings \<noteq> 1"
      "s_nexthop settings = Some dest"
    and dest: "os_lstat (pf_os pf) dest = Some False" "name \<noteq> dest"
  shows "\<exists>st'. smf_pipe_load pf random inp settings w = Inr (0, st') \<and>
    map_option sp_data (w_files (rs_world st') dest) = Some (in_data inp) \<and> w_files (rs_world st') name = None"
proof -
  define w3 where "w3 = put_file name (in_data inp) (put_file name [] (put_file name [] w))"
  define st2 where "st2 = \<lparr>rs_settings = settings, rs_session = with_envelope (\<lambda>e. e\<lparr>env_message := Some m\<rparr>)
      ((smf_session_new random)\<lparr>ses_message_file := Some name\<rparr>), rs_world = w3, rs_sent = []\<rparr>"
  have f2: "rs_settings st2 = settings" "env_message (ses_envelope (rs_session st2)) = Some m"
    "ses_message_file (rs_session st2) = Some name" "rs_world st2 = w3"
    by (simp_all add: st2_def)
  have plain: "smf_modules_process pf pipe_queue st2 = call_nexthop pf pipe_queue st2"
    by (rule process_plain) (use f2 settings msg in simp_all)
  obtain w4 where hop: "call_nexthop pf pipe_queue st2 = Inr (0, st2\<lparr>rs_world := w4\<rparr>)"
    and data: "map_option sp_data (w_files w4 dest) = Some (in_data inp)"
    and rest: "w_files w4 name = w_files w3 name"
    using call_nexthop_file [of st2 dest pf name "\<lparr>sp_data = in_data inp, sp_mtime = w_clock w\<rparr>" pipe_queue]
      f2 settings dest os by (auto simp: w3_def)
  have copy: "pipe_copy (in_data inp) (in_error inp) (file_fd (pf_os pf) name []) =
      (True, \<lparr>fd_in = [], fd_wr = [], fd_out = in_data inp\<rparr>)"
    using inp os by (simp add: file_fd_def pipe_copy_plain)
  have "smf_pipe_load pf random inp settings w =
      Inr (0, st2\<lparr>rs_world := snd (sys_unlink (pf_os pf) name w4)\<rparr>)"
    using gen copy msg os plain hop
    by (simp add: smf_pipe_load_def Let_def fopen_write_def st2_def w3_def)
  moreover have "w_files (snd (sys_unlink (pf_os pf) name w4)) name = None"
    using os rest by (simp add: sys_unlink_def)
  moreover have "map_option sp_data (w_files (snd (sys_unlink (pf_os pf) name w4)) dest) = Some (in_data inp)"
    using data dest(2) by (simp add: smf_frame)
  ultimately show ?thesis
    by (intro exI [of _ "st2\<lparr>rs_world := snd (sys_unlink (pf_os pf) name w4)\<rparr>"]) simp
qed

lemma smf_pipe_delivers_to_file_witness:
  "\<exists>st'. smf_pipe_load (ex_pf\<lparr>pf_os := ex_os\<lparr>os_lstat := (\<lambda>n. Some False)\<rparr>\<rparr>) (\<lambda>i. 0)
       \<lparr>in_data = ''To: c'' @ crlf @ crlf @ ''hi'', in_error = False\<rparr> ((ex_settings [])\<lparr>s_add_header := 0\<rparr>) ex_world = Inr (0, st') \<and>
     map_option sp_data (w_files (rs_world st') ''mx'') = Some (''To: c'' @ crlf @ crlf @ ''hi'')"
proof -
  let ?pf = "ex_pf\<lparr>pf_os := ex_os\<lparr>os_lstat := (\<lambda>n. Some False)\<rparr>\<rparr>"
  let ?s = "(ex_settings [])\<lparr>s_add_header := 0\<rparr>"
  let ?inp = "\<lparr>in_data = ''To: c'' @ crlf @ crlf @ ''hi'', in_error = False\<rparr>"
  have os: "os_willing (pf_os ?pf)" by (simp add: os_willing_def ex_os_def)
  have gen: "smf_core_gen_queue_file (\<lambda>t. os_mkstemp (pf_os ?pf) t (w_files ex_world))
      (case s_queue_dir ?s of None \<Rightarrow> ''(null)'' | Some d \<Rightarrow> d) (ses_id (smf_session_new (\<lambda>i. 0))) = (0, ''/q/tmp'')"
    by (simp add: smf_core_gen_queue_file_def ex_os_def ex_world_def Let_def)
  have "\<exists>st'. smf_pipe_load ?pf (\<lambda>i. 0) ?inp ?s ex_world = Inr (0, st') \<and>
      map_option sp_data (w_files (rs_world st') ''mx'') = Some (in_data ?inp) \<and> w_files (rs_world st') ''/q/tmp'' = None"
    by (rule smf_pipe_delivers_to_file [OF os gen, where m = "\<lparr>msg_headers = [], msg_rest = []\<rparr>"])
      (simp_all add: ex_fields ex_cm_def ex_settings_def smf_settings_new_def)
  then show ?thesis by auto
qed

end
