(* ===== verification/Smf_Liveness.thy ===== *)
theory Smf_Liveness
  imports Smf_Smtpd
begin

text \<open>
  The dialogue with a client ends.  Every operation of the daemon leaves the input of the socket
  alone or reads from it, so what is left bounds the number of commands; the fuel of \<open>client_loop\<close>
  is enough when it exceeds that bound, and its amount does not matter then.
\<close>

section \<open>What is left to read\<close>

definition input_left :: "world \<Rightarrow> nat" where
  "input_left w = rd_weight (fd_in (w_sock w))"

text \<open>A module may read from the socket, but it cannot make the client send more.\<close>

definition modules_read_only :: "platform \<Rightarrow> bool" where
  "modules_read_only pf \<longleftrightarrow>
     (\<forall>r s se w. input_left (snd (snd (snd (pf_run pf r s se w)))) \<le> input_left w)"

lemma input_sock: "w_sock w' = w_sock w \<Longrightarrow> input_left w' = input_left w"
  by (simp add: input_left_def)

lemma say_input [simp]: "input_left (say s w) = input_left w"
  by (simp add: say_def input_left_def smf_frame)

lemma code_reply_input [simp]: "input_left (smf_smtpd_code_reply c codes w) = input_left w"
  by (simp add: smf_smtpd_code_reply_def)

lemma string_reply_input: "smf_smtpd_string_reply f args w = Inr w' \<Longrightarrow> input_left w' = input_left w"
  by (auto simp: smf_smtpd_string_reply_def split: sum.splits if_splits)

lemma put_file_input [simp]: "input_left (put_file n d w) = input_left w"
  by (simp add: input_left_def)

lemma replace_file_input [simp]: "input_left (snd (replace_file os t n w)) = input_left w"
  by (simp add: input_left_def smf_frame)

lemma replaced_input: "replace_file os t n w = (r, w') \<Longrightarrow> input_left w' = input_left w"
  using replace_file_input [of os t n w] by simp

lemma unlink_input [simp]: "input_left (snd (sys_unlink os n w)) = input_left w"
  by (simp add: input_left_def smf_frame)

section \<open>The queue\<close>

lemma processing_error_input:
  "smf_smtpd_handle_q_processing_error s se r w = Inr (v, w') \<Longrightarrow> input_left w' = input_left w"
  by (auto simp: smf_smtpd_handle_q_processing_error_def map_sum_def dest: string_reply_input
      split: if_splits option.splits sum.splits)

lemma nexthop_error_input:
  "smf_smtpd_handle_nexthop_error s se w = Inr (v, w') \<Longrightarrow> input_left w' = input_left w"
  by (auto simp: smf_smtpd_handle_nexthop_error_def map_sum_def dest: string_reply_input split: sum.splits)

lemma smtpd_queue_fields:
  "q_processing_error smtpd_queue = smf_smtpd_handle_q_processing_error"
  "q_nexthop_error smtpd_queue = smf_smtpd_handle_nexthop_error"
  by (simp_all add: smtpd_queue_def smf_modules_pqueue_init_def)

lemma invoke_input:
  assumes "modules_read_only pf" and "smf_module_invoke pf m st = (r, b, st1)"
  shows "input_left (rs_world st1) \<le> input_left (rs_world st)"
proof (cases "module_runner pf m")
  case None
  with assms(2) show ?thesis by (simp add: smf_module_invoke_def)
next
  case (Some runner)
  obtain res settings session w where run: "pf_run pf runner (rs_settings st) (rs_session st) (rs_world st) =
      (res, settings, session, w)" by (metis prod_cases4)
  then have "input_left w \<le> input_left (rs_world st)" using assms(1) unfolding modules_read_only_def by (metis snd_conv)
  moreover have "rs_world st1 = w"
    using assms(2) Some run
    by (auto simp: smf_module_invoke_def Let_def split: option.splits if_splits prod.splits)
  ultimately show ?thesis by simp
qed

lemma queue_loop_input:
  "modules_read_only pf \<Longrightarrow> queue_loop pf smtpd_queue ms k ret header stale st = Inr (e, st') \<Longrightarrow>
   input_left (rs_world st') \<le> input_left (rs_world st)"
proof (induction ms arbitrary: k ret header stale st)
  case Nil
  then show ?case by simp
next
  case (Cons m ms)
  obtain r b st1 where inv: "smf_module_invoke pf m st = (r, b, st1)" by (metis prod_cases3)
  note le = invoke_input [OF Cons.prems(1) inv]
  obtain v w where v: "(if r \<noteq> 0 then smf_smtpd_handle_q_processing_error (rs_settings st1) (rs_session st1) r (rs_world st1)
      else Inr (0, rs_world st1)) = Inr (v, w)"
    using Cons.prems(2) inv by (cases "r = 0") (auto simp: smtpd_queue_fields Let_def split: sum.splits)
  then have w: "input_left w = input_left (rs_world st1)"
    by (auto split: if_splits dest: processing_error_input)
  have "st' = st1\<lparr>rs_world := w\<rparr> \<or>
      (\<exists>k' ret' header' stale'. queue_loop pf smtpd_queue ms k' ret' header' stale' (st1\<lparr>rs_world := w\<rparr>) = Inr (e, st'))"
    using Cons.prems(2) inv v by (auto simp: smtpd_queue_fields Let_def split: if_splits sum.splits)
  with le w show ?case
    using Cons.IH [OF Cons.prems(1)] by fastforce
qed

lemma flush_input:
  "smf_modules_flush_dirty pf init st = Inr (r, st') \<Longrightarrow> input_left (rs_world st') = input_left (rs_world st)"
  by (auto simp: smf_modules_flush_dirty_def flush_message_def sys_mkstemp_Some Let_def
      split: option.splits if_splits prod.splits dest: replaced_input)

lemma run_nexthop_input:
  "run_nexthop os cm es f settings session w = Inr (r, session', w', rq) \<Longrightarrow> input_left w' = input_left w"
  by (auto simp: run_nexthop_def file_delivery_nexthop_def fopen_write_def Let_def
      split: nexthop_function.splits option.splits sum.splits prod.splits if_splits)

lemma call_nexthop_input:
  "call_nexthop pf smtpd_queue st = Inr (r, st') \<Longrightarrow> input_left (rs_world st') = input_left (rs_world st)"
  by (auto simp: call_nexthop_def smtpd_queue_fields Let_def
      split: option.splits sum.splits prod.splits if_splits dest!: run_nexthop_input nexthop_error_input)

lemma queue_header_input:
  "set_queue_header pf header stale st = Inr st' \<Longrightarrow> rs_world st' = rs_world st"
  by (auto simp: set_queue_header_def split: if_splits option.splits)

lemma finish_queue_input:
  assumes "finish_queue pf smtpd_queue init ret header stale st = Inr (r, st')"
  shows "input_left (rs_world st') = input_left (rs_world st)"
  using assms
  by (auto simp: finish_queue_def split: if_splits sum.splits prod.splits
      dest!: queue_header_input flush_input call_nexthop_input)

lemma process_input:
  assumes "modules_read_only pf" and "smf_modules_process pf smtpd_queue st = Inr (r, st')"
  shows "input_left (rs_world st') \<le> input_left (rs_world st)"
proof -
  obtain init header st1 where f: "fetch_users pf st = Inr st1"
    and q: "(case queue_loop pf smtpd_queue (s_modules (rs_settings st1)) 0 0 header False st1 of
        Inl e \<Rightarrow> Inl e
      | Inr (Returned r, st2) \<Rightarrow> Inr (r, st2)
      | Inr (Finished ret header1 stale, st2) \<Rightarrow> finish_queue pf smtpd_queue init ret header1 stale st2) = Inr (r, st')"
    using assms(2) by (auto simp: smf_modules_process_def Let_def split: option.splits sum.splits)
  have w1: "rs_world st1 = rs_world st"
    using f by (auto simp: fetch_users_def split: sum.splits prod.splits)
  obtain e st2 where e: "queue_loop pf smtpd_queue (s_modules (rs_settings st1)) 0 0 header False st1 = Inr (e, st2)"
    using q by (auto split: sum.splits)
  have "input_left (rs_world st') = input_left (rs_world st2)"
    using q e by (cases e) (auto dest: finish_queue_input)
  with queue_loop_input [OF assms(1) e] w1 show ?thesis by simp
qed

lemma process_modules_input:
  assumes "modules_read_only pf" and "smf_smtpd_process_modules pf st = Inr (r, st')"
  shows "input_left (rs_world st') \<le> input_left (rs_world st)"
proof -
  obtain ret st1 where p: "smf_modules_process pf smtpd_queue st = Inr (ret, st1)"
    using assms(2) by (auto simp: smf_smtpd_process_modules_def split: sum.splits)
  have "input_left (rs_world st') = input_left (rs_world st1)"
    using assms(2) p
    by (auto simp: smf_smtpd_process_modules_def map_sum_def split: if_splits option.splits sum.splits
        dest: string_reply_input)
  with process_input [OF assms(1) p] show ?thesis by simp
qed

section \<open>Receiving a message\<close>

lemma remove_spool_input:
  "remove_spool pf st = Inr st' \<Longrightarrow> input_left (rs_world st') = input_left (rs_world st)"
  by (auto simp: remove_spool_def split: option.splits)

lemma reply_code_input [simp]: "input_left (rs_world (reply_code c st)) = input_left (rs_world st)"
  by (simp add: reply_code_def with_world_def)

lemma data_process_input:
  assumes "modules_read_only (sv_pf env)" and "data_process env st = Inr st'"
  shows "input_left (rs_world st') \<le> input_left (rs_world st)"
  using assms
  by (auto simp: data_process_def split: if_splits option.splits sum.splits prod.splits
      dest!: string_reply_input remove_spool_input process_modules_input)

lemma missing_headers_input:
  "smf_smtpd_append_missing_headers env session dir ls w = Inr (r, w') \<Longrightarrow> input_left w' = input_left w"
  by (auto simp: smf_smtpd_append_missing_headers_def sys_mkstemp_Some fopen_write_def Let_def
      split: option.splits if_splits prod.splits bool.splits dest: replaced_input)

lemma data_complete_input:
  "data_complete env ds st = Inr st' \<Longrightarrow> input_left (rs_world st') = input_left (rs_world st)"
  by (auto simp: data_complete_def Let_def split: if_splits sum.splits prod.splits dest: missing_headers_input)

lemma data_loop_input:
  "data_loop rl sock ds = (ds', r, sock') \<Longrightarrow> rd_weight (fd_in sock') \<le> rl_weight rl sock"
proof (induction rl sock ds rule: data_loop.induct)
  case (1 rl sock ds)
  show ?case
  proof (cases "smf_internal_readline 1024 rl sock")
    case (Inl e)
    with "1.prems" show ?thesis by (subst (asm) data_loop.simps) (auto simp: rl_weight_def)
  next
    case (Inr t)
    obtain q rl1 sock1 where t: "t = (q, rl1, sock1)" by (metis prod_cases3)
    note le = readline_weight(1) [OF Inr [unfolded t]]
    have left: "rd_weight (fd_in sock1) \<le> rl_weight rl1 sock1" by (simp add: rl_weight_def)
    show ?thesis
    proof (cases q)
      case (LineGot br line)
      obtain ds1 stop where step: "data_step ds br line = (ds1, stop)" by fastforce
      show ?thesis
      proof (cases stop)
        case True
        with "1.prems" Inr t LineGot step le left show ?thesis by (subst (asm) data_loop.simps) auto
      next
        case False
        with "1.prems" Inr t LineGot step have "data_loop rl1 sock1 ds1 = (ds', r, sock')"
          by (subst (asm) data_loop.simps) auto
        from "1.IH" [OF Inr t [symmetric] LineGot refl step [symmetric] False this] le show ?thesis by simp
      qed
    qed (use "1.prems" Inr t le left in \<open>(subst (asm) data_loop.simps, auto)+\<close>)
  qed
qed

lemma process_data_input:
  assumes "modules_read_only (sv_pf env)" and "smf_smtpd_process_data env st = Inr st'"
  shows "input_left (rs_world st') \<le> input_left (rs_world st)"
proof -
  define os where "os = pf_os (sv_pf env)"
  define gen where "gen = smf_core_gen_queue_file (\<lambda>t. os_mkstemp os t (w_files (rs_world st)))
      (c_string (s_queue_dir (rs_settings st))) (ses_id (rs_session st))"
  define w1 where "w1 = (if fst gen = 0 then put_file (snd gen) [] (rs_world st) else rs_world st)"
  have w1: "input_left w1 = input_left (rs_world st)" by (simp add: w1_def)
  note eq = assms(2) [unfolded smf_smtpd_process_data_def Let_def, folded os_def, folded gen_def, folded w1_def]
  show ?thesis
  proof (cases "fopen_write os (snd gen) w1")
    case None
    with eq have "st' = reply_code 451 (st\<lparr>rs_session := (rs_session st)\<lparr>ses_message_file := Some (snd gen)\<rparr>, rs_world := w1\<rparr>)"
      by simp
    with w1 show ?thesis by simp
  next
    case (Some w2)
    then have w2: "input_left w2 = input_left w1" by (auto simp: fopen_write_def split: if_splits)
    define w3 where "w3 = say data_prompt w2"
    obtain ds r sock where loop: "data_loop None (w_sock w3) (data_start (file_fd os (snd gen) []) (ses_message_size (rs_session st))) =
        (ds, r, sock)" by (metis prod_cases3)
    define st1 where "st1 = st\<lparr>rs_session := (rs_session st)\<lparr>ses_message_file := Some (snd gen), ses_message_size := ds_size ds\<rparr>,
      rs_world := put_file (snd gen) (fd_out (ds_spool ds)) (w3\<lparr>w_sock := sock\<rparr>)\<rparr>"
    obtain st2 where st2: "data_complete env ds st1 = Inr st2" "data_process env st2 = Inr st'"
      using eq Some loop by (auto simp: w3_def st1_def split: sum.splits)
    have "input_left (rs_world st1) = rd_weight (fd_in sock)" by (simp add: st1_def input_left_def)
    also have "\<dots> \<le> input_left w3" using data_loop_input [OF loop] by (simp add: rl_weight_def input_left_def)
    finally show ?thesis
      using data_process_input [OF assms(1) st2(2)] data_complete_input [OF st2(1)] w1 w2 by (simp add: w3_def)
  qed
qed

section \<open>The dialogue\<close>

lemma dispatch_keeps:
  assumes "modules_read_only (sv_pf env)" and "smtpd_dispatch env req cl = Inr (stop, cl')"
  shows "cl_rl cl' = cl_rl cl \<and> input_left (rs_world (cl_run cl')) \<le> input_left (rs_world (cl_run cl))"
proof -
  note defs = do_helo_def do_xforward_def do_mail_def do_rcpt_def do_rset_def send_def send_code_def goto_state_def
    on_session_def fresh_session_def with_world_def Let_def
  show ?thesis
  proof (cases "smtp_classify req")
    case CmdData
    with assms show ?thesis
      by (auto simp: smtpd_dispatch_def do_data_def map_sum_def send_def with_world_def
          split: if_splits sum.splits dest!: process_data_input)
  qed (use assms(2) in \<open>auto simp: smtpd_dispatch_def defs split: option.splits\<close>)
qed

text \<open>One round of the loop, for a bound \<open>n\<close> on what is left.\<close>

lemma client_loop_ends:
  "modules_read_only (sv_pf env) \<Longrightarrow> rl_weight (cl_rl cl) (w_sock (rs_world (cl_run cl))) < f \<Longrightarrow>
   rl_weight (cl_rl cl) (w_sock (rs_world (cl_run cl))) < g \<Longrightarrow>
   client_loop f env cl \<noteq> None \<and> client_loop g env cl = client_loop f env cl"
proof (induction f arbitrary: g cl)
  case 0
  then show ?case by simp
next
  case (Suc f)
  from Suc.prems(3) obtain g' where g: "g = Suc g'" by (cases g) auto
  let ?sock = "w_sock (rs_world (cl_run cl))"
  show ?case
  proof (cases "smf_internal_readline 1024 (cl_rl cl) ?sock")
    case (Inl e)
    then show ?thesis by (simp add: g)
  next
    case (Inr t)
    obtain q rl1 sock1 where t: "t = (q, rl1, sock1)" by (metis prod_cases3)
    define cl1 where "cl1 = cl\<lparr>cl_rl := rl1, cl_run := with_world (\<lambda>w. w\<lparr>w_sock := sock1\<rparr>) (cl_run cl)\<rparr>"
    show ?thesis
    proof (cases q)
      case (LineGot br line)
      have less: "rl_weight rl1 sock1 < rl_weight (cl_rl cl) ?sock"
        using readline_weight(2) [OF Inr [unfolded t] LineGot] .
      show ?thesis
      proof (cases "smtpd_dispatch env (c_str line) cl1")
        case (Inl e)
        with Inr t LineGot show ?thesis by (simp add: g Let_def cl1_def)
      next
        case d: (Inr r)
        obtain stop cl2 where r: "r = (stop, cl2)" by fastforce
        have "rl_weight (cl_rl cl2) (w_sock (rs_world (cl_run cl2))) \<le> rl_weight rl1 sock1"
          using dispatch_keeps [OF Suc.prems(1) d [unfolded r]]
          by (simp add: rl_weight_def cl1_def with_world_def input_left_def)
        then have "rl_weight (cl_rl cl2) (w_sock (rs_world (cl_run cl2))) < f"
          "rl_weight (cl_rl cl2) (w_sock (rs_world (cl_run cl2))) < g'"
          using less Suc.prems(2,3) by (simp_all add: g)
        from Suc.IH [OF Suc.prems(1) this] d r Inr t LineGot show ?thesis
          by (cases stop) (simp_all add: g Let_def cl1_def)
      qed
    qed (use Inr t in \<open>simp_all add: g Let_def\<close>)
  qed
qed

section \<open>Properties\<close>

text \<open>
  Claim C27.  A client cannot keep the daemon forever: when the modules only read from the socket,
  the dialogue over a finite input ends, whatever the client sent; the bound on the number of
  commands does not matter as soon as it exceeds the length of the input.
\<close>

theorem smf_smtpd_handle_client_ends:
  assumes "modules_read_only (sv_pf env)"
  shows "\<exists>r. \<forall>fuel > input_left w. smf_smtpd_handle_client fuel env settings w = Some r"
proof -
  let ?cl = "send (''220 '' @ sv_hostname env @ '' spmfilter'' @ crlf) (client_new env settings w)"
  have "rl_weight (cl_rl ?cl) (w_sock (rs_world (cl_run ?cl))) = input_left w"
    using say_input [of "''220 '' @ sv_hostname env @ '' spmfilter'' @ crlf" w]
    by (simp add: send_def client_new_def with_world_def rl_weight_def input_left_def)
  note ends = client_loop_ends [OF assms, of ?cl, unfolded this]
  obtain r where r: "client_loop (Suc (input_left w)) env ?cl = Some r"
    using ends [of "Suc (input_left w)" "Suc (input_left w)"] by auto
  have "smf_smtpd_handle_client fuel env settings w = Some r" if "input_left w < fuel" for fuel
    using ends [of "Suc (input_left w)" fuel] that r by (simp add: smf_smtpd_handle_client_def)
  then show ?thesis by blast
qed

lemma smf_smtpd_handle_client_ends_witness:
  "\<exists>r. smf_smtpd_handle_client 100 ex_env (ex_settings []) ex_world = Some r"
proof -
  have m: "modules_read_only (sv_pf ex_env)"
    by (simp add: modules_read_only_def ex_env_def ex_pf_def)
  have "input_left ex_world < 100" by (simp add: input_left_def ex_world_def)
  with smf_smtpd_handle_client_ends [OF m, of ex_world "ex_settings []"] show ?thesis by blast
qed

end
