(* ===== verification/Smf_Settings_Api.thy ===== *)
theory Smf_Settings_Api
  imports Smf_Settings
begin

text \<open>
  The accessors of the settings, \<open>smf_settings.c\<close>: what an application that embeds the program
  calls instead of reading a configuration file.  Setters of strings demand a string, free the
  old one and store a copy; none of them checks the value, except those of the debug flag, the
  configuration file and the queue directory.
\<close>

section \<open>The interface\<close>

text \<open>
  An accessor pair: a legal value can be set and is what is read then; an illegal one ends the
  process; a legal value stays legal.
\<close>

locale accessor =
  fixes get :: "'s \<Rightarrow> 'v" and put :: "'v \<Rightarrow> 's \<Rightarrow> 's c_result" and legal :: "'v \<Rightarrow> 's \<Rightarrow> bool"
  assumes set_legal: "legal v s \<Longrightarrow> \<exists>s'. put v s = Inr s' \<and> get s' = v"
    and set_illegal: "\<not> legal v s \<Longrightarrow> \<exists>e. put v s = Inl e"
    and legal_stays: "put v s = Inr s' \<Longrightarrow> legal u s \<Longrightarrow> legal u s'"

fun set_all :: "('v \<Rightarrow> 's \<Rightarrow> 's c_result) \<Rightarrow> 'v list \<Rightarrow> 's \<Rightarrow> 's c_result" where
  "set_all put [] s = Inr s"
| "set_all put (v # vs) s = (case put v s of Inl e \<Rightarrow> Inl e | Inr s' \<Rightarrow> set_all put vs s')"

context accessor begin

lemma get_set: "put v s = Inr s' \<Longrightarrow> get s' = v"
  using set_legal [of v s] set_illegal [of v s] by fastforce

text \<open>Of several values set in a row the last one counts.\<close>

lemma last_wins:
  "list_all (\<lambda>v. legal v s) (vs @ [v]) \<Longrightarrow> \<exists>s'. set_all put (vs @ [v]) s = Inr s' \<and> get s' = v"
proof (induction vs arbitrary: s)
  case Nil
  then show ?case using set_legal [of v s] by auto
next
  case (Cons u us)
  then obtain t where t: "put u s = Inr t" using set_legal [of u s] by auto
  with Cons.prems have "list_all (\<lambda>v. legal v t) (us @ [v])"
    by (auto simp: list_all_iff intro: legal_stays)
  with Cons.IH [of t] t show ?case by simp
qed

end

section \<open>Strings\<close>

definition set_string :: "(string option \<Rightarrow> 's \<Rightarrow> 's) \<Rightarrow> string option \<Rightarrow> 's \<Rightarrow> 's c_result" where
  "set_string upd v s = (case v of None \<Rightarrow> Inl AssertFailed | Some x \<Rightarrow> Inr (upd (Some x) s))"

definition smf_settings_set_engine :: "string option \<Rightarrow> smf_settings \<Rightarrow> smf_settings c_result" where
  "smf_settings_set_engine v s = set_string (\<lambda>x s. s\<lparr>s_engine := x\<rparr>) v s"

definition smf_settings_set_nexthop :: "string option \<Rightarrow> smf_settings \<Rightarrow> smf_settings c_result" where
  "smf_settings_set_nexthop v s = set_string (\<lambda>x s. s\<lparr>s_nexthop := x\<rparr>) v s"

definition smf_settings_set_nexthop_fail_msg :: "string option \<Rightarrow> smf_settings \<Rightarrow> smf_settings c_result" where
  "smf_settings_set_nexthop_fail_msg v s = set_string (\<lambda>x s. s\<lparr>s_nexthop_fail_msg := x\<rparr>) v s"

definition smf_settings_set_lib_dir :: "string option \<Rightarrow> smf_settings \<Rightarrow> smf_settings c_result" where
  "smf_settings_set_lib_dir v s = set_string (\<lambda>x s. s\<lparr>s_lib_dir := x\<rparr>) v s"

definition smf_settings_set_pid_file :: "string option \<Rightarrow> smf_settings \<Rightarrow> smf_settings c_result" where
  "smf_settings_set_pid_file v s = set_string (\<lambda>x s. s\<lparr>s_pid_file := x\<rparr>) v s"

definition smf_settings_set_bind_ip :: "string option \<Rightarrow> smf_settings \<Rightarrow> smf_settings c_result" where
  "smf_settings_set_bind_ip v s = set_string (\<lambda>x s. s\<lparr>s_bind_ip := x\<rparr>) v s"

definition smf_settings_set_user :: "string option \<Rightarrow> smf_settings \<Rightarrow> smf_settings c_result" where
  "smf_settings_set_user v s = set_string (\<lambda>x s. s\<lparr>s_user := x\<rparr>) v s"

definition smf_settings_set_group :: "string option \<Rightarrow> smf_settings \<Rightarrow> smf_settings c_result" where
  "smf_settings_set_group v s = set_string (\<lambda>x s. s\<lparr>s_group := x\<rparr>) v s"

definition smf_settings_set_sql_name :: "string option \<Rightarrow> smf_settings \<Rightarrow> smf_settings c_result" where
  "smf_settings_set_sql_name v s = set_string (\<lambda>x s. s\<lparr>s_sql_name := x\<rparr>) v s"

definition smf_settings_set_sql_user :: "string option \<Rightarrow> smf_settings \<Rightarrow> smf_settings c_result" where
  "smf_settings_set_sql_user v s = set_string (\<lambda>x s. s\<lparr>s_sql_user := x\<rparr>) v s"

definition smf_settings_set_sql_pass :: "string option \<Rightarrow> smf_settings \<Rightarrow> smf_settings c_result" where
  "smf_settings_set_sql_pass v s = set_string (\<lambda>x s. s\<lparr>s_sql_pass := x\<rparr>) v s"

definition smf_settings_set_sql_user_query :: "string option \<Rightarrow> smf_settings \<Rightarrow> smf_settings c_result" where
  "smf_settings_set_sql_user_query v s = set_string (\<lambda>x s. s\<lparr>s_sql_user_query := x\<rparr>) v s"

definition smf_settings_set_sql_encoding :: "string option \<Rightarrow> smf_settings \<Rightarrow> smf_settings c_result" where
  "smf_settings_set_sql_encoding v s = set_string (\<lambda>x s. s\<lparr>s_sql_encoding := x\<rparr>) v s"

definition smf_settings_set_ldap_uri :: "string option \<Rightarrow> smf_settings \<Rightarrow> smf_settings c_result" where
  "smf_settings_set_ldap_uri v s = set_string (\<lambda>x s. s\<lparr>s_ldap_uri := x\<rparr>) v s"

definition smf_settings_set_ldap_binddn :: "string option \<Rightarrow> smf_settings \<Rightarrow> smf_settings c_result" where
  "smf_settings_set_ldap_binddn v s = set_string (\<lambda>x s. s\<lparr>s_ldap_binddn := x\<rparr>) v s"

definition smf_settings_set_ldap_bindpw :: "string option \<Rightarrow> smf_settings \<Rightarrow> smf_settings c_result" where
  "smf_settings_set_ldap_bindpw v s = set_string (\<lambda>x s. s\<lparr>s_ldap_bindpw := x\<rparr>) v s"

definition smf_settings_set_ldap_base :: "string option \<Rightarrow> smf_settings \<Rightarrow> smf_settings c_result" where
  "smf_settings_set_ldap_base v s = set_string (\<lambda>x s. s\<lparr>s_ldap_base := x\<rparr>) v s"

definition smf_settings_set_ldap_scope :: "string option \<Rightarrow> smf_settings \<Rightarrow> smf_settings c_result" where
  "smf_settings_set_ldap_scope v s = set_string (\<lambda>x s. s\<lparr>s_ldap_scope := x\<rparr>) v s"

definition smf_settings_set_ldap_user_query :: "string option \<Rightarrow> smf_settings \<Rightarrow> smf_settings c_result" where
  "smf_settings_set_ldap_user_query v s = set_string (\<lambda>x s. s\<lparr>s_ldap_user_query := x\<rparr>) v s"

definition smf_settings_get_engine :: "smf_settings \<Rightarrow> string option" where
  "smf_settings_get_engine s = s_engine s"

definition smf_settings_get_nexthop :: "smf_settings \<Rightarrow> string option" where
  "smf_settings_get_nexthop s = s_nexthop s"

definition smf_settings_get_nexthop_fail_msg :: "smf_settings \<Rightarrow> string option" where
  "smf_settings_get_nexthop_fail_msg s = s_nexthop_fail_msg s"

definition smf_settings_get_lib_dir :: "smf_settings \<Rightarrow> string option" where
  "smf_settings_get_lib_dir s = s_lib_dir s"

definition smf_settings_get_pid_file :: "smf_settings \<Rightarrow> string option" where
  "smf_settings_get_pid_file s = s_pid_file s"

definition smf_settings_get_bind_ip :: "smf_settings \<Rightarrow> string option" where
  "smf_settings_get_bind_ip s = s_bind_ip s"

definition smf_settings_get_user :: "smf_settings \<Rightarrow> string option" where
  "smf_settings_get_user s = s_user s"

definition smf_settings_get_group :: "smf_settings \<Rightarrow> string option" where
  "smf_settings_get_group s = s_group s"

definition smf_settings_get_sql_name :: "smf_settings \<Rightarrow> string option" where
  "smf_settings_get_sql_name s = s_sql_name s"

definition smf_settings_get_sql_user :: "smf_settings \<Rightarrow> string option" where
  "smf_settings_get_sql_user s = s_sql_user s"

definition smf_settings_get_sql_pass :: "smf_settings \<Rightarrow> string option" where
  "smf_settings_get_sql_pass s = s_sql_pass s"

definition smf_settings_get_sql_user_query :: "smf_settings \<Rightarrow> string option" where
  "smf_settings_get_sql_user_query s = s_sql_user_query s"

definition smf_settings_get_sql_encoding :: "smf_settings \<Rightarrow> string option" where
  "smf_settings_get_sql_encoding s = s_sql_encoding s"

definition smf_settings_get_ldap_uri :: "smf_settings \<Rightarrow> string option" where
  "smf_settings_get_ldap_uri s = s_ldap_uri s"

definition smf_settings_get_ldap_binddn :: "smf_settings \<Rightarrow> string option" where
  "smf_settings_get_ldap_binddn s = s_ldap_binddn s"

definition smf_settings_get_ldap_bindpw :: "smf_settings \<Rightarrow> string option" where
  "smf_settings_get_ldap_bindpw s = s_ldap_bindpw s"

definition smf_settings_get_ldap_base :: "smf_settings \<Rightarrow> string option" where
  "smf_settings_get_ldap_base s = s_ldap_base s"

definition smf_settings_get_ldap_scope :: "smf_settings \<Rightarrow> string option" where
  "smf_settings_get_ldap_scope s = s_ldap_scope s"

definition smf_settings_get_ldap_user_query :: "smf_settings \<Rightarrow> string option" where
  "smf_settings_get_ldap_user_query s = s_ldap_user_query s"

section \<open>Strings that may have been freed\<close>

definition set_pointer :: "(smf_settings \<Rightarrow> cptr) \<Rightarrow> (cptr \<Rightarrow> smf_settings \<Rightarrow> smf_settings) \<Rightarrow>
  string option \<Rightarrow> smf_settings \<Rightarrow> smf_settings c_result" where
  "set_pointer sel upd v s =
     (case v of
        None \<Rightarrow> Inl AssertFailed
      | Some x \<Rightarrow> (case c_free (sel s) of Inl e \<Rightarrow> Inl e | Inr _ \<Rightarrow> Inr (upd (StrP x) s)))"

definition smf_settings_set_backend :: "string option \<Rightarrow> smf_settings \<Rightarrow> smf_settings c_result" where
  "smf_settings_set_backend v s = set_pointer s_backend (\<lambda>p s. s\<lparr>s_backend := p\<rparr>) v s"

definition smf_settings_get_backend :: "smf_settings \<Rightarrow> cptr" where
  "smf_settings_get_backend s = s_backend s"

definition smf_settings_set_backend_connection :: "string option \<Rightarrow> smf_settings \<Rightarrow> smf_settings c_result" where
  "smf_settings_set_backend_connection v s = set_pointer s_backend_connection (\<lambda>p s. s\<lparr>s_backend_connection := p\<rparr>) v s"

definition smf_settings_get_backend_connection :: "smf_settings \<Rightarrow> cptr" where
  "smf_settings_get_backend_connection s = s_backend_connection s"

definition smf_settings_set_sql_driver :: "string option \<Rightarrow> smf_settings \<Rightarrow> smf_settings c_result" where
  "smf_settings_set_sql_driver v s = set_pointer s_sql_driver (\<lambda>p s. s\<lparr>s_sql_driver := p\<rparr>) v s"

definition smf_settings_get_sql_driver :: "smf_settings \<Rightarrow> cptr" where
  "smf_settings_get_sql_driver s = s_sql_driver s"

section \<open>Numbers and enumerations\<close>

definition smf_settings_set_module_fail :: "int \<Rightarrow> smf_settings \<Rightarrow> smf_settings" where
  "smf_settings_set_module_fail i s = s\<lparr>s_module_fail := i\<rparr>"

definition smf_settings_get_module_fail :: "smf_settings \<Rightarrow> int" where
  "smf_settings_get_module_fail s = s_module_fail s"

definition smf_settings_set_nexthop_fail_code :: "int \<Rightarrow> smf_settings \<Rightarrow> smf_settings" where
  "smf_settings_set_nexthop_fail_code i s = s\<lparr>s_nexthop_fail_code := i\<rparr>"

definition smf_settings_get_nexthop_fail_code :: "smf_settings \<Rightarrow> int" where
  "smf_settings_get_nexthop_fail_code s = s_nexthop_fail_code s"

definition smf_settings_set_add_header :: "int \<Rightarrow> smf_settings \<Rightarrow> smf_settings" where
  "smf_settings_set_add_header i s = s\<lparr>s_add_header := i\<rparr>"

definition smf_settings_get_add_header :: "smf_settings \<Rightarrow> int" where
  "smf_settings_get_add_header s = s_add_header s"

definition smf_settings_set_bind_port :: "int \<Rightarrow> smf_settings \<Rightarrow> smf_settings" where
  "smf_settings_set_bind_port i s = s\<lparr>s_bind_port := i\<rparr>"

definition smf_settings_get_bind_port :: "smf_settings \<Rightarrow> int" where
  "smf_settings_get_bind_port s = s_bind_port s"

definition smf_settings_set_listen_backlog :: "int \<Rightarrow> smf_settings \<Rightarrow> smf_settings" where
  "smf_settings_set_listen_backlog i s = s\<lparr>s_listen_backlog := i\<rparr>"

definition smf_settings_get_listen_backlog :: "smf_settings \<Rightarrow> int" where
  "smf_settings_get_listen_backlog s = s_listen_backlog s"

definition smf_settings_set_foreground :: "int \<Rightarrow> smf_settings \<Rightarrow> smf_settings" where
  "smf_settings_set_foreground i s = s\<lparr>s_foreground := i\<rparr>"

definition smf_settings_get_foreground :: "smf_settings \<Rightarrow> int" where
  "smf_settings_get_foreground s = s_foreground s"

definition smf_settings_set_max_childs :: "int \<Rightarrow> smf_settings \<Rightarrow> smf_settings" where
  "smf_settings_set_max_childs i s = s\<lparr>s_max_childs := i\<rparr>"

definition smf_settings_get_max_childs :: "smf_settings \<Rightarrow> int" where
  "smf_settings_get_max_childs s = s_max_childs s"

definition smf_settings_set_spare_childs :: "int \<Rightarrow> smf_settings \<Rightarrow> smf_settings" where
  "smf_settings_set_spare_childs i s = s\<lparr>s_spare_childs := i\<rparr>"

definition smf_settings_get_spare_childs :: "smf_settings \<Rightarrow> int" where
  "smf_settings_get_spare_childs s = s_spare_childs s"

definition smf_settings_set_smtpd_timeout :: "int \<Rightarrow> smf_settings \<Rightarrow> smf_settings" where
  "smf_settings_set_smtpd_timeout i s = s\<lparr>s_smtpd_timeout := i\<rparr>"

definition smf_settings_get_smtpd_timeout :: "smf_settings \<Rightarrow> int" where
  "smf_settings_get_smtpd_timeout s = s_smtpd_timeout s"

definition smf_settings_set_sql_port :: "int \<Rightarrow> smf_settings \<Rightarrow> smf_settings" where
  "smf_settings_set_sql_port i s = s\<lparr>s_sql_port := i\<rparr>"

definition smf_settings_get_sql_port :: "smf_settings \<Rightarrow> int" where
  "smf_settings_get_sql_port s = s_sql_port s"

definition smf_settings_set_sql_max_connections :: "int \<Rightarrow> smf_settings \<Rightarrow> smf_settings" where
  "smf_settings_set_sql_max_connections i s = s\<lparr>s_sql_max_connections := i\<rparr>"

definition smf_settings_get_sql_max_connections :: "smf_settings \<Rightarrow> int" where
  "smf_settings_get_sql_max_connections s = s_sql_max_connections s"

definition smf_settings_set_ldap_port :: "int \<Rightarrow> smf_settings \<Rightarrow> smf_settings" where
  "smf_settings_set_ldap_port i s = s\<lparr>s_ldap_port := i\<rparr>"

definition smf_settings_get_ldap_port :: "smf_settings \<Rightarrow> int" where
  "smf_settings_get_ldap_port s = s_ldap_port s"

definition smf_settings_set_ldap_referrals :: "int \<Rightarrow> smf_settings \<Rightarrow> smf_settings" where
  "smf_settings_set_ldap_referrals i s = s\<lparr>s_ldap_referrals := i\<rparr>"

definition smf_settings_get_ldap_referrals :: "smf_settings \<Rightarrow> int" where
  "smf_settings_get_ldap_referrals s = s_ldap_referrals s"

definition smf_settings_set_lookup_persistent :: "int \<Rightarrow> smf_settings \<Rightarrow> smf_settings" where
  "smf_settings_set_lookup_persistent i s = s\<lparr>s_lookup_persistent := i\<rparr>"

definition smf_settings_get_lookup_persistent :: "smf_settings \<Rightarrow> int" where
  "smf_settings_get_lookup_persistent s = s_lookup_persistent s"

definition smf_settings_set_max_size :: "ulong \<Rightarrow> smf_settings \<Rightarrow> smf_settings" where
  "smf_settings_set_max_size i s = s\<lparr>s_max_size := i\<rparr>"

definition smf_settings_get_max_size :: "smf_settings \<Rightarrow> ulong" where
  "smf_settings_get_max_size s = s_max_size s"

definition smf_settings_set_tls :: "tls_option \<Rightarrow> smf_settings \<Rightarrow> smf_settings" where
  "smf_settings_set_tls i s = s\<lparr>s_tls := i\<rparr>"

definition smf_settings_get_tls :: "smf_settings \<Rightarrow> tls_option" where
  "smf_settings_get_tls s = s_tls s"

section \<open>Lists\<close>

text \<open>The pointer itself is stored, not a copy.\<close>

definition smf_settings_add_sql_host :: "string option \<Rightarrow> smf_settings \<Rightarrow> (int \<times> smf_settings) c_result" where
  "smf_settings_add_sql_host v s =
     (case v of None \<Rightarrow> Inl AssertFailed | Some x \<Rightarrow> Inr (0, s\<lparr>s_sql_host := s_sql_host s @ [x]\<rparr>))"

definition smf_settings_add_ldap_host :: "string option \<Rightarrow> smf_settings \<Rightarrow> (int \<times> smf_settings) c_result" where
  "smf_settings_add_ldap_host v s =
     (case v of None \<Rightarrow> Inl AssertFailed | Some x \<Rightarrow> Inr (0, s\<lparr>s_ldap_host := s_ldap_host s @ [x]\<rparr>))"

definition smf_settings_add_ldap_result_attribute :: "string option \<Rightarrow> smf_settings \<Rightarrow> (int \<times> smf_settings) c_result" where
  "smf_settings_add_ldap_result_attribute v s =
     (case v of None \<Rightarrow> Inl AssertFailed | Some x \<Rightarrow> Inr (0, s\<lparr>s_ldap_result_attributes := s_ldap_result_attributes s @ [x]\<rparr>))"

section \<open>Setters that check\<close>

definition smf_settings_set_debug :: "int \<Rightarrow> config \<Rightarrow> int \<times> config" where
  "smf_settings_set_debug debug c =
     (if debug \<noteq> 0 \<and> debug \<noteq> 1 then (- 1, c)
      else (0, (fst c)\<lparr>s_debug := debug\<rparr>, configure_debug debug (snd c)))"

text \<open>\<open>stat\<close> gives whether the path is a directory; \<open>access\<close> whether it can be written to.\<close>

definition smf_settings_set_config_file ::
  "(string \<Rightarrow> bool option) \<Rightarrow> string option \<Rightarrow> smf_settings \<Rightarrow> (int \<times> smf_settings) c_result" where
  "smf_settings_set_config_file stat cf s =
     (case cf of
        None \<Rightarrow> Inl AssertFailed
      | Some f \<Rightarrow> Inr (case stat f of None \<Rightarrow> (- 1, s) | Some _ \<Rightarrow> (0, s\<lparr>s_config_file := Some f\<rparr>)))"

definition smf_settings_set_queue_dir ::
  "(string \<Rightarrow> bool option) \<Rightarrow> (string \<Rightarrow> bool) \<Rightarrow> string option \<Rightarrow> smf_settings \<Rightarrow>
   (int \<times> smf_settings) c_result" where
  "smf_settings_set_queue_dir stat writable qd s =
     (case qd of
        None \<Rightarrow> Inl AssertFailed
      | Some d \<Rightarrow>
          Inr (case stat d of
                 None \<Rightarrow> (- 1, s)
               | Some is_dir \<Rightarrow>
                   if \<not> is_dir then (- 2, s)
                   else if \<not> writable d then (- 1, s)
                   else (0, s\<lparr>s_queue_dir := Some d\<rparr>)))"

section \<open>Getters of what is set elsewhere, and of whole lists\<close>

definition smf_settings_get_debug :: "smf_settings \<Rightarrow> int" where
  "smf_settings_get_debug s = s_debug s"

definition smf_settings_get_config_file :: "smf_settings \<Rightarrow> string option" where
  "smf_settings_get_config_file s = s_config_file s"

definition smf_settings_get_queue_dir :: "smf_settings \<Rightarrow> string option" where
  "smf_settings_get_queue_dir s = s_queue_dir s"

definition smf_settings_get_modules :: "smf_settings \<Rightarrow> smf_module list" where
  "smf_settings_get_modules s = s_modules s"

definition smf_settings_get_syslog_facility :: "smf_settings \<Rightarrow> facility" where
  "smf_settings_get_syslog_facility s = s_syslog_facility s"

definition smf_settings_get_sql_hosts :: "smf_settings \<Rightarrow> string list" where
  "smf_settings_get_sql_hosts s = s_sql_host s"

definition smf_settings_get_ldap_hosts :: "smf_settings \<Rightarrow> string list" where
  "smf_settings_get_ldap_hosts s = s_ldap_host s"

definition smf_settings_get_ldap_result_attributes :: "smf_settings \<Rightarrow> string list" where
  "smf_settings_get_ldap_result_attributes s = s_ldap_result_attributes s"

section \<open>The accessors have the interface\<close>

named_theorems settings_api \<open>definitions of the accessors\<close>

lemmas settings_api_defs [settings_api] =
  set_string_def set_pointer_def
  smf_settings_set_engine_def smf_settings_get_engine_def
  smf_settings_set_nexthop_def smf_settings_get_nexthop_def
  smf_settings_set_nexthop_fail_msg_def smf_settings_get_nexthop_fail_msg_def
  smf_settings_set_lib_dir_def smf_settings_get_lib_dir_def
  smf_settings_set_pid_file_def smf_settings_get_pid_file_def
  smf_settings_set_bind_ip_def smf_settings_get_bind_ip_def
  smf_settings_set_user_def smf_settings_get_user_def
  smf_settings_set_group_def smf_settings_get_group_def
  smf_settings_set_sql_name_def smf_settings_get_sql_name_def
  smf_settings_set_sql_user_def smf_settings_get_sql_user_def
  smf_settings_set_sql_pass_def smf_settings_get_sql_pass_def
  smf_settings_set_sql_user_query_def smf_settings_get_sql_user_query_def
  smf_settings_set_sql_encoding_def smf_settings_get_sql_encoding_def
  smf_settings_set_ldap_uri_def smf_settings_get_ldap_uri_def
  smf_settings_set_ldap_binddn_def smf_settings_get_ldap_binddn_def
  smf_settings_set_ldap_bindpw_def smf_settings_get_ldap_bindpw_def
  smf_settings_set_ldap_base_def smf_settings_get_ldap_base_def
  smf_settings_set_ldap_scope_def smf_settings_get_ldap_scope_def
  smf_settings_set_ldap_user_query_def smf_settings_get_ldap_user_query_def
  smf_settings_set_backend_def smf_settings_get_backend_def
  smf_settings_set_backend_connection_def smf_settings_get_backend_connection_def
  smf_settings_set_sql_driver_def smf_settings_get_sql_driver_def
  smf_settings_set_module_fail_def smf_settings_get_module_fail_def
  smf_settings_set_nexthop_fail_code_def smf_settings_get_nexthop_fail_code_def
  smf_settings_set_add_header_def smf_settings_get_add_header_def
  smf_settings_set_bind_port_def smf_settings_get_bind_port_def
  smf_settings_set_listen_backlog_def smf_settings_get_listen_backlog_def
  smf_settings_set_foreground_def smf_settings_get_foreground_def
  smf_settings_set_max_childs_def smf_settings_get_max_childs_def
  smf_settings_set_spare_childs_def smf_settings_get_spare_childs_def
  smf_settings_set_smtpd_timeout_def smf_settings_get_smtpd_timeout_def
  smf_settings_set_sql_port_def smf_settings_get_sql_port_def
  smf_settings_set_sql_max_connections_def smf_settings_get_sql_max_connections_def
  smf_settings_set_ldap_port_def smf_settings_get_ldap_port_def
  smf_settings_set_ldap_referrals_def smf_settings_get_ldap_referrals_def
  smf_settings_set_lookup_persistent_def smf_settings_get_lookup_persistent_def
  smf_settings_set_max_size_def smf_settings_get_max_size_def
  smf_settings_set_tls_def smf_settings_get_tls_def

interpretation engine_field: accessor smf_settings_get_engine smf_settings_set_engine "\<lambda>v s. v \<noteq> None"
  by unfold_locales (auto simp: settings_api split: option.splits)

interpretation nexthop_field: accessor smf_settings_get_nexthop smf_settings_set_nexthop "\<lambda>v s. v \<noteq> None"
  by unfold_locales (auto simp: settings_api split: option.splits)

interpretation nexthop_fail_msg_field: accessor smf_settings_get_nexthop_fail_msg smf_settings_set_nexthop_fail_msg "\<lambda>v s. v \<noteq> None"
  by unfold_locales (auto simp: settings_api split: option.splits)

interpretation lib_dir_field: accessor smf_settings_get_lib_dir smf_settings_set_lib_dir "\<lambda>v s. v \<noteq> None"
  by unfold_locales (auto simp: settings_api split: option.splits)

interpretation pid_file_field: accessor smf_settings_get_pid_file smf_settings_set_pid_file "\<lambda>v s. v \<noteq> None"
  by unfold_locales (auto simp: settings_api split: option.splits)

interpretation bind_ip_field: accessor smf_settings_get_bind_ip smf_settings_set_bind_ip "\<lambda>v s. v \<noteq> None"
  by unfold_locales (auto simp: settings_api split: option.splits)

interpretation user_field: accessor smf_settings_get_user smf_settings_set_user "\<lambda>v s. v \<noteq> None"
  by unfold_locales (auto simp: settings_api split: option.splits)

interpretation group_field: accessor smf_settings_get_group smf_settings_set_group "\<lambda>v s. v \<noteq> None"
  by unfold_locales (auto simp: settings_api split: option.splits)

interpretation sql_name_field: accessor smf_settings_get_sql_name smf_settings_set_sql_name "\<lambda>v s. v \<noteq> None"
  by unfold_locales (auto simp: settings_api split: option.splits)

interpretation sql_user_field: accessor smf_settings_get_sql_user smf_settings_set_sql_user "\<lambda>v s. v \<noteq> None"
  by unfold_locales (auto simp: settings_api split: option.splits)

interpretation sql_pass_field: accessor smf_settings_get_sql_pass smf_settings_set_sql_pass "\<lambda>v s. v \<noteq> None"
  by unfold_locales (auto simp: settings_api split: option.splits)

interpretation sql_user_query_field: accessor smf_settings_get_sql_user_query smf_settings_set_sql_user_query "\<lambda>v s. v \<noteq> None"
  by unfold_locales (auto simp: settings_api split: option.splits)

interpretation sql_encoding_field: accessor smf_settings_get_sql_encoding smf_settings_set_sql_encoding "\<lambda>v s. v \<noteq> None"
  by unfold_locales (auto simp: settings_api split: option.splits)

interpretation ldap_uri_field: accessor smf_settings_get_ldap_uri smf_settings_set_ldap_uri "\<lambda>v s. v \<noteq> None"
  by unfold_locales (auto simp: settings_api split: option.splits)

interpretation ldap_binddn_field: accessor smf_settings_get_ldap_binddn smf_settings_set_ldap_binddn "\<lambda>v s. v \<noteq> None"
  by unfold_locales (auto simp: settings_api split: option.splits)

interpretation ldap_bindpw_field: accessor smf_settings_get_ldap_bindpw smf_settings_set_ldap_bindpw "\<lambda>v s. v \<noteq> None"
  by unfold_locales (auto simp: settings_api split: option.splits)

interpretation ldap_base_field: accessor smf_settings_get_ldap_base smf_settings_set_ldap_base "\<lambda>v s. v \<noteq> None"
  by unfold_locales (auto simp: settings_api split: option.splits)

interpretation ldap_scope_field: accessor smf_settings_get_ldap_scope smf_settings_set_ldap_scope "\<lambda>v s. v \<noteq> None"
  by unfold_locales (auto simp: settings_api split: option.splits)

interpretation ldap_user_query_field: accessor smf_settings_get_ldap_user_query smf_settings_set_ldap_user_query "\<lambda>v s. v \<noteq> None"
  by unfold_locales (auto simp: settings_api split: option.splits)

interpretation module_fail_field: accessor smf_settings_get_module_fail "\<lambda>v s. Inr (smf_settings_set_module_fail v s)" "\<lambda>v s. True"
  by unfold_locales (auto simp: settings_api)

interpretation nexthop_fail_code_field: accessor smf_settings_get_nexthop_fail_code "\<lambda>v s. Inr (smf_settings_set_nexthop_fail_code v s)" "\<lambda>v s. True"
  by unfold_locales (auto simp: settings_api)

interpretation add_header_field: accessor smf_settings_get_add_header "\<lambda>v s. Inr (smf_settings_set_add_header v s)" "\<lambda>v s. True"
  by unfold_locales (auto simp: settings_api)

interpretation bind_port_field: accessor smf_settings_get_bind_port "\<lambda>v s. Inr (smf_settings_set_bind_port v s)" "\<lambda>v s. True"
  by unfold_locales (auto simp: settings_api)

interpretation listen_backlog_field: accessor smf_settings_get_listen_backlog "\<lambda>v s. Inr (smf_settings_set_listen_backlog v s)" "\<lambda>v s. True"
  by unfold_locales (auto simp: settings_api)

interpretation foreground_field: accessor smf_settings_get_foreground "\<lambda>v s. Inr (smf_settings_set_foreground v s)" "\<lambda>v s. True"
  by unfold_locales (auto simp: settings_api)

interpretation max_childs_field: accessor smf_settings_get_max_childs "\<lambda>v s. Inr (smf_settings_set_max_childs v s)" "\<lambda>v s. True"
  by unfold_locales (auto simp: settings_api)

interpretation spare_childs_field: accessor smf_settings_get_spare_childs "\<lambda>v s. Inr (smf_settings_set_spare_childs v s)" "\<lambda>v s. True"
  by unfold_locales (auto simp: settings_api)

interpretation smtpd_timeout_field: accessor smf_settings_get_smtpd_timeout "\<lambda>v s. Inr (smf_settings_set_smtpd_timeout v s)" "\<lambda>v s. True"
  by unfold_locales (auto simp: settings_api)

interpretation sql_port_field: accessor smf_settings_get_sql_port "\<lambda>v s. Inr (smf_settings_set_sql_port v s)" "\<lambda>v s. True"
  by unfold_locales (auto simp: settings_api)

interpretation sql_max_connections_field: accessor smf_settings_get_sql_max_connections "\<lambda>v s. Inr (smf_settings_set_sql_max_connections v s)" "\<lambda>v s. True"
  by unfold_locales (auto simp: settings_api)

interpretation ldap_port_field: accessor smf_settings_get_ldap_port "\<lambda>v s. Inr (smf_settings_set_ldap_port v s)" "\<lambda>v s. True"
  by unfold_locales (auto simp: settings_api)

interpretation ldap_referrals_field: accessor smf_settings_get_ldap_referrals "\<lambda>v s. Inr (smf_settings_set_ldap_referrals v s)" "\<lambda>v s. True"
  by unfold_locales (auto simp: settings_api)

interpretation lookup_persistent_field: accessor smf_settings_get_lookup_persistent "\<lambda>v s. Inr (smf_settings_set_lookup_persistent v s)" "\<lambda>v s. True"
  by unfold_locales (auto simp: settings_api)

interpretation max_size_field: accessor smf_settings_get_max_size "\<lambda>v s. Inr (smf_settings_set_max_size v s)" "\<lambda>v s. True"
  by unfold_locales (auto simp: settings_api)

interpretation tls_field: accessor smf_settings_get_tls "\<lambda>v s. Inr (smf_settings_set_tls v s)" "\<lambda>v s. True"
  by unfold_locales (auto simp: settings_api)

end
