(* ===== verification/Smf_Settings_Log.thy ===== *)
theory Smf_Settings_Log
  imports Smf_Settings
begin

text \<open>
  Logging the configuration, \<open>smf_settings_log\<close> of \<open>smf_settings.c\<close>: every field is formatted, whether
  the line is shown or not, so every pointer is read.  The lines are what \<open>trace\<close> gets, in order; a
  \<open>NULL\<close> string is printed as the C library does it.
\<close>

section \<open>Lines\<close>

definition log_arg :: "string option \<Rightarrow> string" where
  "log_arg v = (case v of None \<Rightarrow> ''(null)'' | Some x \<Rightarrow> x)"

definition log_string :: "string \<Rightarrow> string option \<Rightarrow> string" where
  "log_string name v = name @ ''['' @ log_arg v @ '']''"

definition log_int :: "string \<Rightarrow> int \<Rightarrow> string" where
  "log_int name i = name @ ''['' @ string_of_int i @ '']''"

text \<open>The enumerations as the numbers \<open>%d\<close> prints; the facilities are those of \<open>syslog.h\<close>.\<close>

fun tls_code :: "tls_option \<Rightarrow> int" where
  "tls_code SMF_TLS_DISABLED = 0"
| "tls_code SMF_TLS_ENABLED = 1"
| "tls_code SMF_TLS_REQUIRED = 2"

fun facility_number :: "facility \<Rightarrow> int" where
  "facility_number LOG_KERN = 0"
| "facility_number LOG_USER = 1"
| "facility_number LOG_MAIL = 2"
| "facility_number LOG_DAEMON = 3"
| "facility_number LOG_AUTH = 4"
| "facility_number LOG_LPR = 6"
| "facility_number LOG_NEWS = 7"
| "facility_number LOG_UUCP = 8"
| "facility_number LOG_CRON = 9"
| "facility_number LOG_AUTHPRIV = 10"
| "facility_number LOG_FTP = 11"
| "facility_number LOG_LOCAL0 = 16"
| "facility_number LOG_LOCAL1 = 17"
| "facility_number LOG_LOCAL2 = 18"
| "facility_number LOG_LOCAL3 = 19"
| "facility_number LOG_LOCAL4 = 20"
| "facility_number LOG_LOCAL5 = 21"
| "facility_number LOG_LOCAL6 = 22"
| "facility_number LOG_LOCAL7 = 23"

definition facility_code :: "facility \<Rightarrow> int" where
  "facility_code f = 8 * facility_number f"

section \<open>The function\<close>

text \<open>
  The lines, given the strings behind the three pointers that may be dangling; a size is printed with
  \<open>%d\<close>, that is, its lower 32 bits.
\<close>

definition settings_lines ::
  "string option \<Rightarrow> string option \<Rightarrow> string option \<Rightarrow> smf_settings \<Rightarrow> string list" where
  "settings_lines backend connection driver s =
        [log_string ''settings->queue_dir: '' (s_queue_dir s),
         log_string ''settings->engine: '' (s_engine s)] @
        map (\<lambda>m. log_string ''settings->modules: '' (Some (mod_name m))) (s_modules s) @
        [log_int ''settings->module_fail '' (s_module_fail s),
         log_string ''settings->nexthop: '' (s_nexthop s),
         log_string ''settings->backend: '' backend,
         log_string ''settings->backend_connection: '' connection,
         log_int ''settings->add_header: '' (s_add_header s),
         log_int ''settings->max_size: '' (sint (ucast (s_max_size s) :: 32 word)),
         log_int ''settings->tls: '' (tls_code (s_tls s)),
         log_string ''settings->lib_dir: '' (s_lib_dir s),
         log_string ''settings->pid_file: '' (s_pid_file s),
         log_string ''settings->bind_ip: '' (s_bind_ip s),
         log_int ''settings->bind_port: '' (s_bind_port s),
         log_int ''settings->listen_backlog: '' (s_listen_backlog s),
         log_int ''settings->foreground: '' (s_foreground s),
         log_string ''settings->user: '' (s_user s),
         log_string ''settings->group: '' (s_group s),
         log_int ''settings->max_childs: '' (s_max_childs s),
         log_int ''settings->spare_childs: '' (s_spare_childs s),
         log_int ''settings->lookup_persistent: '' (s_lookup_persistent s),
         log_int ''settings->syslog_facility: '' (facility_code (s_syslog_facility s)),
         log_string ''settings->sql_driver: '' driver,
         log_string ''settings->sql_name: '' (s_sql_name s)] @
        map (\<lambda>x. log_string ''settings->sql_host: '' (Some x)) (s_sql_host s) @
        [log_string ''settings->sql_user: '' (s_sql_user s),
         log_string ''settings->sql_pass: '' (s_sql_pass s),
         log_string ''settings->sql_user_query: '' (s_sql_user_query s),
         log_string ''settings->encoding: '' (s_sql_encoding s),
         log_int ''settings->max_connections: '' (s_sql_max_connections s),
         log_int ''settings->port: '' (s_sql_port s),
         log_string ''settings->ldap_uri: '' (s_ldap_uri s)] @
        map (\<lambda>x. log_string ''settings->ldap_host: '' (Some x)) (s_ldap_host s) @
        [log_int ''settings->ldap_port: '' (s_ldap_port s),
         log_string ''settings->ldap_binddn: '' (s_ldap_binddn s),
         log_string ''settings->ldap_bindpw: '' (s_ldap_bindpw s),
         log_string ''settings->ldap_base: '' (s_ldap_base s),
         log_string ''settings->ldap_user_query: '' (s_ldap_user_query s)] @
        map (\<lambda>x. log_string ''settings->ldap_result_attributes: '' (Some x)) (s_ldap_result_attributes s) @
        [log_string ''settings->ldap_scope: '' (s_ldap_scope s),
         log_int ''settings->ldap_referrals: '' (s_ldap_referrals s),
         log_int ''settings->nexthop_fail_code: '' (s_nexthop_fail_code s),
         log_string ''settings->nexthop_fail_msg: '' (s_nexthop_fail_msg s),
         log_int ''settings->smtpd_timeout: '' (s_smtpd_timeout s) @ lf] @
        map (\<lambda>k. ''settings->smtp_codes: append '' @ k @ ''='' @ log_arg (smf_dict_get (s_smtp_codes s) k))
          (smf_dict_get_keys (s_smtp_codes s))"

definition smf_settings_log :: "smf_settings \<Rightarrow> string list c_result" where
  "smf_settings_log s =
     (case c_read (s_backend s) of
        Inl e \<Rightarrow> Inl e
      | Inr backend \<Rightarrow>
          (case c_read (s_backend_connection s) of
             Inl e \<Rightarrow> Inl e
           | Inr connection \<Rightarrow>
               (case c_read (s_sql_driver s) of
                  Inl e \<Rightarrow> Inl e
                | Inr driver \<Rightarrow> Inr (settings_lines backend connection driver s))))"

section \<open>Lemmas\<close>

lemma settings_log_iff:
  "(\<exists>ls. smf_settings_log s = Inr ls) \<longleftrightarrow>
     s_backend s \<noteq> DanglingP \<and> s_backend_connection s \<noteq> DanglingP \<and> s_sql_driver s \<noteq> DanglingP"
  unfolding smf_settings_log_def
  by (cases "s_backend s"; cases "s_backend_connection s"; cases "s_sql_driver s") simp_all

text \<open>Whether logging goes wrong does not need the lines.\<close>

definition log_fault :: "smf_settings \<Rightarrow> c_fault option" where
  "log_fault s = (case smf_settings_log s of Inl e \<Rightarrow> Some e | Inr _ \<Rightarrow> None)"

lemma log_fault_code [code]:
  "log_fault s =
     (if s_backend s = DanglingP \<or> s_backend_connection s = DanglingP \<or> s_sql_driver s = DanglingP
      then Some DanglingRead else None)"
  unfolding log_fault_def smf_settings_log_def
  by (cases "s_backend s"; cases "s_backend_connection s"; cases "s_sql_driver s") simp_all

text \<open>The passwords of both backends are among the lines.\<close>

lemma settings_log_passwords:
  "smf_settings_log s = Inr ls \<Longrightarrow>
   log_string ''settings->sql_pass: '' (s_sql_pass s) \<in> set ls \<and>
   log_string ''settings->ldap_bindpw: '' (s_ldap_bindpw s) \<in> set ls"
  by (auto simp: smf_settings_log_def settings_lines_def split: sum.splits)

end
