(* ===== verification/Smf_Main.thy ===== *)
theory Smf_Main
  imports Smf_Modules Smf_Settings_Api Smf_Settings_Log
begin

text \<open>
  The program, \<open>main.c\<close>: the options, the configuration, the lookup connection, the checks of the
  queue directory, and the engine.  What the engine's \<open>load\<close> does is a parameter: the two engines of the repository are \<open>smf_pipe_load\<close> of
  \<open>Smf_Pipe\<close>, and \<open>smf_smtpd_load\<close> of \<open>Smf_Start\<close>, put in that place in \<open>Smf_Program\<close>.
\<close>

section \<open>Options\<close>

text \<open>What \<open>getopt_long\<close> returns, option by option; \<open>OptOther\<close> is an unknown one.\<close>

datatype cmd_option = OptHelp | OptDebug | OptFile string | OptOther

text \<open>\<open>None\<close>: the usage is shown and the program ends with 0.\<close>

fun read_options :: "cmd_option list \<Rightarrow> bool \<Rightarrow> string option \<Rightarrow> (bool \<times> string option) option" where
  "read_options [] debug config_file = Some (debug, config_file)"
| "read_options (OptDebug # os) debug config_file = read_options os True config_file"
| "read_options (OptFile f # os) debug config_file = read_options os debug (Some f)"
| "read_options (_ # os) debug config_file = None"

section \<open>Giving up the settings\<close>

text \<open>
  \<open>smf_settings_free\<close> gives every string back.  All of them are owned by the settings alone; three
  fields can point to a block that is gone (\<open>cptr\<close>), and freeing one of those is a second free.
\<close>

definition smf_settings_free :: "smf_settings \<Rightarrow> unit c_result" where
  "smf_settings_free s =
     (case c_free (s_backend s) of
        Inl e \<Rightarrow> Inl e
      | Inr _ \<Rightarrow>
          (case c_free (s_backend_connection s) of
             Inl e \<Rightarrow> Inl e
           | Inr _ \<Rightarrow> c_free (s_sql_driver s)))"

text \<open>Returning an exit code after the settings have been freed.\<close>

definition free_and_return :: "smf_settings \<Rightarrow> int \<Rightarrow> int c_result" where
  "free_and_return s code = map_sum id (\<lambda>_. code) (smf_settings_free s)"

section \<open>The program\<close>

text \<open>The \<open>load\<close> of an engine returns, with the settings as it leaves them, or ends the process, or goes on.\<close>

datatype engine_end = EngineReturns int smf_settings | EngineExits int | EngineRuns

record main_env =
  me_loader :: loader
  me_read :: "string \<Rightarrow> string option"         \<comment> \<open>files that can be opened\<close>
  me_isdir :: "string \<Rightarrow> bool option"          \<comment> \<open>\<open>stat\<close>\<close>
  me_writable :: "string \<Rightarrow> bool"
  me_has_load :: "string \<Rightarrow> bool"
  me_engine :: "string \<Rightarrow> smf_settings \<Rightarrow> engine_end c_result"  \<comment> \<open>\<open>load\<close> of the engine at a path\<close>
  me_lookup :: lookup_env

text \<open>The connection to the user database before anything else runs: the return value and the settings.\<close>

definition connect_backend :: "lookup_env \<Rightarrow> smf_settings \<Rightarrow> (int \<times> smf_settings) c_result" where
  "connect_backend env s =
     (case c_read (s_backend s) of
        Inl e \<Rightarrow> Inl e
      | Inr None \<Rightarrow> Inr (0, s)
      | Inr (Some backend) \<Rightarrow>
          if s_lookup_persistent s \<noteq> 1 then Inr (0, s)
          else if backend = ''ldap'' \<and> le_have_ldap env then smf_lookup_ldap_connect (le_ldap env) (le_random env) s
          else if backend = ''sql'' \<and> le_have_zdb env then smf_lookup_sql_connect (le_sql env) (le_random env) s
          else Inr (0, s))"

datatype queue_dir_check = QueueDirOk | QueueDirMissing | QueueDirNotDir | QueueDirReadOnly

definition check_queue_dir :: "main_env \<Rightarrow> string \<Rightarrow> queue_dir_check" where
  "check_queue_dir env d =
     (case me_isdir env d of
        None \<Rightarrow> QueueDirMissing
      | Some dir \<Rightarrow>
          if \<not> dir then QueueDirNotDir else if \<not> me_writable env d then QueueDirReadOnly else QueueDirOk)"

text \<open>
  The end of \<open>main\<close> after the engine: the connection is given up, then the settings.
\<close>

definition disconnect_backend :: "lookup_env \<Rightarrow> smf_settings \<Rightarrow> smf_settings c_result" where
  "disconnect_backend env s =
     (case c_read (s_backend s) of
        Inl e \<Rightarrow> Inl e
      | Inr None \<Rightarrow> Inr s
      | Inr (Some backend) \<Rightarrow>
          Inr (if s_lookup_persistent s \<noteq> 1 then s
               else if backend = ''ldap'' \<and> le_have_ldap env then smf_lookup_ldap_disconnect s
               else if backend = ''sql'' \<and> le_have_zdb env then smf_lookup_sql_disconnect s
               else s))"

definition main_end :: "lookup_env \<Rightarrow> smf_settings \<Rightarrow> int \<Rightarrow> int c_result" where
  "main_end env s code =
     (case disconnect_backend env s of Inl e \<Rightarrow> Inl e | Inr s1 \<Rightarrow> free_and_return s1 code)"

text \<open>
  \<open>main\<close>.  The return value is the exit code.  When the lookup connection fails, the settings are
  not freed.  The settings are logged before anything is done with them.
\<close>

definition main_run :: "main_env \<Rightarrow> smf_settings \<Rightarrow> int c_result" where
  "main_run env s =
     (case connect_backend (me_lookup env) s of
        Inl e \<Rightarrow> Inl e
      | Inr (rc, s1) \<Rightarrow>
          if rc \<noteq> 0 then Inr (- 1)
          else (case s_queue_dir s1 of
              None \<Rightarrow> Inl NullDeref
            | Some d \<Rightarrow>
                if check_queue_dir env d \<noteq> QueueDirOk then free_and_return s1 (- 1)
                else (case smf_modules_engine_load (me_loader env) (me_has_load env) s1 of
                    Inl e \<Rightarrow> Inl e
                  | Inr None \<Rightarrow> main_end (me_lookup env) s1 (- 1)
                  | Inr (Some engine) \<Rightarrow>
                      (case me_engine env engine s1 of
                         Inl e \<Rightarrow> Inl e
                       | Inr (EngineReturns ret s2) \<Rightarrow> main_end (me_lookup env) s2 ret
                       | Inr (EngineExits code) \<Rightarrow> Inr code
                       | Inr EngineRuns \<Rightarrow> Inl NoReturn))))"

definition smf_main :: "main_env \<Rightarrow> trace_state \<Rightarrow> cmd_option list \<Rightarrow> int c_result option" where
  "smf_main env tr options =
     (case read_options options False None of
        None \<Rightarrow> Some (Inr 0)
      | Some (debug, config_file) \<Rightarrow>
          (case smf_settings_parse_config (me_loader env) (me_read env) config_file (smf_settings_new, tr) of
             None \<Rightarrow> None
           | Some (Inl e) \<Rightarrow> Some (Inl e)
           | Some (Inr (rc, c)) \<Rightarrow>
               if rc \<noteq> 0 then Some (free_and_return (fst c) (- 1))
               else (let s = fst (if debug then snd (smf_settings_set_debug 1 c) else c)
                     in case smf_settings_log s of
                          Inl e \<Rightarrow> Some (Inl e)
                        | Inr _ \<Rightarrow> Some (main_run env s))))"

section \<open>Lemmas\<close>

text \<open>For evaluation: the log lines are not needed.\<close>

lemma smf_main_code [code]:
  "smf_main env tr options =
     (case read_options options False None of
        None \<Rightarrow> Some (Inr 0)
      | Some (debug, config_file) \<Rightarrow>
          (case smf_settings_parse_config (me_loader env) (me_read env) config_file (smf_settings_new, tr) of
             None \<Rightarrow> None
           | Some (Inl e) \<Rightarrow> Some (Inl e)
           | Some (Inr (rc, c)) \<Rightarrow>
               if rc \<noteq> 0 then Some (free_and_return (fst c) (- 1))
               else (let s = fst (if debug then snd (smf_settings_set_debug 1 c) else c)
                     in case log_fault s of
                          Some e \<Rightarrow> Some (Inl e)
                        | None \<Rightarrow> Some (main_run env s))))"
proof -
  have log: "(case smf_settings_log s of Inl e \<Rightarrow> Some (Inl e) | Inr _ \<Rightarrow> Some (main_run env s)) =
      (case log_fault s of Some e \<Rightarrow> Some (Inl e) | None \<Rightarrow> Some (main_run env s))" for s
    by (simp add: log_fault_def split: sum.split)
  show ?thesis unfolding smf_main_def Let_def log ..
qed

lemma free_and_return_Inr: "free_and_return s code = Inr rc \<Longrightarrow> rc = code"
  by (auto simp: free_and_return_def map_sum_def split: sum.splits)

lemma main_end_Inr: "main_end env s code = Inr rc \<Longrightarrow> rc = code"
  by (auto simp: main_end_def split: sum.splits dest: free_and_return_Inr)

text \<open>Freeing goes wrong exactly when one of the three fields points to a block that is gone.\<close>

lemma settings_free_iff:
  "free_and_return s code = Inr code \<longleftrightarrow>
     s_backend s \<noteq> DanglingP \<and> s_backend_connection s \<noteq> DanglingP \<and> s_sql_driver s \<noteq> DanglingP"
  unfolding free_and_return_def smf_settings_free_def
  by (cases "s_backend s"; cases "s_backend_connection s"; cases "s_sql_driver s") simp_all

text \<open>Connecting changes the connection and, for SQLite, the file name: the checked settings stay.\<close>

lemma connect_with_keeps:
  assumes "\<And>h s rc s'. attempt h s = Inr (rc, s') \<Longrightarrow> P s \<Longrightarrow> P s'"
    and "connect_with attempt hosts s = Inr (rc, s')" and "P s"
  shows "P s'"
proof -
  have loop: "failover_loop (\<lambda>h. attempt (Some h)) hs r t = Inr (rc, s') \<Longrightarrow> P t \<Longrightarrow> P s'" for hs r t
    by (induction hs arbitrary: r t) (auto split: sum.splits prod.splits if_splits dest: assms(1))
  from assms(2,3) show ?thesis
    by (auto simp: connect_with_def split: sum.splits prod.splits if_splits dest: assms(1) loop)
qed

lemma ready_connection [simp]: "settings_ready (s\<lparr>s_lookup_connection := c\<rparr>) = settings_ready s"
  by (simp add: settings_ready_def)

lemma ready_debug [simp]: "settings_ready (s\<lparr>s_debug := d\<rparr>) = settings_ready s"
  by (simp add: settings_ready_def)

lemma ready_sql_name:
  "settings_ready s \<Longrightarrow> s_sql_name s = None \<longleftrightarrow> n = None \<Longrightarrow> settings_ready (s\<lparr>s_sql_name := n\<rparr>)"
  by (auto simp: settings_ready_def)

lemma get_dsn_ready:
  "smf_lookup_sql_get_dsn lib rnd s h = Inr (dsn, s') \<Longrightarrow> settings_ready s \<Longrightarrow> settings_ready s'"
  by (auto simp: smf_lookup_sql_get_dsn_def Let_def ready_sql_name split: sum.splits option.splits if_splits)

lemma start_pool_ready:
  "smf_lookup_sql_start_pool lib s dsn = Inr (rc, s') \<Longrightarrow> settings_ready s' = settings_ready s"
  by (auto simp: smf_lookup_sql_start_pool_def smf_lookup_sql_disconnect_def Let_def
      split: option.splits if_splits)

lemma ldap_attempt_ready: "ldap_attempt lib rnd h s = Inr (rc, s') \<Longrightarrow> settings_ready s \<Longrightarrow> settings_ready s'"
  by (auto simp: ldap_attempt_def smf_lookup_ldap_init_ld_def Let_def split: sum.splits)

lemma sql_attempt_ready: "sql_attempt lib rnd h s = Inr (rc, s') \<Longrightarrow> settings_ready s \<Longrightarrow> settings_ready s'"
  by (auto simp: sql_attempt_def split: sum.splits prod.splits dest: get_dsn_ready start_pool_ready)

lemma connect_backend_ready:
  assumes "connect_backend env s = Inr (rc, s')" and "settings_ready s"
  shows "settings_ready s'"
proof -
  have ldap: "settings_ready s'" if "smf_lookup_ldap_connect lib rnd s = Inr (rc, s')" for lib rnd
  proof (cases "s_backend_connection s = NullP")
    case True
    with that assms(2) show ?thesis by (simp add: smf_lookup_ldap_connect_def)
  next
    case False
    with that have "connect_with (ldap_attempt lib rnd) (s_ldap_host s) s = Inr (rc, s')"
      by (simp add: smf_lookup_ldap_connect_def)
    from connect_with_keeps [where P = settings_ready, OF ldap_attempt_ready this assms(2)] show ?thesis .
  qed
  have sql: "settings_ready s'" if "smf_lookup_sql_connect lib rnd s = Inr (rc, s')" for lib rnd
    using connect_with_keeps [where P = settings_ready, OF sql_attempt_ready
        that [unfolded smf_lookup_sql_connect_def] assms(2)] .
  from assms show ?thesis
    by (auto simp: connect_backend_def split: sum.splits option.splits if_splits intro: ldap sql)
qed

lemma engine_load_Some:
  "smf_modules_engine_load ld has_load s = Inr (Some path) \<Longrightarrow> ld_dlopen ld path \<and> has_load path"
  by (auto simp: smf_modules_engine_load_def Let_def split: option.splits if_splits)

end
