(* ===== verification/Smf_Handed.thy ===== *)
theory Smf_Handed
  imports Smf_Relay Smf_Liveness Smf_Main
begin

text \<open>
  When a message counts as delivered: what the success of the processing queue and of the next hop
  says, and what the SMTP daemon tells its client about it.
\<close>

section \<open>Success of the queue\<close>

text \<open>Only the next hop asks anything of libesmtp.\<close>

lemma invoke_sent: "smf_module_invoke pf m st = (r, b, st1) \<Longrightarrow> rs_sent st1 = rs_sent st"
  by (auto simp: smf_module_invoke_def Let_def split: option.splits prod.splits if_splits)

lemma queue_loop_sent:
  "queue_loop pf q ms k ret header stale st = Inr (e, st') \<Longrightarrow>
   rs_sent st' = rs_sent st \<and> (\<forall>r. e = Returned r \<longrightarrow> r \<noteq> 0)"
proof (induction pf q ms k ret header stale st rule: queue_loop.induct)
  case (1 pf q k ret header stale st)
  then show ?case by auto
next
  case (2 pf q m ms k ret header stale st)
  obtain r b st1 where inv: "smf_module_invoke pf m st = (r, b, st1)" by (metis prod_cases3)
  define verdict where "verdict = (if r \<noteq> 0 then q_processing_error q (rs_settings st1) (rs_session st1) r (rs_world st1)
    else Inr (0, rs_world st1))"
  obtain v w where v: "verdict = Inr (v, w)"
    using "2.prems" inv by (cases verdict) (auto simp: verdict_def [symmetric] Let_def)
  let ?st2 = "st1\<lparr>rs_world := w\<rparr>"
  have sent: "rs_sent ?st2 = rs_sent st" using invoke_sent [OF inv] by simp
  consider r' where "e = Returned r'" "r' \<noteq> 0" "st' = ?st2" | header' stale' where "e = Finished 2 header' stale'" "st' = ?st2"
    | header1 where "queue_loop pf q ms (k + 1) v header1 (stale \<or> b) ?st2 = Inr (e, st')"
      "\<not> (r \<noteq> 0 \<and> v = 0)" "\<not> (r \<noteq> 0 \<and> v = 1)" "\<not> (r \<noteq> 0 \<and> v = 2)" "extend_header ?st2 (k + 1) m header = Inr header1"
    using "2.prems" inv v by (auto simp: verdict_def [symmetric] Let_def split: if_splits sum.splits)
  then show ?case
  proof cases
    case (3 header1)
    from "2.IH" [OF inv [symmetric] refl refl refl verdict_def [symmetric, THEN trans, OF v] refl refl 3(2-5) 3(1)] sent
    show ?thesis by simp
  qed (use sent in auto)
qed

lemma flush_sent: "smf_modules_flush_dirty pf hs st = Inr (r, st1) \<Longrightarrow> rs_sent st1 = rs_sent st"
  by (auto simp: smf_modules_flush_dirty_def split: option.splits if_splits prod.splits)

lemma set_header_sent: "set_queue_header pf header stale st = Inr st1 \<Longrightarrow> rs_sent st1 = rs_sent st"
  by (auto simp: set_queue_header_def split: option.splits if_splits)

lemma fetch_sent: "fetch_users pf st = Inr st1 \<Longrightarrow> rs_sent st1 = rs_sent st"
  by (auto simp: fetch_users_def split: sum.splits prod.splits)

lemma process_success:
  assumes "smf_modules_process pf q st = Inr (0, st2)"
  shows "\<exists>st1. call_nexthop pf q st1 = Inr (0, st2) \<and> rs_sent st1 = rs_sent st"
proof -
  obtain m where m: "env_message (ses_envelope (rs_session st)) = Some m"
    using assms by (auto simp: smf_modules_process_def split: option.splits)
  obtain sa where fetch: "fetch_users pf st = Inr sa"
    using assms m by (auto simp: smf_modules_process_def Let_def split: sum.splits)
  let ?h = "if s_add_header (rs_settings st) = 1 then Some x_spmfilter else None"
  obtain e sb where loop: "queue_loop pf q (s_modules (rs_settings sa)) 0 0 ?h False sa = Inr (e, sb)"
    using assms m fetch by (auto simp: smf_modules_process_def Let_def split: sum.splits)
  note sb = queue_loop_sent [OF loop] fetch_sent [OF fetch]
  obtain ret header stale where e: "e = Finished ret header stale"
    using assms m fetch loop sb by (cases e) (auto simp: smf_modules_process_def Let_def)
  then have "finish_queue pf q (map copy_header (msg_headers m)) ret header stale sb = Inr (0, st2)"
    using assms m fetch loop by (simp add: smf_modules_process_def Let_def)
  then obtain sc sd where "set_queue_header pf header stale sb = Inr sc"
      "smf_modules_flush_dirty pf (map copy_header (msg_headers m)) sc = Inr (0, sd)" "call_nexthop pf q sd = Inr (0, st2)"
    by (auto simp: finish_queue_def split: if_splits sum.splits prod.splits)
  with sb show ?thesis
    by (intro exI [of _ sd]) (simp add: set_header_sent flush_sent)
qed

section \<open>Success of the next hop\<close>

text \<open>
  What a next hop has done when it reports success: nothing without one, else the transfer libesmtp
  answered with 250, or a written file.
\<close>

definition handed_on :: "platform \<Rightarrow> run_state \<Rightarrow> bool" where
  "handed_on pf st \<longleftrightarrow>
     (case smf_nexthop_find (pf_os pf) (rs_settings st) of
        None \<Rightarrow> s_nexthop (rs_settings st) = None \<and> rs_sent st = []
      | Some SmtpDelivery \<Rightarrow>
          (\<exists>rq answer. rs_sent st = [rq] \<and> es_session (pf_es pf) rq = Transferred 250 answer \<and>
             env_recipients (ses_envelope (rs_session st)) \<noteq> [])
      | Some FileDelivery \<Rightarrow>
          rs_sent st = [] \<and> (\<exists>dest w0 w1. s_nexthop (rs_settings st) = Some dest \<and>
             file_delivery_nexthop (pf_os pf) (pf_cm pf) w0 dest (rs_session st) = (0, w1)))"

lemma handed_on_world: "handed_on pf (st\<lparr>rs_world := w\<rparr>) = handed_on pf st"
  by (simp add: handed_on_def split: option.split nexthop_function.split)

lemma smtp_success:
  assumes "smtp_delivery_nexthop os cm es w settings session = Inr (0, session', sent)"
  shows "\<exists>rq answer. sent = Some rq \<and> es_session es rq = Transferred 250 answer \<and>
    env_recipients (ses_envelope session') \<noteq> []"
proof -
  obtain env where env: "ses_envelope session' = env"
    and sent: "sent = fst (smf_smtp_deliver os cm es w env (s_tls settings) (ses_message_file session))"
    and code: "st_code (snd (smf_smtp_deliver os cm es w env (s_tls settings) (ses_message_file session))) = 250"
    using assms
    by (auto simp: smtp_delivery_nexthop_def Let_def split: sum.splits prod.splits option.splits if_splits)
  from deliver_code_250 [OF code] sent env show ?thesis by auto
qed

lemma nexthop_success:
  assumes "call_nexthop pf q st1 = Inr (0, st2)" and "rs_sent st1 = []"
  shows "handed_on pf st2"
proof (cases "smf_nexthop_find (pf_os pf) (rs_settings st1)")
  case None
  with assms show ?thesis
    by (auto simp: call_nexthop_def handed_on_def smf_nexthop_find_def split: option.splits if_splits)
next
  case (Some f)
  then obtain se w rq where run: "run_nexthop (pf_os pf) (pf_cm pf) (pf_es pf) f (rs_settings st1) (rs_session st1)
      (rs_world st1) = Inr (0, se, w, rq)"
    and st2: "st2 = st1\<lparr>rs_session := se, rs_world := w, rs_sent := (case rq of None \<Rightarrow> [] | Some x \<Rightarrow> [x])\<rparr>"
    using assms by (auto simp: call_nexthop_def Let_def split: sum.splits prod.splits if_splits)
  show ?thesis
  proof (cases f)
    case FileDelivery
    with run Some st2 show ?thesis
      by (auto simp: handed_on_def run_nexthop_def split: option.splits prod.splits)
  next
    case SmtpDelivery
    with run have "smtp_delivery_nexthop (pf_os pf) (pf_cm pf) (pf_es pf) (rs_world st1) (rs_settings st1)
        (rs_session st1) = Inr (0, se, rq)"
      by (auto simp: run_nexthop_def split: sum.splits)
    from smtp_success [OF this] Some SmtpDelivery st2 show ?thesis by (auto simp: handed_on_def)
  qed
qed

section \<open>What the queue and the next hop return\<close>

lemma flush_result: "smf_modules_flush_dirty pf hs st = Inr (r, st1) \<Longrightarrow> r = 0 \<or> r = - 1"
  by (auto simp: smf_modules_flush_dirty_def flush_message_def replace_file_def Let_def
      split: option.splits if_splits prod.splits)

lemma file_copy_result: "fst (file_copy_loop src dest) = 0 \<or> fst (file_copy_loop src dest) = - 1"
  by (induction src dest rule: file_copy_loop.induct)
    (subst file_copy_loop.simps, auto split: prod.splits wr_result.splits simp: file_copy_loop.simps)

lemma file_delivery_result:
  "file_delivery_nexthop os cm w nexthop session = (r, w') \<Longrightarrow> r = 0 \<or> r = - 1"
  using file_copy_result
  by (auto simp: file_delivery_nexthop_def Let_def split: option.splits prod.splits if_splits)

lemma smtp_delivery_result:
  "smtp_delivery_nexthop os cm es w settings session = Inr (r, session', sent) \<Longrightarrow> r = 0 \<or> r = - 1"
  by (auto simp: smtp_delivery_nexthop_def Let_def split: sum.splits prod.splits option.splits if_splits)

lemma call_nexthop_result: "call_nexthop pf q st = Inr (r, st') \<Longrightarrow> r = 0 \<or> r = - 1"
  by (auto simp: call_nexthop_def run_nexthop_def Let_def
      split: option.splits sum.splits prod.splits if_splits nexthop_function.splits
      dest: file_delivery_result smtp_delivery_result)

section \<open>The settings of the daemon\<close>

text \<open>
  What the daemon says depends on two settings, what a failing module means and the texts of the
  replies.  Fetching user data can change the lookup connection, but not these.
\<close>

definition talk_settings :: "smf_settings \<Rightarrow> int \<times> smf_dict" where
  "talk_settings s = (s_module_fail s, s_smtp_codes s)"

lemma talk_settings_eq:
  "talk_settings s' = talk_settings s \<longleftrightarrow> s_module_fail s' = s_module_fail s \<and> s_smtp_codes s' = s_smtp_codes s"
  by (simp add: talk_settings_def)

lemma ldap_attempt_talk: "ldap_attempt lib rnd h s = Inr (rc, s') \<Longrightarrow> talk_settings s' = talk_settings s"
  by (auto simp: talk_settings_def ldap_attempt_def smf_lookup_ldap_init_ld_def Let_def split: sum.splits)

lemma sql_attempt_talk: "sql_attempt lib rnd h s = Inr (rc, s') \<Longrightarrow> talk_settings s' = talk_settings s"
  by (auto simp: talk_settings_def sql_attempt_def smf_lookup_sql_get_dsn_def smf_lookup_sql_start_pool_def
      smf_lookup_sql_disconnect_def Let_def split: sum.splits prod.splits option.splits if_splits)

lemma connect_talk:
  "(\<And>h s rc s'. attempt h s = Inr (rc, s') \<Longrightarrow> talk_settings s' = talk_settings s) \<Longrightarrow>
   connect_with attempt hosts s = Inr (rc, s') \<Longrightarrow> talk_settings s' = talk_settings s"
  using connect_with_keeps [where P = "\<lambda>t. talk_settings t = talk_settings s" and attempt = attempt] by metis

lemma ldap_connect_talk:
  "connect_with (ldap_attempt lib rnd) hosts s = Inr (rc, s') \<Longrightarrow> talk_settings s' = talk_settings s"
  by (rule connect_talk [where attempt = "ldap_attempt lib rnd"]) (rule ldap_attempt_talk)

lemma sql_connect_talk:
  "connect_with (sql_attempt lib rnd) hosts s = Inr (rc, s') \<Longrightarrow> talk_settings s' = talk_settings s"
  by (rule connect_talk [where attempt = "sql_attempt lib rnd"]) (rule sql_attempt_talk)

lemma ldap_query_talk: "smf_lookup_ldap_query lib rnd s q = Inr (r, s') \<Longrightarrow> talk_settings s' = talk_settings s"
  by (auto simp: talk_settings_eq smf_lookup_ldap_query_def smf_lookup_ldap_get_connection_def smf_lookup_ldap_connect_def
      release_connection_def smf_lookup_ldap_disconnect_def
      split: option.splits sum.splits prod.splits if_splits list.splits dest!: ldap_connect_talk)

lemma sql_query_talk: "smf_lookup_sql_query lib rnd f s q = Inr (r, s') \<Longrightarrow> talk_settings s' = talk_settings s"
  by (auto simp: talk_settings_eq smf_lookup_sql_query_def smf_lookup_sql_connect_def smf_lookup_sql_disconnect_def Let_def
      split: option.splits sum.splits prod.splits if_splits list.splits dest!: sql_connect_talk)

lemma run_lookup_talk:
  assumes "run_lookup env backend s addr = Inr (Some (r, s'))"
  shows "talk_settings s' = talk_settings s"
proof -
  have q: "talk_settings s' = talk_settings s"
    if "backend_query run uq s addr = Inr (Some (r, s'))" "\<And>q r s'. run s q = Inr (r, s') \<Longrightarrow> talk_settings s' = talk_settings s"
    for run uq using that by (auto simp: backend_query_def split: option.splits expansion.splits sum.splits)
  from assms show ?thesis
    by (auto simp: run_lookup_def split: if_splits intro: q ldap_query_talk sql_query_talk)
qed

lemma query_user_talk:
  "smf_internal_query_user env s se addr = Inr (rc, s', se') \<Longrightarrow> talk_settings s' = talk_settings s"
  by (auto simp: smf_internal_query_user_def
      split: if_splits sum.splits option.splits prod.splits dest!: run_lookup_talk)

lemma query_users_talk: "query_users env as s se = Inr (s', se') \<Longrightarrow> talk_settings s' = talk_settings s"
  by (induction as arbitrary: s se) (auto split: sum.splits prod.splits dest: query_user_talk)

lemma fetch_talk: "fetch_users pf st = Inr st1 \<Longrightarrow> talk_settings (rs_settings st1) = talk_settings (rs_settings st)"
  by (auto simp: fetch_users_def smf_internal_fetch_user_data_def
      split: sum.splits prod.splits option.splits if_splits dest: query_users_talk)

lemma fetch_world: "fetch_users pf st = Inr st1 \<Longrightarrow> rs_world st1 = rs_world st"
  by (auto simp: fetch_users_def split: sum.splits prod.splits)

section \<open>One text\<close>

text \<open>Exactly one text, and not an empty one, has been sent between two states of the world.\<close>

definition sent_once :: "world \<Rightarrow> world \<Rightarrow> bool" where
  "sent_once w w' \<longleftrightarrow> (\<exists>t. t \<noteq> [] \<and> w_sock w' = snd (smf_internal_writen t (w_sock w)))"

lemma say_once: "t \<noteq> [] \<Longrightarrow> sent_once w (say t w)"
  by (auto simp: sent_once_def say_def)

lemma once_sock: "sent_once w w' \<Longrightarrow> w_sock v = w_sock w \<Longrightarrow> w_sock v' = w_sock w' \<Longrightarrow> sent_once v v'"
  by (simp add: sent_once_def)

lemma once_from: "sent_once w w' \<Longrightarrow> w_sock w = w_sock v \<Longrightarrow> sent_once v w'"
  by (simp add: sent_once_def)

lemma c_printf_first: "c \<noteq> CHR ''%'' \<Longrightarrow> c_printf (c # r) args = Inr t \<Longrightarrow> \<exists>u. t = c # u \<and> c_printf r args = Inr u"
  by (cases r) (auto simp: map_sum_def split: sum.splits)

lemma c_printf_250:
  assumes "c_printf (''250 '' @ m) args = Inr t"
  shows "\<exists>u. t = ''250 '' @ u \<and> c_printf m args = Inr u"
proof -
  have "c_printf (CHR ''2'' # ''50 '' @ m) args = Inr t" using assms by simp
  from c_printf_first [OF _ this] obtain a where a: "t = CHR ''2'' # a" "c_printf (CHR ''5'' # ''0 '' @ m) args = Inr a" by auto
  from c_printf_first [OF _ a(2)] obtain b where b: "a = CHR ''5'' # b" "c_printf (CHR ''0'' # '' '' @ m) args = Inr b" by auto
  from c_printf_first [OF _ b(2)] obtain c where c: "b = CHR ''0'' # c" "c_printf (CHR '' '' # m) args = Inr c" by auto
  from c_printf_first [OF _ c(2)] obtain d where "c = CHR '' '' # d" "c_printf m args = Inr d" by auto
  with a b c show ?thesis by simp
qed

lemma string_reply_once:
  "c \<noteq> CHR ''%'' \<Longrightarrow> smf_smtpd_string_reply (c # r) args w = Inr w' \<Longrightarrow> sent_once w w'"
  by (auto simp: smf_smtpd_string_reply_def split: sum.splits if_splits dest!: c_printf_first intro: say_once)

lemma string_of_int_first: "\<exists>c r. string_of_int i = c # r \<and> c \<noteq> CHR ''%''"
proof -
  have d: "digit_char k \<noteq> CHR ''%''" if "k < 10" for k
  proof
    assume "digit_char k = CHR ''%''"
    then have "(of_char (digit_char k) :: nat) = 37" by simp
    with that show False by (simp add: digit_char_def)
  qed
  have "\<exists>c r. string_of_nat k = c # r \<and> c \<noteq> CHR ''%''" for k
  proof (induction k rule: string_of_nat.induct)
    case (1 k)
    show ?case using 1 d [of k] by (subst string_of_nat.simps) auto
  qed
  then show ?thesis by (auto simp: string_of_int_def)
qed

lemma number_reply_once:
  "smf_smtpd_string_reply (string_of_int i @ r) args w = Inr w' \<Longrightarrow> sent_once w w'"
  using string_of_int_first [of i] string_reply_once by (metis append_Cons)

lemma code_text_nonempty: "code_text codes c \<noteq> []"
  using string_of_int_first [of c]
  by (auto simp: code_text_def default_code_def CODE_221_def CODE_250_def CODE_451_def CODE_502_def CODE_552_def
      split: option.splits)

lemma code_reply_once: "sent_once w (smf_smtpd_code_reply c codes w)"
  using say_once [OF code_text_nonempty] by (simp add: smf_smtpd_code_reply_def)

section \<open>What the callbacks send\<close>

lemma processing_error_once:
  assumes "smf_smtpd_handle_q_processing_error s se r w = Inr (v, w')" and "s_module_fail s = 2 \<or> s_module_fail s = 3"
  shows "(v = 2 \<and> w' = w) \<or> ((v = 0 \<or> v = 1) \<and> sent_once w w')"
  using assms
  by (auto simp: smf_smtpd_handle_q_processing_error_def map_sum_def CODE_250_ACCEPTED_def code_reply_once
      split: if_splits option.splits sum.splits dest: number_reply_once intro: string_reply_once [rotated])

lemma nexthop_error_once:
  "smf_smtpd_handle_nexthop_error s se w = Inr (v, w') \<Longrightarrow> sent_once w w'"
  by (auto simp: smf_smtpd_handle_nexthop_error_def map_sum_def split: sum.splits dest: number_reply_once)

section \<open>What the queue sends\<close>

text \<open>Modules that leave the socket to the daemon, and alone what it says about failures.\<close>

definition modules_quiet :: "platform \<Rightarrow> bool" where
  "modules_quiet pf \<longleftrightarrow>
     (\<forall>r s se w. case pf_run pf r s se w of
        (_, s', _, w') \<Rightarrow> w_sock w' = w_sock w \<and> talk_settings s' = talk_settings s)"

text \<open>The world for the socket, the settings for the failures: \<open>st'\<close> has both of \<open>st\<close>.\<close>

definition same_talk :: "run_state \<Rightarrow> run_state \<Rightarrow> bool" where
  "same_talk st st' \<longleftrightarrow> w_sock (rs_world st') = w_sock (rs_world st) \<and>
     talk_settings (rs_settings st') = talk_settings (rs_settings st)"

lemma invoke_talk:
  assumes "modules_quiet pf" and "smf_module_invoke pf m st = (r, b, st1)"
  shows "same_talk st st1"
proof (cases "module_runner pf m")
  case None
  with assms(2) show ?thesis by (simp add: smf_module_invoke_def same_talk_def)
next
  case (Some runner)
  obtain res settings session w where run: "pf_run pf runner (rs_settings st) (rs_session st) (rs_world st) =
      (res, settings, session, w)" by (metis prod_cases4)
  have "case pf_run pf runner (rs_settings st) (rs_session st) (rs_world st) of (_, s', _, w') \<Rightarrow>
      w_sock w' = w_sock (rs_world st) \<and> talk_settings s' = talk_settings (rs_settings st)"
    by (rule assms(1) [unfolded modules_quiet_def, THEN spec, THEN spec, THEN spec, THEN spec])
  then have "w_sock w = w_sock (rs_world st) \<and> talk_settings settings = talk_settings (rs_settings st)" by (simp add: run)
  with assms(2) Some run show ?thesis
    by (auto simp: smf_module_invoke_def same_talk_def Let_def split: option.splits if_splits prod.splits)
qed

lemma queue_loop_talk:
  assumes "modules_quiet pf"
  shows "queue_loop pf smtpd_queue ms k ret header stale st = Inr (e, st') \<Longrightarrow> ret = 0 \<Longrightarrow>
    s_module_fail (rs_settings st) = 2 \<or> s_module_fail (rs_settings st) = 3 \<Longrightarrow>
    (\<exists>r. e = Returned r \<and> (r = 1 \<or> r = - 1) \<and> sent_once (rs_world st) (rs_world st')) \<or>
    (\<exists>ret header' stale'. e = Finished ret header' stale' \<and> (ret = 0 \<or> ret = 2) \<and> same_talk st st')"
proof (induction ms arbitrary: k ret header stale st)
  case Nil
  then show ?case by (auto simp: same_talk_def)
next
  case (Cons m ms)
  obtain r b st1 where inv: "smf_module_invoke pf m st = (r, b, st1)" by (metis prod_cases3)
  note t = invoke_talk [OF assms inv]
  obtain v w where v: "(if r \<noteq> 0 then smf_smtpd_handle_q_processing_error (rs_settings st1) (rs_session st1) r (rs_world st1)
      else Inr (0, rs_world st1)) = Inr (v, w)"
    using Cons.prems(1) inv by (cases "r = 0") (auto simp: smtpd_queue_fields Let_def split: sum.splits)
  let ?st2 = "st1\<lparr>rs_world := w\<rparr>"
  show ?case
  proof (cases "r = 0")
    case True
    then have vw: "v = 0" "w = rs_world st1" using v by simp_all
    then have t2: "same_talk st ?st2" using t by (simp add: same_talk_def)
    obtain header1 where "queue_loop pf smtpd_queue ms (k + 1) 0 header1 (stale \<or> b) ?st2 = Inr (e, st')"
      using Cons.prems(1) inv v True vw by (auto simp: smtpd_queue_fields Let_def split: sum.splits)
    from Cons.IH [OF this refl] Cons.prems(3) t2 show ?thesis
      by (auto simp: same_talk_def talk_settings_eq intro: once_sock once_from)
  next
    case False
    then have "smf_smtpd_handle_q_processing_error (rs_settings st1) (rs_session st1) r (rs_world st1) = Inr (v, w)"
      using v by simp
    from processing_error_once [OF this] Cons.prems(3) t
    consider "v = 2" "w = rs_world st1" | "v = 0 \<or> v = 1" "sent_once (rs_world st1) w"
      by (auto simp: same_talk_def talk_settings_eq)
    then show ?thesis
    proof cases
      case 1
      then show ?thesis using Cons.prems(1) inv v False t
        by (auto simp: smtpd_queue_fields Let_def same_talk_def)
    next
      case 2
      then have "sent_once (rs_world st) w" using t by (auto simp: same_talk_def intro: once_sock once_from)
      then show ?thesis using Cons.prems(1) inv v False 2
        by (auto simp: smtpd_queue_fields Let_def)
    qed
  qed
qed

lemma flush_talk: "smf_modules_flush_dirty pf init st = Inr (r, st') \<Longrightarrow> same_talk st st'"
  by (auto simp: smf_modules_flush_dirty_def flush_message_def sys_mkstemp_Some same_talk_def Let_def replace_file_def
      sys_unlink_def sys_rename_def split: option.splits if_splits prod.splits)

lemma run_nexthop_sock:
  "run_nexthop os cm es f settings session w = Inr (r, session', w', rq) \<Longrightarrow> w_sock w' = w_sock w"
  by (auto simp: run_nexthop_def file_delivery_nexthop_def fopen_write_def Let_def
      split: nexthop_function.splits option.splits sum.splits prod.splits if_splits)

lemma call_nexthop_talk:
  assumes "call_nexthop pf smtpd_queue st = Inr (r, st')"
  shows "(r = 0 \<and> w_sock (rs_world st') = w_sock (rs_world st)) \<or> (r = - 1 \<and> sent_once (rs_world st) (rs_world st'))"
  using assms call_nexthop_result [OF assms]
  by (auto simp: call_nexthop_def smtpd_queue_fields Let_def
      split: option.splits sum.splits prod.splits if_splits dest!: run_nexthop_sock nexthop_error_once intro: once_sock once_from)

lemma set_header_talk: "set_queue_header pf header stale st = Inr st1 \<Longrightarrow> same_talk st st1"
  by (auto simp: set_queue_header_def same_talk_def split: option.splits if_splits)

text \<open>Nothing was sent: the queue went through, or the changed headers could not be written.\<close>

lemma process_talk:
  assumes "modules_quiet pf" and "smf_modules_process pf smtpd_queue st = Inr (r, st')"
    and "s_module_fail (rs_settings st) = 2 \<or> s_module_fail (rs_settings st) = 3"
  shows "(r = 0 \<and> w_sock (rs_world st') = w_sock (rs_world st)) \<or>
    ((r = 1 \<or> r = - 1) \<and> sent_once (rs_world st) (rs_world st')) \<or>
    (r = - 1 \<and> w_sock (rs_world st') = w_sock (rs_world st) \<and> (\<exists>hs sa. smf_modules_flush_dirty pf hs sa = Inr (- 1, st')))"
proof -
  obtain init header st1 where f: "fetch_users pf st = Inr st1"
    and q: "(case queue_loop pf smtpd_queue (s_modules (rs_settings st1)) 0 0 header False st1 of
        Inl e \<Rightarrow> Inl e
      | Inr (Returned r, st2) \<Rightarrow> Inr (r, st2)
      | Inr (Finished ret header1 stale, st2) \<Rightarrow> finish_queue pf smtpd_queue init ret header1 stale st2) = Inr (r, st')"
    using assms(2) by (auto simp: smf_modules_process_def Let_def split: option.splits sum.splits)
  obtain e st2 where e: "queue_loop pf smtpd_queue (s_modules (rs_settings st1)) 0 0 header False st1 = Inr (e, st2)"
    using q by (auto split: sum.splits)
  have w1: "rs_world st1 = rs_world st" by (rule fetch_world [OF f])
  from queue_loop_talk [OF assms(1) e refl] assms(3) fetch_talk [OF f, unfolded talk_settings_eq]
  consider r' where "e = Returned r'" "r' = 1 \<or> r' = - 1" "sent_once (rs_world st1) (rs_world st2)"
    | ret header' stale' where "e = Finished ret header' stale'" "ret = 0 \<or> ret = 2" "same_talk st1 st2" by auto
  then show ?thesis
  proof cases
    case (1 r')
    with q e w1 show ?thesis by auto
  next
    case (2 ret header' stale')
    then have "finish_queue pf smtpd_queue init ret header' stale' st2 = Inr (r, st')" using q e by simp
    then obtain st3 r4 st4 where st3: "set_queue_header pf header' stale' st2 = Inr st3"
      and st4: "smf_modules_flush_dirty pf init st3 = Inr (r4, st4)"
      and fin: "(if r4 \<noteq> 0 then Inr (r4, st4) else call_nexthop pf smtpd_queue st4) = Inr (r, st')"
      using 2(2) by (auto simp: finish_queue_def split: sum.splits prod.splits)
    have s4: "w_sock (rs_world st4) = w_sock (rs_world st)"
      using set_header_talk [OF st3] flush_talk [OF st4] 2(3) w1 by (simp add: same_talk_def)
    show ?thesis
    proof (cases "r4 = 0")
      case True
      with fin have "call_nexthop pf smtpd_queue st4 = Inr (r, st')" by simp
      from call_nexthop_talk [OF this] s4 show ?thesis by (auto intro: once_sock once_from)
    next
      case False
      with fin flush_result [OF st4] st4 s4 show ?thesis by auto
    qed
  qed
qed

text \<open>However processing ends, the daemon goes on with the same texts.\<close>

lemma queue_loop_settings:
  "modules_quiet pf \<Longrightarrow> queue_loop pf q ms k ret header stale st = Inr (e, st') \<Longrightarrow>
   talk_settings (rs_settings st') = talk_settings (rs_settings st)"
proof (induction pf q ms k ret header stale st rule: queue_loop.induct)
  case (1 pf q k ret header stale st)
  then show ?case by simp
next
  case (2 pf q m ms k ret header stale st)
  obtain r b st1 where inv: "smf_module_invoke pf m st = (r, b, st1)" by (metis prod_cases3)
  define verdict where "verdict = (if r \<noteq> 0 then q_processing_error q (rs_settings st1) (rs_session st1) r (rs_world st1)
    else Inr (0, rs_world st1))"
  obtain v w where v: "verdict = Inr (v, w)"
    using "2.prems" inv by (cases verdict) (auto simp: verdict_def [symmetric] Let_def)
  have t: "talk_settings (rs_settings (st1\<lparr>rs_world := w\<rparr>)) = talk_settings (rs_settings st)"
    using invoke_talk [OF "2.prems"(1) inv] by (simp add: same_talk_def)
  consider "st' = st1\<lparr>rs_world := w\<rparr>"
    | header1 where "queue_loop pf q ms (k + 1) v header1 (stale \<or> b) (st1\<lparr>rs_world := w\<rparr>) = Inr (e, st')"
      "\<not> (r \<noteq> 0 \<and> v = 0)" "\<not> (r \<noteq> 0 \<and> v = 1)" "\<not> (r \<noteq> 0 \<and> v = 2)"
      "extend_header (st1\<lparr>rs_world := w\<rparr>) (k + 1) m header = Inr header1"
    using "2.prems" inv v by (auto simp: verdict_def [symmetric] Let_def split: if_splits sum.splits)
  then show ?case
  proof cases
    case (2 header1)
    from "2.IH" [OF inv [symmetric] refl refl refl verdict_def [symmetric, THEN trans, OF v] refl refl 2(2-5) "2.prems"(1) 2(1)] t
    show ?thesis by simp
  qed (use t in simp)
qed

lemma call_nexthop_settings: "call_nexthop pf q st = Inr (r, st') \<Longrightarrow> rs_settings st' = rs_settings st"
  by (auto simp: call_nexthop_def Let_def split: option.splits sum.splits prod.splits if_splits)

lemma process_settings:
  assumes "modules_quiet pf" and "smf_modules_process pf q st = Inr (r, st')"
  shows "talk_settings (rs_settings st') = talk_settings (rs_settings st)"
proof -
  obtain init header st1 where f: "fetch_users pf st = Inr st1"
    and q: "(case queue_loop pf q (s_modules (rs_settings st1)) 0 0 header False st1 of
        Inl e \<Rightarrow> Inl e
      | Inr (Returned r, st2) \<Rightarrow> Inr (r, st2)
      | Inr (Finished ret header1 stale, st2) \<Rightarrow> finish_queue pf q init ret header1 stale st2) = Inr (r, st')"
    using assms(2) by (auto simp: smf_modules_process_def Let_def split: option.splits sum.splits)
  obtain e st2 where e: "queue_loop pf q (s_modules (rs_settings st1)) 0 0 header False st1 = Inr (e, st2)"
    using q by (auto split: sum.splits)
  have "talk_settings (rs_settings st') = talk_settings (rs_settings st2)"
    using q e
    by (cases e) (auto simp: finish_queue_def same_talk_def split: if_splits sum.splits prod.splits
        dest!: set_header_talk flush_talk call_nexthop_settings)
  with queue_loop_settings [OF assms(1) e] fetch_talk [OF f] show ?thesis by simp
qed

end
