(* ===== verification/Smf_Accept.thy ===== *)
theory Smf_Accept
  imports Smf_Handed
begin

text \<open>
  What the client hears after a message: the daemon takes over the responsibility for it, with a
  reply 250 of its own, only when the next hop has it, and every message gets one final reply, unless
  the changed headers cannot be written to the queue file.
\<close>

section \<open>Reading leaves the output alone\<close>

lemma readcbuf_out: "smf_internal_readcbuf rl f = (r, rl', f') \<Longrightarrow> fd_out f' = fd_out f \<and> fd_wr f' = fd_wr f"
proof (induction rl f arbitrary: r rl' f' rule: smf_internal_readcbuf.induct)
  case (1 rl f)
  show ?case
  proof (cases "rl_unread rl")
    case (Cons c s)
    with "1.prems" show ?thesis by (subst (asm) smf_internal_readcbuf.simps) auto
  next
    case Nil
    obtain q f1 where rd: "sys_read rl_bufsize f = (q, f1)" by fastforce
    note fr = sys_read_frame [OF rd]
    show ?thesis
    proof (cases q)
      case Intr
      then have "smf_internal_readcbuf rl f1 = (r, rl', f')"
        using "1.prems" Nil rd by (subst (asm) smf_internal_readcbuf.simps) simp
      from "1.IH" [OF Nil rd [symmetric] Intr this] fr show ?thesis by simp
    next
      case Failed
      then show ?thesis using "1.prems" Nil rd fr by (subst (asm) smf_internal_readcbuf.simps) auto
    next
      case (Got s)
      then show ?thesis using "1.prems" Nil rd fr
        by (subst (asm) smf_internal_readcbuf.simps) (auto split: list.splits)
    qed
  qed
qed

lemma readline_loop_out:
  "readline_loop k acc c rl f = (r, rl', f') \<Longrightarrow> fd_out f' = fd_out f \<and> fd_wr f' = fd_wr f"
proof (induction k acc c rl f rule: readline_loop.induct)
  case (1 acc c rl f)
  then show ?case by simp
next
  case (2 k acc c rl f)
  obtain q rl1 f1 where cb: "smf_internal_readcbuf rl f = (q, rl1, f1)" by (metis prod_cases3)
  note fr = readcbuf_out [OF cb]
  show ?case
  proof (cases q)
    case (RcChar ch)
    show ?thesis
    proof (cases "ch = LF")
      case True
      with "2.prems" cb RcChar fr show ?thesis by simp
    next
      case False
      then have "readline_loop k (acc @ [ch]) ch rl1 f1 = (r, rl', f')" using "2.prems" cb RcChar by simp
      from "2.IH" [OF cb [symmetric] RcChar refl False this] fr show ?thesis by simp
    qed
  qed (use "2.prems" cb fr in auto)
qed

lemma readline_out:
  "smf_internal_readline n help f = Inr (r, rl', f') \<Longrightarrow> fd_out f' = fd_out f \<and> fd_wr f' = fd_wr f"
  by (auto simp: smf_internal_readline_def Let_def split: if_splits prod.splits dest: readline_loop_out)

lemma data_loop_out:
  "data_loop rl sock ds = (ds', r, sock') \<Longrightarrow> fd_out sock' = fd_out sock \<and> fd_wr sock' = fd_wr sock"
proof (induction rl sock ds rule: data_loop.induct)
  case (1 rl sock ds)
  show ?case
  proof (cases "smf_internal_readline 1024 rl sock")
    case (Inl e)
    with "1.prems" show ?thesis by (subst (asm) data_loop.simps) simp
  next
    case (Inr x)
    obtain q rl1 s1 where x: "x = (q, rl1, s1)" by (metis prod_cases3)
    note fr = readline_out [OF Inr [unfolded x]]
    show ?thesis
    proof (cases q)
      case (LineGot br line)
      obtain ds1 stop where st: "data_step ds br line = (ds1, stop)" by fastforce
      show ?thesis
      proof (cases stop)
        case True
        with "1.prems" Inr x LineGot st fr show ?thesis by (subst (asm) data_loop.simps) simp
      next
        case False
        then have "data_loop rl1 s1 ds1 = (ds', r, sock')"
          using "1.prems" Inr x LineGot st by (subst (asm) data_loop.simps) simp
        from "1.IH" [OF Inr x [symmetric] LineGot refl st [symmetric] False this] fr show ?thesis by simp
      qed
    qed (use "1.prems" Inr x fr in \<open>subst (asm) data_loop.simps, simp\<close>)+
  qed
qed

section \<open>What the queue returns to the daemon\<close>

lemma processing_error_verdict:
  "smf_smtpd_handle_q_processing_error s se r w = Inr (v, w') \<Longrightarrow> v = 0 \<or> v = 1 \<or> v = 2"
  by (auto simp: smf_smtpd_handle_q_processing_error_def map_sum_def split: if_splits option.splits sum.splits)

lemma queue_loop_result:
  "queue_loop pf smtpd_queue ms k ret header stale st = Inr (e, st') \<Longrightarrow> ret = 0 \<Longrightarrow>
   (\<exists>r. e = Returned r \<and> (r = 1 \<or> r = - 1)) \<or> (\<exists>ret header' stale'. e = Finished ret header' stale' \<and> (ret = 0 \<or> ret = 2))"
proof (induction ms arbitrary: k ret header stale st)
  case Nil
  then show ?case by auto
next
  case (Cons m ms)
  obtain r b st1 where inv: "smf_module_invoke pf m st = (r, b, st1)" by (metis prod_cases3)
  obtain v w where v: "(if r \<noteq> 0 then smf_smtpd_handle_q_processing_error (rs_settings st1) (rs_session st1) r (rs_world st1)
      else Inr (0, rs_world st1)) = Inr (v, w)"
    using Cons.prems(1) inv by (cases "r = 0") (auto simp: smtpd_queue_fields Let_def split: sum.splits)
  show ?case
  proof (cases "r = 0")
    case True
    then obtain header1 where "queue_loop pf smtpd_queue ms (k + 1) 0 header1 (stale \<or> b) (st1\<lparr>rs_world := w\<rparr>) = Inr (e, st')"
      using Cons.prems(1) inv v by (auto simp: smtpd_queue_fields Let_def split: sum.splits)
    from Cons.IH [OF this refl] show ?thesis .
  next
    case False
    then have "v = 0 \<or> v = 1 \<or> v = 2" using v processing_error_verdict by auto
    then consider "v = 0 \<or> v = 1" | "v = 2" by blast
    then show ?thesis
    proof cases
      case 1
      then show ?thesis using Cons.prems(1) inv v False by (auto simp: smtpd_queue_fields Let_def)
    next
      case 2
      then have "e = Finished 2 header (stale \<or> b)"
        using Cons.prems(1) inv v False by (simp add: smtpd_queue_fields Let_def)
      then show ?thesis by blast
    qed
  qed
qed

lemma process_result:
  assumes "smf_modules_process pf smtpd_queue st = Inr (r, st')"
  shows "r = 0 \<or> r = 1 \<or> r = - 1"
proof -
  obtain init header st1 where q: "(case queue_loop pf smtpd_queue (s_modules (rs_settings st1)) 0 0 header False st1 of
        Inl e \<Rightarrow> Inl e
      | Inr (Returned r, st2) \<Rightarrow> Inr (r, st2)
      | Inr (Finished ret header1 stale, st2) \<Rightarrow> finish_queue pf smtpd_queue init ret header1 stale st2) = Inr (r, st')"
    using assms by (auto simp: smf_modules_process_def Let_def split: option.splits sum.splits)
  obtain e st2 where e: "queue_loop pf smtpd_queue (s_modules (rs_settings st1)) 0 0 header False st1 = Inr (e, st2)"
    using q by (auto split: sum.splits)
  from queue_loop_result [OF e refl] show ?thesis using q e
    by (auto simp: finish_queue_def split: sum.splits prod.splits if_splits dest: flush_result call_nexthop_result)
qed

lemma reply_250:
  "smf_smtpd_string_reply (''250 '' @ m) args w = Inr w' \<Longrightarrow> \<exists>u. w' = say (''250 '' @ u) w"
  unfolding smf_smtpd_string_reply_def
  by (cases "c_printf (''250 '' @ m) args") (auto simp del: append_Cons c_printf.simps dest!: c_printf_250)

lemma processed_reply:
  assumes "(case msg of
      Some m \<Rightarrow> smf_smtpd_string_reply (''250 '' @ m @ crlf) [] w
    | None \<Rightarrow> smf_smtpd_string_reply (''250 Ok: processed as '' @ i @ crlf) [] w) = Inr w'"
  shows "\<exists>u. w' = say (''250 '' @ u) w"
proof (cases msg)
  case None
  then have "smf_smtpd_string_reply (''250 '' @ (''Ok: processed as '' @ i @ crlf)) [] w = Inr w'" using assms by simp
  then show ?thesis by (rule reply_250)
next
  case (Some m)
  with assms have "smf_smtpd_string_reply (''250 '' @ (m @ crlf)) [] w = Inr w'" by simp
  then show ?thesis by (rule reply_250)
qed


section \<open>Every message is answered\<close>

text \<open>What the daemon may leave unsaid: the changed headers could not be written to the queue file.\<close>

definition flush_failed :: "platform \<Rightarrow> run_state \<Rightarrow> bool" where
  "flush_failed pf st \<longleftrightarrow> (\<exists>hs sa. smf_modules_flush_dirty pf hs sa = Inr (- 1, st))"

lemma processed_once:
  assumes "(case msg of
      Some m \<Rightarrow> smf_smtpd_string_reply (''250 '' @ m @ crlf) [] w
    | None \<Rightarrow> smf_smtpd_string_reply (''250 Ok: processed as '' @ i @ crlf) [] w) = Inr w'"
  shows "sent_once w w'"
  using processed_reply [OF assms] say_once by auto

lemma process_modules_talk:
  assumes "modules_quiet pf" and "smf_smtpd_process_modules pf st = Inr (r, st')"
    and "s_module_fail (rs_settings st) = 2 \<or> s_module_fail (rs_settings st) = 3"
  shows "sent_once (rs_world st) (rs_world st') \<or>
    (w_sock (rs_world st') = w_sock (rs_world st) \<and> flush_failed pf st')"
proof -
  obtain ret st1 where p: "smf_modules_process pf smtpd_queue st = Inr (ret, st1)"
    using assms(2) by (auto simp: smf_smtpd_process_modules_def split: sum.splits)
  note q = assms(2) [unfolded smf_smtpd_process_modules_def p]
  from process_talk [OF assms(1) p assms(3)]
  consider "ret = 0" "w_sock (rs_world st1) = w_sock (rs_world st)"
    | "ret = 1 \<or> ret = - 1" "sent_once (rs_world st) (rs_world st1)"
    | "ret = - 1" "w_sock (rs_world st1) = w_sock (rs_world st)" "flush_failed pf st1"
    unfolding flush_failed_def by blast
  then show ?thesis
  proof cases
    case 1
    obtain w where w: "st' = st1\<lparr>rs_world := w\<rparr>"
      and c: "(case ses_response_msg (rs_session st1) of
             Some msg \<Rightarrow> smf_smtpd_string_reply (''250 '' @ msg @ crlf) [] (rs_world st1)
           | None \<Rightarrow> smf_smtpd_string_reply (''250 Ok: processed as '' @ ses_id (rs_session st1) @ crlf) [] (rs_world st1)) = Inr w"
      using q 1(1) by (auto simp: map_sum_def split: sum.splits)
    from processed_once [OF c] w 1(2) show ?thesis by (auto intro: once_from)
  qed (use q in auto)
qed

lemma remove_spool_sock: "remove_spool pf st = Inr st' \<Longrightarrow> w_sock (rs_world st') = w_sock (rs_world st)"
  by (auto simp: remove_spool_def smf_frame split: option.splits)

lemma reply_code_once: "sent_once (rs_world st) (rs_world (reply_code c st))"
  by (simp add: reply_code_def with_world_def code_reply_once)

lemma size_error_once: "smf_smtpd_string_reply size_error [] w = Inr w' \<Longrightarrow> sent_once w w'"
  unfolding size_error_def by (rule string_reply_once [where c = "CHR ''5''"]) simp_all

lemma data_process_cases:
  assumes "data_process env st = Inr st'" and "\<not> message_too_big st"
  shows "st' = reply_code 451 st \<or>
    (\<exists>m r st1. smf_smtpd_process_modules (sv_pf env)
         (st\<lparr>rs_session := with_envelope (\<lambda>e. e\<lparr>env_message := Some m\<rparr>) (rs_session st)\<rparr>) = Inr (r, st1) \<and>
       remove_spool (sv_pf env) st1 = Inr st')"
  using assms unfolding data_process_def by (simp split: option.splits prod.splits if_splits sum.splits) blast+

lemma data_process_talk:
  assumes "modules_quiet (sv_pf env)" and "data_process env st = Inr st'"
    and "s_module_fail (rs_settings st) = 2 \<or> s_module_fail (rs_settings st) = 3"
  shows "sent_once (rs_world st) (rs_world st') \<or>
    (w_sock (rs_world st') = w_sock (rs_world st) \<and>
     (\<exists>sb. flush_failed (sv_pf env) sb \<and> remove_spool (sv_pf env) sb = Inr st'))"
proof (cases "message_too_big st")
  case True
  then obtain w where "smf_smtpd_string_reply size_error [] (rs_world st) = Inr w"
      "remove_spool (sv_pf env) (st\<lparr>rs_world := w\<rparr>) = Inr st'"
    using assms(2) by (auto simp: data_process_def split: sum.splits)
  then show ?thesis
    by (auto dest!: size_error_once remove_spool_sock intro: once_sock)
next
  case False
  from data_process_cases [OF assms(2) False] consider "st' = reply_code 451 st"
    | m r st1 where "smf_smtpd_process_modules (sv_pf env)
          (st\<lparr>rs_session := with_envelope (\<lambda>e. e\<lparr>env_message := Some m\<rparr>) (rs_session st)\<rparr>) = Inr (r, st1)"
        "remove_spool (sv_pf env) st1 = Inr st'" by blast
  then show ?thesis
  proof cases
    case 1
    then show ?thesis by (simp add: reply_code_once)
  next
    case 2
    from process_modules_talk [OF assms(1) 2(1)] remove_spool_sock [OF 2(2)] assms(3) 2(2) show ?thesis
      by (auto intro: once_sock)
  qed
qed

lemma missing_headers_sock:
  "smf_smtpd_append_missing_headers env session dir ls w = Inr (r, w') \<Longrightarrow> w_sock w' = w_sock w"
  by (auto simp: smf_smtpd_append_missing_headers_def sys_mkstemp_Some fopen_write_def Let_def replace_file_def
      sys_unlink_def sys_rename_def split: option.splits if_splits prod.splits bool.splits)

lemma data_complete_sock:
  "data_complete env ds st = Inr st' \<Longrightarrow>
   w_sock (rs_world st') = w_sock (rs_world st) \<and> rs_settings st' = rs_settings st"
  by (auto simp: data_complete_def Let_def split: if_splits sum.splits prod.splits dest: missing_headers_sock)

lemma process_modules_settings:
  assumes "modules_quiet pf" and "smf_smtpd_process_modules pf st = Inr (r, st')"
  shows "talk_settings (rs_settings st') = talk_settings (rs_settings st)"
proof -
  obtain ret st1 where p: "smf_modules_process pf smtpd_queue st = Inr (ret, st1)"
    using assms(2) by (auto simp: smf_smtpd_process_modules_def split: sum.splits)
  have "rs_settings st' = rs_settings st1"
    using assms(2) p by (auto simp: smf_smtpd_process_modules_def map_sum_def split: sum.splits if_splits)
  with process_settings [OF assms(1) p] show ?thesis by simp
qed

lemma remove_spool_settings: "remove_spool pf st = Inr st' \<Longrightarrow> rs_settings st' = rs_settings st"
  by (auto simp: remove_spool_def split: option.splits)

lemma data_process_settings:
  assumes "modules_quiet (sv_pf env)" and "data_process env st = Inr st'"
  shows "talk_settings (rs_settings st') = talk_settings (rs_settings st)"
proof (cases "message_too_big st")
  case True
  with assms(2) show ?thesis
    by (auto simp: data_process_def split: sum.splits dest!: remove_spool_settings)
next
  case False
  from data_process_cases [OF assms(2) False] show ?thesis
    by (auto simp: reply_code_def with_world_def dest!: remove_spool_settings process_modules_settings [OF assms(1)])
qed

text \<open>
  The socket through \<open>DATA\<close>: the refusal, or the prompt, then what the client sends, then one text or,
  when the headers could not be flushed, none.
\<close>

lemma process_data_talk:
  assumes "smf_smtpd_process_data env st = Inr st'" and "modules_quiet (sv_pf env)"
    and "s_module_fail (rs_settings st) = 2 \<or> s_module_fail (rs_settings st) = 3"
  shows "talk_settings (rs_settings st') = talk_settings (rs_settings st) \<and>
    (((\<exists>n. \<not> os_may_open (pf_os (sv_pf env)) n) \<and>
      w_sock (rs_world st') = snd (smf_internal_writen (code_text (s_smtp_codes (rs_settings st)) 451) (w_sock (rs_world st)))) \<or>
     (\<exists>ds0 ds r sock. data_loop None (snd (smf_internal_writen data_prompt (w_sock (rs_world st)))) ds0 = (ds, r, sock) \<and>
        ((\<exists>t. t \<noteq> [] \<and> w_sock (rs_world st') = snd (smf_internal_writen t sock)) \<or>
         (w_sock (rs_world st') = sock \<and>
          (\<exists>sb. flush_failed (sv_pf env) sb \<and> remove_spool (sv_pf env) sb = Inr st')))))"
proof -
  define os where "os = pf_os (sv_pf env)"
  define gen where "gen = smf_core_gen_queue_file (\<lambda>t. os_mkstemp os t (w_files (rs_world st)))
      (c_string (s_queue_dir (rs_settings st))) (ses_id (rs_session st))"
  define w1 where "w1 = (if fst gen = 0 then put_file (snd gen) [] (rs_world st) else rs_world st)"
  have w1: "w_sock w1 = w_sock (rs_world st)" by (simp add: w1_def)
  note eq = assms(1) [unfolded smf_smtpd_process_data_def Let_def, folded os_def, folded gen_def, folded w1_def]
  show ?thesis
  proof (cases "fopen_write os (snd gen) w1")
    case None
    then have "\<not> os_may_open os (snd gen)" by (auto simp: fopen_write_def split: if_splits)
    moreover have "st' = reply_code 451 (st\<lparr>rs_session := (rs_session st)\<lparr>ses_message_file := Some (snd gen)\<rparr>, rs_world := w1\<rparr>)"
      using eq None by simp
    ultimately show ?thesis
      using w1 by (auto simp: os_def reply_code_def with_world_def smf_smtpd_code_reply_def say_def)
  next
    case (Some w2)
    then have w2: "w_sock w2 = w_sock w1" by (auto simp: fopen_write_def split: if_splits)
    define w3 where "w3 = say data_prompt w2"
    define ds0 where "ds0 = data_start (file_fd os (snd gen) []) (ses_message_size (rs_session st))"
    obtain ds r sock where loop: "data_loop None (w_sock w3) ds0 = (ds, r, sock)" by (metis prod_cases3)
    define st1 where "st1 = st\<lparr>rs_session := (rs_session st)\<lparr>ses_message_file := Some (snd gen), ses_message_size := ds_size ds\<rparr>,
      rs_world := put_file (snd gen) (fd_out (ds_spool ds)) (w3\<lparr>w_sock := sock\<rparr>)\<rparr>"
    obtain st2 where st2: "data_complete env ds st1 = Inr st2" "data_process env st2 = Inr st'"
      using eq Some loop by (auto simp: w3_def ds0_def st1_def split: sum.splits)
    have f: "w_sock (rs_world st2) = sock" "rs_settings st2 = rs_settings st"
      using data_complete_sock [OF st2(1)] by (simp_all add: st1_def)
    have prompt: "w_sock w3 = snd (smf_internal_writen data_prompt (w_sock (rs_world st)))"
      using w1 w2 by (simp add: w3_def say_def)
    have "(\<exists>t. t \<noteq> [] \<and> w_sock (rs_world st') = snd (smf_internal_writen t sock)) \<or>
        (w_sock (rs_world st') = sock \<and> (\<exists>sb. flush_failed (sv_pf env) sb \<and> remove_spool (sv_pf env) sb = Inr st'))"
      using data_process_talk [OF assms(2) st2(2)] assms(3) f by (simp add: sent_once_def)
    moreover have "talk_settings (rs_settings st') = talk_settings (rs_settings st)"
      using data_process_settings [OF assms(2) st2(2)] f by simp
    ultimately show ?thesis using loop unfolding prompt by blast
  qed
qed

text \<open>
  Every message gets its final reply: when \<open>DATA\<close> returns, the client has been sent
  either one text that refuses it (the spool file cannot be opened), or the prompt 354 and then,
  whatever the client sent, modules did and the next hop said, exactly one more text.  The one
  exception is that the changed headers could not be written to the spool file
  (\<open>smf_modules_flush_dirty\<close> returned -1): then the spool file is removed all the same, the daemon
  says nothing and waits for the next command.  With the documented settings \<open>module_fail\<close>
  2 and 3, modules that do not write to the socket, and a socket that takes what is written.
\<close>

theorem smf_smtpd_data_answered:
  assumes "smf_smtpd_process_data env st = Inr st'" and "modules_quiet (sv_pf env)"
    and "s_module_fail (rs_settings st) = 2 \<or> s_module_fail (rs_settings st) = 3"
    and "accepts (fd_wr (w_sock (rs_world st)))"
  shows "fd_out (w_sock (rs_world st')) = fd_out (w_sock (rs_world st)) @ code_text (s_smtp_codes (rs_settings st)) 451 \<or>
    (\<exists>t. t \<noteq> [] \<and> fd_out (w_sock (rs_world st')) = fd_out (w_sock (rs_world st)) @ data_prompt @ t) \<or>
    (fd_out (w_sock (rs_world st')) = fd_out (w_sock (rs_world st)) @ data_prompt \<and>
     (\<exists>hs sa sb. smf_modules_flush_dirty (sv_pf env) hs sa = Inr (- 1, sb) \<and> remove_spool (sv_pf env) sb = Inr st'))"
proof -
  let ?out = "fd_out (w_sock (rs_world st))"
  have out: "fd_out (snd (smf_internal_writen t f)) = fd_out f @ t" if "accepts (fd_wr f)" for t f
    using that by (rule smf_internal_writen_out)
  let ?sock = "snd (smf_internal_writen data_prompt (w_sock (rs_world st)))"
  have prompt: "fd_out ?sock = ?out @ data_prompt" "accepts (fd_wr ?sock)"
    using assms(4) by (simp_all add: out smf_internal_writen_accepts)
  from process_data_talk [OF assms(1-3)] consider
      "w_sock (rs_world st') = snd (smf_internal_writen (code_text (s_smtp_codes (rs_settings st)) 451) (w_sock (rs_world st)))"
    | ds0 ds r sock where "data_loop None ?sock ds0 = (ds, r, sock)"
      "(\<exists>t. t \<noteq> [] \<and> w_sock (rs_world st') = snd (smf_internal_writen t sock)) \<or>
       (w_sock (rs_world st') = sock \<and> (\<exists>sb. flush_failed (sv_pf env) sb \<and> remove_spool (sv_pf env) sb = Inr st'))"
    by blast
  then show ?thesis
  proof cases
    case 1
    with out [OF assms(4)] show ?thesis by simp
  next
    case (2 ds0 ds r sock)
    then have "fd_out sock = ?out @ data_prompt" "accepts (fd_wr sock)"
      using data_loop_out [OF 2(1)] prompt by simp_all
    with 2(2) out [of sock] show ?thesis unfolding flush_failed_def by auto
  qed
qed

text \<open>A daemon whose only module refuses the message: the client hears the text of an error.\<close>

definition ex_refusal :: run_state where
  "ex_refusal = ex_dialogue\<lparr>rs_settings := ex_settings [\<lparr>mod_name = ''deny'', mod_target = Callback ''deny''\<rparr>],
     rs_world := ex_world\<lparr>w_sock := \<lparr>fd_in = [RdData (''.'' @ crlf)], fd_wr = [], fd_out = []\<rparr>\<rparr>\<rparr>"

lemma ex_daemon_quiet: "modules_quiet (sv_pf ex_daemon)"
  by (simp add: modules_quiet_def ex_daemon_def ex_env_def ex_pf_def)

lemma ex_refusal_run:
  "map_sum id (\<lambda>st. fd_out (w_sock (rs_world st))) (smf_smtpd_process_data ex_daemon ex_refusal) =
     Inr (data_prompt @ CODE_451)"
  by code_simp

lemma smf_smtpd_data_answered_witness:
  "\<exists>st'. smf_smtpd_process_data ex_daemon ex_refusal = Inr st' \<and>
     (\<exists>t. t \<noteq> [] \<and> fd_out (w_sock (rs_world st')) = data_prompt @ t)"
proof -
  obtain st' where st': "smf_smtpd_process_data ex_daemon ex_refusal = Inr st'"
    and sent: "fd_out (w_sock (rs_world st')) = data_prompt @ CODE_451"
    using ex_refusal_run by (cases "smf_smtpd_process_data ex_daemon ex_refusal") auto
  have fail: "s_module_fail (rs_settings ex_refusal) = 2 \<or> s_module_fail (rs_settings ex_refusal) = 3"
    by (simp add: ex_refusal_def ex_settings_def smf_settings_new_def)
  have acc: "accepts (fd_wr (w_sock (rs_world ex_refusal)))" by (simp add: ex_refusal_def)
  have none: "fd_out (w_sock (rs_world ex_refusal)) = []" by (simp add: ex_refusal_def)
  have first: "data_prompt @ CODE_451 \<noteq> code_text (s_smtp_codes (rs_settings ex_refusal)) 451" by code_simp
  have ne: "CODE_451 \<noteq> []" by (simp add: CODE_451_def)
  from smf_smtpd_data_answered [OF st' ex_daemon_quiet fail acc] sent none first ne st' show ?thesis by auto
qed

lemma ex_accepted_run:
  "map_sum id (\<lambda>(r, st). r) (smf_modules_process ex_pf smtpd_queue (ex_state [])) = Inr 0"
  "map_sum id (\<lambda>(r, st). fd_out (w_sock (rs_world st))) (smf_smtpd_process_modules ex_pf (ex_state [])) =
     Inr (''250 Ok: processed as 000000000000'' @ crlf)"
  by code_simp+


end
