(* ===== verification/Smf_Dialogue.thy ===== *)
theory Smf_Dialogue
  imports Smf_Relay
begin

text \<open>
  A whole session of the SMTP daemon: a client that greets, names a sender and recipients and
  sends a message, waiting for the reply to every command.  Each step of the dialogue is a lemma
  on the loop; the property puts them together with the relay of the message.
\<close>

section \<open>A line that arrives at once\<close>

lemma readline_buffered:
  "LF \<notin> set l \<Longrightarrow> length l < k \<Longrightarrow>
   readline_loop k acc c \<lparr>rl_unread = l @ LF # r\<rparr> f =
     (LineGot (length acc + length l + 1) (acc @ l @ [LF]), \<lparr>rl_unread = r\<rparr>, f)"
proof (induction l arbitrary: k acc c)
  case Nil
  then show ?case by (cases k) (simp_all add: smf_internal_readcbuf.simps)
next
  case (Cons x l)
  then show ?case by (cases k) (auto simp: smf_internal_readcbuf.simps)
qed

lemma readline_event:
  assumes "fd_in f = RdData (l @ [LF]) # es" and "LF \<notin> set l" and "length l + 1 < 1024"
    and "help = None \<or> help = Some \<lparr>rl_unread = []\<rparr>"
  shows "smf_internal_readline 1024 help f =
    Inr (LineGot (length l + 1) (l @ [LF]), Some \<lparr>rl_unread = []\<rparr>, f\<lparr>fd_in := es\<rparr>)"
proof -
  have none: "(case help of None \<Rightarrow> \<lparr>rl_unread = []\<rparr> | Some rl \<Rightarrow> rl) = \<lparr>rl_unread = []\<rparr>"
    using assms(4) by auto
  have rd: "sys_read rl_bufsize f = (Got (l @ [LF]), f\<lparr>fd_in := es\<rparr>)"
    using assms(1,3) by (simp add: sys_read.simps rl_bufsize_def)
  have loop: "readline_loop (Suc n) [] NUL \<lparr>rl_unread = []\<rparr> f =
      (LineGot (length l + 1) (l @ [LF]), \<lparr>rl_unread = []\<rparr>, f\<lparr>fd_in := es\<rparr>)" if n: "length l < Suc n" for n
  proof (cases l)
    case Nil
    with rd show ?thesis by (simp add: smf_internal_readcbuf.simps)
  next
    case (Cons x r)
    with rd have cb: "smf_internal_readcbuf \<lparr>rl_unread = []\<rparr> f = (RcChar x, \<lparr>rl_unread = r @ LF # []\<rparr>, f\<lparr>fd_in := es\<rparr>)"
      by (simp add: smf_internal_readcbuf.simps)
    have "readline_loop n [x] x \<lparr>rl_unread = r @ LF # []\<rparr> (f\<lparr>fd_in := es\<rparr>) =
        (LineGot (length [x] + length r + 1) ([x] @ r @ [LF]), \<lparr>rl_unread = []\<rparr>, f\<lparr>fd_in := es\<rparr>)"
      by (rule readline_buffered) (use assms(2) Cons n in auto)
    with cb assms(2) Cons show ?thesis by auto
  qed
  have "readline_loop 1023 [] NUL \<lparr>rl_unread = []\<rparr> f =
      (LineGot (length l + 1) (l @ [LF]), \<lparr>rl_unread = []\<rparr>, f\<lparr>fd_in := es\<rparr>)"
    using loop [of 1022] assms(3) by (simp del: readline_loop.simps)
  then show ?thesis by (simp add: smf_internal_readline_def none del: readline_loop.simps)
qed

section \<open>Words\<close>

text \<open>A host name or an address without white space and angles, short enough for a line.\<close>

definition word :: "string \<Rightarrow> bool" where
  "word w \<longleftrightarrow> w \<noteq> [] \<and> length w < 1000 \<and>
     list_all (\<lambda>c. \<not> c_isspace c \<and> c \<noteq> NUL \<and> c \<noteq> CHR ''<'' \<and> c \<noteq> CHR ''>'') w"

lemma c_isspace_LF: "c_isspace LF" "c_isspace CR"
  by (simp_all add: c_isspace_def)

lemma wordD:
  assumes "word w"
  shows "w \<noteq> []" and "length w < 1000" and "NUL \<notin> set w" and "LF \<notin> set w" and "CR \<notin> set w"
    and "CHR ''<'' \<notin> set w" and "CHR ''>'' \<notin> set w" and "c \<in> set w \<Longrightarrow> \<not> c_isspace c"
proof -
  have all: "\<And>c. c \<in> set w \<Longrightarrow> \<not> c_isspace c \<and> c \<noteq> NUL \<and> c \<noteq> CHR ''<'' \<and> c \<noteq> CHR ''>''"
    using assms by (simp add: word_def list_all_iff)
  show "w \<noteq> []" and "length w < 1000" using assms by (simp_all add: word_def)
  show "NUL \<notin> set w" and "CHR ''<'' \<notin> set w" and "CHR ''>'' \<notin> set w" using all by blast+
  show "LF \<notin> set w" and "CR \<notin> set w" using all c_isspace_LF by blast+
  show "\<not> c_isspace c" if "c \<in> set w" using all [OF that] by simp
qed

lemma strip_word:
  assumes "w \<noteq> []" and "\<And>c. c \<in> set w \<Longrightarrow> \<not> c_isspace c"
  shows "smf_core_strstrip (w @ crlf) = w"
proof -
  have front: "dropWhile c_isspace (w @ r) = w @ r" for r using assms by (cases w) simp_all
  have "rev w \<noteq> []" "\<And>c. c \<in> set (rev w) \<Longrightarrow> \<not> c_isspace c" using assms by simp_all
  then have back_id: "dropWhile c_isspace (rev w) = rev w" by (cases "rev w") simp_all
  then have "dropWhile c_isspace (rev (w @ crlf)) = rev w" by (simp add: crlf_def c_isspace_def)
  then show ?thesis unfolding smf_core_strstrip_eq front by simp
qed

lemma strip_angle:
  assumes "word a"
  shows "smf_core_strstrip (CHR ''<'' # a @ CHR ''>'' # crlf) = CHR ''<'' # a @ [CHR ''>'']"
proof -
  have "smf_core_strstrip ((CHR ''<'' # a @ [CHR ''>'']) @ crlf) = CHR ''<'' # a @ [CHR ''>'']"
    by (rule strip_word) (use wordD(8) [OF assms] in \<open>auto simp: c_isspace_def\<close>)
  then show ?thesis by simp
qed

lemma address_of_angle: "word a \<Longrightarrow> smf_internal_strip_email_addr (CHR ''<'' # a @ [CHR ''>'']) = a"
  using smf_internal_strip_email_addr_angle [of "[]" a "[]"] wordD(7) [of a] by simp

text \<open>The commands.\<close>

definition ehlo_line :: "string \<Rightarrow> string" where "ehlo_line h = ''EHLO '' @ h @ crlf"
definition mail_line :: "string \<Rightarrow> string" where "mail_line a = ''MAIL FROM:<'' @ a @ ''>'' @ crlf"
definition rcpt_line :: "string \<Rightarrow> string" where "rcpt_line b = ''RCPT TO:<'' @ b @ ''>'' @ crlf"
definition data_line :: string where "data_line = ''DATA'' @ crlf"

lemma command_classes:
  "smtp_classify (ehlo_line h) = CmdHelo True" "smtp_classify (mail_line a) = CmdMail"
  "smtp_classify (rcpt_line b) = CmdRcpt" "smtp_classify data_line = CmdData"
  by (simp_all add: smtp_classify_def strncasecmp_eq_def ehlo_line_def mail_line_def rcpt_line_def data_line_def
      c_tolower_def char_of_def bit_iff_odd)

lemma command_values:
  "word h \<Longrightarrow> smf_smtpd_get_req_value (ehlo_line h) 4 = h"
  "word a \<Longrightarrow> smf_smtpd_get_req_value (mail_line a) 10 = CHR ''<'' # a @ [CHR ''>'']"
  "word b \<Longrightarrow> smf_smtpd_get_req_value (rcpt_line b) 8 = CHR ''<'' # b @ [CHR ''>'']"
  using strip_word [of h] wordD(1,8) [of h]
  by (auto simp: smf_smtpd_get_req_value_def Let_def ehlo_line_def mail_line_def rcpt_line_def strip_angle)

text \<open>A command line: complete, within the buffer, without NUL.\<close>

definition command_line :: "string \<Rightarrow> bool" where
  "command_line req \<longleftrightarrow> (\<exists>l. req = l @ [LF] \<and> LF \<notin> set l \<and> length l + 1 < 1024 \<and> NUL \<notin> set l)"

lemma command_lines:
  "word h \<Longrightarrow> command_line (ehlo_line h)" "word a \<Longrightarrow> command_line (mail_line a)"
  "word b \<Longrightarrow> command_line (rcpt_line b)" "command_line data_line"
proof -
  show "command_line (ehlo_line h)" if "word h"
    unfolding command_line_def
    by (rule exI [of _ "''EHLO '' @ h @ [CR]"]) (use wordD [OF that] in \<open>auto simp: ehlo_line_def crlf_def\<close>)
  show "command_line (mail_line a)" if "word a"
    unfolding command_line_def
    by (rule exI [of _ "''MAIL FROM:<'' @ a @ ''>'' @ [CR]"]) (use wordD [OF that] in \<open>auto simp: mail_line_def crlf_def\<close>)
  show "command_line (rcpt_line b)" if "word b"
    unfolding command_line_def
    by (rule exI [of _ "''RCPT TO:<'' @ b @ ''>'' @ [CR]"]) (use wordD [OF that] in \<open>auto simp: rcpt_line_def crlf_def\<close>)
  show "command_line data_line"
    unfolding command_line_def
    by (rule exI [of _ "''DATA'' @ [CR]"]) (auto simp: data_line_def crlf_def)
qed

section \<open>One command\<close>

text \<open>
  The client of a session in which nothing but commands has happened: the line buffer is empty,
  the input is \<open>es\<close>, and settings, files and the session but its greeting and envelope are as at
  the start.
\<close>

definition fresh_client ::
  "smf_settings \<Rightarrow> string \<Rightarrow> (string \<Rightarrow> spool option) \<Rightarrow> smtp_state \<Rightarrow> envelope \<Rightarrow> rd_ev list \<Rightarrow> client \<Rightarrow> bool" where
  "fresh_client settings sid files state e es cl \<longleftrightarrow>
     cl_state cl = state \<and> (cl_rl cl = None \<or> cl_rl cl = Some \<lparr>rl_unread = []\<rparr>) \<and>
     rs_settings (cl_run cl) = settings \<and> rs_sent (cl_run cl) = [] \<and>
     w_files (rs_world (cl_run cl)) = files \<and> fd_in (w_sock (rs_world (cl_run cl))) = es \<and>
     ses_envelope (cl_session cl) = e \<and> ses_id (cl_session cl) = sid \<and>
     ses_response_msg (cl_session cl) = None \<and> ses_message_size (cl_session cl) = 0"

lemma say_files [simp]: "w_files (say t w) = w_files w" "fd_in (w_sock (say t w)) = fd_in (w_sock w)"
  by (simp_all add: say_def writen_frame)

lemma fresh_send [simp]:
  "fresh_client settings sid files state e es (send t cl) = fresh_client settings sid files state e es cl"
  "fresh_client settings sid files state e es (send_code c cl) = fresh_client settings sid files state e es cl"
  by (simp_all add: fresh_client_def send_def send_code_def with_world_def reply_code_def smf_smtpd_code_reply_def
      cl_session_def)

lemma fresh_goto: "fresh_client settings sid files s e es cl \<Longrightarrow> fresh_client settings sid files t e es (goto_state t cl)"
  by (simp add: fresh_client_def goto_state_def cl_session_def)

lemma fresh_envelope:
  "fresh_client settings sid files s e es cl \<Longrightarrow>
   fresh_client settings sid files s (f e) es (on_session (with_envelope f) cl)"
  by (simp add: fresh_client_def on_session_def cl_session_def)

lemma fresh_helo:
  "fresh_client settings sid files s e es cl \<Longrightarrow>
   fresh_client settings sid files s e es (on_session (smf_session_set_helo h) cl)"
  by (simp add: fresh_client_def on_session_def cl_session_def smf_session_set_helo_def)

text \<open>A command that arrives at once takes one round and leaves the line buffer empty.\<close>

lemma client_round:
  assumes "fresh_client settings sid files s e (RdData req # es) cl" and "command_line req"
    and "\<And>cl1. fresh_client settings sid files s e es cl1 \<Longrightarrow>
      \<exists>cl2. smtpd_dispatch env req cl1 = Inr (False, cl2) \<and> Q cl2"
  shows "\<exists>cl2. Q cl2 \<and> client_loop (Suc f) env cl = client_loop f env cl2"
proof -
  obtain l where req: "req = l @ [LF]" and l: "LF \<notin> set l" "length l + 1 < 1024" "NUL \<notin> set l"
    using assms(2) by (auto simp: command_line_def)
  let ?sock = "w_sock (rs_world (cl_run cl))"
  have rd: "smf_internal_readline 1024 (cl_rl cl) ?sock =
      Inr (LineGot (length l + 1) req, Some \<lparr>rl_unread = []\<rparr>, ?sock\<lparr>fd_in := es\<rparr>)"
    unfolding req by (rule readline_event) (use assms(1) req l in \<open>auto simp: fresh_client_def\<close>)
  define cl1 where "cl1 = cl\<lparr>cl_rl := Some \<lparr>rl_unread = []\<rparr>,
    cl_run := with_world (\<lambda>w. w\<lparr>w_sock := ?sock\<lparr>fd_in := es\<rparr>\<rparr>) (cl_run cl)\<rparr>"
  have "fresh_client settings sid files s e es cl1"
    using assms(1) by (simp add: fresh_client_def cl1_def with_world_def cl_session_def)
  then obtain cl2 where cl2: "smtpd_dispatch env req cl1 = Inr (False, cl2)" "Q cl2"
    using assms(3) by blast
  have "c_str req = req" using l req by (simp add: c_str_id)
  with cl2 rd show ?thesis by (intro exI [of _ cl2]) (simp add: cl1_def Let_def)
qed

lemma ehlo_round:
  assumes "fresh_client settings sid files ST_INIT e (RdData (ehlo_line h) # es) cl" and "word h"
  shows "\<exists>cl2. fresh_client settings sid files ST_HELO e es cl2 \<and> client_loop (Suc f) env cl = client_loop f env cl2"
proof (rule client_round [OF assms(1) command_lines(1) [OF assms(2)]])
  fix cl1 assume c: "fresh_client settings sid files ST_INIT e es cl1"
  then have "cl_state cl1 = ST_INIT" by (simp add: fresh_client_def)
  then have "smtpd_dispatch env (ehlo_line h) cl1 =
      Inr (False, goto_state ST_HELO (send (helo_reply env True (on_session (smf_session_set_helo h) cl1))
        (on_session (smf_session_set_helo h) cl1)))"
    using wordD(1) [OF assms(2)] by (simp add: smtpd_dispatch_def command_classes command_values assms(2) do_helo_def Let_def)
  with c show "\<exists>cl2. smtpd_dispatch env (ehlo_line h) cl1 = Inr (False, cl2) \<and>
      fresh_client settings sid files ST_HELO e es cl2"
    by (auto intro!: fresh_goto fresh_helo)
qed

lemma mail_round:
  assumes "fresh_client settings sid files ST_HELO e (RdData (mail_line a) # es) cl" and "word a"
  shows "\<exists>cl2. fresh_client settings sid files ST_MAIL (e\<lparr>env_sender := Some a\<rparr>) es cl2 \<and>
    client_loop (Suc f) env cl = client_loop f env cl2"
proof (rule client_round [OF assms(1) command_lines(2) [OF assms(2)]])
  fix cl1 assume c: "fresh_client settings sid files ST_HELO e es cl1"
  let ?v = "CHR ''<'' # a @ [CHR ''>'']"
  have "cl_state cl1 = ST_HELO" using c by (simp add: fresh_client_def)
  then have d: "smtpd_dispatch env (mail_line a) cl1 =
      Inr (False, goto_state ST_MAIL (send_code 250 (on_session (with_envelope (smf_envelope_set_sender ?v)) cl1)))"
    by (simp add: smtpd_dispatch_def command_classes command_values assms(2) do_mail_def Let_def)
  have "smf_envelope_set_sender ?v e = e\<lparr>env_sender := Some a\<rparr>"
    using assms(2) by (simp add: smf_envelope_set_sender_def address_of_angle)
  with d fresh_envelope [OF c, of "smf_envelope_set_sender ?v"]
  show "\<exists>cl2. smtpd_dispatch env (mail_line a) cl1 = Inr (False, cl2) \<and>
      fresh_client settings sid files ST_MAIL (e\<lparr>env_sender := Some a\<rparr>) es cl2"
    by (auto intro!: fresh_goto)
qed

lemma rcpt_round:
  assumes "fresh_client settings sid files s e (RdData (rcpt_line b) # es) cl" and "word b"
    and "s = ST_MAIL \<or> s = ST_RCPT"
  shows "\<exists>cl2. fresh_client settings sid files ST_RCPT (e\<lparr>env_recipients := env_recipients e @ [b]\<rparr>) es cl2 \<and>
    client_loop (Suc f) env cl = client_loop f env cl2"
proof (rule client_round [OF assms(1) command_lines(3) [OF assms(2)]])
  fix cl1 assume c: "fresh_client settings sid files s e es cl1"
  let ?v = "CHR ''<'' # b @ [CHR ''>'']"
  have "cl_state cl1 = s" using c by (simp add: fresh_client_def)
  then have d: "smtpd_dispatch env (rcpt_line b) cl1 =
      Inr (False, goto_state ST_RCPT (send_code 250 (on_session (with_envelope (\<lambda>e. snd (smf_envelope_add_rcpt ?v e))) cl1)))"
    using assms(3) by (auto simp: smtpd_dispatch_def command_classes command_values assms(2) do_rcpt_def Let_def)
  have "snd (smf_envelope_add_rcpt ?v e) = e\<lparr>env_recipients := env_recipients e @ [b]\<rparr>"
    using assms(2) by (simp add: smf_envelope_add_rcpt_def address_of_angle)
  with d fresh_envelope [OF c, of "\<lambda>e. snd (smf_envelope_add_rcpt ?v e)"]
  show "\<exists>cl2. smtpd_dispatch env (rcpt_line b) cl1 = Inr (False, cl2) \<and>
      fresh_client settings sid files ST_RCPT (e\<lparr>env_recipients := env_recipients e @ [b]\<rparr>) es cl2"
    by (auto intro!: fresh_goto)
qed

lemma rcpt_rounds:
  "fresh_client settings sid files s e (map (\<lambda>b. RdData (rcpt_line b)) bs @ es) cl \<Longrightarrow> list_all word bs \<Longrightarrow>
   s = ST_MAIL \<or> s = ST_RCPT \<Longrightarrow> bs \<noteq> [] \<Longrightarrow>
   \<exists>cl2. fresh_client settings sid files ST_RCPT (e\<lparr>env_recipients := env_recipients e @ bs\<rparr>) es cl2 \<and>
     client_loop (length bs + f) env cl = client_loop f env cl2"
proof (induction bs arbitrary: s e cl)
  case Nil
  then show ?case by simp
next
  case (Cons b bs)
  obtain cl1 where c: "fresh_client settings sid files ST_RCPT (e\<lparr>env_recipients := env_recipients e @ [b]\<rparr>)
      (map (\<lambda>b. RdData (rcpt_line b)) bs @ es) cl1"
    and l: "client_loop (Suc (length bs + f)) env cl = client_loop (length bs + f) env cl1"
    using rcpt_round [of settings sid files s e b "map (\<lambda>b. RdData (rcpt_line b)) bs @ es" cl] Cons.prems by auto
  show ?case
  proof (cases "bs = []")
    case True
    with c l show ?thesis by auto
  next
    case False
    from Cons.IH [OF c _ _ False] Cons.prems l show ?thesis by auto
  qed
qed

text \<open>The message and the end of the input.\<close>

lemma client_end:
  assumes "flows (fd_in (w_sock (rs_world (cl_run cl))))" and "pending (fd_in (w_sock (rs_world (cl_run cl)))) = []"
    and "cl_rl cl = None \<or> cl_rl cl = Some \<lparr>rl_unread = []\<rparr>"
  shows "\<exists>cl'. client_loop (Suc f) env cl = Some (Inr cl') \<and> rs_sent (cl_run cl') = rs_sent (cl_run cl) \<and>
    w_files (rs_world (cl_run cl')) = w_files (rs_world (cl_run cl))"
proof -
  obtain rl' sock' where "readline_loop (Suc 1022) [] NUL \<lparr>rl_unread = []\<rparr> (w_sock (rs_world (cl_run cl))) = (LineEnd, rl', sock')"
    using readline_loop_end [OF assms(1), of "\<lparr>rl_unread = []\<rparr>" 1022 NUL] assms(2) by (auto simp: rl_stream_def)
  then have "smf_internal_readline 1024 (cl_rl cl) (w_sock (rs_world (cl_run cl))) = Inr (LineEnd, Some rl', sock')"
    using assms(3) by (auto simp: smf_internal_readline_def simp del: readline_loop.simps)
  then show ?thesis by (simp add: Let_def with_world_def)
qed

lemma data_round:
  assumes "fresh_client settings sid files ST_RCPT e (RdData data_line # ms) cl"
    and "\<And>cl1. fresh_client settings sid files ST_RCPT e ms cl1 \<Longrightarrow>
      \<exists>st'. smf_smtpd_process_data env (cl_run cl1) = Inr st' \<and> rs_sent st' = sent \<and> w_files (rs_world st') name = None \<and>
        flows (fd_in (w_sock (rs_world st'))) \<and> pending (fd_in (w_sock (rs_world st'))) = []"
  shows "\<exists>cl'. client_loop (Suc (Suc f)) env cl = Some (Inr cl') \<and> rs_sent (cl_run cl') = sent \<and>
    w_files (rs_world (cl_run cl')) name = None"
proof -
  let ?Q = "\<lambda>cl2. (cl_rl cl2 = None \<or> cl_rl cl2 = Some \<lparr>rl_unread = []\<rparr>) \<and> rs_sent (cl_run cl2) = sent \<and>
      w_files (rs_world (cl_run cl2)) name = None \<and>
      flows (fd_in (w_sock (rs_world (cl_run cl2)))) \<and> pending (fd_in (w_sock (rs_world (cl_run cl2)))) = []"
  have "\<exists>cl2. ?Q cl2 \<and> client_loop (Suc (Suc f)) env cl = client_loop (Suc f) env cl2"
  proof (rule client_round [OF assms(1) command_lines(4)])
    fix cl1 assume c: "fresh_client settings sid files ST_RCPT e ms cl1"
    from assms(2) [OF c] obtain st' where st': "smf_smtpd_process_data env (cl_run cl1) = Inr st'" "rs_sent st' = sent"
      "w_files (rs_world st') name = None" "flows (fd_in (w_sock (rs_world st')))" "pending (fd_in (w_sock (rs_world st'))) = []"
      by blast
    have "cl_state cl1 = ST_RCPT" "cl_rl cl1 = None \<or> cl_rl cl1 = Some \<lparr>rl_unread = []\<rparr>"
      using c by (simp_all add: fresh_client_def)
    with st' show "\<exists>cl2. smtpd_dispatch env data_line cl1 = Inr (False, cl2) \<and> ?Q cl2"
      by (simp add: smtpd_dispatch_def command_classes do_data_def)
  qed
  then obtain cl2 where q: "?Q cl2" and l: "client_loop (Suc (Suc f)) env cl = client_loop (Suc f) env cl2" by blast
  from client_end [of cl2 f env] q obtain cl' where "client_loop (Suc f) env cl2 = Some (Inr cl')"
    "rs_sent (cl_run cl') = rs_sent (cl_run cl2)" "w_files (rs_world (cl_run cl')) = w_files (rs_world (cl_run cl2))"
    by blast
  with q l show ?thesis by (intro exI [of _ cl']) simp
qed

lemma percent_notin_sid: "CHR ''%'' \<notin> set (smf_internal_generate_sid r)"
proof -
  have "length sid_chars = 36" by (simp add: sid_chars_def)
  then have "sid_chars ! (r i mod 36) \<in> set sid_chars" for i by (intro nth_mem) simp
  then have "c \<in> set sid_chars" if "c \<in> set (smf_internal_generate_sid r)" for c
    using that by (auto simp: smf_internal_generate_sid_def simp del: set_upt)
  moreover have "CHR ''%'' \<notin> set sid_chars" by (simp add: sid_chars_def)
  ultimately show ?thesis by blast
qed

section \<open>Properties\<close>

text \<open>
  Claim C1.  A session from the greeting to the next hop: a client that greets, names a sender and
  one or more recipients in angles and sends a message, each command when the one before has been
  answered, gets exactly one message relayed, from that sender, to those recipients that libesmtp
  takes, with the lines it meant as content.  The dialogue ends with the input, and no spool file
  is left.  (No modules, added headers or user database; the message brings its header lines.)
\<close>

theorem smf_smtpd_session_relays:
  assumes os: "os_willing (pf_os (sv_pf env))"
    and input: "fd_in (w_sock w) = RdData (ehlo_line h) # RdData (mail_line a) #
        map (\<lambda>b. RdData (rcpt_line b)) bs @ RdData data_line # ms"
    and words: "word h" "word a" "list_all word bs" "bs \<noteq> []"
    and content: "flows ms" "list_all message_line ls" "pending ms = concat (map dot_stuff ls) @ (''.'' @ crlf)"
    and gen: "smf_core_gen_queue_file (\<lambda>t. os_mkstemp (pf_os (sv_pf env)) t (w_files w))
        (c_string (s_queue_dir settings)) (ses_id (smf_session_new (sv_random env 0))) = (0, name)"
    and ds: "ds = data_lines ls (data_start (file_fd (pf_os (sv_pf env)) name []) 0)"
      "ds_mid ds" "ds_to ds" "ds_from ds" "ds_date ds"
    and settings: "s_backend settings = NullP" "s_modules settings = []" "s_add_header settings \<noteq> 1"
      "s_max_size settings = 0" "s_nexthop settings = Some host"
    and msg: "cm_from_file (pf_cm (sv_pf env)) (concat ls) True = (0, m)"
      "cm_get_message_id (pf_cm (sv_pf env)) m = Some mid" "distinct (map h_name (msg_headers m))"
    and nh: "os_lstat (pf_os (sv_pf env)) host = None" "es_reverse_path (pf_es (sv_pf env)) a"
    and rq: "rq = \<lparr>rq_server = smtp_server host, rq_starttls = s_tls settings, rq_auth = None,
        rq_reverse_path = a, rq_body = BodyFile (concat ls), rq_recipients = filter (es_recipient (pf_es (sv_pf env))) bs\<rparr>"
    and answer: "es_session (pf_es (sv_pf env)) rq = Transferred 250 reply"
    and fuel: "length bs + 4 \<le> fuel"
  shows "\<exists>cl. smf_smtpd_handle_client fuel env settings w = Some (Inr cl) \<and> rs_sent (cl_run cl) = [rq] \<and>
    w_files (rs_world (cl_run cl)) name = None"
proof -
  let ?sid = "ses_id (smf_session_new (sv_random env 0))"
  let ?e = "smf_envelope_new\<lparr>env_sender := Some a, env_recipients := bs\<rparr>"
  obtain f where "fuel = length bs + 4 + f" using fuel le_Suc_ex by blast
  then have f: "fuel = Suc (Suc (length bs + (Suc (Suc f))))" by simp
  define cl0 where "cl0 = send (''220 '' @ sv_hostname env @ '' spmfilter'' @ crlf) (client_new env settings w)"
  have c0: "fresh_client settings ?sid (w_files w) ST_INIT smf_envelope_new (fd_in (w_sock w)) cl0"
    by (simp add: cl0_def) (simp add: fresh_client_def client_new_def cl_session_def smf_session_new_def)
  obtain cl1 where c1: "fresh_client settings ?sid (w_files w) ST_HELO smf_envelope_new
      (RdData (mail_line a) # map (\<lambda>b. RdData (rcpt_line b)) bs @ RdData data_line # ms) cl1"
    and l1: "client_loop fuel env cl0 = client_loop (Suc (length bs + (Suc (Suc f)))) env cl1"
    using ehlo_round [OF c0 [unfolded input] words(1)] unfolding f by blast
  obtain cl2 where c2: "fresh_client settings ?sid (w_files w) ST_MAIL (smf_envelope_new\<lparr>env_sender := Some a\<rparr>)
      (map (\<lambda>b. RdData (rcpt_line b)) bs @ RdData data_line # ms) cl2"
    and l2: "client_loop (Suc (length bs + (Suc (Suc f)))) env cl1 = client_loop (length bs + (Suc (Suc f))) env cl2"
    using mail_round [OF c1 words(2)] by blast
  obtain cl3 where c3: "fresh_client settings ?sid (w_files w) ST_RCPT ?e (RdData data_line # ms) cl3"
    and l3: "client_loop (length bs + (Suc (Suc f))) env cl2 = client_loop (Suc (Suc f)) env cl3"
    using rcpt_rounds [OF c2 words(3) _ words(4), of "Suc (Suc f)" env] by (auto simp del: client_loop.simps)
  have "\<exists>cl'. client_loop (Suc (Suc f)) env cl3 = Some (Inr cl') \<and> rs_sent (cl_run cl') = [rq] \<and>
      w_files (rs_world (cl_run cl')) name = None"
  proof (rule data_round [OF c3])
    fix cl4 assume c: "fresh_client settings ?sid (w_files w) ST_RCPT ?e ms cl4"
    show "\<exists>st'. smf_smtpd_process_data env (cl_run cl4) = Inr st' \<and> rs_sent st' = [rq] \<and>
        w_files (rs_world st') name = None \<and> flows (fd_in (w_sock (rs_world st'))) \<and> pending (fd_in (w_sock (rs_world st'))) = []"
      using relay [where env = env and st = "cl_run cl4" and name = name and ls = ls and rest = "[]" and ds = ds and host = host
          and m = m and mid = mid and e = ?e and mailfrom = a and rcpts = bs and rq = rq and answer = reply, OF os]
        c gen content ds settings msg nh words(4) rq answer percent_notin_sid
      by (simp add: fresh_client_def cl_session_def smtp_auth_def smf_envelope_new_def smf_session_new_def)
  qed
  with l1 l2 l3 show ?thesis by (simp add: smf_smtpd_handle_client_def cl0_def del: client_loop.simps)
qed

text \<open>The session with the message of \<open>Smf_Relay\<close>, which arrives in two pieces.\<close>

definition ex_input :: "rd_ev list" where
  "ex_input = RdData (ehlo_line ''c.org'') # RdData (mail_line ''a@b'') # map (\<lambda>b. RdData (rcpt_line b)) [''c@d'', ''e@d''] @
     RdData data_line # [RdData (concat (map dot_stuff ex_lines)), RdIntr, RdData (''.'' @ crlf)]"

lemma smf_smtpd_session_relays_witness:
  "\<exists>cl. smf_smtpd_handle_client 6 ex_daemon ((ex_settings [])\<lparr>s_add_header := 0\<rparr>)
       (ex_world\<lparr>w_sock := \<lparr>fd_in = ex_input, fd_wr = [], fd_out = []\<rparr>\<rparr>) = Some (Inr cl) \<and>
     map (\<lambda>r. (rq_reverse_path r, rq_recipients r, rq_body r)) (rs_sent (cl_run cl)) =
       [(''a@b'', [''c@d'', ''e@d''], BodyFile (concat ex_lines))]"
proof -
  let ?w = "ex_world\<lparr>w_sock := \<lparr>fd_in = ex_input, fd_wr = [], fd_out = []\<rparr>\<rparr>"
  let ?s = "(ex_settings [])\<lparr>s_add_header := 0\<rparr>"
  let ?rq = "\<lparr>rq_server = smtp_server ''mx'', rq_starttls = s_tls ?s, rq_auth = None, rq_reverse_path = ''a@b'',
      rq_body = BodyFile (concat ex_lines), rq_recipients = filter (es_recipient (pf_es (sv_pf ex_daemon))) [''c@d'', ''e@d'']\<rparr>"
  note pf = ex_daemon_fields
  have os: "os_willing (pf_os (sv_pf ex_daemon))" by (simp add: pf ex_os_willing)
  have inp: "fd_in (w_sock ?w) = RdData (ehlo_line ''c.org'') # RdData (mail_line ''a@b'') #
      map (\<lambda>b. RdData (rcpt_line b)) [''c@d'', ''e@d''] @ RdData data_line #
      [RdData (concat (map dot_stuff ex_lines)), RdIntr, RdData (''.'' @ crlf)]"
    by (simp add: ex_input_def)
  have words: "word ''c.org''" "word ''a@b''" "list_all word [''c@d'', ''e@d'']" "[''c@d'', ''e@d''] \<noteq> []"
    by (simp_all add: word_def c_isspace_def)
  have content: "flows [RdData (concat (map dot_stuff ex_lines)), RdIntr, RdData (''.'' @ crlf)]"
    "pending [RdData (concat (map dot_stuff ex_lines)), RdIntr, RdData (''.'' @ crlf)] =
      concat (map dot_stuff ex_lines) @ (''.'' @ crlf)"
    using ex_lines_ok(2) by simp_all
  have gen: "smf_core_gen_queue_file (\<lambda>t. os_mkstemp (pf_os (sv_pf ex_daemon)) t (w_files ?w))
      (c_string (s_queue_dir ?s)) (ses_id (smf_session_new (sv_random ex_daemon 0))) = (0, ''/q/tmp'')"
    by (simp add: smf_core_gen_queue_file_def pf ex_fields Let_def)
  have "\<exists>cl. smf_smtpd_handle_client 6 ex_daemon ?s ?w = Some (Inr cl) \<and> rs_sent (cl_run cl) = [?rq] \<and>
      w_files (rs_world (cl_run cl)) ''/q/tmp'' = None"
    by (rule smf_smtpd_session_relays [OF os inp words content(1) ex_lines_ok(1) content(2) gen refl ex_lines_flags, where host = "''mx''"])
      (simp_all add: pf ex_fields, simp_all add: ex_fields ex_cm_def ex_settings_def smf_settings_new_def, simp)
  then obtain cl where "smf_smtpd_handle_client 6 ex_daemon ?s ?w = Some (Inr cl)" "rs_sent (cl_run cl) = [?rq]" by blast
  moreover have "filter (es_recipient (pf_es (sv_pf ex_daemon))) [''c@d'', ''e@d''] = [''c@d'', ''e@d'']"
    by (simp add: pf ex_es_def)
  ultimately show ?thesis by (intro exI [of _ cl]) simp
qed

end
