(* ===== verification/Smf_Answers.thy ===== *)
theory Smf_Answers
  imports Smf_Dialogue
begin

text \<open>
  The dialogue makes progress: whatever the client sends, each of its commands is answered with
  one complete reply before the next one is read.
\<close>

section \<open>Complete replies\<close>

text \<open>
  A line of a reply (RFC 5321, 4.2): three digits, then a space in the last line and a hyphen in
  the others; it ends with CRLF and contains no other line end.
\<close>

definition plain_text :: "string \<Rightarrow> bool" where
  "plain_text t \<longleftrightarrow> CR \<notin> set t \<and> LF \<notin> set t"

definition reply_line :: "char \<Rightarrow> string \<Rightarrow> bool" where
  "reply_line sep l \<longleftrightarrow>
     (case l of
        a # b # c # s # t \<Rightarrow> c_isdigit a \<and> c_isdigit b \<and> c_isdigit c \<and> s = sep \<and> plain_text t
      | _ \<Rightarrow> False)"

definition complete_reply :: "string \<Rightarrow> bool" where
  "complete_reply r \<longleftrightarrow>
     (\<exists>ls l. r = concat (map (\<lambda>l. l @ crlf) (ls @ [l])) \<and> list_all (reply_line (CHR ''-'')) ls \<and> reply_line (CHR '' '') l)"

lemma complete_reply_one: "reply_line (CHR '' '') l \<Longrightarrow> complete_reply (l @ crlf)"
  unfolding complete_reply_def by (rule exI [of _ "[]"], rule exI [of _ l]) simp

lemma complete_reply_three:
  "reply_line (CHR ''-'') l1 \<Longrightarrow> reply_line (CHR ''-'') l2 \<Longrightarrow> reply_line (CHR '' '') l3 \<Longrightarrow>
   complete_reply (l1 @ crlf @ l2 @ crlf @ l3 @ crlf)"
  unfolding complete_reply_def by (rule exI [of _ "[l1, l2]"], rule exI [of _ l3]) simp

lemma reply_line_code:
  "c_isdigit a \<Longrightarrow> c_isdigit b \<Longrightarrow> c_isdigit c \<Longrightarrow> plain_text t \<Longrightarrow> reply_line s (a # b # c # s # t)"
  by (simp add: reply_line_def)

lemma digits [simp]: "c_isdigit (CHR ''0'')" "c_isdigit (CHR ''1'')" "c_isdigit (CHR ''2'')" "c_isdigit (CHR ''3'')"
  "c_isdigit (CHR ''4'')" "c_isdigit (CHR ''5'')"
  by (simp_all add: c_isdigit_def)

lemma plain_digit: "d < 10 \<Longrightarrow> digit_char d \<noteq> CR \<and> digit_char d \<noteq> LF"
proof -
  assume "d < 10"
  then have "(of_char (digit_char d) :: nat) = 48 + d" by (simp add: digit_char_def)
  then show ?thesis by auto
qed

lemma plain_nat: "plain_text (string_of_nat k)"
proof (induction k rule: string_of_nat.induct)
  case (1 k)
  show ?case
    using 1 plain_digit [of k] plain_digit [of "k mod 10"]
    by (subst string_of_nat.simps) (auto simp: plain_text_def)
qed

lemma plain_int: "plain_text (string_of_int i)"
  using plain_nat by (simp add: string_of_int_def plain_text_def)

lemma plain_append [simp]: "plain_text (a @ b) \<longleftrightarrow> plain_text a \<and> plain_text b"
  by (auto simp: plain_text_def)

section \<open>Every text the daemon sends is a reply\<close>

definition plain_codes :: "smf_dict \<Rightarrow> bool" where
  "plain_codes codes \<longleftrightarrow> (\<forall>k m. smf_dict_get codes k = Some m \<longrightarrow> plain_text m)"

lemma fixed_replies:
  "complete_reply nested_mail" "complete_reply need_mail" "complete_reply need_rcpt" "complete_reply no_recipients"
  "complete_reply helo_syntax" "complete_reply mail_syntax" "complete_reply rcpt_syntax" "complete_reply xforward_syntax"
  "complete_reply unknown_command"
  unfolding nested_mail_def need_mail_def need_rcpt_def no_recipients_def helo_syntax_def mail_syntax_def rcpt_syntax_def
    xforward_syntax_def unknown_command_def
  by (rule complete_reply_one, simp add: reply_line_def plain_text_def)+

lemma default_replies:
  "complete_reply CODE_221" "complete_reply CODE_250"
  unfolding CODE_221_def CODE_250_def by (rule complete_reply_one, simp add: reply_line_def plain_text_def)+

lemma code_numbers: "string_of_int 221 = ''221''" "string_of_int 250 = ''250''"
  by code_simp+

lemma code_reply_complete:
  assumes "plain_codes codes"
  shows "complete_reply (code_text codes 221)" and "complete_reply (code_text codes 250)"
proof -
  have "complete_reply (code @ '' '' @ m @ crlf)" if "plain_text m" "code = ''221'' \<or> code = ''250''" for code m
    using complete_reply_one [of "code @ '' '' @ m"] that by (auto simp: reply_line_def)
  moreover have "plain_text m" if "smf_dict_get codes k = Some m" for k m using assms that by (auto simp: plain_codes_def)
  ultimately have "complete_reply (code @ '' '' @ m @ crlf)"
    if "smf_dict_get codes k = Some m" "code = ''221'' \<or> code = ''250''" for code k m
    using that by blast
  note this [of _ _ "''221''"] this [of _ _ "''250''"]
  then show "complete_reply (code_text codes 221)" "complete_reply (code_text codes 250)"
    using default_replies by (auto simp: code_text_def code_numbers default_code_def split: option.splits)
qed

lemma greeting_complete: "plain_text host \<Longrightarrow> complete_reply (''220 '' @ host @ '' spmfilter'' @ crlf)"
  using complete_reply_one [of "''220 '' @ host @ '' spmfilter''"] by (simp add: reply_line_def plain_text_def)

lemma helo_complete: "plain_text (sv_hostname env) \<Longrightarrow> complete_reply (helo_reply env ehlo cl)"
proof -
  assume h: "plain_text (sv_hostname env)"
  let ?n = "string_of_int (sint (ucast (s_max_size (rs_settings (cl_run cl))) :: 32 word))"
  have "complete_reply (''250 '' @ sv_hostname env @ crlf)"
    using complete_reply_one [of "''250 '' @ sv_hostname env"] h by (simp add: reply_line_def)
  moreover have "complete_reply ((''250-'' @ sv_hostname env) @ crlf @ ''250-XFORWARD ADDR'' @ crlf @ (''250 SIZE '' @ ?n) @ crlf)"
    by (rule complete_reply_three)
      (use h plain_int [of "sint (ucast (s_max_size (rs_settings (cl_run cl))) :: 32 word)"] in
        \<open>simp_all add: reply_line_def, simp_all add: plain_text_def\<close>)
  ultimately show ?thesis by (simp add: helo_reply_def)
qed

section \<open>One command, one reply\<close>

text \<open>
  The daemon between two commands: the line buffer is empty, the input is \<open>es\<close>, the output so far
  \<open>out\<close>, and the socket takes what is written.
\<close>

definition waits :: "smf_settings \<Rightarrow> rd_ev list \<Rightarrow> string \<Rightarrow> client \<Rightarrow> bool" where
  "waits settings es out cl \<longleftrightarrow>
     (cl_rl cl = None \<or> cl_rl cl = Some \<lparr>rl_unread = []\<rparr>) \<and> rs_settings (cl_run cl) = settings \<and>
     (let f = w_sock (rs_world (cl_run cl)) in fd_in f = es \<and> accepts (fd_wr f) \<and> fd_out f = out)"

lemma send_waits: "waits settings es out cl \<Longrightarrow> waits settings es (out @ t) (send t cl)"
  by (simp add: waits_def Let_def send_def with_world_def say_def writen_frame smf_internal_writen_out
      smf_internal_writen_accepts)

lemma send_code_waits: "waits settings es out cl \<Longrightarrow> waits settings es (out @ code_text (s_smtp_codes settings) c) (send_code c cl)"
  by (simp add: waits_def Let_def send_code_def reply_code_def smf_smtpd_code_reply_def with_world_def say_def writen_frame
      smf_internal_writen_out smf_internal_writen_accepts)

lemma on_session_waits: "waits settings es out cl \<Longrightarrow> waits settings es out (on_session f cl)"
  by (simp add: waits_def on_session_def)

lemma goto_waits: "waits settings es out cl \<Longrightarrow> waits settings es out (goto_state t cl)"
  by (simp add: waits_def goto_state_def)

lemma fresh_session_waits: "waits settings es out cl \<Longrightarrow> waits settings es out (fresh_session env cl)"
  by (simp add: waits_def fresh_session_def on_session_def)

text \<open>One reply has been sent; the state is not \<open>ST_RCPT\<close> unless a recipient was taken.\<close>

definition answers :: "smf_settings \<Rightarrow> rd_ev list \<Rightarrow> string \<Rightarrow> client \<Rightarrow> bool" where
  "answers settings es out cl \<longleftrightarrow> (\<exists>r. complete_reply r \<and> waits settings es (out @ r) cl)"

lemma answersI: "complete_reply r \<Longrightarrow> waits settings es (out @ r) cl \<Longrightarrow> answers settings es out cl"
  by (auto simp: answers_def)

lemma goto_answers: "answers settings es out cl \<Longrightarrow> answers settings es out (goto_state t cl)"
  by (auto simp: answers_def intro: goto_waits)

lemma send_answers: "complete_reply t \<Longrightarrow> waits settings es out cl \<Longrightarrow> answers settings es out (send t cl)"
  by (rule answersI) (auto intro: send_waits)

lemma code_answers:
  "plain_codes (s_smtp_codes settings) \<Longrightarrow> c = 221 \<or> c = 250 \<Longrightarrow> waits settings es out cl \<Longrightarrow>
   answers settings es out (send_code c cl)"
  using answersI [OF _ send_code_waits] code_reply_complete [of "s_smtp_codes settings"] by blast

lemma c_tolower_below: "(of_char d :: nat) < 65 \<Longrightarrow> c_tolower c = d \<Longrightarrow> c = d"
proof (rule ccontr)
  assume d: "(of_char d :: nat) < 65" and eq: "c_tolower c = d" and ne: "c \<noteq> d"
  then have u: "65 \<le> (of_char c :: nat)" "(of_char c :: nat) \<le> 90"
    by (auto simp: c_tolower_def Let_def split: if_splits)
  then have "(of_char d :: nat) = of_char c + 32"
    using eq by (auto simp: c_tolower_def Let_def)
  with d u show False by simp
qed

lemma address_has_equals: "strcasestr req ''ADDR='' = Some t \<Longrightarrow> strchr t (CHR ''='') \<noteq> None"
proof (induction req)
  case Nil
  then show ?case by (subst (asm) strcasestr.simps) (simp split: if_splits)
next
  case (Cons c req)
  show ?case
  proof (cases "prefix (map c_tolower ''ADDR='') (map c_tolower (c # req))")
    case True
    then have t: "t = c # req" using Cons.prems by (subst (asm) strcasestr.simps) simp
    have "c_tolower (CHR ''='') \<in> set (map c_tolower (c # req))"
      using set_mono_prefix [OF True] by auto
    moreover have "c_tolower (CHR ''='') = CHR ''=''" by (simp add: c_tolower_def)
    ultimately have "CHR ''='' \<in> c_tolower ` set (c # req)" by (simp only: set_map)
    then obtain d where d: "CHR ''='' = c_tolower d" "d \<in> set (c # req)" by (rule imageE)
    have "d = CHR ''=''" by (rule c_tolower_below [OF _ d(1) [symmetric]]) simp
    with d(2) t show ?thesis by (simp add: strchr_None_iff)
  next
    case False
    then have "strcasestr (c # req) ''ADDR='' = strcasestr req ''ADDR=''" by (subst strcasestr.simps) (simp only: if_False list.case)
    with Cons show ?thesis by simp
  qed
qed

lemma dispatch_answers:
  assumes w: "waits settings es out cl" and codes: "plain_codes (s_smtp_codes settings)"
    and host: "plain_text (sv_hostname env)" and data: "smtp_classify req = CmdData \<Longrightarrow> cl_state cl \<noteq> ST_RCPT"
  shows "\<exists>cl2. smtpd_dispatch env req cl = Inr (smtp_classify req = CmdQuit, cl2) \<and> answers settings es out cl2 \<and>
    (cl_state cl \<noteq> ST_RCPT \<longrightarrow> smtp_classify req \<noteq> CmdRcpt \<longrightarrow> cl_state cl2 \<noteq> ST_RCPT)"
proof -
  note ok = code_answers [OF codes]
  show ?thesis
  proof (cases "smtp_classify req")
    case CmdQuit
    then show ?thesis using ok [OF _ w, of 221] by (simp add: smtpd_dispatch_def goto_answers)
  next
    case (CmdHelo ehlo)
    let ?cl = "if cl_state cl \<noteq> ST_INIT then fresh_session env cl else cl"
    have "waits settings es out (on_session f ?cl)" for f using w by (simp add: fresh_session_waits on_session_waits)
    then show ?thesis
      using CmdHelo fixed_replies(5) helo_complete [OF host] send_answers
      by (auto simp: smtpd_dispatch_def do_helo_def Let_def intro!: goto_answers send_answers)
  next
    case CmdXforward
    have "answers settings es out (do_xforward req cl)"
    proof (cases "strcasestr req ''ADDR=''")
      case None
      then show ?thesis using w fixed_replies(8) by (simp add: do_xforward_def send_answers)
    next
      case (Some t)
      with address_has_equals obtain v where "strchr t (CHR ''='') = Some v" by blast
      with Some w show ?thesis by (simp add: do_xforward_def goto_answers ok on_session_waits)
    qed
    moreover have "cl_state cl \<noteq> ST_RCPT \<longrightarrow> cl_state (do_xforward req cl) \<noteq> ST_RCPT"
      by (simp add: do_xforward_def split: option.split)
    ultimately show ?thesis using CmdXforward by (simp add: smtpd_dispatch_def)
  next
    case CmdMail
    then show ?thesis
      using w fixed_replies(1,6)
      by (auto simp: smtpd_dispatch_def do_mail_def Let_def intro!: goto_answers send_answers ok on_session_waits)
  next
    case CmdRcpt
    then show ?thesis
      using w fixed_replies(2,7)
      by (auto simp: smtpd_dispatch_def do_rcpt_def Let_def intro!: goto_answers send_answers ok on_session_waits)
  next
    case CmdData
    then show ?thesis
      using w data fixed_replies(3,4) by (auto simp: smtpd_dispatch_def do_data_def intro!: send_answers)
  next
    case CmdRset
    then show ?thesis
      using w by (auto simp: smtpd_dispatch_def do_rset_def intro!: goto_answers ok fresh_session_waits)
  next
    case CmdNoop
    then show ?thesis using ok [OF _ w, of 250] by (simp add: smtpd_dispatch_def)
  next
    case CmdUnknown
    then show ?thesis using w fixed_replies(9) by (simp add: smtpd_dispatch_def send_answers)
  qed
qed

section \<open>The whole dialogue\<close>

text \<open>How many of the commands are read: all of them, or those up to \<open>QUIT\<close>.\<close>

fun commands_read :: "string list \<Rightarrow> nat" where
  "commands_read [] = 0"
| "commands_read (c # cs) = (if smtp_classify c = CmdQuit then 1 else Suc (commands_read cs))"

text \<open>The commands of a client that sends no message: no \<open>DATA\<close>, or none that can be accepted.\<close>

definition no_message :: "string list \<Rightarrow> bool" where
  "no_message cs \<longleftrightarrow> (\<forall>c \<in> set cs. smtp_classify c \<noteq> CmdData) \<or> (\<forall>c \<in> set cs. smtp_classify c \<noteq> CmdRcpt)"

lemma read_command:
  assumes "waits settings (RdData req # es) out cl" and "command_line req"
  shows "\<exists>br cl1. smf_internal_readline 1024 (cl_rl cl) (w_sock (rs_world (cl_run cl))) =
      Inr (LineGot br req, cl_rl cl1, w_sock (rs_world (cl_run cl1))) \<and> c_str req = req \<and>
    cl1 = cl\<lparr>cl_rl := cl_rl cl1, cl_run := with_world (\<lambda>w. w\<lparr>w_sock := w_sock (rs_world (cl_run cl1))\<rparr>) (cl_run cl)\<rparr> \<and>
    waits settings es out cl1 \<and> cl_state cl1 = cl_state cl"
proof -
  obtain l where req: "req = l @ [LF]" and l: "LF \<notin> set l" "length l + 1 < 1024" "NUL \<notin> set l"
    using assms(2) by (auto simp: command_line_def)
  let ?sock = "w_sock (rs_world (cl_run cl))"
  have rd: "smf_internal_readline 1024 (cl_rl cl) ?sock =
      Inr (LineGot (length l + 1) req, Some \<lparr>rl_unread = []\<rparr>, ?sock\<lparr>fd_in := es\<rparr>)"
    unfolding req by (rule readline_event) (use assms(1) req l in \<open>auto simp: waits_def Let_def\<close>)
  define cl1 where "cl1 = cl\<lparr>cl_rl := Some \<lparr>rl_unread = []\<rparr>,
    cl_run := with_world (\<lambda>w. w\<lparr>w_sock := ?sock\<lparr>fd_in := es\<rparr>\<rparr>) (cl_run cl)\<rparr>"
  have "waits settings es out cl1" using assms(1) by (simp add: waits_def Let_def cl1_def with_world_def)
  moreover have "c_str req = req" using l req by (simp add: c_str_id)
  ultimately show ?thesis using rd by (intro exI [of _ "length l + 1"] exI [of _ cl1]) (simp add: cl1_def with_world_def)
qed

text \<open>The end of the input ends the dialogue.\<close>

lemma end_round:
  assumes "waits settings [] out cl"
  shows "\<exists>cl'. client_loop (Suc f) env cl = Some (Inr cl') \<and> fd_out (w_sock (rs_world (cl_run cl'))) = out"
proof -
  let ?sock = "w_sock (rs_world (cl_run cl))"
  have es: "fd_in ?sock = []" and rl: "cl_rl cl = None \<or> cl_rl cl = Some \<lparr>rl_unread = []\<rparr>"
    and out: "fd_out ?sock = out" using assms by (auto simp: waits_def Let_def)
  have "smf_internal_readcbuf \<lparr>rl_unread = []\<rparr> ?sock = (RcEof, \<lparr>rl_unread = []\<rparr>, ?sock)"
    using es by (subst smf_internal_readcbuf.simps) (simp add: sys_read.simps)
  then have "readline_loop (Suc 1022) [] NUL \<lparr>rl_unread = []\<rparr> ?sock = (LineEnd, \<lparr>rl_unread = []\<rparr>, ?sock)"
    by (simp only: readline_loop.simps) simp
  then have "smf_internal_readline 1024 (cl_rl cl) ?sock = Inr (LineEnd, Some \<lparr>rl_unread = []\<rparr>, ?sock)"
    using rl by (auto simp: smf_internal_readline_def simp del: readline_loop.simps)
  with out show ?thesis by (simp add: Let_def with_world_def)
qed

lemma commands_answered:
  "waits settings (map RdData cs) out cl \<Longrightarrow> plain_codes (s_smtp_codes settings) \<Longrightarrow> plain_text (sv_hostname env) \<Longrightarrow>
   list_all command_line cs \<Longrightarrow>
   (\<forall>c \<in> set cs. smtp_classify c \<noteq> CmdData) \<or> (cl_state cl \<noteq> ST_RCPT \<and> (\<forall>c \<in> set cs. smtp_classify c \<noteq> CmdRcpt)) \<Longrightarrow>
   length cs < fuel \<Longrightarrow>
   \<exists>cl' rs. client_loop fuel env cl = Some (Inr cl') \<and> fd_out (w_sock (rs_world (cl_run cl'))) = out @ concat rs \<and>
     length rs = commands_read cs \<and> list_all complete_reply rs"
proof (induction cs arbitrary: out cl fuel)
  case Nil
  then obtain f where f: "fuel = Suc f" by (cases fuel) auto
  have "waits settings [] out cl" using Nil.prems(1) by simp
  from end_round [OF this, of f env] f show ?case by auto
next
  case (Cons c cs)
  then obtain f where f: "fuel = Suc f" by (cases fuel) auto
  obtain br cl1 where rd: "smf_internal_readline 1024 (cl_rl cl) (w_sock (rs_world (cl_run cl))) =
      Inr (LineGot br c, cl_rl cl1, w_sock (rs_world (cl_run cl1)))" "c_str c = c"
    "cl1 = cl\<lparr>cl_rl := cl_rl cl1, cl_run := with_world (\<lambda>w. w\<lparr>w_sock := w_sock (rs_world (cl_run cl1))\<rparr>) (cl_run cl)\<rparr>"
    "waits settings (map RdData cs) out cl1" "cl_state cl1 = cl_state cl"
    using read_command [of settings c "map RdData cs" out cl] Cons.prems by auto
  obtain cl2 where d: "smtpd_dispatch env c cl1 = Inr (smtp_classify c = CmdQuit, cl2)"
    "answers settings (map RdData cs) out cl2"
    "cl_state cl1 \<noteq> ST_RCPT \<longrightarrow> smtp_classify c \<noteq> CmdRcpt \<longrightarrow> cl_state cl2 \<noteq> ST_RCPT"
    using dispatch_answers [OF rd(4) Cons.prems(2,3), of c] Cons.prems(5) rd(5) by auto
  obtain r where r: "complete_reply r" "waits settings (map RdData cs) (out @ r) cl2"
    using d(2) by (auto simp: answers_def)
  have step: "client_loop fuel env cl = (if smtp_classify c = CmdQuit then Some (Inr cl2) else client_loop f env cl2)"
    using rd(1,2) d(1) rd(3) [symmetric] by (simp add: f Let_def)
  show ?case
  proof (cases "smtp_classify c = CmdQuit")
    case True
    with step r show ?thesis by (intro exI [of _ cl2] exI [of _ "[r]"]) (simp add: waits_def Let_def)
  next
    case False
    have "length cs < f" using Cons.prems(6) f by simp
    moreover have "(\<forall>c \<in> set cs. smtp_classify c \<noteq> CmdData) \<or> (cl_state cl2 \<noteq> ST_RCPT \<and> (\<forall>c \<in> set cs. smtp_classify c \<noteq> CmdRcpt))"
      using Cons.prems(5) d(3) rd(5) by auto
    moreover have "list_all command_line cs" using Cons.prems(4) by simp
    ultimately obtain cl' rs where "client_loop f env cl2 = Some (Inr cl')"
      "fd_out (w_sock (rs_world (cl_run cl'))) = (out @ r) @ concat rs" "length rs = commands_read cs" "list_all complete_reply rs"
      using Cons.IH [OF r(2) Cons.prems(2,3)] by blast
    with step False r(1) show ?thesis by (intro exI [of _ cl'] exI [of _ "r # rs"]) simp
  qed
qed

section \<open>Properties\<close>

text \<open>
  Claim C5.  The dialogue always goes on: whatever lines a client sends, in whatever order, as long as
  no message follows, the daemon greets it and answers every line, up to and with the first
  \<open>QUIT\<close>, by exactly one complete reply in the form of RFC 5321, then ends.  One iteration per line
  and one for the end of the input are enough.
\<close>

theorem smf_smtpd_commands_answered:
  assumes "plain_text (sv_hostname env)" and "plain_codes (s_smtp_codes settings)" and "accepts (fd_wr (w_sock w))"
    and "fd_in (w_sock w) = map RdData cs" and "list_all command_line cs" and "no_message cs" and "length cs < fuel"
  shows "\<exists>cl rs. smf_smtpd_handle_client fuel env settings w = Some (Inr cl) \<and>
    fd_out (w_sock (rs_world (cl_run cl))) = fd_out (w_sock w) @ concat rs \<and>
    length rs = Suc (commands_read cs) \<and> list_all complete_reply rs"
proof -
  let ?hi = "''220 '' @ sv_hostname env @ '' spmfilter'' @ crlf"
  have "waits settings (map RdData cs) (fd_out (w_sock w)) (client_new env settings w)"
    using assms(3,4) by (simp add: waits_def Let_def client_new_def)
  then have w: "waits settings (map RdData cs) (fd_out (w_sock w) @ ?hi) (send ?hi (client_new env settings w))"
    by (rule send_waits)
  have "cl_state (send ?hi (client_new env settings w)) \<noteq> ST_RCPT" by (simp add: client_new_def)
  with assms(6) have "(\<forall>c \<in> set cs. smtp_classify c \<noteq> CmdData) \<or>
      (cl_state (send ?hi (client_new env settings w)) \<noteq> ST_RCPT \<and> (\<forall>c \<in> set cs. smtp_classify c \<noteq> CmdRcpt))"
    by (simp add: no_message_def)
  from commands_answered [OF w assms(2,1,5) this assms(7)] obtain cl rs where
    "client_loop fuel env (send ?hi (client_new env settings w)) = Some (Inr cl)"
    "fd_out (w_sock (rs_world (cl_run cl))) = (fd_out (w_sock w) @ ?hi) @ concat rs"
    "length rs = commands_read cs" "list_all complete_reply rs" by blast
  then show ?thesis
    using greeting_complete [OF assms(1)]
    by (intro exI [of _ cl] exI [of _ "?hi # rs"]) (simp add: smf_smtpd_handle_client_def)
qed

definition ex_commands :: "string list" where
  "ex_commands = [ehlo_line ''c.org'', ''hello?'' @ crlf, mail_line ''a@b'', ''QUIT'' @ crlf, data_line]"

lemma ex_commands_ok:
  "list_all command_line ex_commands" "no_message ex_commands" "commands_read ex_commands = 4" "length ex_commands = 5"
proof -
  have cls: "smtp_classify (''hello?'' @ crlf) = CmdUnknown" "smtp_classify (''QUIT'' @ crlf) = CmdQuit"
    by (simp_all add: smtp_classify_def strncasecmp_eq_def c_tolower_def char_of_def bit_iff_odd)
  have "word ''c.org''" "word ''a@b''" by (simp_all add: word_def c_isspace_def)
  moreover have "command_line (''hello?'' @ crlf)"
    unfolding command_line_def by (rule exI [of _ "''hello?'' @ [CR]"]) (simp add: crlf_def)
  moreover have "command_line (''QUIT'' @ crlf)"
    unfolding command_line_def by (rule exI [of _ "''QUIT'' @ [CR]"]) (simp add: crlf_def)
  ultimately show "list_all command_line ex_commands" by (simp add: ex_commands_def command_lines)
  show "no_message ex_commands" unfolding no_message_def ex_commands_def by (rule disjI2) (simp only: list.set ball_simps command_classes cls, simp)
  show "commands_read ex_commands = 4" by (simp only: ex_commands_def commands_read.simps command_classes cls smtp_command.distinct) simp
  show "length ex_commands = 5" by (simp add: ex_commands_def)
qed

text \<open>Five lines, the fourth of them \<open>QUIT\<close>: five replies with the greeting.\<close>

lemma smf_smtpd_commands_answered_witness:
  "\<exists>cl rs. smf_smtpd_handle_client 6 ex_env smf_settings_new
       (ex_world\<lparr>w_sock := \<lparr>fd_in = map RdData ex_commands, fd_wr = [WrSome 3, WrIntr], fd_out = []\<rparr>\<rparr>) = Some (Inr cl) \<and>
     fd_out (w_sock (rs_world (cl_run cl))) = concat rs \<and> length rs = 5 \<and> list_all complete_reply rs"
proof -
  let ?w = "ex_world\<lparr>w_sock := \<lparr>fd_in = map RdData ex_commands, fd_wr = [WrSome 3, WrIntr], fd_out = []\<rparr>\<rparr>"
  have "plain_text (sv_hostname ex_env)" by (simp add: ex_env_def plain_text_def)
  moreover have "plain_codes (s_smtp_codes smf_settings_new)" by (simp add: plain_codes_def smf_settings_new_def dict_get_new)
  moreover have "accepts (fd_wr (w_sock ?w))" "fd_in (w_sock ?w) = map RdData ex_commands" by simp_all
  ultimately have "\<exists>cl rs. smf_smtpd_handle_client 6 ex_env smf_settings_new ?w = Some (Inr cl) \<and>
      fd_out (w_sock (rs_world (cl_run cl))) = fd_out (w_sock ?w) @ concat rs \<and>
      length rs = Suc (commands_read ex_commands) \<and> list_all complete_reply rs"
    by (rule smf_smtpd_commands_answered) (simp_all add: ex_commands_ok)
  then show ?thesis by (simp add: ex_commands_ok(3))
qed

end
