(* ===== verification/Smf_Conversation.thy ===== *)
theory Smf_Conversation
  imports Smf_Accept Smf_Answers
begin

text \<open>
  Whole conversations: commands in any order, and messages whenever the daemon asks for one.  Every
  command is answered, and what a client sends after the prompt is never taken for a command.
\<close>

section \<open>Reading up to the end of a message\<close>

text \<open>Input that ends with data: whoever has read its last byte has used it up.\<close>

definition whole :: "rd_ev list \<Rightarrow> bool" where
  "whole evs \<longleftrightarrow> flows evs \<and> (evs \<noteq> [] \<longrightarrow> (\<exists>s. last evs = RdData s))"

lemma whole_pending: "whole evs \<Longrightarrow> evs \<noteq> [] \<Longrightarrow> pending evs \<noteq> []"
proof (induction evs)
  case Nil
  then show ?case by simp
next
  case (Cons e evs)
  show ?case
  proof (cases "evs = []")
    case True
    with Cons.prems show ?thesis by (cases e) (auto simp: whole_def)
  next
    case False
    with Cons.prems have "whole evs" by (cases e) (auto simp: whole_def)
    with Cons.IH False show ?thesis by (cases e) auto
  qed
qed

lemma read_whole:
  assumes "whole evs" and "evs \<noteq> []" and "fd_in f = evs @ es" and "0 < n"
  shows "\<exists>r evs'. sys_read n f = (r, f\<lparr>fd_in := evs' @ es\<rparr>) \<and> whole evs' \<and>
    ((r = Intr \<and> pending evs' = pending evs \<and> length evs' < length evs) \<or>
     (\<exists>c s. r = Got (c # s) \<and> pending evs = c # s @ pending evs'))"
proof -
  obtain e evs1 where e: "evs = e # evs1" using assms(2) by (cases evs) auto
  have w1: "whole evs1" using assms(1) e by (cases e) (auto simp: whole_def split: if_splits)
  show ?thesis
  proof (cases e)
    case (RdData s)
    then obtain c t where s: "s = c # t" using assms(1) e by (cases s) (auto simp: whole_def)
    obtain k where n: "n = Suc k" using assms(4) by (cases n) auto
    define evs' where "evs' = (if drop n s = [] then evs1 else RdData (drop n s) # evs1)"
    have "sys_read n f = (Got (c # take k t), f\<lparr>fd_in := evs' @ es\<rparr>)"
      using assms(3) e RdData s n by (auto simp: sys_read.simps evs'_def)
    moreover have "whole evs'" using w1 assms(1) e RdData by (auto simp: evs'_def whole_def split: if_splits)
    moreover have "pending evs = c # take k t @ pending evs'"
      using e RdData s n by (auto simp: evs'_def)
    ultimately show ?thesis by blast
  next
    case RdIntr
    with assms(3) e w1 show ?thesis by (auto simp: sys_read.simps)
  next
    case RdErr
    with assms(1) e show ?thesis by (simp add: whole_def)
  qed
qed

lemma readcbuf_whole:
  "whole evs \<Longrightarrow> fd_in f = evs @ es \<Longrightarrow> rl_unread rl @ pending evs = c # rest \<Longrightarrow>
   \<exists>rl' f' evs'. smf_internal_readcbuf rl f = (RcChar c, rl', f') \<and> fd_in f' = evs' @ es \<and> whole evs' \<and>
     rl_unread rl' @ pending evs' = rest"
proof (induction "length evs" arbitrary: evs f rule: less_induct)
  case less
  show ?case
  proof (cases "rl_unread rl")
    case (Cons d u)
    with less.prems show ?thesis by (subst smf_internal_readcbuf.simps) auto
  next
    case Nil
    with less.prems(3) have "evs \<noteq> []" by auto
    have pos: "0 < rl_bufsize" by (simp add: rl_bufsize_def)
    obtain r evs1 where rd: "sys_read rl_bufsize f = (r, f\<lparr>fd_in := evs1 @ es\<rparr>)" and w: "whole evs1"
      and r: "(r = Intr \<and> pending evs1 = pending evs \<and> length evs1 < length evs) \<or>
        (\<exists>c s. r = Got (c # s) \<and> pending evs = c # s @ pending evs1)"
      using read_whole [OF less.prems(1) \<open>evs \<noteq> []\<close> less.prems(2) pos] by blast
    from r show ?thesis
    proof
      assume i: "r = Intr \<and> pending evs1 = pending evs \<and> length evs1 < length evs"
      then have "smf_internal_readcbuf rl f = smf_internal_readcbuf rl (f\<lparr>fd_in := evs1 @ es\<rparr>)"
        using Nil rd by (subst smf_internal_readcbuf.simps) simp
      with less.hyps [of evs1 "f\<lparr>fd_in := evs1 @ es\<rparr>"] i w less.prems(3) show ?thesis by simp
    next
      assume "\<exists>c s. r = Got (c # s) \<and> pending evs = c # s @ pending evs1"
      then show ?thesis using Nil rd w less.prems(3)
        by (subst smf_internal_readcbuf.simps) auto
    qed
  qed
qed

lemma readline_loop_whole:
  "whole evs \<Longrightarrow> fd_in f = evs @ es \<Longrightarrow> rl_unread rl @ pending evs = l @ LF # rest \<Longrightarrow> LF \<notin> set l \<Longrightarrow> length l < k \<Longrightarrow>
   \<exists>rl' f' evs'. readline_loop k acc c rl f = (LineGot (length acc + length l + 1) (acc @ l @ [LF]), rl', f') \<and>
     fd_in f' = evs' @ es \<and> whole evs' \<and> rl_unread rl' @ pending evs' = rest"
proof (induction l arbitrary: k acc c rl f evs)
  case Nil
  then obtain k' where k: "k = Suc k'" by (cases k) auto
  from readcbuf_whole [OF Nil.prems(1,2), of rl LF rest] Nil.prems(3) k show ?case by auto
next
  case (Cons x l)
  then obtain k' where k: "k = Suc k'" by (cases k) auto
  have x: "x \<noteq> LF" using Cons.prems by auto
  obtain rl1 f1 evs1 where cb: "smf_internal_readcbuf rl f = (RcChar x, rl1, f1)" "fd_in f1 = evs1 @ es" "whole evs1"
    "rl_unread rl1 @ pending evs1 = l @ LF # rest"
    using readcbuf_whole [OF Cons.prems(1,2), of rl x "l @ LF # rest"] Cons.prems(3) by auto
  have "LF \<notin> set l" "length l < k'" using Cons.prems(4,5) k by auto
  from Cons.IH [OF cb(3,2,4) this, of "acc @ [x]" x] k cb(1) x show ?case by auto
qed

lemma readline_whole:
  assumes "whole evs" and "fd_in f = evs @ es" and "(case hp of None \<Rightarrow> [] | Some rl \<Rightarrow> rl_unread rl) @ pending evs = l @ rest"
    and "is_line 1024 l"
  shows "\<exists>rl' f' evs'. smf_internal_readline 1024 hp f = Inr (LineGot (length l) l, Some rl', f') \<and>
     fd_in f' = evs' @ es \<and> whole evs' \<and> rl_unread rl' @ pending evs' = rest"
proof -
  obtain k where l: "l = k @ [LF]" "LF \<notin> set k" "length k < 1023"
    using assms(4) append_butlast_last_id [of l] by (auto simp: is_line_def intro: that [of "butlast l"])
  define rl where "rl = (case hp of None \<Rightarrow> \<lparr>rl_unread = []\<rparr> | Some rl \<Rightarrow> rl)"
  have "rl_unread rl @ pending evs = k @ LF # rest" using assms(3) l by (simp add: rl_def split: option.splits)
  from readline_loop_whole [OF assms(1,2) this l(2,3), of "[]" NUL] l show ?thesis
    by (auto simp: smf_internal_readline_def rl_def [symmetric] simp del: readline_loop.simps)
qed

text \<open>The message loop stops after the last byte of the message.\<close>

lemma data_loop_whole:
  "list_all message_line ls \<Longrightarrow> whole evs \<Longrightarrow> fd_in sock = evs @ es \<Longrightarrow>
   (case hp of None \<Rightarrow> [] | Some rl \<Rightarrow> rl_unread rl) @ pending evs = concat (map dot_stuff ls) @ ''.'' @ crlf \<Longrightarrow>
   \<exists>ds' r sock'. data_loop hp sock ds = (ds', r, sock') \<and> fd_in sock' = es"
proof (induction ls arbitrary: hp sock ds evs)
  case Nil
  have "is_line 1024 (''.'' @ crlf)" by (simp add: is_line_def crlf_def)
  moreover have "(case hp of None \<Rightarrow> [] | Some rl \<Rightarrow> rl_unread rl) @ pending evs = (''.'' @ crlf) @ []"
    using Nil.prems(4) by simp
  ultimately obtain rl1 sock1 evs1 where rd: "smf_internal_readline 1024 hp sock =
      Inr (LineGot (length (''.'' @ crlf)) (''.'' @ crlf), Some rl1, sock1)"
    and left: "fd_in sock1 = evs1 @ es" "whole evs1" "rl_unread rl1 @ pending evs1 = []"
    using readline_whole [OF Nil.prems(2,3)] by blast
  have "evs1 = []" using left(2,3) whole_pending [of evs1] by auto
  moreover have "data_loop hp sock ds = (ds, LineGot (length (''.'' @ crlf)) (''.'' @ crlf), sock1)"
    using rd by (subst data_loop.simps) (simp only: sum.case prod.case line_result.case data_step_end if_True)
  ultimately show ?case using left(1) by auto
next
  case (Cons l ls)
  then have ln: "message_line l" by simp
  then have "is_line 1024 (dot_stuff l)" using dot_stuff_line by blast
  moreover have "(case hp of None \<Rightarrow> [] | Some rl \<Rightarrow> rl_unread rl) @ pending evs =
      dot_stuff l @ concat (map dot_stuff ls) @ ''.'' @ crlf" using Cons.prems(4) by simp
  ultimately obtain rl1 sock1 evs1 where rd: "smf_internal_readline 1024 hp sock =
      Inr (LineGot (length (dot_stuff l)) (dot_stuff l), Some rl1, sock1)"
    and left: "fd_in sock1 = evs1 @ es" "whole evs1"
      "rl_unread rl1 @ pending evs1 = concat (map dot_stuff ls) @ ''.'' @ crlf"
    using readline_whole [OF Cons.prems(2,3)] by blast
  have "data_loop hp sock ds = data_loop (Some rl1) sock1 (data_store (length (dot_stuff l)) l ds)"
    using rd data_step_line [OF ln] by (subst data_loop.simps) simp
  with Cons.IH [of evs1 sock1 "Some rl1"] Cons.prems(1) left show ?case by simp
qed

section \<open>The protocol state\<close>

text \<open>The state after a command, from the state before and the command alone.\<close>

definition next_state :: "smtp_state \<Rightarrow> string \<Rightarrow> smtp_state" where
  "next_state s req =
     (case smtp_classify req of
        CmdQuit \<Rightarrow> ST_QUIT
      | CmdHelo ehlo \<Rightarrow> if smf_smtpd_get_req_value req 4 = [] then s else ST_HELO
      | CmdXforward \<Rightarrow> if strcasestr req ''ADDR='' = None then s else ST_XFWD
      | CmdMail \<Rightarrow> if s = ST_MAIL \<or> smf_smtpd_get_req_value req 10 = [] then s else ST_MAIL
      | CmdRcpt \<Rightarrow> if (s = ST_MAIL \<or> s = ST_RCPT) \<and> smf_smtpd_get_req_value req 8 \<noteq> [] then ST_RCPT else s
      | CmdData \<Rightarrow> if s = ST_RCPT then ST_DATA else s
      | CmdRset \<Rightarrow> ST_INIT
      | _ \<Rightarrow> s)"

lemma dispatch_state:
  assumes "smtpd_dispatch env req cl = Inr (b, cl2)"
  shows "b = (smtp_classify req = CmdQuit) \<and> cl_state cl2 = next_state (cl_state cl) req"
proof (cases "smtp_classify req")
  case CmdXforward
  with assms address_has_equals [of req] show ?thesis
    by (auto simp: smtpd_dispatch_def do_xforward_def next_state_def split: option.splits)
qed (use assms in \<open>auto simp: smtpd_dispatch_def do_helo_def do_mail_def do_rcpt_def do_data_def do_rset_def
  next_state_def map_sum_def Let_def split: if_splits sum.splits\<close>)

lemma dispatch_fault: "smtpd_dispatch env req cl = Inl e \<Longrightarrow> \<exists>st. smf_smtpd_process_data env st = Inl e"
  by (auto simp: smtpd_dispatch_def do_data_def map_sum_def split: smtp_command.splits if_splits sum.splits)

text \<open>Whether the daemon asks for a message.\<close>

definition asked :: "smtp_state \<Rightarrow> string \<Rightarrow> bool" where
  "asked s req \<longleftrightarrow> smtp_classify req = CmdData \<and> s = ST_RCPT"

section \<open>The conversation\<close>

text \<open>
  A client: commands, each with the message it sends if it is asked for one.  It waits for the answer
  to each command, so a command arrives on its own; a message arrives in any pieces.
\<close>

type_synonym script = "(string \<times> rd_ev list) list"

definition message_text :: "rd_ev list \<Rightarrow> bool" where
  "message_text evs \<longleftrightarrow>
     whole evs \<and> (\<exists>ls. list_all message_line ls \<and> pending evs = concat (map dot_stuff ls) @ ''.'' @ crlf)"

fun client_sends :: "smtp_state \<Rightarrow> script \<Rightarrow> rd_ev list" where
  "client_sends s [] = []"
| "client_sends s ((c, m) # cs) = RdData c # (if asked s c then m else []) @ client_sends (next_state s c) cs"

text \<open>
  What it hears: a complete reply to a command; to \<open>DATA\<close> the prompt, and after the message one text
  (or none, when the changed headers could not be written to the spool file).
\<close>

definition heard :: "platform \<Rightarrow> smtp_state \<Rightarrow> string \<Rightarrow> string \<Rightarrow> bool" where
  "heard pf s c r \<longleftrightarrow>
     (if asked s c then \<exists>t. r = data_prompt @ t \<and> (t \<noteq> [] \<or> (\<exists>sb. flush_failed pf sb)) else complete_reply r)"

fun all_heard :: "platform \<Rightarrow> smtp_state \<Rightarrow> script \<Rightarrow> string list \<Rightarrow> bool" where
  "all_heard pf s [] rs \<longleftrightarrow> rs = []"
| "all_heard pf s ((c, m) # cs) rs \<longleftrightarrow>
     (case rs of
        [] \<Rightarrow> False
      | r # rs' \<Rightarrow> heard pf s c r \<and> (if smtp_classify c = CmdQuit then rs' = [] else all_heard pf (next_state s c) cs rs'))"

text \<open>The daemon between two commands, for any settings it may have by now.\<close>

definition talks :: "smf_settings \<Rightarrow> rd_ev list \<Rightarrow> string \<Rightarrow> client \<Rightarrow> bool" where
  "talks settings es out cl \<longleftrightarrow>
     (\<exists>s. waits s es out cl \<and> talk_settings s = talk_settings settings)"

lemma message_round:
  assumes w: "waits s (m @ es) out cl" and m: "message_text m" and c: "asked (cl_state cl) req"
    and quiet: "modules_quiet (sv_pf env)" and opens: "\<forall>n. os_may_open (pf_os (sv_pf env)) n"
    and fail: "s_module_fail s = 2 \<or> s_module_fail s = 3"
    and d: "smtpd_dispatch env req cl = Inr (b, cl2)"
  shows "\<exists>r. heard (sv_pf env) (cl_state cl) req r \<and> talks s es (out @ r) cl2"
proof -
  obtain st' where p: "smf_smtpd_process_data env (cl_run cl) = Inr st'"
    and cl2: "cl2 = cl\<lparr>cl_state := ST_DATA, cl_run := st'\<rparr>"
    using c d by (auto simp: asked_def smtpd_dispatch_def do_data_def map_sum_def split: sum.splits)
  let ?f = "w_sock (rs_world (cl_run cl))"
  have f: "rs_settings (cl_run cl) = s" "fd_in ?f = m @ es" "accepts (fd_wr ?f)" "fd_out ?f = out"
    using w by (simp_all add: waits_def Let_def)
  have fl: "s_module_fail (rs_settings (cl_run cl)) = 2 \<or> s_module_fail (rs_settings (cl_run cl)) = 3"
    using fail f(1) by simp
  let ?f1 = "snd (smf_internal_writen data_prompt ?f)"
  obtain ds0 ds r sock where talk: "talk_settings (rs_settings st') = talk_settings s"
    and loop: "data_loop None ?f1 ds0 = (ds, r, sock)"
    and last: "(\<exists>t. t \<noteq> [] \<and> w_sock (rs_world st') = snd (smf_internal_writen t sock)) \<or>
      (w_sock (rs_world st') = sock \<and> (\<exists>sb. flush_failed (sv_pf env) sb))"
    using process_data_talk [OF p quiet fl] opens f(1) by blast
  obtain ls where ls: "whole m" "list_all message_line ls" "pending m = concat (map dot_stuff ls) @ ''.'' @ crlf"
    using m by (auto simp: message_text_def)
  have "fd_in ?f1 = m @ es" by (simp add: writen_frame f)
  from data_loop_whole [OF ls(2,1) this, of None ds0] ls(3) loop have left: "fd_in sock = es" by simp
  have sock: "fd_out sock = out @ data_prompt" "accepts (fd_wr sock)"
    using data_loop_out [OF loop] f(3,4) by (simp_all add: smf_internal_writen_out smf_internal_writen_accepts)
  from last obtain t where t: "t \<noteq> [] \<or> (\<exists>sb. flush_failed (sv_pf env) sb)"
    and w': "fd_out (w_sock (rs_world st')) = out @ data_prompt @ t" "accepts (fd_wr (w_sock (rs_world st')))"
      "fd_in (w_sock (rs_world st')) = es"
  proof
    assume "\<exists>t. t \<noteq> [] \<and> w_sock (rs_world st') = snd (smf_internal_writen t sock)"
    then obtain t where "t \<noteq> []" "w_sock (rs_world st') = snd (smf_internal_writen t sock)" by blast
    then show ?thesis
      using sock left by (intro that [of t]) (simp_all add: writen_frame smf_internal_writen_out smf_internal_writen_accepts)
  next
    assume "w_sock (rs_world st') = sock \<and> (\<exists>sb. flush_failed (sv_pf env) sb)"
    then show ?thesis using that [of "[]"] sock left by auto
  qed
  have "waits (rs_settings st') es (out @ data_prompt @ t) cl2"
    using w w' cl2 by (auto simp: waits_def Let_def)
  with talk have "talks s es (out @ data_prompt @ t) cl2" by (auto simp: talks_def)
  moreover have "heard (sv_pf env) (cl_state cl) req (data_prompt @ t)" using c t by (auto simp: heard_def)
  ultimately show ?thesis by blast
qed

lemma command_round:
  assumes w: "waits s es out cl" and codes: "plain_codes (s_smtp_codes s)" and host: "plain_text (sv_hostname env)"
    and c: "\<not> asked (cl_state cl) req"
  shows "\<exists>cl2 r. smtpd_dispatch env req cl = Inr (smtp_classify req = CmdQuit, cl2) \<and> heard (sv_pf env) (cl_state cl) req r \<and>
    talks s es (out @ r) cl2"
proof -
  have "smtp_classify req = CmdData \<Longrightarrow> cl_state cl \<noteq> ST_RCPT" using c by (simp add: asked_def)
  from dispatch_answers [OF w codes host this] obtain cl2 where
    "smtpd_dispatch env req cl = Inr (smtp_classify req = CmdQuit, cl2)" "answers s es out cl2" by blast
  then show ?thesis using c by (auto simp: answers_def heard_def talks_def)
qed

text \<open>One round: a fault, or an answer.\<close>

lemma any_round:
  assumes w: "talks s (RdData req # (if asked (cl_state cl) req then m else []) @ es) out cl" and line: "command_line req"
    and m: "message_text m" and codes: "plain_codes (s_smtp_codes s)" and host: "plain_text (sv_hostname env)"
    and quiet: "modules_quiet (sv_pf env)" and opens: "\<forall>n. os_may_open (pf_os (sv_pf env)) n"
    and fail: "s_module_fail s = 2 \<or> s_module_fail s = 3"
  shows "(\<exists>e st. client_loop (Suc fuel) env cl = Some (Inl e) \<and> smf_smtpd_process_data env st = Inl e) \<or>
    (\<exists>cl2 r. client_loop (Suc fuel) env cl = (if smtp_classify req = CmdQuit then Some (Inr cl2) else client_loop fuel env cl2) \<and>
       cl_state cl2 = next_state (cl_state cl) req \<and> heard (sv_pf env) (cl_state cl) req r \<and> talks s es (out @ r) cl2)"
proof -
  obtain s1 where s1: "waits s1 (RdData req # (if asked (cl_state cl) req then m else []) @ es) out cl"
    "talk_settings s1 = talk_settings s" using w by (auto simp: talks_def)
  then have same: "plain_codes (s_smtp_codes s1)" "s_module_fail s1 = 2 \<or> s_module_fail s1 = 3"
    using codes fail by (simp_all add: talk_settings_eq)
  obtain br cl1 where rd: "smf_internal_readline 1024 (cl_rl cl) (w_sock (rs_world (cl_run cl))) =
      Inr (LineGot br req, cl_rl cl1, w_sock (rs_world (cl_run cl1)))" "c_str req = req"
    "cl1 = cl\<lparr>cl_rl := cl_rl cl1, cl_run := with_world (\<lambda>w. w\<lparr>w_sock := w_sock (rs_world (cl_run cl1))\<rparr>) (cl_run cl)\<rparr>"
    "waits s1 ((if asked (cl_state cl) req then m else []) @ es) out cl1" "cl_state cl1 = cl_state cl"
    using read_command [OF s1(1) line] by blast
  have step: "client_loop (Suc fuel) env cl = (case smtpd_dispatch env req cl1 of
      Inl e \<Rightarrow> Some (Inl e) | Inr (True, cl2) \<Rightarrow> Some (Inr cl2) | Inr (False, cl2) \<Rightarrow> client_loop fuel env cl2)"
    using rd(1,2) rd(3) [symmetric] by (simp add: Let_def)
  have talks: "talks s1 es o2 cl2 \<Longrightarrow> talks s es o2 cl2" for o2 cl2
    using s1(2) by (auto simp: talks_def)
  show ?thesis
  proof (cases "smtpd_dispatch env req cl1")
    case (Inl e)
    with step dispatch_fault [OF Inl] show ?thesis by simp
  next
    case (Inr x)
    obtain b cl2 where x: "smtpd_dispatch env req cl1 = Inr (b, cl2)" using Inr by (cases x) auto
    note st = dispatch_state [OF x]
    obtain r where "heard (sv_pf env) (cl_state cl1) req r" "talks s1 es (out @ r) cl2"
    proof (cases "asked (cl_state cl1) req")
      case True
      then have "waits s1 (m @ es) out cl1" using rd(4,5) by simp
      from message_round [OF this m True quiet opens same(2) x] that show ?thesis by blast
    next
      case False
      then have "waits s1 es out cl1" using rd(4,5) by simp
      from command_round [OF this same(1) host False] x that show ?thesis by auto
    qed
    with step x st talks rd(5) show ?thesis by (intro disjI2 exI [of _ cl2] exI [of _ r]) simp
  qed
qed

lemma conversation:
  "talks s (client_sends (cl_state cl) cs) out cl \<Longrightarrow> list_all (\<lambda>(c, m). command_line c \<and> message_text m) cs \<Longrightarrow>
   plain_codes (s_smtp_codes s) \<Longrightarrow> plain_text (sv_hostname env) \<Longrightarrow> modules_quiet (sv_pf env) \<Longrightarrow>
   \<forall>n. os_may_open (pf_os (sv_pf env)) n \<Longrightarrow> s_module_fail s = 2 \<or> s_module_fail s = 3 \<Longrightarrow> length cs < fuel \<Longrightarrow>
   (\<exists>e st. client_loop fuel env cl = Some (Inl e) \<and> smf_smtpd_process_data env st = Inl e) \<or>
   (\<exists>cl' rs. client_loop fuel env cl = Some (Inr cl') \<and> fd_out (w_sock (rs_world (cl_run cl'))) = out @ concat rs \<and>
      all_heard (sv_pf env) (cl_state cl) cs rs)"
proof (induction cs arbitrary: out cl fuel)
  case Nil
  then obtain f where f: "fuel = Suc f" by (cases fuel) auto
  obtain s1 where w: "waits s1 (map RdData []) out cl" using Nil.prems(1) by (auto simp: talks_def)
  have "waits s1 [] out cl" using w by simp
  from end_round [OF this, of f env] f show ?case by auto
next
  case (Cons x cs)
  obtain c m where x: "x = (c, m)" by fastforce
  obtain f where f: "fuel = Suc f" "length cs < f" using Cons.prems(8) by (cases fuel) auto
  have ok: "command_line c" "message_text m" "list_all (\<lambda>(c, m). command_line c \<and> message_text m) cs"
    using Cons.prems(2) x by auto
  from Cons.prems(1) x have "talks s (RdData c # (if asked (cl_state cl) c then m else []) @
      client_sends (next_state (cl_state cl) c) cs) out cl" by simp
  from any_round [OF this ok(1,2) Cons.prems(3-7), of f] f(1) consider e st where "client_loop fuel env cl = Some (Inl e)" "smf_smtpd_process_data env st = Inl e"
    | cl2 r where "client_loop fuel env cl = (if smtp_classify c = CmdQuit then Some (Inr cl2) else client_loop f env cl2)"
      "cl_state cl2 = next_state (cl_state cl) c" "heard (sv_pf env) (cl_state cl) c r"
      "talks s (client_sends (next_state (cl_state cl) c) cs) (out @ r) cl2" by auto
  then show ?case
  proof cases
    case (2 cl2 r)
    show ?thesis
    proof (cases "smtp_classify c = CmdQuit")
      case True
      with 2 show ?thesis
        by (intro disjI2 exI [of _ cl2] exI [of _ "[r]"]) (auto simp: x talks_def waits_def Let_def)
    next
      case False
      have "talks s (client_sends (cl_state cl2) cs) (out @ r) cl2" using 2(2,4) by simp
      from Cons.IH [OF this ok(3) Cons.prems(3-7) f(2)] consider e st where "client_loop f env cl2 = Some (Inl e)" "smf_smtpd_process_data env st = Inl e"
        | cl' rs where "client_loop f env cl2 = Some (Inr cl')" "fd_out (w_sock (rs_world (cl_run cl'))) = (out @ r) @ concat rs"
          "all_heard (sv_pf env) (cl_state cl2) cs rs" by blast
      then show ?thesis
      proof cases
        case (2 cl' rs)
        then show ?thesis using False x \<open>heard (sv_pf env) (cl_state cl) c r\<close>
            \<open>cl_state cl2 = next_state (cl_state cl) c\<close>
            \<open>client_loop fuel env cl = (if smtp_classify c = CmdQuit then Some (Inr cl2) else client_loop f env cl2)\<close>
          by (intro disjI2 exI [of _ cl'] exI [of _ "r # rs"]) simp
      qed (use 2(1) False in auto)
    qed
  qed blast
qed

section \<open>Properties\<close>


text \<open>A client that sends a message and then goes on, to a daemon whose only module refuses the message.\<close>

definition ex_script :: script where
  "ex_script = [(mail_line ''a@b'', [RdData (''.'' @ crlf)]), (rcpt_line ''c@d'', [RdData (''.'' @ crlf)]),
     (data_line, [RdData (''QUIT'' @ crlf), RdIntr, RdData (''.'' @ crlf)]), (data_line, [RdData (''.'' @ crlf)])]"

definition ex_visit :: world where
  "ex_visit = ex_world\<lparr>w_sock := \<lparr>fd_in = client_sends ST_INIT ex_script, fd_wr = [], fd_out = []\<rparr>\<rparr>"

lemma ex_visit_runs:
  "map_option (map_sum id (\<lambda>cl. cl_state cl)) (smf_smtpd_handle_client 5 ex_daemon (rs_settings ex_refusal) ex_visit) =
   Some (Inr ST_DATA)"
  by code_simp

lemma ex_script_ok: "list_all (\<lambda>(c, m). command_line c \<and> message_text m) ex_script" "length ex_script = 4"
proof -
  have "message_text [RdData (''.'' @ crlf)]"
    unfolding message_text_def whole_def by (rule conjI, simp, rule exI [of _ "[]"]) simp
  moreover have "message_text [RdData (''QUIT'' @ crlf), RdIntr, RdData (''.'' @ crlf)]"
    unfolding message_text_def whole_def
    by (rule conjI, simp, rule exI [of _ "[''QUIT'' @ crlf]"]) (simp add: message_line_def is_line_def dot_stuff_def crlf_def)
  moreover have "word ''c@d''" "word ''a@b''" by (simp_all add: word_def c_isspace_def)
  ultimately show "list_all (\<lambda>(c, m). command_line c \<and> message_text m) ex_script"
    by (simp add: ex_script_def command_lines)
qed (simp add: ex_script_def)


end
