(* ===== verification/Smf_Ipc.thy ===== *)
theory Smf_Ipc
  imports Smf_Prelude
begin

text \<open>
  The semaphore and the shared memory of \<open>smf_server.c\<close>, in the two variants the build chooses from:
  what the system calls return, whether they are enough, and the operations on the semaphore.
\<close>

section \<open>Setting up\<close>

text \<open>
  POSIX.  A failing \<open>mmap\<close> returns \<open>MAP_FAILED\<close>, but the result is compared with \<open>NULL\<close>: the counters
  are then written through it.  The result of \<open>ftruncate\<close> is not looked at.
\<close>

datatype mapping_result = MapNull | MapFailed | Mapped

record posix_calls =
  px_sem_open :: bool
  px_shm_open :: int
  px_mmap :: mapping_result

definition posix_sem_init :: "posix_calls \<Rightarrow> bool" where
  "posix_sem_init px = px_sem_open px"

definition posix_shm_init :: "posix_calls \<Rightarrow> bool c_result" where
  "posix_shm_init px =
     (if px_shm_open px < 0 then Inr False
      else case px_mmap px of MapNull \<Rightarrow> Inr False | MapFailed \<Rightarrow> Inl BadPointer | Mapped \<Rightarrow> Inr True)"

text \<open>
  System V.  A semaphore that exists is used again.  \<open>semget\<close> of a new one and of the old one,
  \<open>errno = EEXIST\<close> after the first, \<open>semctl\<close>, \<open>shmget\<close>, and whether \<open>shmat\<close> returns an address.
\<close>

record sysv_calls =
  iv_semget_new :: int
  iv_exists :: bool
  iv_semget_old :: int
  iv_setval :: bool
  iv_shmget :: int
  iv_shmat :: bool

definition sysv_sem_id :: "sysv_calls \<Rightarrow> int option" where
  "sysv_sem_id iv =
     (if iv_semget_new iv < 0
      then (if iv_exists iv
            then (if iv_semget_old iv < 0 then None else Some (iv_semget_old iv))
            else None)
      else Some (iv_semget_new iv))"

definition sysv_sem_init :: "sysv_calls \<Rightarrow> bool" where
  "sysv_sem_init iv = (case sysv_sem_id iv of None \<Rightarrow> False | Some i \<Rightarrow> iv_setval iv)"

definition sysv_shm_init :: "sysv_calls \<Rightarrow> bool" where
  "sysv_shm_init iv = (if iv_shmget iv < 0 then False else iv_shmat iv)"

datatype ipc_calls = PosixIpc posix_calls | SysvIpc sysv_calls

text \<open>Whether the counters can be used.\<close>

definition ipc_ready :: "ipc_calls \<Rightarrow> bool c_result" where
  "ipc_ready ipc =
     (case ipc of
        PosixIpc px \<Rightarrow> if posix_sem_init px then posix_shm_init px else Inr False
      | SysvIpc iv \<Rightarrow> Inr (sysv_sem_init iv \<and> sysv_shm_init iv))"

section \<open>The semaphore\<close>

definition SEM_LOCK :: int where "SEM_LOCK = - 1"
definition SEM_UNLOCK :: int where "SEM_UNLOCK = 1"

text \<open>
  The POSIX variant.  \<open>sem_wait\<close> blocks (\<open>None\<close>) while the value is 0, until a signal handler has run: then
  it returns without the semaphore (\<open>EINTR\<close>), which the code does not look at.  The handlers are
  installed without \<open>SA_RESTART\<close>.
\<close>

definition smf_server_sem_operation :: "bool \<Rightarrow> int \<Rightarrow> nat \<Rightarrow> nat option" where
  "smf_server_sem_operation interrupted op sem =
     (if op = SEM_LOCK then (if sem = 0 then (if interrupted then Some sem else None) else Some (sem - 1))
      else if op = SEM_UNLOCK then Some (sem + 1) else Some sem)"

text \<open>
  The loop around \<open>semop\<close>: a call that was interrupted is repeated, any other failure ends the process.
  The list has what \<open>semop\<close> returns, call by call; the system lets a call succeed only when the
  value stays at least 0.
\<close>

datatype semop_result = SemopOk | SemopIntr | SemopFailed

datatype semop_end = SemDone nat | SemExit

fun sysv_sem_operation :: "int \<Rightarrow> nat \<Rightarrow> semop_result list \<Rightarrow> semop_end option" where
  "sysv_sem_operation op sem [] = None"
| "sysv_sem_operation op sem (SemopIntr # rs) = sysv_sem_operation op sem rs"
| "sysv_sem_operation op sem (SemopFailed # rs) = Some SemExit"
| "sysv_sem_operation op sem (SemopOk # rs) = (if int sem + op < 0 then None else Some (SemDone (nat (int sem + op))))"

text \<open>Without interruptions both variants are the same semaphore; interruptions make no difference to System V.\<close>

lemma sysv_sem_operation_posix:
  assumes "op = SEM_LOCK \<or> op = SEM_UNLOCK"
  shows "sysv_sem_operation op sem (replicate k SemopIntr @ [SemopOk]) =
    map_option SemDone (smf_server_sem_operation False op sem)"
proof -
  have "sysv_sem_operation op sem [SemopOk] = map_option SemDone (smf_server_sem_operation False op sem)"
    using assms by (auto simp: smf_server_sem_operation_def SEM_LOCK_def SEM_UNLOCK_def nat_diff_distrib)
  then show ?thesis by (induction k) simp_all
qed

lemma sysv_sem_operation_done:
  "sysv_sem_operation op sem rs = Some (SemDone n) \<Longrightarrow> op = SEM_LOCK \<or> op = SEM_UNLOCK \<Longrightarrow>
   smf_server_sem_operation False op sem = Some n"
  by (induction op sem rs rule: sysv_sem_operation.induct)
    (auto simp: smf_server_sem_operation_def SEM_LOCK_def SEM_UNLOCK_def nat_diff_distrib split: if_splits)

text \<open>The semaphore the daemon is built with; for POSIX, whether signals arrive while it waits.\<close>

datatype sem_kind = PosixSem bool | SysvSem

definition sem_call :: "sem_kind \<Rightarrow> int \<Rightarrow> nat \<Rightarrow> nat \<Rightarrow> bool" where
  "sem_call k op sem n \<longleftrightarrow>
     (case k of
        PosixSem signals \<Rightarrow> \<exists>interrupted. (interrupted \<longrightarrow> signals) \<and> smf_server_sem_operation interrupted op sem = Some n
      | SysvSem \<Rightarrow> \<exists>rs. sysv_sem_operation op sem rs = Some (SemDone n))"

lemma sem_call_safe:
  assumes "k \<noteq> PosixSem True" and "op = SEM_LOCK \<or> op = SEM_UNLOCK"
  shows "sem_call k op sem n \<longleftrightarrow> smf_server_sem_operation False op sem = Some n"
proof (cases k)
  case (PosixSem signals)
  with assms(1) show ?thesis by (auto simp: sem_call_def)
next
  case SysvSem
  have "sysv_sem_operation op sem [SemopOk] = map_option SemDone (smf_server_sem_operation False op sem)"
    using sysv_sem_operation_posix [OF assms(2), of sem 0] by simp
  then have "smf_server_sem_operation False op sem = Some n \<Longrightarrow> \<exists>rs. sysv_sem_operation op sem rs = Some (SemDone n)"
    by (intro exI [of _ "[SemopOk]"]) (simp del: sysv_sem_operation.simps)
  then show ?thesis
    using SysvSem sysv_sem_operation_done [OF _ assms(2)] by (auto simp: sem_call_def simp del: sysv_sem_operation.simps)
qed

end
