(* ===== verification/Smf_Server.thy ===== *)
theory Smf_Server
  imports Smf_Settings Smf_Ipc
begin

text \<open>
  The preforking server, \<open>smf_server.c\<close>: the counters in shared memory, the steps of the parent
  and of its children on them, starting up, listening and shutting down.  The counters are changed
  under a semaphore, so each operation is one step; parent and children interleave freely.
\<close>

section \<open>Counters\<close>

record counters =
  ct_num_procs :: int
  ct_num_spare :: int
  ct_max_childs :: nat
  ct_active :: "int list"
  ct_childs :: "int list"

text \<open>The counters at the start, when the shared memory is there; then the whole of \<open>_smf_server_init_ipc\<close>.\<close>

definition init_counters :: "smf_settings \<Rightarrow> counters c_result" where
  "init_counters settings =
     (if CHILD_LIMIT < s_max_childs settings then Inl BufferOverflow
      else Inr \<lparr>ct_num_procs = 0, ct_num_spare = 0, ct_max_childs = nat (s_max_childs settings),
             ct_active = replicate 1024 0, ct_childs = replicate 1024 0\<rparr>)"

definition smf_server_init_ipc :: "ipc_calls \<Rightarrow> smf_settings \<Rightarrow> counters option c_result" where
  "smf_server_init_ipc ipc settings =
     (case ipc_ready ipc of
        Inl e \<Rightarrow> Inl e
      | Inr ready \<Rightarrow> if ready then map_sum id Some (init_counters settings) else Inr None)"

lemma init_ipc_counters: "smf_server_init_ipc ipc settings = Inr (Some c) \<Longrightarrow> init_counters settings = Inr c"
  by (auto simp: smf_server_init_ipc_def map_sum_def split: sum.splits if_splits)

text \<open>The search loops: the first of the first \<open>n\<close> slots that holds \<open>a\<close> gets \<open>b\<close>.\<close>

fun replace_first :: "nat \<Rightarrow> int \<Rightarrow> int \<Rightarrow> int list \<Rightarrow> int list \<times> bool" where
  "replace_first 0 a b xs = (xs, False)"
| "replace_first (Suc n) a b [] = ([], False)"
| "replace_first (Suc n) a b (x # xs) =
     (if x = a then (b # xs, True)
      else (case replace_first n a b xs of (ys, found) \<Rightarrow> (x # ys, found)))"

definition smf_server_add_child :: "int \<Rightarrow> counters \<Rightarrow> counters" where
  "smf_server_add_child pid c =
     c\<lparr>ct_num_procs := ct_num_procs c + 1, ct_num_spare := ct_num_spare c + 1,
       ct_childs := fst (replace_first (ct_max_childs c) 0 pid (ct_childs c))\<rparr>"

definition smf_server_decrement_spare :: "counters \<Rightarrow> counters" where
  "smf_server_decrement_spare c = c\<lparr>ct_num_spare := ct_num_spare c - 1\<rparr>"

definition smf_server_add_active :: "int \<Rightarrow> counters \<Rightarrow> counters" where
  "smf_server_add_active pid c =
     c\<lparr>ct_active := fst (replace_first (ct_max_childs c) 0 pid (ct_active c))\<rparr>"

definition smf_server_remove_active :: "int \<Rightarrow> counters \<Rightarrow> counters" where
  "smf_server_remove_active pid c =
     (case replace_first (ct_max_childs c) pid 0 (ct_active c) of
        (active, removed) \<Rightarrow>
          (let c1 = c\<lparr>ct_num_procs := ct_num_procs c - 1, ct_active := active,
                      ct_childs := fst (replace_first (ct_max_childs c) pid 0 (ct_childs c))\<rparr>
           in if removed then c1 else smf_server_decrement_spare c1))"

section \<open>The parent\<close>

datatype server_signal = SigTerm | SigInt | SigUsr1 | SigChld | SigOther

definition smf_server_sig_handler :: "server_signal \<Rightarrow> int \<Rightarrow> int" where
  "smf_server_sig_handler sig daemon_exit = (if sig = SigTerm \<or> sig = SigInt then 1 else daemon_exit)"

text \<open>
  Installing the handler: the signals it is installed for, in order, and whether all of them could be
  (else the process exits).
\<close>

definition smf_server_sig_init :: "(server_signal \<Rightarrow> bool) \<Rightarrow> bool \<times> server_signal list" where
  "smf_server_sig_init sigaction =
     (if \<not> sigaction SigTerm then (False, [])
      else if \<not> sigaction SigInt then (False, [SigTerm])
      else if \<not> sigaction SigUsr1 then (False, [SigTerm, SigInt])
      else if \<not> sigaction SigChld then (False, [SigTerm, SigInt, SigUsr1])
      else (True, [SigTerm, SigInt, SigUsr1, SigChld]))"

text \<open>\<open>smf_server_fork\<close> in the parent: a failed \<open>fork\<close> is counted like a child with pid -1.\<close>

definition smf_server_fork :: "int \<Rightarrow> counters \<Rightarrow> counters" where
  "smf_server_fork pid c = smf_server_add_child pid c"

text \<open>The loop before the first \<open>waitpid\<close>; the argument gives what \<open>fork\<close> returns, call by call.\<close>

definition prefork :: "smf_settings \<Rightarrow> int list \<Rightarrow> counters \<Rightarrow> counters" where
  "prefork settings pids c =
     (if s_spare_childs settings = 0 then foldl (\<lambda>c p. smf_server_fork p c) c (take 1 pids)
      else foldl (\<lambda>c p. smf_server_fork p c) c (take (nat (s_spare_childs settings)) pids))"

definition wants_child :: "smf_settings \<Rightarrow> counters \<Rightarrow> bool" where
  "wants_child settings c \<longleftrightarrow>
     ct_num_spare c < s_spare_childs settings \<or> ct_num_procs c < ct_num_spare c"

function refill :: "smf_settings \<Rightarrow> (nat \<Rightarrow> int) \<Rightarrow> nat \<Rightarrow> counters \<Rightarrow> nat \<times> counters" where
  "refill settings pids k c =
     (if ct_num_procs c < s_max_childs settings \<and> wants_child settings c
      then refill settings pids (Suc k) (smf_server_fork (pids k) c) else (k, c))"
  by pat_completeness auto
termination
  by (relation "measure (\<lambda>(s, p, k, c). nat (s_max_childs s - ct_num_procs c))")
     (auto simp: smf_server_fork_def smf_server_add_child_def)

declare refill.simps [simp del]

text \<open>
  One round of the endless loop: \<open>pid\<close> is what \<open>waitpid\<close> returned.  \<open>None\<close>: the loop is left.
\<close>

definition server_round ::
  "smf_settings \<Rightarrow> int \<Rightarrow> int \<Rightarrow> (nat \<Rightarrow> int) \<Rightarrow> nat \<Rightarrow> counters \<Rightarrow> (nat \<times> counters) option" where
  "server_round settings daemon_exit pid pids k c =
     (if daemon_exit = 1 then None
      else Some (refill settings pids k (if 0 < pid then smf_server_remove_active pid c else c)))"

text \<open>The processes that get \<open>SIGTERM\<close> when the loop has been left.\<close>

definition shutdown_kills :: "smf_settings \<Rightarrow> counters \<Rightarrow> int list" where
  "shutdown_kills settings c = filter (\<lambda>p. 0 < p) (take (nat (s_max_childs settings)) (ct_childs c))"

text \<open>
  \<open>smf_server_loop\<close> as a whole, for a list of rounds (exit flag and result of \<open>waitpid\<close>); the
  result is the list of killed processes, \<open>None\<close> while the loop goes on.
\<close>

fun server_rounds ::
  "smf_settings \<Rightarrow> (nat \<Rightarrow> int) \<Rightarrow> (int \<times> int) list \<Rightarrow> nat \<Rightarrow> counters \<Rightarrow> int list option" where
  "server_rounds settings pids [] k c = None"
| "server_rounds settings pids ((daemon_exit, pid) # rs) k c =
     (case server_round settings daemon_exit pid pids k c of
        None \<Rightarrow> Some (shutdown_kills settings c)
      | Some (k', c') \<Rightarrow> server_rounds settings pids rs k' c')"

definition smf_server_loop ::
  "smf_settings \<Rightarrow> (nat \<Rightarrow> int) \<Rightarrow> (int \<times> int) list \<Rightarrow> counters \<Rightarrow> int list option" where
  "smf_server_loop settings pids rs c =
     (let n = (if s_spare_childs settings = 0 then 1 else nat (s_spare_childs settings))
      in server_rounds settings pids rs n (prefork settings (map pids [0..<n]) c))"

section \<open>Starting\<close>

datatype init_result = ExitSuccess | ExitFailure | Initialised counters

text \<open>What \<open>smf_server_init\<close> does to the process and the system, in order.\<close>

datatype init_effect = NewSession | CloseStdio | ChangeDir string | Umask nat | WritePid string | SetGid nat | SetUid nat

text \<open>What the system calls of \<open>smf_server_init\<close> return.\<close>

record init_env =
  ie_sigaction :: "server_signal \<Rightarrow> bool"
  ie_fork1 :: int
  ie_setsid :: bool
  ie_fork2 :: int
  ie_chdir :: "string \<Rightarrow> bool"
  ie_pid_open :: "string \<Rightarrow> bool"
  ie_getgrnam :: "string \<Rightarrow> nat option"
  ie_getpwnam :: "string \<Rightarrow> nat option"
  ie_setgid :: "nat \<Rightarrow> bool"
  ie_setuid :: "nat \<Rightarrow> bool"
  ie_ipc :: ipc_calls

text \<open>
  Going to the background: \<open>None\<close> means to go on.  A failed first \<open>fork\<close> is only logged.
  \<open>chdir (NULL)\<close> fails.
\<close>

definition go_background :: "init_env \<Rightarrow> smf_settings \<Rightarrow> init_result option \<times> init_effect list" where
  "go_background ie settings =
     (if s_foreground settings \<noteq> 0 then (None, [])
      else if ie_fork1 ie \<noteq> - 1 \<and> ie_fork1 ie \<noteq> 0 then (Some ExitSuccess, [])
      else if \<not> ie_setsid ie then (Some ExitFailure, [])
      else if ie_fork2 ie = - 1 then (Some ExitFailure, [NewSession])
      else if ie_fork2 ie \<noteq> 0 then (Some ExitSuccess, [NewSession])
      else (case s_queue_dir settings of
          None \<Rightarrow> (Some ExitFailure, [NewSession, CloseStdio])
        | Some d \<Rightarrow>
            if ie_chdir ie d then (None, [NewSession, CloseStdio, ChangeDir d, Umask 0])
            else (Some ExitFailure, [NewSession, CloseStdio])))"

text \<open>A PID file that cannot be opened is only logged.\<close>

definition write_pid :: "init_env \<Rightarrow> smf_settings \<Rightarrow> init_effect list" where
  "write_pid ie settings =
     (case s_pid_file settings of
        None \<Rightarrow> []
      | Some f \<Rightarrow> if ie_pid_open ie f then [WritePid f] else [])"

text \<open>The identity switched to: group first, both or neither.\<close>

definition switch_user :: "init_env \<Rightarrow> smf_settings \<Rightarrow> init_result option \<times> init_effect list" where
  "switch_user ie settings =
     (case (s_user settings, s_group settings) of
        (Some usr, Some grp) \<Rightarrow>
          (case ie_getgrnam ie grp of
             None \<Rightarrow> (Some ExitFailure, [])
           | Some gid \<Rightarrow>
               (case ie_getpwnam ie usr of
                  None \<Rightarrow> (Some ExitFailure, [])
                | Some uid \<Rightarrow>
                    if \<not> ie_setgid ie gid then (Some ExitFailure, [])
                    else if \<not> ie_setuid ie uid then (Some ExitFailure, [SetGid gid])
                    else (None, [SetGid gid, SetUid uid])))
      | _ \<Rightarrow> (None, []))"

definition smf_server_init :: "init_env \<Rightarrow> smf_settings \<Rightarrow> (init_result \<times> init_effect list) c_result" where
  "smf_server_init ie settings =
     (if \<not> fst (smf_server_sig_init (ie_sigaction ie)) then Inr (ExitFailure, [])
      else case go_background ie settings of
        (Some r, es) \<Rightarrow> Inr (r, es)
      | (None, es) \<Rightarrow>
          (case switch_user ie settings of
             (Some r, us) \<Rightarrow> Inr (r, es @ write_pid ie settings @ us)
           | (None, us) \<Rightarrow>
               map_sum id (\<lambda>c. (case c of None \<Rightarrow> ExitFailure | Some c \<Rightarrow> Initialised c,
                   es @ write_pid ie settings @ us))
                 (smf_server_init_ipc (ie_ipc ie) settings)))"

section \<open>Listening\<close>

record address =
  ad_socket :: int
  ad_bind :: bool
  ad_listen :: bool

fun listen_loop :: "address list \<Rightarrow> int option" where
  "listen_loop [] = None"
| "listen_loop (a # as) =
     (if ad_socket a < 0 then listen_loop as
      else if ad_bind a \<and> ad_listen a then Some (ad_socket a)
      else listen_loop as)"

text \<open>
  \<open>status\<close> is -1 and is compared with the result of \<open>getaddrinfo\<close>, not assigned: the branch that
  reads the address list is taken for every result but -1.
\<close>

definition smf_server_listen :: "int \<Rightarrow> address list option \<Rightarrow> int c_result" where
  "smf_server_listen getaddrinfo ai =
     (if - 1 \<noteq> getaddrinfo
      then (case ai of
          None \<Rightarrow> Inl UninitRead
        | Some as \<Rightarrow> Inr (case listen_loop as of None \<Rightarrow> - 1 | Some sd \<Rightarrow> sd))
      else Inr (- 1))"

text \<open>
  The loop of a child: what \<open>accept\<close> returns, and the exit flag then.  Serving a client ends the
  process.
\<close>

datatype accept_end = Serves int | Leaves

fun smf_server_accept_handler :: "(int \<times> bool) list \<Rightarrow> accept_end option" where
  "smf_server_accept_handler [] = None"
| "smf_server_accept_handler ((client, daemon_exit) # rs) =
     (if client < 0 then (if daemon_exit then Some Leaves else smf_server_accept_handler rs)
      else Some (Serves client))"

section \<open>Parent and children\<close>

text \<open>
  A child waits for a client, has taken one (and given up its spare place), is recorded as active,
  and ends.  A process that has ended stays until the parent has seen it.  The parent counts a
  child after \<open>fork\<close> has returned, so the child may be ahead of it.
\<close>

datatype phase = Spare | Taken | Active

record process =
  pr_pid :: int
  pr_phase :: phase
  pr_alive :: bool
  pr_counted :: bool

record server =
  sv_counters :: counters
  sv_procs :: "process list"

definition all_counted :: "server \<Rightarrow> bool" where
  "all_counted s \<longleftrightarrow> list_all pr_counted (sv_procs s)"

text \<open>
  The steps.  \<open>fork\<close> and \<open>count\<close> are the two halves of \<open>smf_server_fork\<close>; the parent does nothing in
  between.  A child does not die between taking its client and recording itself.  The first
  children are forked without a test against \<open>max_childs\<close>; their forks are steps of the relation as
  long as \<open>spare_childs\<close> does not exceed it.
\<close>

inductive server_step :: "smf_settings \<Rightarrow> server \<Rightarrow> server \<Rightarrow> bool" for settings where
  fork: "all_counted s \<Longrightarrow> ct_num_procs (sv_counters s) < int (ct_max_childs (sv_counters s)) \<Longrightarrow> 0 < pid \<Longrightarrow>
    pid \<notin> pr_pid ` set (sv_procs s) \<Longrightarrow>
    server_step settings s (s\<lparr>sv_procs := sv_procs s @
      [\<lparr>pr_pid = pid, pr_phase = Spare, pr_alive = True, pr_counted = False\<rparr>]\<rparr>)"
| count: "sv_procs s = ps @ [p] \<Longrightarrow> \<not> pr_counted p \<Longrightarrow>
    server_step settings s (s\<lparr>sv_procs := ps @ [p\<lparr>pr_counted := True\<rparr>],
      sv_counters := smf_server_fork (pr_pid p) (sv_counters s)\<rparr>)"
| take: "sv_procs s = ps @ p # qs \<Longrightarrow> pr_alive p \<Longrightarrow> pr_phase p = Spare \<Longrightarrow>
    server_step settings s (s\<lparr>sv_procs := ps @ p\<lparr>pr_phase := Taken\<rparr> # qs,
      sv_counters := smf_server_decrement_spare (sv_counters s)\<rparr>)"
| activate: "sv_procs s = ps @ p # qs \<Longrightarrow> pr_alive p \<Longrightarrow> pr_phase p = Taken \<Longrightarrow>
    server_step settings s (s\<lparr>sv_procs := ps @ p\<lparr>pr_phase := Active\<rparr> # qs,
      sv_counters := smf_server_add_active (pr_pid p) (sv_counters s)\<rparr>)"
| leave: "sv_procs s = ps @ p # qs \<Longrightarrow> pr_alive p \<Longrightarrow> pr_phase p \<noteq> Taken \<Longrightarrow>
    server_step settings s (s\<lparr>sv_procs := ps @ p\<lparr>pr_alive := False\<rparr> # qs\<rparr>)"
| reap: "sv_procs s = ps @ p # qs \<Longrightarrow> \<not> pr_alive p \<Longrightarrow> all_counted s \<Longrightarrow>
    server_step settings s (s\<lparr>sv_procs := ps @ qs,
      sv_counters := smf_server_remove_active (pr_pid p) (sv_counters s)\<rparr>)"

inductive_cases server_stepE: "server_step settings s t"

inductive server_reachable :: "smf_settings \<Rightarrow> server \<Rightarrow> bool" for settings where
  start: "init_counters settings = Inr c \<Longrightarrow>
    server_reachable settings \<lparr>sv_counters = c, sv_procs = []\<rparr>"
| step: "server_reachable settings s \<Longrightarrow> server_step settings s t \<Longrightarrow> server_reachable settings t"

section \<open>The search loops: lemmas\<close>

text \<open>How often a value occurs in the slots the loops look at.\<close>

definition occurs :: "nat \<Rightarrow> int \<Rightarrow> int list \<Rightarrow> nat" where
  "occurs n a xs = length (filter (\<lambda>x. x = a) (take n xs))"

lemma occurs_simps [simp]:
  "occurs 0 a xs = 0" "occurs (Suc n) a (x # xs) = (if x = a then 1 else 0) + occurs n a xs"
  "occurs n a [] = 0"
  by (simp_all add: occurs_def)

lemma replace_first_found: "snd (replace_first n a b xs) \<longleftrightarrow> 0 < occurs n a xs"
  by (induction n a b xs rule: replace_first.induct) (auto split: prod.splits)

lemma replace_first_length [simp]: "length (fst (replace_first n a b xs)) = length xs"
  by (induction n a b xs rule: replace_first.induct) (auto split: prod.splits)

lemma replace_first_occurs:
  "a \<noteq> b \<Longrightarrow> occurs n y (fst (replace_first n a b xs)) =
     (if occurs n a xs = 0 then occurs n y xs
      else if y = a then occurs n a xs - 1
      else if y = b then occurs n b xs + 1
      else occurs n y xs)"
  by (induction n a b xs rule: replace_first.induct) (auto split: prod.splits)

lemma occurs_replicate: "n \<le> k \<Longrightarrow> occurs n a (replicate k b) = (if a = b then n else 0)"
  by (simp add: occurs_def min_def)

section \<open>The counters are right\<close>

definition num_counted :: "process list \<Rightarrow> nat" where
  "num_counted ps = length (filter pr_counted ps)"

definition num_busy :: "process list \<Rightarrow> nat" where
  "num_busy ps = length (filter (\<lambda>p. pr_phase p \<noteq> Spare) ps)"

definition num_active :: "process list \<Rightarrow> nat" where
  "num_active ps = length (filter (\<lambda>p. pr_phase p = Active) ps)"

lemmas nums = num_counted_def num_busy_def num_active_def

lemma nums_simps [simp]:
  "num_counted (ps @ qs) = num_counted ps + num_counted qs"
  "num_counted (p # qs) = (if pr_counted p then 1 else 0) + num_counted qs"
  "num_busy (ps @ qs) = num_busy ps + num_busy qs"
  "num_busy (p # qs) = (if pr_phase p \<noteq> Spare then 1 else 0) + num_busy qs"
  "num_active (ps @ qs) = num_active ps + num_active qs"
  "num_active (p # qs) = (if pr_phase p = Active then 1 else 0) + num_active qs"
  "num_counted [] = 0" "num_busy [] = 0" "num_active [] = 0"
  by (simp_all add: nums)

lemma num_active_le: "num_active ps \<le> length ps"
  by (simp add: nums)

lemma all_counted_num: "list_all pr_counted ps \<Longrightarrow> num_counted ps = length ps"
  by (induction ps) simp_all

text \<open>
  A table of slots is right for a set of processes: every process that should be in it is there
  once, nobody else is, and the other slots are free.
\<close>

definition slots_ok :: "nat \<Rightarrow> int list \<Rightarrow> (process \<Rightarrow> bool) \<Rightarrow> process list \<Rightarrow> bool" where
  "slots_ok n xs Q ps \<longleftrightarrow>
     (\<forall>p \<in> set ps. occurs n (pr_pid p) xs = (if Q p then 1 else 0)) \<and>
     (\<forall>pid. 0 < pid \<longrightarrow> pid \<notin> pr_pid ` set ps \<longrightarrow> occurs n pid xs = 0) \<and>
     occurs n 0 xs + length (filter Q ps) = n"

definition pids_ok :: "process list \<Rightarrow> bool" where
  "pids_ok ps \<longleftrightarrow> distinct (map pr_pid ps) \<and> (\<forall>p \<in> set ps. 0 < pr_pid p)"

lemma slots_same:
  "slots_ok n xs Q (ps @ p # qs) \<Longrightarrow> pr_pid p' = pr_pid p \<Longrightarrow> Q p' = Q p \<Longrightarrow> slots_ok n xs Q (ps @ p' # qs)"
  by (auto simp: slots_ok_def)

lemma slots_new:
  assumes "slots_ok n xs Q ps" and "pr_pid p \<notin> pr_pid ` set ps" and "0 < pr_pid p" and "\<not> Q p"
  shows "slots_ok n xs Q (ps @ [p])"
  using assms by (auto simp: slots_ok_def)

lemma pids_other:
  assumes "pids_ok (ps @ p # qs)" and "q \<in> set (ps @ qs)"
  shows "0 < pr_pid q \<and> pr_pid q \<noteq> pr_pid p"
proof -
  have "pr_pid q \<in> pr_pid ` set (ps @ qs)" using assms(2) by (rule imageI)
  moreover have "pr_pid p \<notin> pr_pid ` set (ps @ qs)" using assms(1) by (auto simp: pids_ok_def)
  ultimately have "pr_pid q \<noteq> pr_pid p" by metis
  with assms show ?thesis by (auto simp: pids_ok_def)
qed

lemma slots_add:
  assumes ok: "slots_ok n xs Q (ps @ p # qs)" and pid: "pids_ok (ps @ p # qs)" "pr_pid p' = pr_pid p"
    and Q: "\<not> Q p" "Q p'" and room: "length (ps @ p # qs) \<le> n"
  shows "slots_ok n (fst (replace_first n 0 (pr_pid p) xs)) Q (ps @ p' # qs)"
proof -
  have pos: "0 < pr_pid p" using pid by (simp add: pids_ok_def)
  have ne: "q \<in> set (ps @ qs) \<Longrightarrow> 0 < pr_pid q \<and> pr_pid q \<noteq> pr_pid p" for q
    using pid by (blast dest: pids_other)
  have "length (filter Q (ps @ p # qs)) < length (ps @ p # qs)"
    by (rule length_filter_less [of p]) (use Q in auto)
  then have free: "occurs n 0 xs \<noteq> 0" using ok room by (simp add: slots_ok_def)
  have occ: "occurs n y (fst (replace_first n 0 (pr_pid p) xs)) =
      (if y = 0 then occurs n 0 xs - 1 else if y = pr_pid p then occurs n (pr_pid p) xs + 1 else occurs n y xs)" for y
    using replace_first_occurs [of 0 "pr_pid p" n y xs] free pos by auto
  have own: "occurs n (pr_pid p) xs = 0" using ok Q by (simp add: slots_ok_def)
  show ?thesis
    unfolding slots_ok_def occ
  proof (intro conjI ballI allI impI)
    fix q assume "q \<in> set (ps @ p' # qs)"
    then consider "q = p'" | "q \<in> set (ps @ qs)" by auto
    then show "(if pr_pid q = 0 then occurs n 0 xs - 1 else if pr_pid q = pr_pid p then occurs n (pr_pid p) xs + 1
        else occurs n (pr_pid q) xs) = (if Q q then 1 else 0)"
    proof cases
      case 1
      with own pos pid(2) Q show ?thesis by simp
    next
      case 2
      with ne [OF 2] ok show ?thesis by (auto simp: slots_ok_def)
    qed
  qed (use ok free pos pid(2) Q in \<open>auto simp: slots_ok_def\<close>)
qed

lemma slots_remove:
  assumes ok: "slots_ok n xs Q (ps @ p # qs)" and pid: "pids_ok (ps @ p # qs)"
  shows "slots_ok n (fst (replace_first n (pr_pid p) 0 xs)) Q (ps @ qs)"
    and "snd (replace_first n (pr_pid p) 0 xs) = Q p"
proof -
  have pos: "0 < pr_pid p" using pid by (simp add: pids_ok_def)
  have ne: "q \<in> set (ps @ qs) \<Longrightarrow> 0 < pr_pid q \<and> pr_pid q \<noteq> pr_pid p" for q
    using pid by (blast dest: pids_other)
  have own: "occurs n (pr_pid p) xs = (if Q p then 1 else 0)" using ok by (simp add: slots_ok_def)
  then show "snd (replace_first n (pr_pid p) 0 xs) = Q p" by (simp add: replace_first_found)
  have occ: "occurs n y (fst (replace_first n (pr_pid p) 0 xs)) =
      (if \<not> Q p then occurs n y xs else if y = pr_pid p then 0 else if y = 0 then occurs n 0 xs + 1
       else occurs n y xs)" for y
    using replace_first_occurs [of "pr_pid p" 0 n y xs] own pos by auto
  have other: "0 < y \<Longrightarrow> y \<notin> pr_pid ` set (ps @ qs) \<Longrightarrow> y \<noteq> pr_pid p \<Longrightarrow> occurs n y xs = 0" for y
    using ok by (auto simp: slots_ok_def)
  show "slots_ok n (fst (replace_first n (pr_pid p) 0 xs)) Q (ps @ qs)"
    unfolding slots_ok_def occ
  proof (intro conjI ballI allI impI)
    fix q assume "q \<in> set (ps @ qs)"
    then show "(if \<not> Q p then occurs n (pr_pid q) xs else if pr_pid q = pr_pid p then 0
        else if pr_pid q = 0 then occurs n 0 xs + 1 else occurs n (pr_pid q) xs) = (if Q q then 1 else 0)"
      using ok ne [of q] by (auto simp: slots_ok_def)
  next
    fix y :: int assume "0 < y" "y \<notin> pr_pid ` set (ps @ qs)"
    then show "(if \<not> Q p then occurs n y xs else if y = pr_pid p then 0 else if y = 0 then occurs n 0 xs + 1
        else occurs n y xs) = 0"
      using other [of y] own by auto
  qed (use ok pos in \<open>auto simp: slots_ok_def\<close>)
qed

text \<open>
  The invariant: the two counters, the process identifiers, room for every process, and both
  tables.
\<close>

definition server_inv :: "server \<Rightarrow> bool" where
  "server_inv s \<longleftrightarrow>
     (let c = sv_counters s; ps = sv_procs s; n = ct_max_childs c
      in ct_num_procs c = int (num_counted ps) \<and>
         ct_num_spare c = int (num_counted ps) - int (num_busy ps) \<and>
         pids_ok ps \<and> length ps \<le> n \<and> list_all pr_counted (butlast ps) \<and>
         list_all (\<lambda>p. pr_alive p \<or> pr_phase p \<noteq> Taken) ps \<and>
         slots_ok n (ct_active c) (\<lambda>p. pr_phase p = Active) ps \<and>
         slots_ok n (ct_childs c) pr_counted ps)"

lemma server_inv_start:
  assumes "init_counters settings = Inr c"
  shows "server_inv \<lparr>sv_counters = c, sv_procs = []\<rparr>"
  using assms
  by (auto simp: init_counters_def server_inv_def occurs_replicate CHILD_LIMIT_def nums pids_ok_def
      slots_ok_def split: if_splits)

lemma pids_ok_replace: "pids_ok (ps @ p # qs) \<Longrightarrow> pr_pid p' = pr_pid p \<Longrightarrow> pids_ok (ps @ p' # qs)"
  by (auto simp: pids_ok_def)

lemma butlast_counted:
  "list_all pr_counted (butlast (ps @ p # qs)) \<Longrightarrow> pr_counted p' = pr_counted p \<Longrightarrow>
   list_all pr_counted (butlast (ps @ p' # qs))"
  by (cases qs) (auto simp: butlast_append)

lemma inv_fork:
  assumes inv: "server_inv s" and "all_counted s" and "ct_num_procs (sv_counters s) < int (ct_max_childs (sv_counters s))"
    and "0 < pid" and "pid \<notin> pr_pid ` set (sv_procs s)"
  shows "server_inv (s\<lparr>sv_procs := sv_procs s @
    [\<lparr>pr_pid = pid, pr_phase = Spare, pr_alive = True, pr_counted = False\<rparr>]\<rparr>)"
proof -
  have "num_counted (sv_procs s) = length (sv_procs s)"
    using assms(2) by (simp add: all_counted_def all_counted_num)
  then show ?thesis
    using assms slots_new [of _ _ _ "sv_procs s" "\<lparr>pr_pid = pid, pr_phase = Spare, pr_alive = True, pr_counted = False\<rparr>"]
    by (auto simp: server_inv_def Let_def pids_ok_def all_counted_def)
qed

lemma inv_count:
  assumes inv: "server_inv s" and ps: "sv_procs s = ps @ [p]" and p: "\<not> pr_counted p"
  shows "server_inv (s\<lparr>sv_procs := ps @ [p\<lparr>pr_counted := True\<rparr>],
      sv_counters := smf_server_fork (pr_pid p) (sv_counters s)\<rparr>)"
proof -
  let ?p = "p\<lparr>pr_counted := True\<rparr>"
  have "slots_ok (ct_max_childs (sv_counters s))
      (fst (replace_first (ct_max_childs (sv_counters s)) 0 (pr_pid p) (ct_childs (sv_counters s)))) pr_counted (ps @ [?p])"
    by (rule slots_add) (use inv ps p in \<open>simp_all add: server_inv_def Let_def\<close>)
  moreover have "slots_ok (ct_max_childs (sv_counters s)) (ct_active (sv_counters s)) (\<lambda>p. pr_phase p = Active) (ps @ [?p])"
    by (rule slots_same [where p = p]) (use inv ps in \<open>simp_all add: server_inv_def Let_def\<close>)
  moreover have "pids_ok (ps @ [?p])"
    by (rule pids_ok_replace [where p = p]) (use inv ps in \<open>simp_all add: server_inv_def Let_def\<close>)
  ultimately show ?thesis
    using inv ps p by (simp add: server_inv_def Let_def smf_server_fork_def smf_server_add_child_def)
qed

text \<open>The three steps that change one process and not its place in the tables share this.\<close>

lemma inv_change:
  assumes inv: "server_inv s" and ps: "sv_procs s = ps @ p # qs"
    and p': "pr_pid p' = pr_pid p" "pr_counted p' = pr_counted p" "pr_alive p' \<or> pr_phase p' \<noteq> Taken"
    and c': "ct_num_procs c' = ct_num_procs (sv_counters s)" "ct_childs c' = ct_childs (sv_counters s)"
      "ct_max_childs c' = ct_max_childs (sv_counters s)"
      "ct_num_spare c' = ct_num_spare (sv_counters s) - (int (num_busy (ps @ p' # qs)) - int (num_busy (ps @ p # qs)))"
    and act: "slots_ok (ct_max_childs c') (ct_active c') (\<lambda>p. pr_phase p = Active) (ps @ p' # qs)"
  shows "server_inv (s\<lparr>sv_procs := ps @ p' # qs, sv_counters := c'\<rparr>)"
proof -
  have "slots_ok (ct_max_childs c') (ct_childs c') pr_counted (ps @ p' # qs)"
    by (rule slots_same [where p = p]) (use inv ps p' c' in \<open>simp_all add: server_inv_def Let_def\<close>)
  moreover have "pids_ok (ps @ p' # qs)"
    by (rule pids_ok_replace [where p = p]) (use inv ps p' in \<open>simp_all add: server_inv_def Let_def\<close>)
  moreover have "list_all pr_counted (butlast (ps @ p' # qs))"
    by (rule butlast_counted [where p = p]) (use inv ps p' in \<open>simp_all add: server_inv_def Let_def\<close>)
  ultimately show ?thesis
    using inv ps p' c' act by (simp add: server_inv_def Let_def)
qed

lemma inv_reap:
  assumes inv: "server_inv s" and ps: "sv_procs s = ps @ p # qs" and cnt: "all_counted s"
    and phase: "pr_phase p \<noteq> Taken"
  shows "server_inv (s\<lparr>sv_procs := ps @ qs,
      sv_counters := smf_server_remove_active (pr_pid p) (sv_counters s)\<rparr>)"
proof -
  let ?c = "sv_counters s" and ?n = "ct_max_childs (sv_counters s)"
  have pid: "pids_ok (ps @ p # qs)" using inv ps by (simp add: server_inv_def Let_def)
  have act: "slots_ok ?n (fst (replace_first ?n (pr_pid p) 0 (ct_active ?c))) (\<lambda>p. pr_phase p = Active) (ps @ qs)"
    "snd (replace_first ?n (pr_pid p) 0 (ct_active ?c)) = (pr_phase p = Active)"
    using slots_remove [OF _ pid, of ?n "ct_active ?c" "\<lambda>p. pr_phase p = Active"] inv ps
    by (simp_all add: server_inv_def Let_def)
  have chl: "slots_ok ?n (fst (replace_first ?n (pr_pid p) 0 (ct_childs ?c))) pr_counted (ps @ qs)"
    using slots_remove(1) [OF _ pid, of ?n "ct_childs ?c" pr_counted] inv ps
    by (simp add: server_inv_def Let_def)
  have cp: "pr_counted p" "list_all pr_counted (ps @ qs)" using cnt ps by (simp_all add: all_counted_def)
  have "list_all pr_counted (butlast (ps @ qs))"
    using cp(2) by (auto simp: list_all_iff dest: in_set_butlastD)
  moreover have "pids_ok (ps @ qs)" using pid by (auto simp: pids_ok_def)
  moreover have "pr_phase p = Spare \<or> pr_phase p = Active" using phase by (cases "pr_phase p") auto
  ultimately show ?thesis
    using inv ps act chl cp(1)
    by (auto simp: server_inv_def Let_def smf_server_remove_active_def smf_server_decrement_spare_def
        split: prod.splits)
qed

lemma server_step_inv [smf_inv]:
  assumes "server_step settings s t" and inv: "server_inv s"
  shows "server_inv t"
  using assms(1)
proof cases
  case (fork pid)
  with inv show ?thesis by (simp add: inv_fork)
next
  case (count ps p)
  with inv show ?thesis by (simp add: inv_count)
next
  case (take ps p qs)
  have "slots_ok (ct_max_childs (sv_counters s)) (ct_active (sv_counters s)) (\<lambda>p. pr_phase p = Active)
      (ps @ p\<lparr>pr_phase := Taken\<rparr> # qs)"
    by (rule slots_same [where p = p]) (use inv take in \<open>simp_all add: server_inv_def Let_def\<close>)
  with take show ?thesis
    by (simp only:) (rule inv_change [OF inv take(2)], simp_all add: smf_server_decrement_spare_def)
next
  case (activate ps p qs)
  have "slots_ok (ct_max_childs (sv_counters s)) (fst (replace_first (ct_max_childs (sv_counters s)) 0 (pr_pid p)
      (ct_active (sv_counters s)))) (\<lambda>p. pr_phase p = Active) (ps @ p\<lparr>pr_phase := Active\<rparr> # qs)"
    by (rule slots_add) (use inv activate in \<open>simp_all add: server_inv_def Let_def\<close>)
  with activate show ?thesis
    by (simp only:) (rule inv_change [OF inv activate(2)], simp_all add: smf_server_add_active_def)
next
  case (leave ps p qs)
  have "slots_ok (ct_max_childs (sv_counters s)) (ct_active (sv_counters s)) (\<lambda>p. pr_phase p = Active)
      (ps @ p\<lparr>pr_alive := False\<rparr> # qs)"
    by (rule slots_same [where p = p]) (use inv leave in \<open>simp_all add: server_inv_def Let_def\<close>)
  then have "server_inv (s\<lparr>sv_procs := ps @ p\<lparr>pr_alive := False\<rparr> # qs, sv_counters := sv_counters s\<rparr>)"
    by (intro inv_change [OF inv leave(2)]) (use leave in simp_all)
  with leave show ?thesis by simp
next
  case (reap ps p qs)
  then have "pr_phase p \<noteq> Taken" using inv by (simp add: server_inv_def Let_def)
  with reap inv show ?thesis by (simp add: inv_reap)
qed

lemma server_reachable_inv: "server_reachable settings s \<Longrightarrow> server_inv s"
  by (induction rule: server_reachable.induct) (auto intro: server_inv_start server_step_inv)

lemma server_reachable_max: "server_reachable settings s \<Longrightarrow> ct_max_childs (sv_counters s) = nat (s_max_childs settings)"
proof (induction rule: server_reachable.induct)
  case (start c)
  then show ?case by (auto simp: init_counters_def split: if_splits)
next
  case (step s t)
  from step(2) have "ct_max_childs (sv_counters t) = ct_max_childs (sv_counters s)"
    by cases (simp_all add: smf_server_fork_def smf_server_add_child_def smf_server_decrement_spare_def
        smf_server_add_active_def smf_server_remove_active_def Let_def split: prod.splits)
  with step show ?case by simp
qed

lemma occurs_in_set: "0 < occurs n a xs \<Longrightarrow> a \<in> set (take n xs)"
  by (auto simp: occurs_def filter_empty_conv)

text \<open>
  A child that dies between taking its client and recording itself is taken from the spare
  children twice.
\<close>

lemma server_lost_spare:
  assumes "occurs (ct_max_childs c) pid (ct_active c) = 0"
  shows "ct_num_spare (smf_server_remove_active pid (smf_server_decrement_spare c)) = ct_num_spare c - 2"
proof -
  obtain xs b where r: "replace_first (ct_max_childs c) pid 0 (ct_active c) = (xs, b)" by fastforce
  then have "\<not> b" using replace_first_found [of "ct_max_childs c" pid 0 "ct_active c"] assms by simp
  with r show ?thesis by (simp add: smf_server_remove_active_def smf_server_decrement_spare_def Let_def)
qed

text \<open>
  A result of \<open>getaddrinfo\<close> other than 0 and -1 (a host name that does not resolve, for one) makes
  \<open>smf_server_listen\<close> walk an address list that was never set.
\<close>

lemma smf_server_listen_unset: "r \<noteq> - 1 \<Longrightarrow> smf_server_listen r None = Inl UninitRead"
  by (simp add: smf_server_listen_def)

section \<open>Properties\<close>

definition ex_server :: server where
  "ex_server =
     \<lparr>sv_counters = smf_server_fork 7 \<lparr>ct_num_procs = 0, ct_num_spare = 0, ct_max_childs = 10,
        ct_active = replicate 1024 0, ct_childs = replicate 1024 0\<rparr>,
      sv_procs = [\<lparr>pr_pid = 7, pr_phase = Spare, pr_alive = True, pr_counted = True\<rparr>]\<rparr>"

lemma ex_server_reachable: "server_reachable smf_settings_new ex_server"
proof -
  let ?c = "\<lparr>ct_num_procs = 0, ct_num_spare = 0, ct_max_childs = 10,
      ct_active = replicate 1024 0, ct_childs = replicate 1024 0\<rparr>"
  let ?p = "\<lparr>pr_pid = 7, pr_phase = Spare, pr_alive = True, pr_counted = False\<rparr>"
  have "init_counters smf_settings_new = Inr ?c"
    by (simp add: init_counters_def smf_settings_new_def CHILD_LIMIT_def)
  then have "server_reachable smf_settings_new \<lparr>sv_counters = ?c, sv_procs = []\<rparr>" by (rule server_reachable.start)
  moreover have "server_step smf_settings_new \<lparr>sv_counters = ?c, sv_procs = []\<rparr> \<lparr>sv_counters = ?c, sv_procs = [?p]\<rparr>"
    using server_step.fork [of "\<lparr>sv_counters = ?c, sv_procs = []\<rparr>" 7 smf_settings_new] by (simp add: all_counted_def)
  moreover have "server_step smf_settings_new \<lparr>sv_counters = ?c, sv_procs = [?p]\<rparr> ex_server"
    using server_step.count [of "\<lparr>sv_counters = ?c, sv_procs = [?p]\<rparr>" "[]" ?p smf_settings_new]
    by (simp add: ex_server_def)
  ultimately show ?thesis by (meson server_reachable.step)
qed

lemma counters_right:
  assumes "server_reachable settings s" and "all_counted s"
  shows "ct_num_procs (sv_counters s) = int (length (sv_procs s)) \<and>
    ct_num_spare (sv_counters s) = int (length (filter (\<lambda>p. pr_phase p = Spare) (sv_procs s))) \<and>
    length (sv_procs s) \<le> nat (s_max_childs settings)"
proof -
  have "num_counted (sv_procs s) = length (sv_procs s)"
    using assms(2) by (simp add: all_counted_def all_counted_num)
  moreover have "num_busy (sv_procs s) + length (filter (\<lambda>p. pr_phase p = Spare) (sv_procs s)) = length (sv_procs s)"
    using sum_length_filter_compl [of "\<lambda>p. pr_phase p = Spare" "sv_procs s"] by (simp add: num_busy_def)
  ultimately show ?thesis
    using server_reachable_inv [OF assms(1)] server_reachable_max [OF assms(1)]
    by (simp add: server_inv_def Let_def)
qed



lemma shutdown_exactly:
  assumes "server_reachable settings s" and "all_counted s"
  shows "set (shutdown_kills settings (sv_counters s)) = pr_pid ` set (sv_procs s)"
proof -
  let ?n = "ct_max_childs (sv_counters s)"
  have slots: "slots_ok ?n (ct_childs (sv_counters s)) pr_counted (sv_procs s)" and pids: "pids_ok (sv_procs s)"
    using server_reachable_inv [OF assms(1)] by (simp_all add: server_inv_def Let_def)
  have n: "?n = nat (s_max_childs settings)" by (rule server_reachable_max [OF assms(1)])
  have "pr_pid p \<in> set (shutdown_kills settings (sv_counters s))" if "p \<in> set (sv_procs s)" for p
  proof -
    have "pr_counted p" using assms(2) that by (simp add: all_counted_def list_all_iff)
    then have "0 < occurs ?n (pr_pid p) (ct_childs (sv_counters s))" using slots that by (simp add: slots_ok_def)
    from occurs_in_set [OF this] pids that show ?thesis by (simp add: shutdown_kills_def n pids_ok_def)
  qed
  moreover have "pid \<in> pr_pid ` set (sv_procs s)" if "pid \<in> set (shutdown_kills settings (sv_counters s))" for pid
  proof (rule ccontr)
    assume "pid \<notin> pr_pid ` set (sv_procs s)"
    with that slots have "occurs ?n pid (ct_childs (sv_counters s)) = 0"
      by (simp add: shutdown_kills_def slots_ok_def)
    with that show False by (auto simp: shutdown_kills_def n occurs_def filter_empty_conv)
  qed
  ultimately show ?thesis by blast
qed

text \<open>
  Shutting down reaches every child: in a reachable state whose children have all been
  counted, the processes that get \<open>SIGTERM\<close> are exactly the ones that exist.
\<close>

theorem smf_server_shutdown_complete:
  assumes "server_reachable settings s" and "all_counted s"
  shows "set (shutdown_kills settings (sv_counters s)) = pr_pid ` set (sv_procs s)"
  by (rule shutdown_exactly [OF assms])

lemma smf_server_shutdown_complete_witness:
  "set (shutdown_kills smf_settings_new (sv_counters ex_server)) = {7}"
  using smf_server_shutdown_complete [OF ex_server_reachable]
  by (simp add: all_counted_def ex_server_def)

text \<open>
  Failed forks pass for children: when every \<open>fork\<close> fails, the parent still counts the
  configured number of spare children, sees no need for more and forks no further, although not a
  single child exists.
\<close>

theorem smf_server_failed_forks_counted:
  assumes "0 < s_spare_childs settings" and "ct_num_procs c = 0" and "ct_num_spare c = 0"
    and "c1 = prefork settings (replicate (nat (s_spare_childs settings)) (- 1)) c"
  shows "ct_num_procs c1 = s_spare_childs settings \<and> ct_num_spare c1 = s_spare_childs settings \<and>
    refill settings pids k c1 = (k, c1)"
proof -
  have "ct_num_procs (foldl (\<lambda>c p. smf_server_fork p c) c ps) = ct_num_procs c + int (length ps) \<and>
      ct_num_spare (foldl (\<lambda>c p. smf_server_fork p c) c ps) = ct_num_spare c + int (length ps)" for ps
    by (induction ps arbitrary: c) (simp_all add: smf_server_fork_def smf_server_add_child_def)
  then have "ct_num_procs c1 = s_spare_childs settings" "ct_num_spare c1 = s_spare_childs settings"
    using assms by (simp_all add: prefork_def)
  then show ?thesis by (subst refill.simps) (simp add: wants_child_def)
qed

lemma smf_server_failed_forks_counted_witness:
  "refill smf_settings_new (\<lambda>i. 7) 2 (prefork smf_settings_new (replicate 2 (- 1))
      \<lparr>ct_num_procs = 0, ct_num_spare = 0, ct_max_childs = 10, ct_active = [], ct_childs = []\<rparr>) =
   (2, prefork smf_settings_new (replicate 2 (- 1))
      \<lparr>ct_num_procs = 0, ct_num_spare = 0, ct_max_childs = 10, ct_active = [], ct_childs = []\<rparr>)"
proof -
  have n: "s_spare_childs smf_settings_new = 2" by (simp add: smf_settings_new_def)
  show ?thesis
    using smf_server_failed_forks_counted [of smf_settings_new
        "\<lparr>ct_num_procs = 0, ct_num_spare = 0, ct_max_childs = 10, ct_active = [], ct_childs = []\<rparr>" _ "\<lambda>i. 7" 2] n
    by simp
qed

definition is_identity :: "init_effect \<Rightarrow> bool" where
  "is_identity e = (case e of SetGid _ \<Rightarrow> True | SetUid _ \<Rightarrow> True | _ \<Rightarrow> False)"

lemma sig_init_ok: "fst (smf_server_sig_init f) \<longleftrightarrow> f SigTerm \<and> f SigInt \<and> f SigUsr1 \<and> f SigChld"
  by (simp add: smf_server_sig_init_def)

lemma init_not_early:
  "go_background ie settings \<noteq> (Some (Initialised c), es)" "switch_user ie settings \<noteq> (Some (Initialised c), us)"
  by (auto simp: go_background_def switch_user_def split: option.splits)


definition ex_init_env :: init_env where
  "ex_init_env = \<lparr>ie_sigaction = (\<lambda>s. True), ie_fork1 = 0, ie_setsid = True, ie_fork2 = 0, ie_chdir = (\<lambda>d. True),
     ie_pid_open = (\<lambda>f. True), ie_getgrnam = (\<lambda>g. if g = ''mail'' then Some 8 else None),
     ie_getpwnam = (\<lambda>u. if u = ''spm'' then Some 99 else None), ie_setgid = (\<lambda>g. True), ie_setuid = (\<lambda>u. True),
     ie_ipc = PosixIpc \<lparr>px_sem_open = True, px_shm_open = 5, px_mmap = Mapped\<rparr>\<rparr>"


end
