(* ===== verification/Smf_Semaphore.thy ===== *)
theory Smf_Semaphore
  imports Smf_Server
begin

text \<open>
  Why the operations on the counters may be taken as single steps: parent and children run them one
  memory access at a time, interleaved in any way, and only the semaphore keeps them apart.
\<close>

section \<open>The operations, access by access\<close>

text \<open>
  What a process does to the counters between taking and giving back the semaphore: read a number
  into a register, write it back changed, or look at one slot of a table.  \<open>Probe tab i a b\<close> is the
  search loop at index \<open>i\<close>: the first slot that holds \<open>a\<close> gets \<open>b\<close>.
\<close>

datatype number = NumProcs | NumSpare

datatype table = Childs | ChildsActive

datatype access = Load number | Store number int | Probe table nat int int

definition get_number :: "number \<Rightarrow> counters \<Rightarrow> int" where
  "get_number f c = (case f of NumProcs \<Rightarrow> ct_num_procs c | NumSpare \<Rightarrow> ct_num_spare c)"

definition set_number :: "number \<Rightarrow> int \<Rightarrow> counters \<Rightarrow> counters" where
  "set_number f x c = (case f of NumProcs \<Rightarrow> c\<lparr>ct_num_procs := x\<rparr> | NumSpare \<Rightarrow> c\<lparr>ct_num_spare := x\<rparr>)"

definition get_table :: "table \<Rightarrow> counters \<Rightarrow> int list" where
  "get_table t c = (case t of Childs \<Rightarrow> ct_childs c | ChildsActive \<Rightarrow> ct_active c)"

definition set_table :: "table \<Rightarrow> int list \<Rightarrow> counters \<Rightarrow> counters" where
  "set_table t xs c = (case t of Childs \<Rightarrow> c\<lparr>ct_childs := xs\<rparr> | ChildsActive \<Rightarrow> c\<lparr>ct_active := xs\<rparr>)"

text \<open>One access: what is still to be done for it, the register, and the counters.\<close>

fun do_access :: "access \<Rightarrow> int \<Rightarrow> counters \<Rightarrow> access list \<times> int \<times> counters" where
  "do_access (Load f) reg c = ([], get_number f c, c)"
| "do_access (Store f d) reg c = ([], reg, set_number f (reg + d) c)"
| "do_access (Probe t i a b) reg c =
     (if i < ct_max_childs c
      then (if get_table t c ! i = a then ([], reg, set_table t ((get_table t c)[i := b]) c)
            else ([Probe t (Suc i) a b], reg, c))
      else ([], reg, c))"

datatype counter_op = AddChild int | DecrementSpare | AddActive int | RemoveChild int

text \<open>The bodies of the four functions between the two calls of \<open>_smf_server_sem_operation\<close>.\<close>

fun op_body :: "counter_op \<Rightarrow> access list" where
  "op_body (AddChild pid) =
     [Load NumProcs, Store NumProcs 1, Load NumSpare, Store NumSpare 1, Probe Childs 0 0 pid]"
| "op_body DecrementSpare = [Load NumSpare, Store NumSpare (- 1)]"
| "op_body (AddActive pid) = [Probe ChildsActive 0 0 pid]"
| "op_body (RemoveChild pid) =
     [Load NumProcs, Store NumProcs (- 1), Probe ChildsActive 0 pid 0, Probe Childs 0 pid 0]"

text \<open>
  The same operations as single steps.  \<open>_smf_server_remove_active\<close> gives the semaphore back before it
  takes it again for a lost spare child, so it is two operations.
\<close>

definition remove_locked :: "int \<Rightarrow> counters \<Rightarrow> counters" where
  "remove_locked pid c =
     c\<lparr>ct_num_procs := ct_num_procs c - 1, ct_active := fst (replace_first (ct_max_childs c) pid 0 (ct_active c)),
       ct_childs := fst (replace_first (ct_max_childs c) pid 0 (ct_childs c))\<rparr>"

fun run_op :: "counter_op \<Rightarrow> counters \<Rightarrow> counters" where
  "run_op (AddChild pid) c = smf_server_add_child pid c"
| "run_op DecrementSpare c = smf_server_decrement_spare c"
| "run_op (AddActive pid) c = smf_server_add_active pid c"
| "run_op (RemoveChild pid) c = remove_locked pid c"

abbreviation run_all :: "counter_op list \<Rightarrow> counters \<Rightarrow> counters" where
  "run_all ops c \<equiv> foldl (\<lambda>c p. run_op p c) c ops"

section \<open>Processes\<close>

text \<open>
  A process is outside, or inside one operation, with what is left of it and its register; the
  register starts with anything.  \<open>sh_done\<close> has the operations that are finished, in order.
\<close>

datatype thread = Outside | Inside counter_op "access list" int

record shared =
  sh_sem :: nat
  sh_counters :: counters
  sh_threads :: "nat \<Rightarrow> thread"
  sh_done :: "counter_op list"

inductive fine_step :: "sem_kind \<Rightarrow> nat \<Rightarrow> shared \<Rightarrow> shared \<Rightarrow> bool" for k t where
  enter: "sh_threads s t = Outside \<Longrightarrow> sem_call k SEM_LOCK (sh_sem s) n \<Longrightarrow>
    fine_step k t s (s\<lparr>sh_sem := n, sh_threads := (sh_threads s)(t := Inside op (op_body op) reg)\<rparr>)"
| access: "sh_threads s t = Inside op (x # code) reg \<Longrightarrow> do_access x reg (sh_counters s) = (todo, reg', c) \<Longrightarrow>
    fine_step k t s (s\<lparr>sh_counters := c, sh_threads := (sh_threads s)(t := Inside op (todo @ code) reg')\<rparr>)"
| leave: "sh_threads s t = Inside op [] reg \<Longrightarrow> sem_call k SEM_UNLOCK (sh_sem s) n \<Longrightarrow>
    fine_step k t s (s\<lparr>sh_sem := n, sh_threads := (sh_threads s)(t := Outside), sh_done := sh_done s @ [op]\<rparr>)"

inductive fine_reachable :: "sem_kind \<Rightarrow> counters \<Rightarrow> shared \<Rightarrow> bool" for k c0 where
  start: "fine_reachable k c0 \<lparr>sh_sem = 1, sh_counters = c0, sh_threads = (\<lambda>t. Outside), sh_done = []\<rparr>"
| step: "fine_reachable k c0 s \<Longrightarrow> fine_step k t s s' \<Longrightarrow> fine_reachable k c0 s'"

section \<open>Finishing an operation\<close>

text \<open>The tables are large enough for the search loops.\<close>

definition tables_ok :: "counters \<Rightarrow> bool" where
  "tables_ok c \<longleftrightarrow> ct_max_childs c \<le> length (ct_childs c) \<and> ct_max_childs c \<le> length (ct_active c)"

fun access_weight :: "nat \<Rightarrow> access \<Rightarrow> nat" where
  "access_weight n (Probe t i a b) = Suc (n - i)"
| "access_weight n _ = 1"

lemma set_max [simp]: "ct_max_childs (set_number f x c) = ct_max_childs c" "ct_max_childs (set_table t xs c) = ct_max_childs c"
  by (simp_all add: set_number_def set_table_def split: number.split table.split)

lemma do_access_weight:
  "do_access x reg c = (todo, reg', c') \<Longrightarrow>
   ct_max_childs c' = ct_max_childs c \<and> sum_list (map (access_weight (ct_max_childs c)) todo) < access_weight (ct_max_childs c) x"
  by (cases x) (auto split: if_splits)

function finish :: "access list \<Rightarrow> int \<Rightarrow> counters \<Rightarrow> counters" where
  "finish [] reg c = c"
| "finish (x # code) reg c = (case do_access x reg c of (todo, reg', c') \<Rightarrow> finish (todo @ code) reg' c')"
  by pat_completeness auto
termination
  by (relation "measure (\<lambda>(code, reg, c). sum_list (map (access_weight (ct_max_childs c)) code))")
     (auto dest!: do_access_weight [OF sym])

declare finish.simps(2) [simp del]

lemma finish_step: "do_access x reg c = (todo, reg', c') \<Longrightarrow> finish (x # code) reg c = finish (todo @ code) reg' c'"
  by (simp add: finish.simps(2))

lemma finish_number [simp]:
  "finish (Load f # code) reg c = finish code (get_number f c) c"
  "finish (Store f d # code) reg c = finish code reg (set_number f (reg + d) c)"
  by (simp_all add: finish.simps(2))

lemma replace_first_drop:
  "i < n \<Longrightarrow> i < length xs \<Longrightarrow> replace_first (n - i) a b (drop i xs) =
     (if xs ! i = a then (b # drop (Suc i) xs, True)
      else (case replace_first (n - Suc i) a b (drop (Suc i) xs) of (ys, found) \<Rightarrow> (xs ! i # ys, found)))"
  by (simp add: Cons_nth_drop_Suc [symmetric] Suc_diff_Suc [symmetric])

lemma get_set_table [simp]:
  "get_table t (set_table t xs c) = xs" "set_table t ys (set_table t xs c) = set_table t ys c" "set_table t (get_table t c) c = c"
  by (simp_all add: get_table_def set_table_def split: table.split)

text \<open>The search loop does what \<open>replace_first\<close> does.\<close>

lemma finish_probe_from:
  "i \<le> ct_max_childs c \<Longrightarrow> ct_max_childs c \<le> length (get_table t c) \<Longrightarrow>
   finish (Probe t i a b # code) reg c =
     finish code reg (set_table t (take i (get_table t c) @ fst (replace_first (ct_max_childs c - i) a b (drop i (get_table t c)))) c)"
proof (induction "ct_max_childs c - i" arbitrary: i)
  case 0
  then have i: "i = ct_max_childs c" by simp
  then have "do_access (Probe t i a b) reg c = ([], reg, c)" by simp
  from finish_step [OF this, of code] i show ?case by simp
next
  case (Suc k)
  let ?xs = "get_table t c"
  have i: "i < ct_max_childs c" "i < length ?xs" using Suc.hyps(2) Suc.prems by auto
  note rf = replace_first_drop [OF i, of a b]
  show ?case
  proof (cases "?xs ! i = a")
    case True
    then have "do_access (Probe t i a b) reg c = ([], reg, set_table t (?xs[i := b]) c)" using i by simp
    from finish_step [OF this, of code] True i rf show ?thesis by (simp add: upd_conv_take_nth_drop)
  next
    case False
    then have "do_access (Probe t i a b) reg c = ([Probe t (Suc i) a b], reg, c)" using i by simp
    from finish_step [OF this, of code]
    have "finish (Probe t i a b # code) reg c = finish (Probe t (Suc i) a b # code) reg c" by simp
    also have "\<dots> = finish code reg (set_table t (take (Suc i) ?xs @
        fst (replace_first (ct_max_childs c - Suc i) a b (drop (Suc i) ?xs))) c)"
      by (rule Suc.hyps(1)) (use Suc.hyps(2) i Suc.prems in auto)
    finally show ?thesis using False rf i(2)
      by (simp add: take_Suc_conv_app_nth split: prod.split)
  qed
qed

lemma finish_probe:
  "ct_max_childs c \<le> length (get_table t c) \<Longrightarrow>
   finish (Probe t 0 a b # code) reg c =
     finish code reg (set_table t (fst (replace_first (ct_max_childs c) a b (get_table t c))) c)"
  using finish_probe_from [of 0 c t a b code reg] by simp

lemma finish_body:
  assumes "tables_ok c"
  shows "finish (op_body op) reg c = run_op op c"
  using assms
  by (cases op)
    (simp_all add: tables_ok_def finish_probe get_number_def set_number_def get_table_def set_table_def
      smf_server_add_child_def smf_server_decrement_spare_def smf_server_add_active_def remove_locked_def)

lemma run_op_tables: "tables_ok c \<Longrightarrow> tables_ok (run_op op c)"
  by (cases op)
    (simp_all add: tables_ok_def smf_server_add_child_def smf_server_decrement_spare_def smf_server_add_active_def
      remove_locked_def)

text \<open>
  Giving up the semaphore in the middle of \<open>_smf_server_remove_active\<close> does no harm: the second part
  commutes with whatever the others do in between.
\<close>

lemma remove_active_split:
  "smf_server_remove_active pid c =
     (if snd (replace_first (ct_max_childs c) pid 0 (ct_active c)) then run_op (RemoveChild pid) c
      else run_all [RemoveChild pid, DecrementSpare] c)"
  by (simp add: smf_server_remove_active_def remove_locked_def Let_def split: prod.split)

lemma decrement_commutes: "run_all ops (run_op DecrementSpare c) = run_op DecrementSpare (run_all ops c)"
proof (induction ops arbitrary: c)
  case Nil
  then show ?case by simp
next
  case (Cons op ops)
  have "run_op op (run_op DecrementSpare c) = run_op DecrementSpare (run_op op c)"
    by (cases op)
      (simp_all add: smf_server_add_child_def smf_server_decrement_spare_def smf_server_add_active_def remove_locked_def)
  with Cons [of "run_op op c"] show ?case by simp
qed

section \<open>Mutual exclusion\<close>

text \<open>
  Nobody inside: the semaphore is free and the counters are those of the finished operations.  Or one
  process inside, and what it will have done at the end is its operation on these counters.
\<close>

definition nobody_inside :: "shared \<Rightarrow> bool" where
  "nobody_inside s \<longleftrightarrow> (\<forall>t. sh_threads s t = Outside)"

definition only_inside :: "nat \<Rightarrow> shared \<Rightarrow> bool" where
  "only_inside t s \<longleftrightarrow> (\<forall>u. sh_threads s u \<noteq> Outside \<longleftrightarrow> u = t)"

definition fine_inv :: "counters \<Rightarrow> shared \<Rightarrow> bool" where
  "fine_inv c0 s \<longleftrightarrow>
     tables_ok (run_all (sh_done s) c0) \<and>
     ((nobody_inside s \<and> sh_sem s = 1 \<and> sh_counters s = run_all (sh_done s) c0) \<or>
      (\<exists>t op code reg. only_inside t s \<and> sh_threads s t = Inside op code reg \<and> sh_sem s = 0 \<and>
         finish code reg (sh_counters s) = run_op op (run_all (sh_done s) c0)))"

lemma only_inside_same:
  "only_inside t s \<Longrightarrow> sh_threads s u \<noteq> Outside \<Longrightarrow> u = t"
  by (simp add: only_inside_def)

lemmas fine_defs = fine_inv_def nobody_inside_def only_inside_def smf_server_sem_operation_def SEM_LOCK_def SEM_UNLOCK_def

lemma fine_step_inv: "fine_step k t s s' \<Longrightarrow> k \<noteq> PosixSem True \<Longrightarrow> fine_inv c0 s \<Longrightarrow> fine_inv c0 s'"
proof (induction rule: fine_step.induct)
  case (enter s n op reg)
  then have n: "smf_server_sem_operation False SEM_LOCK (sh_sem s) = Some n" by (simp add: sem_call_safe)
  then have free: "sh_sem s \<noteq> 0" by (auto simp: smf_server_sem_operation_def SEM_LOCK_def split: if_splits)
  then have c: "nobody_inside s" "sh_sem s = 1" "sh_counters s = run_all (sh_done s) c0" "tables_ok (sh_counters s)"
    using enter.prems(2) by (auto simp: fine_inv_def)
  have "finish (op_body op) reg (sh_counters s) = run_op op (sh_counters s)" by (rule finish_body [OF c(4)])
  then show ?case using enter.hyps(1) n c by (auto simp: fine_defs)
next
  case (access s op x code reg todo reg' c)
  then have "\<not> nobody_inside s" by (metis nobody_inside_def thread.distinct(1))
  then obtain u where u: "only_inside u s" "sh_sem s = 0" "tables_ok (run_all (sh_done s) c0)"
    "\<exists>op code reg. sh_threads s u = Inside op code reg \<and> finish code reg (sh_counters s) = run_op op (run_all (sh_done s) c0)"
    using access.prems(2) by (auto simp: fine_inv_def)
  have "u = t" using only_inside_same [OF u(1), of t] access.hyps(1) by simp
  with u(4) access.hyps have "finish (todo @ code) reg' c = run_op op (run_all (sh_done s) c0)"
    using finish_step [OF access.hyps(2), of code] by auto
  then show ?case using u \<open>u = t\<close> by (auto simp: fine_defs)
next
  case (leave s op reg n)
  then have "\<not> nobody_inside s" by (metis nobody_inside_def thread.distinct(1))
  then obtain u where u: "only_inside u s" "sh_sem s = 0" "tables_ok (run_all (sh_done s) c0)"
    "\<exists>op code reg. sh_threads s u = Inside op code reg \<and> finish code reg (sh_counters s) = run_op op (run_all (sh_done s) c0)"
    using leave.prems(2) by (auto simp: fine_inv_def)
  have "u = t" using only_inside_same [OF u(1), of t] leave.hyps(1) by simp
  with u(4) leave.hyps have "sh_counters s = run_op op (run_all (sh_done s) c0)" by auto
  moreover have "smf_server_sem_operation False SEM_UNLOCK (sh_sem s) = Some n" using leave by (simp add: sem_call_safe)
  ultimately show ?case using u \<open>u = t\<close> leave.hyps(1) run_op_tables [OF u(3)] by (auto simp: fine_defs)
qed

lemma fine_reachable_inv: "fine_reachable k c0 s \<Longrightarrow> k \<noteq> PosixSem True \<Longrightarrow> tables_ok c0 \<Longrightarrow> fine_inv c0 s"
proof (induction rule: fine_reachable.induct)
  case start
  then show ?case by (simp add: fine_inv_def nobody_inside_def)
next
  case (step s t s')
  then show ?case using fine_step_inv by blast
qed

text \<open>A process inside gets out by its own steps.\<close>

lemma inside_runs:
  "sh_threads s t = Inside op code reg \<Longrightarrow>
   \<exists>reg'. (fine_step k t)\<^sup>*\<^sup>* s (s\<lparr>sh_counters := finish code reg (sh_counters s),
     sh_threads := (sh_threads s)(t := Inside op [] reg')\<rparr>)"
proof (induction code reg "sh_counters s" arbitrary: s rule: finish.induct)
  case (1 reg)
  have "s\<lparr>sh_counters := finish [] reg (sh_counters s), sh_threads := (sh_threads s)(t := Inside op [] reg)\<rparr> = s"
    using "1.prems" by (cases s) (simp add: fun_upd_idem)
  then show ?case by (metis rtranclp.rtrancl_refl)
next
  case (2 x code reg)
  obtain todo reg1 c1 where d: "do_access x reg (sh_counters s) = (todo, reg1, c1)" by (metis prod_cases3)
  define s1 where "s1 = s\<lparr>sh_counters := c1, sh_threads := (sh_threads s)(t := Inside op (todo @ code) reg1)\<rparr>"
  have "fine_step k t s s1" unfolding s1_def by (rule fine_step.access [OF "2.prems" d])
  moreover obtain reg' where "(fine_step k t)\<^sup>*\<^sup>* s1 (s1\<lparr>sh_counters := finish (todo @ code) reg1 (sh_counters s1),
      sh_threads := (sh_threads s1)(t := Inside op [] reg')\<rparr>)"
    using "2.hyps" [of todo "(reg1, c1)" reg1 s1] d by (auto simp: s1_def)
  ultimately show ?case
    using finish_step [OF d, of code]
    by (intro exI [of _ reg']) (auto simp: s1_def intro: converse_rtranclp_into_rtranclp)
qed

lemma init_tables: "init_counters settings = Inr c \<Longrightarrow> tables_ok c"
  by (auto simp: init_counters_def tables_ok_def CHILD_LIMIT_def split: if_splits)

section \<open>Properties\<close>

text \<open>
  Claim C12.  The operations on the counters are atomic.  Parent and children change the shared counters
  access by access, in any interleaving; still, at most one of them is inside at any time; when none
  is, the semaphore is free and the counters are exactly what the finished operations make of the
  initial ones, one after the other; and whoever is inside can always finish on its own, with the
  effect of its whole operation, and leaves the semaphore free.  This is so for the System V
  variant whatever signals arrive, and for the POSIX variant as long as none interrupts \<open>sem_wait\<close>.
\<close>

theorem smf_server_ops_atomic:
  assumes "init_counters settings = Inr c0" and "fine_reachable k c0 s" and "k \<noteq> PosixSem True"
  shows "(\<forall>t u. sh_threads s t \<noteq> Outside \<longrightarrow> sh_threads s u \<noteq> Outside \<longrightarrow> t = u) \<and>
    ((\<forall>t. sh_threads s t = Outside) \<longrightarrow> sh_sem s = 1 \<and> sh_counters s = run_all (sh_done s) c0) \<and>
    (\<forall>t op code reg. sh_threads s t = Inside op code reg \<longrightarrow>
       (\<exists>s'. (fine_step k t)\<^sup>*\<^sup>* s s' \<and> (\<forall>u. sh_threads s' u = Outside) \<and> sh_sem s' = 1 \<and>
          sh_done s' = sh_done s @ [op] \<and> sh_counters s' = run_op op (run_all (sh_done s) c0)))"
proof -
  have inv: "fine_inv c0 s" using fine_reachable_inv [OF assms(2,3) init_tables [OF assms(1)]] .
  then consider "nobody_inside s" "sh_sem s = 1" "sh_counters s = run_all (sh_done s) c0"
    | t op code reg where "only_inside t s" "sh_threads s t = Inside op code reg" "sh_sem s = 0"
      "finish code reg (sh_counters s) = run_op op (run_all (sh_done s) c0)"
    by (auto simp: fine_inv_def)
  then show ?thesis
  proof cases
    case 1
    then show ?thesis by (simp add: nobody_inside_def)
  next
    case (2 t op code reg)
    obtain reg' where runs: "(fine_step k t)\<^sup>*\<^sup>* s (s\<lparr>sh_counters := finish code reg (sh_counters s),
        sh_threads := (sh_threads s)(t := Inside op [] reg')\<rparr>)"
      using inside_runs [OF 2(2)] by blast
    let ?s1 = "s\<lparr>sh_counters := finish code reg (sh_counters s), sh_threads := (sh_threads s)(t := Inside op [] reg')\<rparr>"
    have "fine_step k t ?s1 (?s1\<lparr>sh_sem := 1, sh_threads := (sh_threads ?s1)(t := Outside), sh_done := sh_done ?s1 @ [op]\<rparr>)"
      by (rule fine_step.leave [where reg = reg'])
        (simp_all add: 2(3) assms(3) sem_call_safe smf_server_sem_operation_def SEM_LOCK_def SEM_UNLOCK_def)
    with runs have "(fine_step k t)\<^sup>*\<^sup>* s (?s1\<lparr>sh_sem := 1, sh_threads := (sh_threads ?s1)(t := Outside),
        sh_done := sh_done ?s1 @ [op]\<rparr>)" by (rule rtranclp.rtrancl_into_rtrancl)
    moreover have out: "u \<noteq> t \<Longrightarrow> sh_threads s u = Outside" for u using 2(1) by (auto simp: only_inside_def)
    ultimately have "\<exists>s'. (fine_step k t)\<^sup>*\<^sup>* s s' \<and> (\<forall>u. sh_threads s' u = Outside) \<and> sh_sem s' = 1 \<and>
        sh_done s' = sh_done s @ [op] \<and> sh_counters s' = run_op op (run_all (sh_done s) c0)"
      using 2(4) by (intro exI [of _ "?s1\<lparr>sh_sem := 1, sh_threads := (sh_threads ?s1)(t := Outside),
        sh_done := sh_done ?s1 @ [op]\<rparr>"]) auto
    moreover have "sh_threads s u \<noteq> Outside \<Longrightarrow> u = t" for u using out by blast
    ultimately show ?thesis using 2(2) by (metis thread.distinct(1) thread.inject)
  qed
qed

text \<open>A parent that has just begun to count a child.\<close>

lemma smf_server_ops_atomic_witness:
  "\<exists>c0 s s'. init_counters smf_settings_new = Inr c0 \<and> fine_reachable SysvSem c0 s \<and> sh_sem s = 0 \<and>
     (fine_step SysvSem 0)\<^sup>*\<^sup>* s s' \<and> sh_sem s' = 1 \<and> ct_num_procs (sh_counters s') = 1 \<and> hd (ct_childs (sh_counters s')) = 7"
proof -
  obtain c0 where c0: "init_counters smf_settings_new = Inr c0" and
      f: "ct_num_procs c0 = 0" "0 < ct_max_childs c0" "ct_childs c0 = 0 # replicate 1023 0"
    by (simp add: init_counters_def smf_settings_new_def CHILD_LIMIT_def numeral_eq_Suc)
  let ?init = "\<lparr>sh_sem = 1, sh_counters = c0, sh_threads = (\<lambda>t. Outside), sh_done = []\<rparr>"
  let ?mid = "?init\<lparr>sh_sem := 0, sh_threads := (sh_threads ?init)(0 := Inside (AddChild 7) (op_body (AddChild 7)) 3)\<rparr>"
  have "fine_step SysvSem 0 ?init ?mid"
    by (rule fine_step.enter) (simp_all add: sem_call_safe smf_server_sem_operation_def SEM_LOCK_def)
  then have s: "fine_reachable SysvSem c0 ?mid" by (rule fine_reachable.step [OF fine_reachable.start])
  have mid: "sh_threads ?mid 0 = Inside (AddChild 7) (op_body (AddChild 7)) 3" by simp
  obtain s' where s': "(fine_step SysvSem 0)\<^sup>*\<^sup>* ?mid s'" "sh_sem s' = 1" "sh_counters s' = run_op (AddChild 7) c0"
    using smf_server_ops_atomic [OF c0 s sem_kind.distinct(2), THEN conjunct2, THEN conjunct2, rule_format, OF mid] by auto
  obtain n where n: "ct_max_childs c0 = Suc n" using f(2) by (cases "ct_max_childs c0") auto
  have "ct_num_procs (sh_counters s') = 1 \<and> hd (ct_childs (sh_counters s')) = 7"
    using s'(3) f n by (simp add: smf_server_add_child_def)
  with c0 s s'(1,2) show ?thesis by (intro exI [of _ c0] exI [of _ ?mid] exI [of _ s']) simp
qed

lemma reachable_steps: "(fine_step k t)\<^sup>*\<^sup>* s s' \<Longrightarrow> fine_reachable k c0 s \<Longrightarrow> fine_reachable k c0 s'"
  by (induction rule: rtranclp.induct) (auto intro: fine_reachable.step)

text \<open>
  Claim C36.  The lock of the POSIX variant can be lost.  When a signal interrupts \<open>sem_wait\<close> in the parent
  (its children send it \<open>SIGUSR1\<close> and \<open>SIGCHLD\<close> all the time), it counts a new child without holding the
  semaphore.  If a child is giving up its spare place at that moment, the parent's change of
  \<open>num_spare\<close> is lost: the counter is one less than the two finished operations make it.  And the
  semaphore ends at 2, so that from then on two processes can always be inside.
\<close>

theorem smf_server_interrupted_lock:
  assumes "init_counters settings = Inr c0"
  shows "\<exists>s. fine_reachable (PosixSem True) c0 s \<and> (\<forall>t. sh_threads s t = Outside) \<and> sh_sem s = 2 \<and>
    sh_done s = [AddChild pid, DecrementSpare] \<and> ct_num_spare (sh_counters s) = - 1 \<and>
    ct_num_spare (run_all (sh_done s) c0) = 0"
proof -
  let ?k = "PosixSem True"
  have f: "ct_num_spare c0 = 0" using assms by (auto simp: init_counters_def split: if_splits)
  have lock: "sem_call ?k SEM_LOCK 1 0" "sem_call ?k SEM_LOCK 0 0" "sem_call ?k SEM_UNLOCK m (Suc m)" for m
    by (auto simp: sem_call_def smf_server_sem_operation_def SEM_LOCK_def SEM_UNLOCK_def)
  define th where "th = (\<lambda>t::nat. Outside)"
  define child where "child = th(1 := Inside DecrementSpare [Store NumSpare (- 1)] 0)"
  have "fine_reachable ?k c0 \<lparr>sh_sem = 1, sh_counters = c0, sh_threads = th, sh_done = []\<rparr>"
    unfolding th_def by (rule fine_reachable.start)
  from fine_reachable.step [OF this fine_step.enter [where t = 1 and op = DecrementSpare and reg = 0]]
  have "fine_reachable ?k c0 \<lparr>sh_sem = 0, sh_counters = c0, sh_threads = th(1 := Inside DecrementSpare (op_body DecrementSpare) 0),
      sh_done = []\<rparr>" using lock(1) by (simp add: th_def)
  from fine_reachable.step [OF this fine_step.access [where t = 1 and x = "Load NumSpare"]]
  have "fine_reachable ?k c0 \<lparr>sh_sem = 0, sh_counters = c0, sh_threads = child, sh_done = []\<rparr>"
    by (simp add: get_number_def f child_def)
  from fine_reachable.step [OF this fine_step.enter [where t = 0 and op = "AddChild pid" and reg = 0]]
  have r: "fine_reachable ?k c0 \<lparr>sh_sem = 0, sh_counters = c0, sh_threads = child(0 := Inside (AddChild pid) (op_body (AddChild pid)) 0),
      sh_done = []\<rparr>" (is "fine_reachable ?k c0 ?s2") using lock(2) by (simp add: child_def th_def)
  let ?c1 = "run_op (AddChild pid) c0"
  have "sh_threads ?s2 0 = Inside (AddChild pid) (op_body (AddChild pid)) 0" by simp
  from inside_runs [OF this, of ?k] finish_body [OF init_tables [OF assms], of "AddChild pid" 0] obtain reg' where
    "(fine_step ?k 0)\<^sup>*\<^sup>* ?s2 \<lparr>sh_sem = 0, sh_counters = ?c1, sh_threads = child(0 := Inside (AddChild pid) [] reg'), sh_done = []\<rparr>"
    by auto
  from fine_reachable.step [OF reachable_steps [OF this r] fine_step.leave [where t = 0 and n = 1]]
  have "fine_reachable ?k c0 \<lparr>sh_sem = 1, sh_counters = ?c1, sh_threads = child(0 := Outside), sh_done = [AddChild pid]\<rparr>"
    using lock(3) [of 0] by simp
  moreover have "child(0 := Outside) = child" by (auto simp: child_def th_def)
  ultimately have "fine_reachable ?k c0 \<lparr>sh_sem = 1, sh_counters = ?c1, sh_threads = child, sh_done = [AddChild pid]\<rparr>" by simp
  from fine_reachable.step [OF this fine_step.access [where t = 1 and x = "Store NumSpare (- 1)"]]
  have "fine_reachable ?k c0 \<lparr>sh_sem = 1, sh_counters = ?c1\<lparr>ct_num_spare := - 1\<rparr>, sh_threads = th(1 := Inside DecrementSpare [] 0),
      sh_done = [AddChild pid]\<rparr>" by (simp add: set_number_def child_def)
  from fine_reachable.step [OF this fine_step.leave [where t = 1 and n = 2]]
  have "fine_reachable ?k c0 \<lparr>sh_sem = 2, sh_counters = ?c1\<lparr>ct_num_spare := - 1\<rparr>, sh_threads = th,
      sh_done = [AddChild pid, DecrementSpare]\<rparr>" using lock(3) [of 1] by (simp add: th_def numeral_2_eq_2 fun_upd_idem)
  then show ?thesis
    by (intro exI [of _ "\<lparr>sh_sem = 2, sh_counters = ?c1\<lparr>ct_num_spare := - 1\<rparr>, sh_threads = th,
        sh_done = [AddChild pid, DecrementSpare]\<rparr>"])
      (simp add: th_def smf_server_add_child_def smf_server_decrement_spare_def f)
qed

lemma smf_server_interrupted_lock_witness:
  "\<exists>c0 s. init_counters smf_settings_new = Inr c0 \<and> fine_reachable (PosixSem True) c0 s \<and> sh_sem s = 2 \<and>
     ct_num_spare (sh_counters s) = - 1"
proof -
  obtain c0 where c0: "init_counters smf_settings_new = Inr c0"
    by (simp add: init_counters_def smf_settings_new_def CHILD_LIMIT_def)
  from smf_server_interrupted_lock [OF c0, of 7] c0 show ?thesis by blast
qed

end
