(* ===== verification/Smf_Start.thy ===== *)
theory Smf_Start
  imports Smf_Main Smf_Server Smf_Smtpd
begin

text \<open>
  The start of the daemon: \<open>load\<close> of \<open>smf_smtpd.c\<close>, which listens, initialises the server and enters
  its loop, and what \<open>main\<close> guarantees to the engine it calls.
\<close>

section \<open>The SMTP engine\<close>

text \<open>What the system gives at start-up, and then round by round of the parent's loop.\<close>

record load_env =
  lo_getaddrinfo :: int
  lo_addresses :: "address list option"
  lo_init :: init_env
  lo_fork :: "nat \<Rightarrow> int"
  lo_rounds :: "(int \<times> int) list"

text \<open>The process ends with a code, or \<open>load\<close> returns 0 after the shutdown, or the loop goes on.\<close>

datatype load_end = Exits int | Returns int "int list" | StillRunning

definition smf_smtpd_load :: "load_env \<Rightarrow> smf_settings \<Rightarrow> load_end c_result" where
  "smf_smtpd_load le settings =
     (case smf_server_listen (lo_getaddrinfo le) (lo_addresses le) of
        Inl e \<Rightarrow> Inl e
      | Inr sd \<Rightarrow>
          if sd < 0 then Inr (Exits 1)
          else (case smf_server_init (lo_init le) settings of
              Inl e \<Rightarrow> Inl e
            | Inr (ExitSuccess, _) \<Rightarrow> Inr (Exits 0)
            | Inr (ExitFailure, _) \<Rightarrow> Inr (Exits 1)
            | Inr (Initialised c, _) \<Rightarrow>
                (case smf_server_loop settings (lo_fork le) (lo_rounds le) c of
                   None \<Rightarrow> Inr StillRunning
                 | Some kills \<Rightarrow> Inr (Returns 0 kills))))"

section \<open>Lemmas\<close>

lemma listen_loop_some: "listen_loop as = Some sd \<Longrightarrow> \<exists>a \<in> set as. ad_socket a = sd \<and> 0 \<le> sd \<and> ad_bind a \<and> ad_listen a"
  by (induction as) (auto split: if_splits)

lemma main_run_engine:
  assumes "main_run env s = Inr rc" and "rc \<noteq> - 1" and "settings_ready s"
  shows "\<exists>path s1 x d. me_engine env path s1 = Inr x \<and> ((\<exists>s2. x = EngineReturns rc s2) \<or> x = EngineExits rc) \<and>
    settings_ready s1 \<and> s_queue_dir s1 = Some d \<and>
    me_isdir env d = Some True \<and> me_writable env d \<and> ld_dlopen (me_loader env) path \<and> me_has_load env path"
proof -
  obtain r s1 where c: "connect_backend (me_lookup env) s = Inr (r, s1)" and r: "r = 0"
    using assms(1,2) by (auto simp: main_run_def split: sum.splits prod.splits if_splits)
  obtain d where d: "s_queue_dir s1 = Some d" "check_queue_dir env d = QueueDirOk"
    using assms(1,2) c r by (auto simp: main_run_def split: option.splits if_splits dest: free_and_return_Inr)
  obtain path x where p: "smf_modules_engine_load (me_loader env) (me_has_load env) s1 = Inr (Some path)"
      "me_engine env path s1 = Inr x" "(\<exists>s2. x = EngineReturns rc s2) \<or> x = EngineExits rc"
    using assms(1,2) c r d
    by (auto simp: main_run_def split: sum.splits option.splits engine_end.splits dest: main_end_Inr)
  have "me_isdir env d = Some True \<and> me_writable env d"
    using d(2) by (auto simp: check_queue_dir_def split: option.splits if_splits)
  with p d connect_backend_ready [OF c assms(3)] engine_load_Some [OF p(1)] show ?thesis by blast
qed

text \<open>An exit code that is not -1, without the usage, is the one the engine returned.\<close>

lemma main_engine:
  assumes "smf_main env tr options = Some (Inr rc)" and "rc \<noteq> - 1" and "read_options options False None \<noteq> None"
  shows "\<exists>path s x d. me_engine env path s = Inr x \<and> ((\<exists>s'. x = EngineReturns rc s') \<or> x = EngineExits rc) \<and>
    settings_ready s \<and> s_queue_dir s = Some d \<and>
    me_isdir env d = Some True \<and> me_writable env d \<and> ld_dlopen (me_loader env) path \<and> me_has_load env path"
proof -
  obtain debug config_file where opt: "read_options options False None = Some (debug, config_file)"
    using assms(3) by auto
  obtain s' t' where conf: "smf_settings_parse_config (me_loader env) (me_read env) config_file (smf_settings_new, tr) =
      Some (Inr (0, s', t'))"
    and run: "main_run env (fst (if debug then snd (smf_settings_set_debug 1 (s', t')) else (s', t'))) = Inr rc"
    using assms(1,2) opt
    by (auto simp: smf_main_def Let_def split: option.splits sum.splits prod.splits if_splits dest: free_and_return_Inr)
  have "settings_ready s'" using parse_config_cases [OF conf settings_ok_new] by simp
  then have "settings_ready (fst (if debug then snd (smf_settings_set_debug 1 (s', t')) else (s', t')))"
    by (simp add: smf_settings_set_debug_def)
  from main_run_engine [OF run assms(2) this] show ?thesis .
qed

section \<open>Properties\<close>


text \<open>A configuration file of two lines, and an engine that returns 42.\<close>

definition ex_conf :: string where
  "ex_conf = ''[global]'' @ [LF] @ ''engine=smtpd'' @ [LF]"

definition ex_main :: main_env where
  "ex_main = \<lparr>me_loader = \<lparr>ld_isfile = (\<lambda>_. False), ld_dlopen = (\<lambda>_. True), ld_libdir = ''/lib''\<rparr>,
     me_read = (\<lambda>f. Some ex_conf), me_isdir = (\<lambda>d. Some True), me_writable = (\<lambda>d. True), me_has_load = (\<lambda>p. True),
     me_engine = (\<lambda>p s. Inr (EngineReturns 42 s)), me_lookup = ex_lookup\<rparr>"

text \<open>
  A connection mode that is set twice, the second time to an unknown value, is accepted, and the first
  thing done with the settings, logging them, reads the freed value.  When the configuration is refused
  for something else, the value is freed a second time.
\<close>

definition twice_connection :: string where
  "twice_connection = ''backend_connection=failover'' @ [LF] @ ''backend_connection=x'' @ [LF]"

lemma smf_main_reads_freed:
  "smf_main (ex_main\<lparr>me_read := (\<lambda>f. Some (ex_conf @ twice_connection))\<rparr>) trace_init [] = Some (Inl DanglingRead)"
  by code_simp

lemma smf_main_frees_twice:
  "smf_main (ex_main\<lparr>me_read := (\<lambda>f. Some (''[global]'' @ [LF] @ twice_connection))\<rparr>) trace_init [] = Some (Inl DoubleFree)"
  by code_simp


text \<open>
  The SMTP engine serves only on a socket of its own and after a full start: when its
  \<open>load\<close> enters the loop of the server, an address could be bound and listened on, the
  initialisation went through, and the counters the loop starts from are those of \<open>max_childs\<close> free
  places, within the tables.
\<close>

theorem smf_smtpd_load_started:
  assumes "smf_smtpd_load le settings = Inr r" and "\<forall>code. r \<noteq> Exits code"
  shows "\<exists>as a c effects. lo_addresses le = Some as \<and> a \<in> set as \<and> 0 \<le> ad_socket a \<and> ad_bind a \<and> ad_listen a \<and>
    smf_server_init (lo_init le) settings = Inr (Initialised c, effects) \<and>
    s_max_childs settings \<le> CHILD_LIMIT \<and> server_reachable settings \<lparr>sv_counters = c, sv_procs = []\<rparr>"
proof -
  obtain sd where l: "smf_server_listen (lo_getaddrinfo le) (lo_addresses le) = Inr sd" "0 \<le> sd"
    using assms by (auto simp: smf_smtpd_load_def split: sum.splits if_splits)
  obtain c effects where i: "smf_server_init (lo_init le) settings = Inr (Initialised c, effects)"
    using assms l by (auto simp: smf_smtpd_load_def split: sum.splits prod.splits init_result.splits)
  obtain as where as: "lo_addresses le = Some as" "listen_loop as = Some sd"
    using l by (auto simp: smf_server_listen_def split: if_splits option.splits)
  have "smf_server_init_ipc (ie_ipc (lo_init le)) settings = Inr (Some c)"
    using i by (auto simp: smf_server_init_def map_sum_def init_not_early
        split: if_splits prod.splits option.splits sum.splits)
  then have "init_counters settings = Inr c" by (rule init_ipc_counters)
  then have "init_counters settings = Inr c" "s_max_childs settings \<le> CHILD_LIMIT"
    by (auto simp: init_counters_def split: if_splits)
  with listen_loop_some [OF as(2)] as(1) i show ?thesis
    by (auto intro: server_reachable.start)
qed

lemma smf_smtpd_load_started_witness:
  "\<exists>c effects. smf_server_init ex_init_env (smf_settings_new\<lparr>s_foreground := 1\<rparr>) = Inr (Initialised c, effects) \<and>
     server_reachable (smf_settings_new\<lparr>s_foreground := 1\<rparr>) \<lparr>sv_counters = c, sv_procs = []\<rparr>"
proof -
  let ?le = "\<lparr>lo_getaddrinfo = 0, lo_addresses = Some [\<lparr>ad_socket = 3, ad_bind = True, ad_listen = True\<rparr>],
      lo_init = ex_init_env, lo_fork = (\<lambda>i. int i + 7), lo_rounds = []\<rparr>"
  have "smf_smtpd_load ?le (smf_settings_new\<lparr>s_foreground := 1\<rparr>) = Inr StillRunning"
    by (simp add: smf_smtpd_load_def smf_server_listen_def smf_server_init_def sig_init_ok go_background_def write_pid_def
        switch_user_def smf_server_init_ipc_def ipc_ready_def posix_sem_init_def posix_shm_init_def init_counters_def
        smf_server_loop_def ex_init_env_def smf_settings_new_def CHILD_LIMIT_def)
  from smf_smtpd_load_started [OF this] show ?thesis by auto
qed

end
