(* ===== verification/Smf_Rounds.thy ===== *)
theory Smf_Rounds
  imports Smf_Server
begin

text \<open>
  The code of the parent and of a child, run as a whole, against the step relation of \<open>Smf_Server\<close>: a
  round of the parent's loop is one \<open>reap\<close> and a row of \<open>fork\<close> and \<open>count\<close> steps, the start of a
  child is \<open>take\<close> and \<open>activate\<close>.  So what holds of reachable states holds of the loop.
\<close>

section \<open>The start of a child\<close>

text \<open>The first calls of \<open>smf_smtpd_handle_client\<close> on the counters.\<close>

definition client_counters :: "int \<Rightarrow> counters \<Rightarrow> counters" where
  "client_counters pid c = smf_server_add_active pid (smf_server_decrement_spare c)"

lemma client_counters_steps:
  assumes "server_reachable settings s" and "sv_procs s = ps @ p # qs" and "pr_alive p" and "pr_phase p = Spare"
  shows "server_reachable settings (s\<lparr>sv_procs := ps @ p\<lparr>pr_phase := Active\<rparr> # qs,
    sv_counters := client_counters (pr_pid p) (sv_counters s)\<rparr>)"
proof -
  let ?t = "s\<lparr>sv_procs := ps @ p\<lparr>pr_phase := Taken\<rparr> # qs,
      sv_counters := smf_server_decrement_spare (sv_counters s)\<rparr>"
  have t: "server_reachable settings ?t"
    by (rule server_reachable.step [OF assms(1) server_step.take [OF assms(2-4)]])
  have "server_step settings ?t (?t\<lparr>sv_procs := ps @ p\<lparr>pr_phase := Taken\<rparr>\<lparr>pr_phase := Active\<rparr> # qs,
      sv_counters := smf_server_add_active (pr_pid (p\<lparr>pr_phase := Taken\<rparr>)) (sv_counters ?t)\<rparr>)"
    by (rule server_step.activate) (use assms(3) in simp_all)
  from server_reachable.step [OF t this] show ?thesis by (simp add: client_counters_def)
qed

section \<open>A round of the parent\<close>

definition new_child :: "int \<Rightarrow> process" where
  "new_child pid = \<lparr>pr_pid = pid, pr_phase = Spare, pr_alive = True, pr_counted = True\<rparr>"

lemma fork_steps:
  assumes "server_reachable settings s" and "all_counted s"
    and "ct_num_procs (sv_counters s) < int (ct_max_childs (sv_counters s))"
    and "0 < pid" and "pid \<notin> pr_pid ` set (sv_procs s)"
  shows "server_reachable settings (s\<lparr>sv_procs := sv_procs s @ [new_child pid],
    sv_counters := smf_server_fork pid (sv_counters s)\<rparr>)"
proof -
  let ?p = "\<lparr>pr_pid = pid, pr_phase = Spare, pr_alive = True, pr_counted = False\<rparr>"
  let ?t = "s\<lparr>sv_procs := sv_procs s @ [?p]\<rparr>"
  have t: "server_reachable settings ?t"
    by (rule server_reachable.step [OF assms(1) server_step.fork [OF assms(2-5)]])
  have "server_step settings ?t (?t\<lparr>sv_procs := sv_procs s @ [?p\<lparr>pr_counted := True\<rparr>],
      sv_counters := smf_server_fork (pr_pid ?p) (sv_counters ?t)\<rparr>)"
    by (rule server_step.count) simp_all
  from server_reachable.step [OF t this] show ?thesis by (simp add: new_child_def)
qed

text \<open>Process ids as \<open>fork\<close> gives them: positive, and none of a process that still exists.\<close>

definition fresh_pids :: "(nat \<Rightarrow> int) \<Rightarrow> nat \<Rightarrow> process list \<Rightarrow> bool" where
  "fresh_pids pids k ps \<longleftrightarrow> inj pids \<and> (\<forall>i \<ge> k. 0 < pids i \<and> pids i \<notin> pr_pid ` set ps)"

lemma fresh_pids_step:
  "fresh_pids pids k ps \<Longrightarrow> fresh_pids pids (Suc k) (ps @ [new_child (pids k)])"
  by (auto simp: fresh_pids_def new_child_def dest: injD)

lemma refill_steps:
  "server_reachable settings s \<Longrightarrow> all_counted s \<Longrightarrow> fresh_pids pids k (sv_procs s) \<Longrightarrow>
   refill settings pids k (sv_counters s) = (k', c') \<Longrightarrow>
   \<exists>s'. server_reachable settings s' \<and> all_counted s' \<and> sv_counters s' = c' \<and>
     sv_procs s' = sv_procs s @ map (\<lambda>i. new_child (pids i)) [k..<k'] \<and> k \<le> k'"
proof (induction settings pids k "sv_counters s" arbitrary: s rule: refill.induct)
  case (1 settings pids k s)
  show ?case
  proof (cases "ct_num_procs (sv_counters s) < s_max_childs settings \<and> wants_child settings (sv_counters s)")
    case False
    with "1.prems" have "k' = k" "c' = sv_counters s" by (subst (asm) refill.simps; simp)+
    with "1.prems" show ?thesis by (intro exI [of _ s]) simp
  next
    case True
    let ?t = "s\<lparr>sv_procs := sv_procs s @ [new_child (pids k)], sv_counters := smf_server_fork (pids k) (sv_counters s)\<rparr>"
    have "ct_max_childs (sv_counters s) = nat (s_max_childs settings)" by (rule server_reachable_max [OF "1.prems"(1)])
    then have "ct_num_procs (sv_counters s) < int (ct_max_childs (sv_counters s))" using True by auto
    moreover have "0 < pids k" "pids k \<notin> pr_pid ` set (sv_procs s)" using "1.prems"(3) by (auto simp: fresh_pids_def)
    ultimately have t: "server_reachable settings ?t" by (rule fork_steps [OF "1.prems"(1,2)])
    have "all_counted ?t" using "1.prems"(2) by (simp add: all_counted_def new_child_def)
    moreover have "fresh_pids pids (Suc k) (sv_procs ?t)" using fresh_pids_step [OF "1.prems"(3)] by simp
    moreover have "refill settings pids (Suc k) (sv_counters ?t) = (k', c')"
      using "1.prems"(4) True by (subst (asm) refill.simps) simp
    ultimately obtain s' where s': "server_reachable settings s'" "all_counted s'" "sv_counters s' = c'"
      "sv_procs s' = sv_procs ?t @ map (\<lambda>i. new_child (pids i)) [Suc k..<k']" "Suc k \<le> k'"
      using "1.hyps" [OF True _ t] by auto
    moreover have "[k..<k'] = k # [Suc k..<k']" using s'(5) by (simp add: upt_conv_Cons)
    ultimately show ?thesis by (intro exI [of _ s']) simp
  qed
qed

text \<open>The loop stops when the limit is reached or when enough children wait.\<close>

lemma refill_enough:
  "refill settings pids k c = (k', c') \<Longrightarrow>
   s_max_childs settings \<le> ct_num_procs c' \<or> \<not> wants_child settings c'"
proof (induction settings pids k c rule: refill.induct)
  case (1 settings pids k c)
  then show ?case by (subst (asm) (2) refill.simps) (auto split: if_splits)
qed

lemma reap_step:
  assumes "server_reachable settings s" and "all_counted s" and "sv_procs s = ps @ p # qs" and "\<not> pr_alive p"
  shows "server_reachable settings (s\<lparr>sv_procs := ps @ qs, sv_counters := smf_server_remove_active (pr_pid p) (sv_counters s)\<rparr>)"
  by (rule server_reachable.step [OF assms(1) server_step.reap [OF assms(3,4,2)]])

text \<open>
  What a round strives for: \<open>max_childs\<close> processes, or \<open>spare_childs\<close> of them that serve no client.
\<close>

definition enough :: "smf_settings \<Rightarrow> server \<Rightarrow> bool" where
  "enough settings s \<longleftrightarrow>
     length (sv_procs s) = nat (s_max_childs settings) \<or>
     s_spare_childs settings \<le> int (length (filter (\<lambda>p. pr_phase p = Spare) (sv_procs s)))"

lemma round_refines:
  assumes "server_reachable settings s" and "all_counted s" and "sv_procs s = ps @ p # qs" and "\<not> pr_alive p"
    and "fresh_pids pids k (ps @ qs)"
    and "server_round settings 0 (pr_pid p) pids k (sv_counters s) = Some (k', c')"
  shows "\<exists>s'. server_reachable settings s' \<and> all_counted s' \<and> sv_counters s' = c' \<and>
    sv_procs s' = ps @ qs @ map (\<lambda>i. new_child (pids i)) [k..<k'] \<and>
    enough settings s' \<and> k \<le> k'"
proof -
  let ?t = "s\<lparr>sv_procs := ps @ qs, sv_counters := smf_server_remove_active (pr_pid p) (sv_counters s)\<rparr>"
  have t: "server_reachable settings ?t" by (rule reap_step [OF assms(1-4)])
  have "0 < pr_pid p"
    using server_reachable_inv [OF assms(1)] assms(3) by (simp add: server_inv_def Let_def pids_ok_def)
  then have refill: "refill settings pids k (sv_counters ?t) = (k', c')"
    using assms(6) by (simp add: server_round_def)
  obtain s' where s': "server_reachable settings s'" "all_counted s'" "sv_counters s' = c'"
    "sv_procs s' = sv_procs ?t @ map (\<lambda>i. new_child (pids i)) [k..<k']" "k \<le> k'"
    using refill_steps [OF t _ _ refill] assms(2,3,5) by (auto simp: all_counted_def)
  have "enough settings s'"
    using refill_enough [OF refill] counters_right [OF s'(1,2)] s'(3) by (auto simp: enough_def wants_child_def)
  with s' show ?thesis by (intro exI [of _ s']) simp
qed

section \<open>Round after round\<close>

text \<open>
  The loop while no signal asks it to end: \<open>ws\<close> are the results of \<open>waitpid\<close>, in the order in which
  the ends of the children are reported.
\<close>

fun serve_rounds :: "smf_settings \<Rightarrow> (nat \<Rightarrow> int) \<Rightarrow> int list \<Rightarrow> nat \<Rightarrow> counters \<Rightarrow> nat \<times> counters" where
  "serve_rounds settings pids [] k c = (k, c)"
| "serve_rounds settings pids (w # ws) k c =
     (case server_round settings 0 w pids k c of
        None \<Rightarrow> (k, c)
      | Some (k', c') \<Rightarrow> serve_rounds settings pids ws k' c')"

text \<open>The dead among the processes, by pid.\<close>

definition dead_pids :: "process list \<Rightarrow> int set" where
  "dead_pids ps = pr_pid ` {p \<in> set ps. \<not> pr_alive p}"

lemma dead_pids_none: "dead_pids ps = {} \<Longrightarrow> list_all pr_alive ps"
  by (auto simp: dead_pids_def list_all_iff)

lemma dead_pids_remove:
  "pr_pid p \<notin> pr_pid ` set (ps @ qs) \<Longrightarrow> \<not> pr_alive p \<Longrightarrow>
   dead_pids (ps @ qs @ map (\<lambda>i. new_child (pids i)) is) = dead_pids (ps @ p # qs) - {pr_pid p}"
proof -
  assume p: "pr_pid p \<notin> pr_pid ` set (ps @ qs)" "\<not> pr_alive p"
  have "pr_pid p \<noteq> pr_pid x" if "x \<in> set ps \<or> x \<in> set qs" for x using p(1) that by (metis UnCI image_eqI set_append)
  with p(2) show ?thesis by (fastforce simp: dead_pids_def new_child_def)
qed

lemma fresh_pids_later:
  "fresh_pids pids k ps \<Longrightarrow> k \<le> k' \<Longrightarrow> fresh_pids pids k' (ps @ map (\<lambda>i. new_child (pids i)) [k..<k'])"
proof -
  assume f: "fresh_pids pids k ps" and k: "k \<le> k'"
  have "pids i \<noteq> pids j" if "k' \<le> i" "j < k'" for i j using f that by (auto simp: fresh_pids_def dest: injD)
  moreover have "0 < pids i \<and> pids i \<notin> pr_pid ` set ps" if "k' \<le> i" for i
    using f k that by (simp only: fresh_pids_def) auto
  ultimately show ?thesis using f by (auto simp: fresh_pids_def new_child_def)
qed

lemma rounds_recover:
  "server_reachable settings s \<Longrightarrow> all_counted s \<Longrightarrow> distinct ws \<Longrightarrow> set ws = dead_pids (sv_procs s) \<Longrightarrow>
   fresh_pids pids k (sv_procs s) \<Longrightarrow> ws \<noteq> [] \<or> enough settings s \<Longrightarrow>
   serve_rounds settings pids ws k (sv_counters s) = (k', c') \<Longrightarrow>
   \<exists>s'. server_reachable settings s' \<and> all_counted s' \<and> sv_counters s' = c' \<and> k \<le> k' \<and>
     sv_procs s' = filter pr_alive (sv_procs s) @ map (\<lambda>i. new_child (pids i)) [k..<k'] \<and> enough settings s'"
proof (induction ws arbitrary: s k)
  case Nil
  then have "filter pr_alive (sv_procs s) = sv_procs s"
    using dead_pids_none [of "sv_procs s"] by (simp add: filter_id_conv list_all_iff)
  with Nil show ?case by (intro exI [of _ s]) simp
next
  case (Cons w ws)
  obtain p where p: "p \<in> set (sv_procs s)" "\<not> pr_alive p" "w = pr_pid p"
    using Cons.prems(4) by (auto simp: dead_pids_def)
  obtain ps qs where split: "sv_procs s = ps @ p # qs" using split_list [OF p(1)] by blast
  have "pids_ok (sv_procs s)" using server_reachable_inv [OF Cons.prems(1)] by (simp add: server_inv_def Let_def)
  then have other: "pr_pid p \<notin> pr_pid ` set (ps @ qs)" by (auto simp: split pids_ok_def)
  have fresh: "fresh_pids pids k (ps @ qs)" using Cons.prems(5) by (simp add: split fresh_pids_def)
  obtain k1 c1 where r: "server_round settings 0 w pids k (sv_counters s) = Some (k1, c1)"
    by (cases "server_round settings 0 w pids k (sv_counters s)") (auto simp: server_round_def)
  obtain t where t: "server_reachable settings t" "all_counted t" "sv_counters t = c1" "enough settings t" "k \<le> k1"
      "sv_procs t = ps @ qs @ map (\<lambda>i. new_child (pids i)) [k..<k1]"
    using round_refines [OF Cons.prems(1,2) split p(2) fresh, of k1 c1] r p(3) by blast
  have "set ws = dead_pids (sv_procs t)"
    unfolding t(6) dead_pids_remove [OF other p(2)] using Cons.prems(3,4) p(3) by (auto simp: split)
  moreover have "fresh_pids pids k1 (sv_procs t)" using fresh_pids_later [OF fresh t(5)] by (simp add: t(6))
  moreover have "serve_rounds settings pids ws k1 (sv_counters t) = (k', c')" using Cons.prems(7) r t(3) by simp
  ultimately obtain s' where s': "server_reachable settings s'" "all_counted s'" "sv_counters s' = c'" "k1 \<le> k'"
      "sv_procs s' = filter pr_alive (sv_procs t) @ map (\<lambda>i. new_child (pids i)) [k1..<k']" "enough settings s'"
    using Cons.IH [OF t(1,2)] Cons.prems(3) t(4) by auto
  have "[k..<k'] = [k..<k1] @ [k1..<k']" using t(5) s'(4) upt_add_eq_append [of k k1 "k' - k1"] by simp
  moreover have "filter pr_alive (map (\<lambda>i. new_child (pids i)) [k..<k1]) = map (\<lambda>i. new_child (pids i)) [k..<k1]"
    by (simp add: filter_id_conv new_child_def)
  ultimately have "sv_procs s' = filter pr_alive (sv_procs s) @ map (\<lambda>i. new_child (pids i)) [k..<k']"
    using p(2) by (simp add: s'(5) t(6) split)
  with s' t(5) show ?case by (intro exI [of _ s']) simp
qed

lemma serve_rounds_loop:
  "server_rounds settings pids (map (\<lambda>w. (0, w)) ws @ rs) k c =
     (case serve_rounds settings pids ws k c of (k', c') \<Rightarrow> server_rounds settings pids rs k' c')"
  by (induction ws arbitrary: k c) (auto simp: server_round_def split: prod.split)

section \<open>Properties\<close>

text \<open>
  The loop of the parent does what the step relation says and keeps enough children: a
  round that learns of the end of a child, from a reachable state, leads to a reachable state with
  the counters the code has computed.  The dead child is gone, the new ones are those that were
  forked, and then either \<open>max_childs\<close> processes exist or at least \<open>spare_childs\<close> of them do not serve
  a client.
\<close>

theorem smf_server_round_refines:
  assumes "server_reachable settings s" and "all_counted s" and "sv_procs s = ps @ p # qs" and "\<not> pr_alive p"
    and "fresh_pids pids k (ps @ qs)"
    and "server_round settings 0 (pr_pid p) pids k (sv_counters s) = Some (k', c')"
  shows "\<exists>s'. server_reachable settings s' \<and> all_counted s' \<and> sv_counters s' = c' \<and>
    sv_procs s' = ps @ qs @ map (\<lambda>i. new_child (pids i)) [k..<k'] \<and>
    (length (sv_procs s') = nat (s_max_childs settings) \<or>
     s_spare_childs settings \<le> int (length (filter (\<lambda>p. pr_phase p = Spare) (sv_procs s'))))"
  using round_refines [OF assms] by (auto simp: enough_def)

text \<open>A server whose only child has died.\<close>

lemma smf_server_round_refines_witness:
  "\<exists>s. server_reachable smf_settings_new s \<and> all_counted s \<and> 2 \<le> length (sv_procs s)"
proof -
  let ?p = "\<lparr>pr_pid = 7, pr_phase = Spare, pr_alive = True, pr_counted = True\<rparr>"
  let ?q = "\<lparr>pr_pid = 7, pr_phase = Spare, pr_alive = False, pr_counted = True\<rparr>"
  let ?s = "ex_server\<lparr>sv_procs := [?q]\<rparr>"
  let ?pids = "\<lambda>i. int i + 8"
  have "server_step smf_settings_new ex_server ?s"
    using server_step.leave [of ex_server "[]" ?p "[]" smf_settings_new] by (simp add: ex_server_def)
  then have r: "server_reachable smf_settings_new ?s" by (rule server_reachable.step [OF ex_server_reachable])
  have n: "s_max_childs smf_settings_new = 10" "s_spare_childs smf_settings_new = 2" by (simp_all add: smf_settings_new_def)
  obtain k' c' where round: "server_round smf_settings_new 0 (pr_pid ?q) ?pids 0 (sv_counters ?s) = Some (k', c')"
    by (cases "refill smf_settings_new ?pids 0 (smf_server_remove_active (pr_pid ?q) (sv_counters ?s))")
      (simp add: server_round_def)
  have fresh: "fresh_pids ?pids 0 ([] @ [])" by (simp add: fresh_pids_def inj_def)
  have ac: "all_counted ?s" and ps: "sv_procs ?s = [] @ ?q # []" and dead: "\<not> pr_alive ?q"
    by (simp_all add: all_counted_def)
  from smf_server_round_refines [OF r ac ps dead fresh round] obtain s' where s': "server_reachable smf_settings_new s'"
      "all_counted s'" "length (sv_procs s') = 10 \<or> 2 \<le> int (length (filter (\<lambda>p. pr_phase p = Spare) (sv_procs s')))"
    unfolding n by auto
  have "length (filter (\<lambda>p. pr_phase p = Spare) (sv_procs s')) \<le> length (sv_procs s')" by (rule length_filter_le)
  with s'(3) have "2 \<le> length (sv_procs s')" by linarith
  with s' show ?thesis by blast
qed



end
