(* ===== verification/Smf_Daemon.thy ===== *)
theory Smf_Daemon
  imports Smf_Start Smf_Rounds
begin

text \<open>
  The daemon as a whole: \<open>main.c\<close> with the SMTP engine in its place, and the loop of the parent, as the
  code has it, while its children take clients, serve them and end at any time.
\<close>

section \<open>The SMTP engine in its place\<close>

definition daemon_engine :: "load_env \<Rightarrow> string \<Rightarrow> smf_settings \<Rightarrow> engine_end c_result" where
  "daemon_engine le path s =
     map_sum id (\<lambda>r. case r of
         Exits code \<Rightarrow> EngineExits code
       | Returns rc kills \<Rightarrow> EngineReturns rc s
       | StillRunning \<Rightarrow> EngineRuns) (smf_smtpd_load le s)"

lemma daemon_engine_0:
  assumes "daemon_engine le path s = Inr x" and "(\<exists>s'. x = EngineReturns 0 s') \<or> x = EngineExits 0"
  shows "smf_smtpd_load le s = Inr (Exits 0) \<or> (\<exists>kills. smf_smtpd_load le s = Inr (Returns 0 kills))"
  using assms by (auto simp: daemon_engine_def map_sum_def split: sum.splits load_end.splits)

lemma load_0:
  assumes "smf_smtpd_load le s = Inr (Exits 0) \<or> (\<exists>kills. smf_smtpd_load le s = Inr (Returns 0 kills))"
  shows "\<exists>sd. smf_server_listen (lo_getaddrinfo le) (lo_addresses le) = Inr sd \<and> 0 \<le> sd \<and>
    ((\<exists>effects. smf_server_init (lo_init le) s = Inr (ExitSuccess, effects)) \<or>
     (\<exists>c effects kills. smf_server_init (lo_init le) s = Inr (Initialised c, effects) \<and>
        smf_server_loop s (lo_fork le) (lo_rounds le) c = Some kills))"
proof -
  obtain sd where l: "smf_server_listen (lo_getaddrinfo le) (lo_addresses le) = Inr sd" "0 \<le> sd"
    using assms by (auto simp: smf_smtpd_load_def split: sum.splits if_splits)
  with assms show ?thesis
    by (auto simp: smf_smtpd_load_def split: sum.splits prod.splits init_result.splits option.splits)
qed

lemma listen_address:
  "smf_server_listen r ai = Inr sd \<Longrightarrow> 0 \<le> sd \<Longrightarrow>
   \<exists>as a. ai = Some as \<and> a \<in> set as \<and> ad_socket a = sd \<and> ad_bind a \<and> ad_listen a"
  by (auto simp: smf_server_listen_def split: if_splits option.splits dest: listen_loop_some)

lemma init_success:
  "smf_server_init ie s = Inr (ExitSuccess, effects) \<Longrightarrow> s_foreground s = 0"
  by (auto simp: smf_server_init_def go_background_def switch_user_def map_sum_def
      split: if_splits option.splits sum.splits prod.splits)

lemma init_initialised:
  "smf_server_init ie s = Inr (Initialised c, effects) \<Longrightarrow> init_counters s = Inr c"
  by (rule init_ipc_counters [of "ie_ipc ie"])
    (auto simp: smf_server_init_def map_sum_def init_not_early split: if_splits prod.splits option.splits sum.splits)

lemma rounds_stopped: "server_rounds s pids rs k c = Some kills \<Longrightarrow> \<exists>pid. (1, pid) \<in> set rs"
  by (induction s pids rs k c rule: server_rounds.induct)
    (auto simp: server_round_def split: if_splits option.splits prod.splits)

section \<open>The parent among its children\<close>

text \<open>
  From the first forks on: a step of a child (it takes a client, records itself, or ends), a round
  of the parent that learns of the end of a child, or one in which \<open>waitpid\<close> was interrupted.
  \<open>k\<close> counts the forks, \<open>pids\<close> gives what they return.
\<close>

inductive server_run :: "smf_settings \<Rightarrow> (nat \<Rightarrow> int) \<Rightarrow> nat \<Rightarrow> server \<Rightarrow> bool" for settings pids where
  start: "init_counters settings = Inr c \<Longrightarrow>
    n = (if s_spare_childs settings = 0 then 1 else nat (s_spare_childs settings)) \<Longrightarrow>
    server_run settings pids n \<lparr>sv_counters = prefork settings (map pids [0..<n]) c,
      sv_procs = map (\<lambda>i. new_child (pids i)) [0..<n]\<rparr>"
| child: "server_run settings pids k s \<Longrightarrow> server_step settings s t \<Longrightarrow>
    map pr_pid (sv_procs t) = map pr_pid (sv_procs s) \<Longrightarrow> server_run settings pids k t"
| reaped: "server_run settings pids k s \<Longrightarrow> sv_procs s = ps @ p # qs \<Longrightarrow> \<not> pr_alive p \<Longrightarrow>
    server_round settings 0 (pr_pid p) pids k (sv_counters s) = Some (k', c) \<Longrightarrow>
    server_run settings pids k' \<lparr>sv_counters = c, sv_procs = ps @ qs @ map (\<lambda>i. new_child (pids i)) [k..<k']\<rparr>"
| interrupted: "server_run settings pids k s \<Longrightarrow> w \<le> 0 \<Longrightarrow>
    server_round settings 0 w pids k (sv_counters s) = Some (k', c) \<Longrightarrow>
    server_run settings pids k' \<lparr>sv_counters = c, sv_procs = sv_procs s @ map (\<lambda>i. new_child (pids i)) [k..<k']\<rparr>"

lemma prefork_steps:
  assumes "init_counters settings = Inr c" and "fresh_pids pids 0 []"
  shows "int n \<le> s_max_childs settings \<Longrightarrow>
    server_reachable settings \<lparr>sv_counters = foldl (\<lambda>c p. smf_server_fork p c) c (map pids [0..<n]),
      sv_procs = map (\<lambda>i. new_child (pids i)) [0..<n]\<rparr>"
proof (induction n)
  case 0
  then show ?case using assms(1) by (simp add: server_reachable.start)
next
  case (Suc n)
  let ?s = "\<lparr>sv_counters = foldl (\<lambda>c p. smf_server_fork p c) c (map pids [0..<n]), sv_procs = map (\<lambda>i. new_child (pids i)) [0..<n]\<rparr>"
  have s: "server_reachable settings ?s" using Suc by simp
  have ac: "all_counted ?s" by (simp add: all_counted_def new_child_def list_all_iff)
  have "ct_num_procs (sv_counters ?s) = int n" using counters_right [OF s ac] by simp
  moreover have "ct_max_childs (sv_counters ?s) = nat (s_max_childs settings)" by (rule server_reachable_max [OF s])
  moreover have "0 < pids n" "pids n \<notin> pr_pid ` set (sv_procs ?s)"
    using assms(2) by (auto simp: fresh_pids_def new_child_def dest: injD)
  ultimately have "server_reachable settings (?s\<lparr>sv_procs := sv_procs ?s @ [new_child (pids n)],
      sv_counters := smf_server_fork (pids n) (sv_counters ?s)\<rparr>)"
    using fork_steps [OF s ac] Suc.prems by auto
  then show ?case by simp
qed

lemma child_counted:
  assumes "server_step settings s t" and "map pr_pid (sv_procs t) = map pr_pid (sv_procs s)" and "all_counted s"
  shows "all_counted t"
  using assms by (cases rule: server_step.cases) (auto simp: all_counted_def)

lemma run_reachable:
  assumes "fresh_pids pids 0 []" and "s_spare_childs settings \<le> s_max_childs settings" and "1 \<le> s_max_childs settings"
  shows "server_run settings pids k s \<Longrightarrow> server_reachable settings s \<and> all_counted s \<and> fresh_pids pids k (sv_procs s)"
proof (induction rule: server_run.induct)
  case (start c n)
  have n: "int n \<le> s_max_childs settings" using assms(2,3) start(2) by auto
  have eq: "prefork settings (map pids [0..<n]) c = foldl (\<lambda>c p. smf_server_fork p c) c (map pids [0..<n])"
    using start(2) by (simp add: prefork_def)
  have "fresh_pids pids n (map (\<lambda>i. new_child (pids i)) [0..<n])" using fresh_pids_later [OF assms(1), of n] by simp
  then show ?case
    using prefork_steps [OF start(1) assms(1) n] by (simp add: eq all_counted_def new_child_def list_all_iff)
next
  case (child k s t)
  have "fresh_pids pids k (sv_procs t)"
    using child by (simp add: fresh_pids_def) (metis list.set_map)
  then show ?case using child child_counted server_reachable.step by blast
next
  case (reaped k s ps p qs k' c)
  have fresh: "fresh_pids pids k (ps @ qs)" using reaped by (simp add: fresh_pids_def)
  obtain s' where s': "server_reachable settings s'" "all_counted s'" "sv_counters s' = c"
    "sv_procs s' = ps @ qs @ map (\<lambda>i. new_child (pids i)) [k..<k']" "k \<le> k'"
    using round_refines [OF _ _ reaped(2,3) fresh reaped(4)] reaped.IH by blast
  then have "s' = \<lparr>sv_counters = c, sv_procs = ps @ qs @ map (\<lambda>i. new_child (pids i)) [k..<k']\<rparr>" by simp
  with s' fresh_pids_later [OF fresh s'(5)] show ?case by simp
next
  case (interrupted k s w k' c)
  have "refill settings pids k (sv_counters s) = (k', c)" using interrupted(2,3) by (simp add: server_round_def)
  then obtain s' where s': "server_reachable settings s'" "all_counted s'" "sv_counters s' = c"
    "sv_procs s' = sv_procs s @ map (\<lambda>i. new_child (pids i)) [k..<k']" "k \<le> k'"
    using refill_steps interrupted.IH by blast
  then have "s' = \<lparr>sv_counters = c, sv_procs = sv_procs s @ map (\<lambda>i. new_child (pids i)) [k..<k']\<rparr>" by simp
  with s' fresh_pids_later [of pids k "sv_procs s" k'] interrupted.IH show ?case by simp
qed

section \<open>Properties\<close>




definition ex_load :: load_env where
  "ex_load = \<lparr>lo_getaddrinfo = 0, lo_addresses = Some [\<lparr>ad_socket = 3, ad_bind = True, ad_listen = True\<rparr>],
     lo_init = ex_init_env, lo_fork = (\<lambda>i. int i + 7), lo_rounds = [(0, - 1), (1, - 1)]\<rparr>"

definition ex_service :: main_env where
  "ex_service = ex_main\<lparr>me_read := (\<lambda>f. Some (''[global]'' @ [LF] @ ''engine=smtpd'' @ [LF] @ ''foreground=true'' @ [LF])),
     me_engine := daemon_engine ex_load\<rparr>"

lemma ex_service_runs: "smf_main ex_service trace_init [] = Some (Inr 0)"
  by code_simp


end
