(* ===== verification/Smf_Memory.thy ===== *)
theory Smf_Memory
  imports Smf_Session
begin

text \<open>
  The memory of the process, for the functions whose correctness is a matter of who owns which block:
  the heap maps addresses to blocks, \<open>malloc\<close> takes an address never used before, \<open>free\<close> of a block
  that is gone is a second free, and reading through such an address is a dangling read.  The footprint
  of an object is the list of the blocks it owns; \<open>moves\<close> says that an execution turns one footprint
  into another and touches nothing else, so it composes along a program, and an object that was made,
  used and destroyed leaves the heap as it was.
\<close>

section \<open>Blocks\<close>

record dict_block =
  db_n :: nat
  db_size :: nat
  db_val :: nat
  db_key :: nat
  db_hash :: nat

record user_block =
  ub_email :: "nat option"
  ub_data :: nat

record envelope_block =
  eb_recipients :: "nat option"
  eb_sender :: "nat option"
  eb_auth_user :: "nat option"
  eb_auth_pass :: "nat option"
  eb_nexthop :: "nat option"
  eb_message :: "nat option"

record session_block =
  sb_envelope :: "nat option"
  sb_message_size :: nat
  sb_message_file :: "nat option"
  sb_helo :: "nat option"
  sb_xforward_addr :: "nat option"
  sb_response_msg :: "nat option"
  sb_id :: "nat option"
  sb_local_users :: "nat option"

text \<open>What a block holds: a string, an array of pointers or hash values, a list, or one of the structs.\<close>

datatype block =
    StrB string
  | PtrsB "nat option list"
  | HashB "32 word list"
  | ListB "nat list"
  | MsgB message
  | DictB dict_block
  | UserB user_block
  | EnvB envelope_block
  | SesB session_block

record heap =
  hp :: "nat \<Rightarrow> block option"
  hp_next :: nat

definition heap_ok :: "heap \<Rightarrow> bool" where
  "heap_ok h \<longleftrightarrow> (\<forall>a \<ge> hp_next h. hp h a = None)"

section \<open>Primitives\<close>

definition c_bind :: "'a c_result \<Rightarrow> ('a \<Rightarrow> 'b c_result) \<Rightarrow> 'b c_result" where
  "c_bind r f = (case r of Inl e \<Rightarrow> Inl e | Inr x \<Rightarrow> f x)"

lemma c_bind_simps [simp]: "c_bind (Inr x) f = f x" "c_bind (Inl e) f = Inl e"
  by (simp_all add: c_bind_def)

definition m_alloc :: "block \<Rightarrow> heap \<Rightarrow> nat \<times> heap" where
  "m_alloc b h = (hp_next h, h\<lparr>hp := (hp h)(hp_next h \<mapsto> b), hp_next := hp_next h + 1\<rparr>)"

definition m_put :: "nat \<Rightarrow> block \<Rightarrow> heap \<Rightarrow> heap" where
  "m_put a b h = h\<lparr>hp := (hp h)(a \<mapsto> b)\<rparr>"

definition m_free :: "nat \<Rightarrow> heap \<Rightarrow> heap c_result" where
  "m_free a h = (if hp h a = None then Inl DoubleFree else Inr (h\<lparr>hp := (hp h)(a := None)\<rparr>))"

text \<open>\<open>if (p != NULL) free (p)\<close>\<close>

definition m_free_opt :: "nat option \<Rightarrow> heap \<Rightarrow> heap c_result" where
  "m_free_opt p h = (case p of None \<Rightarrow> Inr h | Some a \<Rightarrow> m_free a h)"

definition m_string :: "nat \<Rightarrow> heap \<Rightarrow> string c_result" where
  "m_string a h = (case hp h a of Some (StrB s) \<Rightarrow> Inr s | _ \<Rightarrow> Inl DanglingRead)"

definition m_strdup :: "nat \<Rightarrow> heap \<Rightarrow> (nat \<times> heap) c_result" where
  "m_strdup a h = c_bind (m_string a h) (\<lambda>s. Inr (m_alloc (StrB s) h))"

text \<open>\<open>assert (p)\<close>\<close>

definition m_assert :: "nat option \<Rightarrow> nat c_result" where
  "m_assert p = (case p of None \<Rightarrow> Inl AssertFailed | Some a \<Rightarrow> Inr a)"

lemma m_assert_simps [simp]: "m_assert (Some a) = Inr a" "m_assert None = Inl AssertFailed"
  by (simp_all add: m_assert_def)

fun m_free_all :: "nat list \<Rightarrow> heap \<Rightarrow> heap c_result" where
  "m_free_all [] h = Inr h"
| "m_free_all (a # as) h = c_bind (m_free a h) (m_free_all as)"

lemma c_bind_Inr [simp]: "c_bind r Inr = r"
  by (cases r) simp_all

section \<open>Footprints\<close>

definition opt_list :: "'a option \<Rightarrow> 'a list" where
  "opt_list p = (case p of None \<Rightarrow> [] | Some a \<Rightarrow> [a])"

lemma opt_list_simps [simp]: "opt_list None = []" "opt_list (Some a) = [a]"
  by (simp_all add: opt_list_def)

lemma set_opt_list: "a \<in> set (opt_list p) \<longleftrightarrow> p = Some a"
  by (cases p) auto

text \<open>All blocks are there, and none is counted twice.\<close>

definition owned :: "heap \<Rightarrow> nat list \<Rightarrow> bool" where
  "owned h xs \<longleftrightarrow> distinct xs \<and> (\<forall>x \<in> set xs. hp h x \<noteq> None)"

text \<open>
  From \<open>h\<close> to \<open>h'\<close> the footprint \<open>xs\<close> has become \<open>ys\<close>: what is new was allocated, what is gone was
  freed, and no other block has changed.
\<close>

definition moves :: "heap \<Rightarrow> heap \<Rightarrow> nat list \<Rightarrow> nat list \<Rightarrow> bool" where
  "moves h h' xs ys \<longleftrightarrow>
     heap_ok h' \<and> owned h' ys \<and>
     (\<forall>x. x \<notin> set xs \<longrightarrow> x \<notin> set ys \<longrightarrow> hp h' x = hp h x) \<and>
     (\<forall>x \<in> set ys - set xs. hp h x = None) \<and>
     (\<forall>x \<in> set xs - set ys. hp h' x = None)"

lemma movesD:
  assumes "moves h h' xs ys"
  shows "heap_ok h'" and "owned h' ys" and "x \<notin> set xs \<Longrightarrow> x \<notin> set ys \<Longrightarrow> hp h' x = hp h x"
    and "x \<in> set ys \<Longrightarrow> x \<notin> set xs \<Longrightarrow> hp h x = None" and "x \<in> set xs \<Longrightarrow> x \<notin> set ys \<Longrightarrow> hp h' x = None"
  using assms by (auto simp: moves_def)

lemma moves_refl: "heap_ok h \<Longrightarrow> owned h xs \<Longrightarrow> moves h h xs xs"
  by (simp add: moves_def)

lemma moves_trans:
  assumes "moves h1 h2 xs ys" and "moves h2 h3 ys zs"
  shows "moves h1 h3 xs zs"
  unfolding moves_def
proof (intro conjI allI ballI impI)
  show "heap_ok h3" "owned h3 zs" using assms(2) by (auto dest: movesD)
  note one = movesD(3-5) [OF assms(1)] and two = movesD(3-5) [OF assms(2)]
  show "hp h3 x = hp h1 x" if "x \<notin> set xs" "x \<notin> set zs" for x
    by (cases "x \<in> set ys") (simp_all add: that one two)
  show "hp h1 x = None" if "x \<in> set zs - set xs" for x
    using that one(1) [of x] one(2) [of x] two(2) [of x] by (cases "x \<in> set ys") auto
  show "hp h3 x = None" if "x \<in> set xs - set zs" for x
    using that two(1) [of x] two(3) [of x] one(3) [of x] by (cases "x \<in> set ys") auto
qed

text \<open>What else is owned stays owned.\<close>

lemma ownedD: "owned h xs \<Longrightarrow> x \<in> set xs \<Longrightarrow> hp h x \<noteq> None"
  unfolding owned_def by blast

lemma ownedI: "distinct xs \<Longrightarrow> (\<And>x. x \<in> set xs \<Longrightarrow> hp h x \<noteq> None) \<Longrightarrow> owned h xs"
  unfolding owned_def by blast

lemma owned_distinct: "owned h xs \<Longrightarrow> distinct xs"
  by (simp add: owned_def)

lemma owned_append: "owned h (xs @ ys) \<longleftrightarrow> owned h xs \<and> owned h ys \<and> set xs \<inter> set ys = {}"
  unfolding owned_def distinct_append set_append ball_Un by argo

lemma moves_apart:
  assumes "moves h h' xs ys" and "owned h (rs @ xs)" and "x \<in> set rs"
  shows "x \<notin> set xs" and "x \<notin> set ys" and "hp h' x = hp h x"
proof -
  show xs: "x \<notin> set xs" using owned_distinct [OF assms(2)] assms(3) by auto
  have present: "hp h x \<noteq> None" by (rule ownedD [OF assms(2)]) (simp add: assms(3))
  show ys: "x \<notin> set ys"
  proof
    assume "x \<in> set ys"
    from movesD(4) [OF assms(1) this xs] present show False by contradiction
  qed
  show "hp h' x = hp h x" by (rule movesD(3) [OF assms(1) xs ys])
qed

lemma moves_frame:
  assumes "moves h h' xs ys" and "owned h (rs @ xs)"
  shows "moves h h' (rs @ xs) (rs @ ys)"
  unfolding moves_def
proof (intro conjI allI ballI impI)
  note apart = moves_apart [OF assms]
  show "heap_ok h'" by (rule movesD(1) [OF assms(1)])
  show "owned h' (rs @ ys)"
  proof (rule ownedI)
    show "distinct (rs @ ys)"
      using owned_distinct [OF assms(2)] owned_distinct [OF movesD(2) [OF assms(1)]] apart(2) by auto
    show "hp h' x \<noteq> None" if "x \<in> set (rs @ ys)" for x
      using that apart(3) [of x] ownedD [OF assms(2), of x] ownedD [OF movesD(2) [OF assms(1)], of x] by auto
  qed
  show "hp h' x = hp h x" if "x \<notin> set (rs @ xs)" "x \<notin> set (rs @ ys)" for x
    using that movesD(3) [OF assms(1)] by simp
  show "hp h x = None" if "x \<in> set (rs @ ys) - set (rs @ xs)" for x
    using that movesD(4) [OF assms(1)] by auto
  show "hp h' x = None" if "x \<in> set (rs @ xs) - set (rs @ ys)" for x
    using that movesD(5) [OF assms(1)] by auto
qed

text \<open>The order of a footprint does not matter.\<close>

lemma owned_same: "distinct ys \<Longrightarrow> set xs = set ys \<Longrightarrow> owned h xs \<Longrightarrow> owned h ys"
  by (simp add: owned_def)

lemma moves_same:
  assumes "moves h h' xs ys" and "set xs' = set xs" and "set ys' = set ys" and "distinct ys'"
  shows "moves h h' xs' ys'"
  using assms by (auto simp: moves_def owned_def)

lemma moves_none: "moves h h' [] [] \<Longrightarrow> hp h' = hp h"
  by (auto simp: moves_def)

text \<open>The primitives as moves.\<close>

lemma alloc_moves:
  assumes "heap_ok h" and "m_alloc b h = (a, h')"
  shows "moves h h' [] [a]" and "hp h' a = Some b" and "hp h a = None"
  using assms by (auto simp: m_alloc_def moves_def owned_def heap_ok_def)

lemma free_moves:
  assumes "heap_ok h" and "hp h a \<noteq> None"
  shows "\<exists>h'. m_free a h = Inr h' \<and> moves h h' [a] []"
  using assms by (auto simp: m_free_def moves_def owned_def heap_ok_def)

lemma put_moves:
  assumes "heap_ok h" and "hp h a \<noteq> None"
  shows "moves h (m_put a b h) [a] [a]" and "hp (m_put a b h) a = Some b"
  using assms by (auto simp: m_put_def moves_def owned_def heap_ok_def)

lemma put_in:
  assumes "heap_ok h" and "owned h xs" and "a \<in> set xs"
  shows "moves h (m_put a b h) xs xs" and "heap_ok (m_put a b h)"
proof -
  have pa: "hp h a \<noteq> None" by (rule ownedD [OF assms(2,3)])
  show ok: "heap_ok (m_put a b h)" using assms(1) pa by (auto simp: heap_ok_def m_put_def)
  have "owned (m_put a b h) xs"
    by (rule ownedI [OF owned_distinct [OF assms(2)]]) (use ownedD [OF assms(2)] in \<open>simp add: m_put_def\<close>)
  with ok assms(3) show "moves h (m_put a b h) xs xs" by (auto simp: moves_def m_put_def)
qed

lemma alloc_in:
  assumes "heap_ok h" and "owned h xs" and "m_alloc b h = (a, h')"
  shows "moves h h' xs (a # xs)" and "a \<notin> set xs" and "x \<in> set xs \<Longrightarrow> hp h' x = hp h x"
proof -
  note al = alloc_moves [OF assms(1,3)]
  show "a \<notin> set xs" using ownedD [OF assms(2), of a] al(3) by blast
  have o: "owned h (xs @ [])" using assms(2) by simp
  have m: "moves h h' xs (xs @ [a])" using moves_frame [OF al(1) o] by simp
  show "moves h h' xs (a # xs)"
    by (rule moves_same [OF m]) (use owned_distinct [OF movesD(2) [OF m]] in auto)
  show "x \<in> set xs \<Longrightarrow> hp h' x = hp h x" using moves_apart(3) [OF al(1) o] by simp
qed

lemma put_other [simp]: "x \<noteq> a \<Longrightarrow> hp (m_put a b h) x = hp h x"
  by (simp add: m_put_def)

lemma string_present: "m_string a h = Inr s \<longleftrightarrow> hp h a = Some (StrB s)"
  by (auto simp: m_string_def split: option.splits block.splits)

lemma string_gone: "hp h a = None \<Longrightarrow> m_string a h = Inl DanglingRead"
  by (simp add: m_string_def)

end
