(* ===== verification/Smf_Destroy.thy ===== *)
theory Smf_Destroy
  imports Smf_Memory "HOL-Library.Multiset"
begin

text \<open>
  Giving memory back: the destructors of dictionaries (\<open>smf_dict.c\<close>), of the list elements
  (\<open>smf_internal.c\<close>), lists, messages and user data.  A destructor is right when it frees exactly the
  footprint of its object; the locale states this contract, which the list asks of the function
  it is given for its elements.
\<close>

section \<open>Sequences of frees\<close>

text \<open>The action succeeds and frees exactly \<open>xs\<close>.\<close>

definition frees :: "heap \<Rightarrow> heap c_result \<Rightarrow> nat list \<Rightarrow> bool" where
  "frees h r xs \<longleftrightarrow> (\<exists>h'. r = Inr h' \<and> moves h h' xs [])"

lemma frees_nil: "heap_ok h \<Longrightarrow> frees h (Inr h) []"
  by (simp add: frees_def moves_def owned_def)

lemma frees_block: "heap_ok h \<Longrightarrow> owned h [a] \<Longrightarrow> frees h (m_free a h) [a]"
  using free_moves [of h a] ownedD [of h "[a]" a] by (simp add: frees_def)

lemma frees_opt: "heap_ok h \<Longrightarrow> owned h (opt_list p) \<Longrightarrow> frees h (m_free_opt p h) (opt_list p)"
  by (cases p) (simp_all add: m_free_opt_def frees_nil frees_block)

text \<open>The rest is still there when the first part has been freed.\<close>

lemma frees_bind:
  assumes "owned h (ys @ xs)" and "frees h r xs"
    and "\<And>h1. heap_ok h1 \<Longrightarrow> owned h1 ys \<Longrightarrow> (\<And>y. y \<in> set ys \<Longrightarrow> hp h1 y = hp h y) \<Longrightarrow> frees h1 (f h1) ys"
  shows "frees h (c_bind r f) (ys @ xs)"
proof -
  obtain h1 where h1: "r = Inr h1" "moves h h1 xs []" using assms(2) by (auto simp: frees_def)
  note first = moves_frame [OF h1(2) assms(1)]
  have "frees h1 (f h1) ys"
  proof (rule assms(3))
    show "heap_ok h1" by (rule movesD(1) [OF first])
    show "owned h1 ys" using movesD(2) [OF first] by simp
    show "hp h1 y = hp h y" if "y \<in> set ys" for y by (rule moves_apart(3) [OF h1(2) assms(1) that])
  qed
  then obtain h2 where "f h1 = Inr h2" "moves h1 h2 ys []" by (auto simp: frees_def)
  with first h1(1) show ?thesis by (auto simp: frees_def intro: moves_trans)
qed

text \<open>
  \<open>freer h act xs\<close>: in every heap that has the blocks \<open>xs\<close> as \<open>h\<close> has them, the action frees them and
  nothing else.  Such actions can be put one after the other.
\<close>

definition freer :: "heap \<Rightarrow> (heap \<Rightarrow> heap c_result) \<Rightarrow> nat list \<Rightarrow> bool" where
  "freer h act xs \<longleftrightarrow>
     (\<forall>h1. heap_ok h1 \<longrightarrow> owned h1 xs \<longrightarrow> (\<forall>x \<in> set xs. hp h1 x = hp h x) \<longrightarrow> frees h1 (act h1) xs)"

lemma freerI:
  "(\<And>h1. heap_ok h1 \<Longrightarrow> owned h1 xs \<Longrightarrow> (\<And>x. x \<in> set xs \<Longrightarrow> hp h1 x = hp h x) \<Longrightarrow> frees h1 (act h1) xs) \<Longrightarrow>
   freer h act xs"
  unfolding freer_def by blast

lemma freerD: "freer h act xs \<Longrightarrow> heap_ok h \<Longrightarrow> owned h xs \<Longrightarrow> frees h (act h) xs"
  by (simp add: freer_def)

lemma freer_nil: "freer h Inr []"
  by (simp add: freer_def frees_nil)

lemma freer_block: "freer h (m_free a) [a]"
  by (simp add: freer_def frees_block)

lemma freer_opt: "freer h (m_free_opt p) (opt_list p)"
  by (simp add: freer_def frees_opt)

lemma freer_seq:
  assumes "freer h f xs" and "freer h g ys"
  shows "freer h (\<lambda>h. c_bind (f h) g) (ys @ xs)"
proof (rule freerI)
  fix h1
  assume ok: "heap_ok h1" and o: "owned h1 (ys @ xs)" and same: "\<And>x. x \<in> set (ys @ xs) \<Longrightarrow> hp h1 x = hp h x"
  have ox: "owned h1 xs" using o unfolding owned_append by blast
  have f: "frees h1 (f h1) xs" using assms(1) ok ox same by (simp add: freer_def)
  show "frees h1 (c_bind (f h1) g) (ys @ xs)"
    by (rule frees_bind [OF o f]) (use assms(2) same in \<open>simp add: freer_def\<close>)
qed

lemma freer_cong: "freer h f xs \<Longrightarrow> (\<And>h1. (\<And>x. x \<in> set xs \<Longrightarrow> hp h1 x = hp h x) \<Longrightarrow> g h1 = f h1) \<Longrightarrow> freer h g xs"
  by (simp add: freer_def)

lemma freer_perm: "freer h f xs \<Longrightarrow> mset xs = mset ys \<Longrightarrow> freer h f ys"
  using mset_eq_setD [of xs ys] mset_eq_imp_distinct_iff [of xs ys]
  by (simp add: freer_def frees_def owned_def moves_def)

section \<open>The contract of a destructor\<close>

text \<open>
  \<open>foot\<close> is the footprint of an object, \<open>ok\<close> that its pointers lead to blocks of the right kind;
  both look only at the footprint.
\<close>

locale destructor =
  fixes foot :: "heap \<Rightarrow> nat \<Rightarrow> nat list" and ok :: "heap \<Rightarrow> nat \<Rightarrow> bool"
    and destroy :: "nat \<Rightarrow> heap \<Rightarrow> heap c_result"
  assumes destroy_frees: "ok h a \<Longrightarrow> freer h (destroy a) (foot h a)"
    and local: "ok h a \<Longrightarrow> (\<And>x. x \<in> set (foot h a) \<Longrightarrow> hp h' x = hp h x) \<Longrightarrow> foot h' a = foot h a \<and> ok h' a"

text \<open>\<open>smf_list_free\<close>: the destroy function for every element, then the list.\<close>

definition get_list :: "heap \<Rightarrow> nat \<Rightarrow> nat list c_result" where
  "get_list h l = (case hp h l of Some (ListB xs) \<Rightarrow> Inr xs | _ \<Rightarrow> Inl DanglingRead)"

fun destroy_elements :: "(nat \<Rightarrow> heap \<Rightarrow> heap c_result) \<Rightarrow> nat list \<Rightarrow> heap \<Rightarrow> heap c_result" where
  "destroy_elements destroy [] h = Inr h"
| "destroy_elements destroy (x # xs) h = c_bind (destroy x h) (destroy_elements destroy xs)"

definition mem_list_free :: "(nat \<Rightarrow> heap \<Rightarrow> heap c_result) \<Rightarrow> nat \<Rightarrow> heap \<Rightarrow> heap c_result" where
  "mem_list_free destroy l h =
     c_bind (get_list h l) (\<lambda>xs. c_bind (destroy_elements destroy xs h) (m_free l))"

definition list_foot :: "(heap \<Rightarrow> nat \<Rightarrow> nat list) \<Rightarrow> heap \<Rightarrow> nat \<Rightarrow> nat list" where
  "list_foot foot h l =
     (case get_list h l of Inl e \<Rightarrow> [l] | Inr xs \<Rightarrow> l # concat (map (foot h) (rev xs)))"

definition list_ok :: "(heap \<Rightarrow> nat \<Rightarrow> bool) \<Rightarrow> heap \<Rightarrow> nat \<Rightarrow> bool" where
  "list_ok ok h l = (case get_list h l of Inl e \<Rightarrow> False | Inr xs \<Rightarrow> list_all (ok h) xs)"

lemma list_okD: "list_ok ok h l \<Longrightarrow> \<exists>xs. get_list h l = Inr xs \<and> list_all (ok h) xs"
  by (auto simp: list_ok_def split: sum.splits)

lemma get_list_local: "hp h' l = hp h l \<Longrightarrow> get_list h' l = get_list h l"
  by (simp add: get_list_def)

context destructor
begin

lemma elements_free:
  "list_all (ok h) xs \<Longrightarrow> freer h (destroy_elements destroy xs) (concat (map (foot h) (rev xs)))"
proof (induction xs)
  case Nil
  then show ?case by (simp add: freer_def frees_nil)
next
  case (Cons x xs)
  then have "freer h (\<lambda>h. c_bind (destroy x h) (destroy_elements destroy xs)) (concat (map (foot h) (rev xs)) @ foot h x)"
    by (intro freer_seq destroy_frees) simp_all
  then show ?case by simp
qed

lemma list_frees:
  assumes "list_ok ok h l"
  shows "freer h (mem_list_free destroy l) (list_foot foot h l)"
proof -
  obtain xs where xs: "get_list h l = Inr xs" "list_all (ok h) xs" using list_okD [OF assms] by blast
  have "freer h (\<lambda>h. c_bind (destroy_elements destroy xs h) (m_free l)) ([l] @ concat (map (foot h) (rev xs)))"
    by (rule freer_seq [OF elements_free [OF xs(2)] freer_block])
  then have "freer h (mem_list_free destroy l) ([l] @ concat (map (foot h) (rev xs)))"
    by (rule freer_cong) (use xs(1) in \<open>simp add: mem_list_free_def get_list_def\<close>)
  with xs(1) show ?thesis by (simp add: list_foot_def)
qed

lemma list_local:
  assumes "list_ok ok h l" and "\<And>x. x \<in> set (list_foot foot h l) \<Longrightarrow> hp h' x = hp h x"
  shows "list_foot foot h' l = list_foot foot h l \<and> list_ok ok h' l"
proof -
  obtain xs where xs: "get_list h l = Inr xs" "list_all (ok h) xs" using list_okD [OF assms(1)] by blast
  have l: "get_list h' l = Inr xs" using get_list_local [of h' l h] assms(2) [of l] xs(1) by (simp add: list_foot_def)
  have "foot h' y = foot h y \<and> ok h' y" if "y \<in> set xs" for y
  proof (rule local)
    show "ok h y" using xs(2) that by (simp add: list_all_iff)
    show "hp h' z = hp h z" if "z \<in> set (foot h y)" for z
      using assms(2) [of z] that \<open>y \<in> set xs\<close> xs(1) by (auto simp: list_foot_def)
  qed
  then have feet: "map (foot h') (rev xs) = map (foot h) (rev xs)" and "list_all (ok h') xs"
    by (auto simp: list_all_iff)
  with l xs show ?thesis by (simp add: list_foot_def list_ok_def feet del: map_eq_conv)
qed

end

section \<open>Strings and messages\<close>

definition smf_internal_string_list_destroy :: "nat \<Rightarrow> heap \<Rightarrow> heap c_result" where
  "smf_internal_string_list_destroy data h = m_free data h"

text \<open>\<open>smf_message_free\<close>: the message of the library is one block.\<close>

definition smf_message_free :: "nat option \<Rightarrow> heap \<Rightarrow> heap c_result" where
  "smf_message_free message h = c_bind (m_assert message) (\<lambda>m. m_free m h)"

definition is_string :: "heap \<Rightarrow> nat \<Rightarrow> bool" where
  "is_string h a = (case hp h a of Some (StrB s) \<Rightarrow> True | _ \<Rightarrow> False)"

lemma is_string_present: "is_string h a \<Longrightarrow> hp h a \<noteq> None"
  by (cases "hp h a") (simp_all add: is_string_def)

definition is_message :: "heap \<Rightarrow> nat \<Rightarrow> bool" where
  "is_message h a = (case hp h a of Some (MsgB m) \<Rightarrow> True | _ \<Rightarrow> False)"

definition one_block :: "heap \<Rightarrow> nat \<Rightarrow> nat list" where
  "one_block h a = [a]"

lemma one_block_simp [simp]: "one_block h a = [a]"
  by (simp add: one_block_def)

lemma one_blocks [simp]: "concat (map (one_block h) xs) = xs"
  by (induction xs) simp_all

interpretation string_element: destructor one_block is_string smf_internal_string_list_destroy
  by unfold_locales (simp_all add: smf_internal_string_list_destroy_def freer_def frees_block is_string_def)

section \<open>Dictionaries\<close>

definition get_dict :: "heap \<Rightarrow> nat \<Rightarrow> dict_block c_result" where
  "get_dict h d = (case hp h d of Some (DictB b) \<Rightarrow> Inr b | _ \<Rightarrow> Inl DanglingRead)"

definition get_ptrs :: "heap \<Rightarrow> nat \<Rightarrow> nat option list c_result" where
  "get_ptrs h a = (case hp h a of Some (PtrsB ps) \<Rightarrow> Inr ps | _ \<Rightarrow> Inl DanglingRead)"

text \<open>The loop of \<open>smf_dict_free\<close> over the slots.\<close>

fun free_slots :: "nat \<Rightarrow> nat option list \<Rightarrow> nat option list \<Rightarrow> heap \<Rightarrow> heap c_result" where
  "free_slots 0 ks vs h = Inr h"
| "free_slots (Suc n) (k # ks) (v # vs) h =
     c_bind (m_free_opt k h) (\<lambda>h1. c_bind (m_free_opt v h1) (free_slots n ks vs))"
| "free_slots (Suc n) _ _ h = Inl OutOfBounds"

definition smf_dict_free :: "nat option \<Rightarrow> heap \<Rightarrow> heap c_result" where
  "smf_dict_free dict h =
     c_bind (m_assert dict) (\<lambda>d. c_bind (get_dict h d) (\<lambda>b.
     c_bind (get_ptrs h (db_key b)) (\<lambda>ks. c_bind (get_ptrs h (db_val b)) (\<lambda>vs.
     c_bind (free_slots (db_size b) ks vs h) (\<lambda>h1.
     c_bind (m_free (db_val b) h1) (\<lambda>h2. c_bind (m_free (db_key b) h2) (\<lambda>h3.
     c_bind (m_free (db_hash b) h3) (m_free d))))))))"

fun slots_foot :: "nat option list \<Rightarrow> nat option list \<Rightarrow> nat list" where
  "slots_foot (k # ks) (v # vs) = slots_foot ks vs @ opt_list v @ opt_list k"
| "slots_foot _ _ = []"

definition dict_foot :: "heap \<Rightarrow> nat \<Rightarrow> nat list" where
  "dict_foot h d =
     (case get_dict h d of
        Inl e \<Rightarrow> [d]
      | Inr b \<Rightarrow>
          (case (get_ptrs h (db_key b), get_ptrs h (db_val b)) of
             (Inr ks, Inr vs) \<Rightarrow> [d, db_hash b, db_key b, db_val b] @ slots_foot ks vs
           | _ \<Rightarrow> [d, db_hash b, db_key b, db_val b]))"

definition mem_dict_ok :: "heap \<Rightarrow> nat \<Rightarrow> bool" where
  "mem_dict_ok h d =
     (case get_dict h d of
        Inl e \<Rightarrow> False
      | Inr b \<Rightarrow>
          (case (get_ptrs h (db_key b), get_ptrs h (db_val b)) of
             (Inr ks, Inr vs) \<Rightarrow> length ks = db_size b \<and> length vs = db_size b
           | _ \<Rightarrow> False))"

lemma slots_free:
  "length ks = n \<Longrightarrow> length vs = n \<Longrightarrow> freer h (free_slots n ks vs) (slots_foot ks vs)"
proof (induction n ks vs h rule: free_slots.induct)
  case (2 n k ks v vs h)
  then have "freer h (\<lambda>h. c_bind (m_free_opt k h) (\<lambda>h. c_bind (m_free_opt v h) (free_slots n ks vs)))
      ((slots_foot ks vs @ opt_list v) @ opt_list k)"
    by (intro freer_seq freer_opt) simp_all
  then show ?case by simp
qed (auto simp: freer_def frees_nil)

lemma mem_dict_okD:
  assumes "mem_dict_ok h d"
  shows "\<exists>b ks vs. get_dict h d = Inr b \<and> get_ptrs h (db_key b) = Inr ks \<and> get_ptrs h (db_val b) = Inr vs \<and>
    length ks = db_size b \<and> length vs = db_size b"
  using assms by (auto simp: mem_dict_ok_def split: sum.splits)

lemma dict_frees:
  assumes "mem_dict_ok h d"
  shows "freer h (smf_dict_free (Some d)) (dict_foot h d)"
proof -
  obtain b ks vs where b: "get_dict h d = Inr b" "get_ptrs h (db_key b) = Inr ks" "get_ptrs h (db_val b) = Inr vs"
    "length ks = db_size b" "length vs = db_size b"
    using mem_dict_okD [OF assms(1)] by blast
  have foot: "dict_foot h d = (([d] @ [db_hash b]) @ [db_key b]) @ [db_val b] @ slots_foot ks vs"
    using b by (simp add: dict_foot_def)
  show ?thesis
  proof (rule freer_cong)
    show "freer h (\<lambda>h. c_bind (free_slots (db_size b) ks vs h) (\<lambda>h. c_bind (m_free (db_val b) h)
        (\<lambda>h. c_bind (m_free (db_key b) h) (\<lambda>h. c_bind (m_free (db_hash b) h) (m_free d))))) (dict_foot h d)"
      unfolding foot append_assoc [symmetric] by (intro freer_seq freer_block slots_free b(4,5))
    fix h1 :: heap
    assume same: "\<And>x. x \<in> set (dict_foot h d) \<Longrightarrow> hp h1 x = hp h x"
    have "get_dict h1 d = Inr b" "get_ptrs h1 (db_key b) = Inr ks" "get_ptrs h1 (db_val b) = Inr vs"
      using b same [of d] same [of "db_key b"] same [of "db_val b"] by (simp_all add: foot get_dict_def get_ptrs_def)
    then show "smf_dict_free (Some d) h1 = c_bind (free_slots (db_size b) ks vs h1) (\<lambda>h. c_bind (m_free (db_val b) h)
        (\<lambda>h. c_bind (m_free (db_key b) h) (\<lambda>h. c_bind (m_free (db_hash b) h) (m_free d))))"
      by (simp add: smf_dict_free_def)
  qed
qed

lemma dict_local:
  assumes "mem_dict_ok h d" and "\<And>x. x \<in> set (dict_foot h d) \<Longrightarrow> hp h' x = hp h x"
  shows "dict_foot h' d = dict_foot h d \<and> mem_dict_ok h' d"
proof -
  obtain b ks vs where b: "get_dict h d = Inr b" "get_ptrs h (db_key b) = Inr ks" "get_ptrs h (db_val b) = Inr vs"
    "length ks = db_size b" "length vs = db_size b"
    using mem_dict_okD [OF assms(1)] by blast
  have "hp h' d = hp h d" "hp h' (db_key b) = hp h (db_key b)" "hp h' (db_val b) = hp h (db_val b)"
    using assms(2) b by (auto simp: dict_foot_def)
  then have "get_dict h' d = Inr b" "get_ptrs h' (db_key b) = Inr ks" "get_ptrs h' (db_val b) = Inr vs"
    using b by (simp_all add: get_dict_def get_ptrs_def)
  with b show ?thesis by (simp add: dict_foot_def mem_dict_ok_def)
qed

definition smf_internal_dict_list_destroy :: "nat \<Rightarrow> heap \<Rightarrow> heap c_result" where
  "smf_internal_dict_list_destroy data h = smf_dict_free (Some data) h"

lemma dict_destroy_eq: "smf_internal_dict_list_destroy d = smf_dict_free (Some d)"
  by (rule ext) (simp add: smf_internal_dict_list_destroy_def)

interpretation dict_element: destructor dict_foot mem_dict_ok smf_internal_dict_list_destroy
  unfolding dict_destroy_eq by unfold_locales (rule dict_frees, assumption, rule dict_local)

section \<open>User data\<close>

definition get_user :: "heap \<Rightarrow> nat \<Rightarrow> user_block c_result" where
  "get_user h u = (case hp h u of Some (UserB b) \<Rightarrow> Inr b | _ \<Rightarrow> Inl DanglingRead)"

definition smf_internal_user_data_list_destroy :: "nat \<Rightarrow> heap \<Rightarrow> heap c_result" where
  "smf_internal_user_data_list_destroy data h =
     c_bind (get_user h data) (\<lambda>b. c_bind (m_free_opt (ub_email b) h) (\<lambda>h1.
     c_bind (smf_dict_free (Some (ub_data b)) h1) (m_free data)))"

definition user_foot :: "heap \<Rightarrow> nat \<Rightarrow> nat list" where
  "user_foot h u =
     (case get_user h u of
        Inl e \<Rightarrow> [u] | Inr b \<Rightarrow> [u] @ dict_foot h (ub_data b) @ opt_list (ub_email b))"

definition user_ok :: "heap \<Rightarrow> nat \<Rightarrow> bool" where
  "user_ok h u =
     (case get_user h u of
        Inl e \<Rightarrow> False
      | Inr b \<Rightarrow> mem_dict_ok h (ub_data b) \<and> list_all (is_string h) (opt_list (ub_email b)))"

lemma user_okD:
  "user_ok h u \<Longrightarrow> \<exists>b. get_user h u = Inr b \<and> mem_dict_ok h (ub_data b) \<and> list_all (is_string h) (opt_list (ub_email b))"
  by (auto simp: user_ok_def split: sum.splits)

lemma user_frees:
  assumes "user_ok h u"
  shows "freer h (smf_internal_user_data_list_destroy u) (user_foot h u)"
proof -
  obtain b where b: "get_user h u = Inr b" "mem_dict_ok h (ub_data b)" using user_okD [OF assms] by blast
  have foot: "user_foot h u = ([u] @ dict_foot h (ub_data b)) @ opt_list (ub_email b)" using b by (simp add: user_foot_def)
  have "freer h (\<lambda>h. c_bind (m_free_opt (ub_email b) h) (\<lambda>h. c_bind (smf_dict_free (Some (ub_data b)) h) (m_free u)))
      (user_foot h u)"
    unfolding foot by (intro freer_seq freer_opt freer_block dict_frees b(2))
  then show ?thesis
    by (rule freer_cong) (use b(1) in \<open>simp add: smf_internal_user_data_list_destroy_def get_user_def foot\<close>)
qed

lemma is_string_same: "hp h' x = hp h x \<Longrightarrow> is_string h' x = is_string h x"
  by (simp add: is_string_def)

lemma user_local:
  assumes "user_ok h u" and "\<And>x. x \<in> set (user_foot h u) \<Longrightarrow> hp h' x = hp h x"
  shows "user_foot h' u = user_foot h u \<and> user_ok h' u"
proof -
  obtain b where b: "get_user h u = Inr b" "mem_dict_ok h (ub_data b)" "list_all (is_string h) (opt_list (ub_email b))"
    using user_okD [OF assms(1)] by blast
  have same: "\<And>x. x \<in> set ([u] @ dict_foot h (ub_data b) @ opt_list (ub_email b)) \<Longrightarrow> hp h' x = hp h x"
    using assms(2) b by (simp add: user_foot_def)
  have "get_user h' u = Inr b" using b(1) same [of u] by (simp add: get_user_def)
  moreover have "dict_foot h' (ub_data b) = dict_foot h (ub_data b) \<and> mem_dict_ok h' (ub_data b)"
    by (rule dict_local [OF b(2)]) (simp add: same)
  moreover have "list_all (is_string h') (opt_list (ub_email b))"
    using b(3) same is_string_same [of h' _ h] by (auto simp: list_all_iff)
  ultimately show ?thesis using b by (simp add: user_foot_def user_ok_def)
qed

interpretation user_element: destructor user_foot user_ok smf_internal_user_data_list_destroy
  by unfold_locales (rule user_frees, assumption, rule user_local)

end
