(* ===== verification/Smf_Expand.thy ===== *)
theory Smf_Expand
  imports Smf_Core Smf_Destroy
begin

text \<open>
  The string functions of \<open>smf_core.c\<close> with their memory: the buffer that \<open>smf_core_expand_string\<close> edits
  in place, byte by byte with its end, and the array of pieces of \<open>smf_core_strsplit\<close> on the heap, with
  \<open>smf_core_strsplit_free\<close>.
\<close>

section \<open>A block of bytes\<close>

text \<open>
  A block is the list of its bytes.  \<open>strlen\<close> and the source of \<open>memmove\<close> must not leave it, nor must what
  is written.  What \<open>realloc\<close> adds is not initialised (\<open>junk\<close>).
\<close>

definition buf_strlen :: "string \<Rightarrow> nat \<Rightarrow> nat c_result" where
  "buf_strlen b i =
     (if List.member (drop i b) NUL then Inr (length (takeWhile (\<lambda>c. c \<noteq> NUL) (drop i b))) else Inl OutOfBounds)"

definition buf_realloc :: "char \<Rightarrow> nat \<Rightarrow> string \<Rightarrow> string" where
  "buf_realloc junk n b = take n b @ replicate (n - length b) junk"

definition buf_move :: "nat \<Rightarrow> nat \<Rightarrow> nat \<Rightarrow> string \<Rightarrow> string c_result" where
  "buf_move dst src n b =
     (if length b < src + n then Inl OutOfBounds
      else if length b < dst + n then Inl BufferOverflow
      else Inr (take dst b @ take n (drop src b) @ drop (dst + n) b))"

definition buf_copy :: "nat \<Rightarrow> string \<Rightarrow> string \<Rightarrow> string c_result" where
  "buf_copy dst s b =
     (if length b < dst + length s then Inl BufferOverflow
      else Inr (take dst b @ s @ drop (dst + length s) b))"

section \<open>Expanding a template in its buffer\<close>

text \<open>A conversion at \<open>offs\<close>: the new size, then the rest is moved, then the text is put in.\<close>

definition buf_insert :: "char \<Rightarrow> string \<Rightarrow> nat \<Rightarrow> string \<Rightarrow> string c_result" where
  "buf_insert junk b offs ins =
     (let b1 = buf_realloc junk (length b + length ins - 2) b
      in c_bind (buf_strlen b1 (offs + 2)) (\<lambda>n.
         c_bind (buf_move (offs + length ins) (offs + 2) (n + 1) b1) (buf_copy offs ins)))"

lemma buf_realloc_length: "length (buf_realloc junk n b) = n"
  by (simp add: buf_realloc_def)

lemma buf_move_length: "buf_move dst src n b = Inr b' \<Longrightarrow> length b' = length b"
  by (auto simp: buf_move_def split: if_splits)

lemma buf_copy_length: "buf_copy dst s b = Inr b' \<Longrightarrow> length b' = length b"
  by (auto simp: buf_copy_def split: if_splits)

lemma c_bind_Inr_iff: "c_bind r f = Inr y \<longleftrightarrow> (\<exists>x. r = Inr x \<and> f x = Inr y)"
  by (cases r) simp_all

lemma buf_insert_length: "buf_insert junk b offs ins = Inr b' \<Longrightarrow> length b' = length b + length ins - 2"
  unfolding buf_insert_def Let_def c_bind_Inr_iff
  by (elim exE conjE) (simp add: buf_realloc_length buf_move_length buf_copy_length)

function buffer_loop :: "string \<Rightarrow> string list \<Rightarrow> char \<Rightarrow> string \<Rightarrow> nat \<Rightarrow> nat \<Rightarrow> string expansion c_result" where
  "buffer_loop addr parts junk b offs rep =
     (if length b \<le> offs then Inl OutOfBounds
      else if b ! offs = NUL then Inr (Expanded b rep)
      else if b ! offs = CHR ''%'' then
        (if length b \<le> offs + 1 then Inl OutOfBounds
         else (case expand_insert addr parts (b ! (offs + 1)) of
           Inl err \<Rightarrow> Inr (BadFormat err)
         | Inr ins \<Rightarrow>
             (case buf_insert junk b offs ins of
                Inl fault \<Rightarrow> Inl fault
              | Inr b' \<Rightarrow> buffer_loop addr parts junk b' (offs + length ins) (Suc rep))))
      else buffer_loop addr parts junk b (Suc offs) rep)"
  by pat_completeness auto
termination
  by (relation "measure (\<lambda>(addr, parts, junk, b, offs, rep). length b - offs)") (use buf_insert_length in fastforce)+

declare buffer_loop.simps [simp del]

text \<open>\<open>*buf\<close> is the whole block, its terminating NUL included.\<close>

definition expand_in_buffer :: "char \<Rightarrow> string \<Rightarrow> string \<Rightarrow> string expansion c_result" where
  "expand_in_buffer junk format addr =
     buffer_loop addr (fst (smf_core_strsplit addr ''@'')) junk (format @ [NUL]) 0 0"

text \<open>The loop comes to a conversion whose text is shorter than the conversion.\<close>

fun shrinks :: "string \<Rightarrow> string \<Rightarrow> bool" where
  "shrinks addr [] = False"
| "shrinks addr [c] = False"
| "shrinks addr (c # d # r) =
     (if c = CHR ''%'' then
        (case conversion addr d of Inl e \<Rightarrow> False | Inr s \<Rightarrow> length s < 2 \<or> shrinks addr r)
      else shrinks addr (d # r))"

lemma strlen_end: "NUL \<notin> set r \<Longrightarrow> buf_strlen (p @ r @ NUL # x) (length p) = Inr (length r)"
  by (simp add: buf_strlen_def takeWhile_tail)

text \<open>A short text: the block is cut before its rest is read.\<close>

lemma insert_short:
  assumes "length ins < 2" and "NUL \<notin> set r"
  shows "buf_insert junk (out @ c # d # r @ [NUL]) (length out) ins = Inl OutOfBounds"
proof -
  let ?b = "(out @ [c, d]) @ r @ [NUL]"
  let ?n = "length ?b + length ins - 2"
  have n: "?n - length (out @ [c, d]) = length r + length ins - 1" "?n - length ?b = 0" using assms(1) by simp_all
  have "drop (length (out @ [c, d])) (buf_realloc junk ?n ?b) = take (length r + length ins - 1) (r @ [NUL])"
    unfolding buf_realloc_def n(2) by (simp only: replicate_0 append_Nil2 drop_take n(1) append_eq_conv_conj drop_append) simp
  also have "\<dots> = take (length r + length ins - 1) r" using assms(1) by simp
  finally have "drop (length out + 2) (buf_realloc junk ?n ?b) = take (length r + length ins - 1) r" by simp
  moreover have "NUL \<notin> set (take (length r + length ins - 1) r)" using assms(2) by (meson in_set_takeD)
  ultimately have "buf_strlen (buf_realloc junk ?n ?b) (length out + 2) = Inl OutOfBounds"
    by (simp add: buf_strlen_def)
  then show ?thesis by (simp add: buf_insert_def Let_def)
qed

lemma insert_long:
  assumes "2 \<le> length ins" and "NUL \<notin> set r"
  shows "buf_insert junk (out @ c # d # r @ [NUL]) (length out) ins = Inr (out @ ins @ r @ [NUL])"
proof -
  let ?b = "(out @ [c, d]) @ r @ [NUL]"
  let ?more = "replicate (length ins - 2) junk"
  let ?b1 = "(out @ [c, d]) @ r @ NUL # ?more"
  have b1: "buf_realloc junk (length ?b + length ins - 2) ?b = ?b1"
    using assms(1) by (simp add: buf_realloc_def)
  have len: "buf_strlen ?b1 (length out + 2) = Inr (length r)"
    using strlen_end [OF assms(2), of "out @ [c, d]" ?more] by simp
  have size1: "length ?b1 = length out + length ins + (length r + 1)" using assms(1) by simp
  let ?m = "take (length ins) ([c, d] @ r @ NUL # ?more)"
  have m: "length ?m = length ins" "take (length out + length ins) ?b1 = out @ ?m" using assms(1) by simp_all
  have rest: "take (length r + 1) (drop (length out + 2) ?b1) = r @ [NUL]" by simp
  have move: "buf_move (length out + length ins) (length out + 2) (length r + 1) ?b1 = Inr (out @ ?m @ r @ [NUL])"
    unfolding buf_move_def m(2) rest using assms(1) by (simp add: size1)
  have copy: "buf_copy (length out) ins (out @ ?m @ r @ [NUL]) = Inr (out @ ins @ r @ [NUL])"
    using m(1) by (simp add: buf_copy_def)
  have "buf_insert junk ?b (length out) ins = Inr (out @ ins @ r @ [NUL])"
    unfolding buf_insert_def Let_def b1 len c_bind_simps move copy ..
  then show ?thesis by simp
qed

text \<open>The loop from any offset: what is left of the template is \<open>r\<close>.\<close>

lemma buffer_loop_right:
  assumes "NUL \<notin> set r"
  shows "buffer_loop addr (fst (smf_core_strsplit addr ''@'')) junk (out @ r @ [NUL]) (length out) rep =
    (if shrinks addr r then Inl OutOfBounds
     else Inr (map_expansion (\<lambda>s. s @ [NUL]) (prepend out rep (expand_spec addr r))))"
  using assms
proof (induction addr r arbitrary: out rep rule: expand_spec.induct)
  case (1 addr)
  then show ?case by (subst buffer_loop.simps) simp
next
  case (2 addr c)
  show ?case
  proof (cases "c = CHR ''%''")
    case True
    then show ?thesis
      by (subst buffer_loop.simps) (simp add: nth_append expand_insert_def)
  next
    case False
    have "buffer_loop addr (fst (smf_core_strsplit addr ''@'')) junk (out @ [c] @ [NUL]) (length out) rep =
        buffer_loop addr (fst (smf_core_strsplit addr ''@'')) junk ((out @ [c]) @ [NUL]) (length (out @ [c])) rep"
      using False 2(1) by (subst buffer_loop.simps) simp
    also have "\<dots> = Inr (Expanded ((out @ [c]) @ [NUL]) rep)"
      by (subst buffer_loop.simps) (simp add: nth_append)
    finally show ?thesis using False by simp
  qed
next
  case (3 addr c d r)
  let ?loop = "buffer_loop addr (fst (smf_core_strsplit addr ''@'')) junk"
  show ?case
  proof (cases "c = CHR ''%''")
    case True
    show ?thesis
    proof (cases "conversion addr d")
      case (Inl e)
      then show ?thesis using True
        by (subst buffer_loop.simps) (simp add: expand_insert_conversion nth_append)
    next
      case (Inr s)
      have r: "NUL \<notin> set r" using "3.prems" by simp
      have step: "?loop (out @ (c # d # r) @ [NUL]) (length out) rep =
          (case buf_insert junk (out @ c # d # r @ [NUL]) (length out) s of
             Inl fault \<Rightarrow> Inl fault | Inr b \<Rightarrow> ?loop b (length out + length s) (Suc rep))"
        using True Inr by (subst buffer_loop.simps) (simp add: expand_insert_conversion nth_append)
      show ?thesis
      proof (cases "length s < 2")
        case short: True
        then show ?thesis unfolding step insert_short [OF short r] using True Inr by simp
      next
        case False
        then have long: "2 \<le> length s" by simp
        from "3.IH"(1) [OF True Inr r, of "out @ s" "Suc rep"] show ?thesis
          unfolding step insert_long [OF long r] using True Inr False by (simp add: prepend_prepend)
      qed
    qed
  next
    case False
    have "?loop (out @ (c # d # r) @ [NUL]) (length out) rep =
        ?loop ((out @ [c]) @ (d # r) @ [NUL]) (length (out @ [c])) rep"
      using False "3.prems" by (subst buffer_loop.simps) auto
    then show ?thesis using "3.IH"(2) [OF False, of "out @ [c]" rep] "3.prems" False by (simp add: prepend_prepend)
  qed
qed

section \<open>Splitting a string on the heap\<close>

text \<open>\<open>realloc\<close> of an array of pointers: \<open>NULL\<close> is an empty one; the old block is given up.\<close>

definition realloc_ptrs :: "nat option \<Rightarrow> nat \<Rightarrow> heap \<Rightarrow> (nat \<times> heap) c_result" where
  "realloc_ptrs p n h =
     c_bind (case p of None \<Rightarrow> Inr [] | Some a \<Rightarrow> get_ptrs h a) (\<lambda>vs.
       case m_alloc (PtrsB (take n vs @ replicate (n - length vs) None)) h of
         (q, h1) \<Rightarrow> c_bind (m_free_opt p h1) (\<lambda>h2. Inr (q, h2)))"

text \<open>The loop over the pieces \<open>strsep\<close> returns: the array grows, the piece is copied.\<close>

fun mem_split_loop :: "string list \<Rightarrow> nat option \<Rightarrow> nat \<Rightarrow> heap \<Rightarrow> (nat option \<times> nat \<times> heap) c_result" where
  "mem_split_loop [] sl cnt h = Inr (sl, cnt, h)"
| "mem_split_loop (tmp # ts) sl cnt h =
     c_bind (realloc_ptrs sl (cnt + 2) h) (\<lambda>(q, h1).
       case m_alloc (StrB tmp) h1 of (a, h2) \<Rightarrow>
         c_bind (get_ptrs h2 q) (\<lambda>vs.
           mem_split_loop ts (Some q) (cnt + 1) (m_put q (PtrsB (vs[cnt := Some a])) h2)))"

text \<open>\<open>smf_core_strsplit\<close> with its working copy \<open>tf\<close>; the result is the array and \<open>*nelems\<close>.\<close>

definition mem_strsplit :: "nat option \<Rightarrow> string \<Rightarrow> heap \<Rightarrow> (nat \<times> nat \<times> heap) c_result" where
  "mem_strsplit s sep h =
     c_bind (m_assert s) (\<lambda>s. c_bind (m_strdup s h) (\<lambda>(tf, h1). c_bind (m_string tf h1) (\<lambda>cp.
     c_bind (mem_split_loop (strsplit_loop sep (Some cp)) None 0 h1) (\<lambda>(sl, cnt, h2).
     c_bind (m_free tf h2) (\<lambda>h3.
       case sl of
         None \<Rightarrow> Inl NullDeref
       | Some q \<Rightarrow> c_bind (get_ptrs h3 q) (\<lambda>vs. Inr (q, cnt, m_put q (PtrsB (vs[cnt := None])) h3)))))))"

fun split_free_loop :: "nat option list \<Rightarrow> heap \<Rightarrow> heap c_result" where
  "split_free_loop [] h = Inl OutOfBounds"
| "split_free_loop (t # ts) h =
     (case t of None \<Rightarrow> Inr h | Some a \<Rightarrow> c_bind (m_free a h) (split_free_loop ts))"

definition smf_core_strsplit_free :: "nat \<Rightarrow> heap \<Rightarrow> heap c_result" where
  "smf_core_strsplit_free parts h =
     c_bind (get_ptrs h parts) (\<lambda>vs. c_bind (split_free_loop vs h) (m_free parts))"

text \<open>The array \<open>q\<close> ends with \<open>NULL\<close> and points to copies of the pieces \<open>ts\<close>.\<close>

definition pieces :: "heap \<Rightarrow> nat \<Rightarrow> nat list \<Rightarrow> string list \<Rightarrow> bool" where
  "pieces h q ps ts \<longleftrightarrow>
     hp h q = Some (PtrsB (map Some ps @ [None])) \<and> map (hp h) ps = map (\<lambda>t. Some (StrB t)) ts"

lemma pieces_same: "pieces h q ps ts \<Longrightarrow> (\<And>x. x \<in> set (q # ps) \<Longrightarrow> hp h' x = hp h x) \<Longrightarrow> pieces h' q ps ts"
  by (simp add: pieces_def cong: map_cong)

lemma free_loop_frees: "freer h (split_free_loop (map Some ps @ [None])) (rev ps)"
proof (induction ps)
  case Nil
  have "split_free_loop [None] = Inr" by (rule ext) simp
  then show ?case by (simp add: freer_nil)
next
  case (Cons p ps)
  have "split_free_loop (map Some (p # ps) @ [None]) = (\<lambda>h. c_bind (m_free p h) (split_free_loop (map Some ps @ [None])))"
    by (rule ext) simp
  then show ?case using freer_seq [OF freer_block Cons, of p] by simp
qed

lemma strsplit_frees:
  assumes "pieces h q ps ts"
  shows "freer h (smf_core_strsplit_free q) (q # rev ps)"
proof -
  have "freer h (\<lambda>h. c_bind (split_free_loop (map Some ps @ [None]) h) (m_free q)) ([q] @ rev ps)"
    by (rule freer_seq [OF free_loop_frees freer_block])
  then have "freer h (smf_core_strsplit_free q) ([q] @ rev ps)"
    by (rule freer_cong) (use assms in \<open>simp add: smf_core_strsplit_free_def get_ptrs_def pieces_def\<close>)
  then show ?thesis by simp
qed

text \<open>One piece more: the footprint grows by its copy, and the array has moved.\<close>

lemma free_from:
  assumes "heap_ok h" and "owned h (a # q # ps)"
  shows "\<exists>h'. m_free q h = Inr h' \<and> moves h h' (a # q # ps) (a # ps)"
proof -
  obtain h' where h': "m_free q h = Inr h'" "moves h h' [q] []"
    using free_moves [of h q] ownedD [OF assms(2), of q] assms(1) by auto
  have o: "owned h ((a # ps) @ [q])" by (rule owned_same [OF _ _ assms(2)]) (use owned_distinct [OF assms(2)] in auto)
  have "moves h h' (a # q # ps) (a # ps)"
    by (rule moves_same [OF moves_frame [OF h'(2) o]]) (use owned_distinct [OF assms(2)] in auto)
  with h'(1) show ?thesis by blast
qed

lemma realloc_right:
  assumes "heap_ok h" and "owned h (q # ps)" and "pieces h q ps ts"
  shows "\<exists>q' h'. realloc_ptrs (Some q) (length ps + 2) h = Inr (q', h') \<and> moves h h' (q # ps) (q' # ps) \<and>
    hp h' q' = Some (PtrsB (map Some ps @ [None, None])) \<and> map (hp h') ps = map (\<lambda>t. Some (StrB t)) ts"
proof -
  let ?b = "PtrsB (map Some ps @ [None, None])"
  obtain q' h1 where al: "m_alloc ?b h = (q', h1)" by fastforce
  note al1 = alloc_in [OF assms(1,2) al]
  obtain h2 where fr: "m_free q h1 = Inr h2" "moves h1 h2 (q' # q # ps) (q' # ps)"
    using free_from movesD(1,2) [OF al1(1)] by blast
  have m: "moves h h2 (q # ps) (q' # ps)" by (rule moves_trans [OF al1(1) fr(2)])
  have same: "hp h2 x = hp h1 x" if "x \<noteq> q" for x
    using fr(1) that by (auto simp: m_free_def split: if_splits)
  have q: "q \<notin> set ps" "q' \<noteq> q" using owned_distinct [OF assms(2)] al1(2) by auto
  have "hp h2 q' = Some ?b" using alloc_moves(2) [OF assms(1) al] same q(2) by simp
  moreover have "hp h2 p = hp h p" if "p \<in> set ps" for p
    using same [of p] al1(3) [of p] that q(1) by auto
  then have "map (hp h2) ps = map (hp h) ps" by simp
  then have "map (hp h2) ps = map (\<lambda>t. Some (StrB t)) ts" using assms(3) by (simp only: pieces_def)
  moreover have "realloc_ptrs (Some q) (length ps + 2) h = Inr (q', h2)"
    using assms(3) al fr(1) by (simp add: realloc_ptrs_def get_ptrs_def pieces_def m_free_opt_def)
  ultimately show ?thesis using m by blast
qed

text \<open>The same before the first piece, when there is no array yet.\<close>

definition so_far :: "heap \<Rightarrow> nat option \<Rightarrow> nat list \<Rightarrow> string list \<Rightarrow> bool" where
  "so_far h sl ps ts = (case sl of None \<Rightarrow> ps = [] \<and> ts = [] | Some q \<Rightarrow> pieces h q ps ts)"

lemma realloc_so_far:
  assumes "heap_ok h" and "owned h (opt_list sl @ ps)" and "so_far h sl ps ts"
  shows "\<exists>q' h'. realloc_ptrs sl (length ps + 2) h = Inr (q', h') \<and> moves h h' (opt_list sl @ ps) (q' # ps) \<and>
    hp h' q' = Some (PtrsB (map Some ps @ [None, None])) \<and> map (hp h') ps = map (\<lambda>t. Some (StrB t)) ts"
proof (cases sl)
  case None
  obtain q' h' where al: "m_alloc (PtrsB [None, None]) h = (q', h')" by fastforce
  from alloc_moves [OF assms(1) al] None assms(3) al show ?thesis
    by (simp add: so_far_def realloc_ptrs_def m_free_opt_def numeral_2_eq_2)
next
  case (Some q)
  then show ?thesis using realloc_right [of h q ps ts] assms by (simp add: so_far_def)
qed

lemma split_step:
  assumes "heap_ok h" and "owned h (opt_list sl @ ps)" and "so_far h sl ps ts"
  shows "\<exists>q a h'. mem_split_loop (tmp # tss) sl (length ps) h = mem_split_loop tss (Some q) (length (ps @ [a])) h' \<and>
    moves h h' (opt_list sl @ ps) (q # ps @ [a]) \<and> so_far h' (Some q) (ps @ [a]) (ts @ [tmp])"
proof -
  obtain q h1 where re: "realloc_ptrs sl (length ps + 2) h = Inr (q, h1)" "moves h h1 (opt_list sl @ ps) (q # ps)"
    "hp h1 q = Some (PtrsB (map Some ps @ [None, None]))" "map (hp h1) ps = map (\<lambda>t. Some (StrB t)) ts"
    using realloc_so_far [OF assms] by blast
  note h1 = movesD(1,2) [OF re(2)]
  obtain a h2 where al: "m_alloc (StrB tmp) h1 = (a, h2)" by fastforce
  note al2 = alloc_in [OF h1 al]
  let ?b = "PtrsB (map Some ps @ [Some a, None])"
  let ?h = "m_put q ?b h2"
  have d: "distinct (q # ps)" "a \<noteq> q" "a \<notin> set ps" using owned_distinct [OF h1(2)] al2(2) by auto
  note put = put_in(1) [OF movesD(1,2) [OF al2(1)], of q ?b]
  have "moves h ?h (opt_list sl @ ps) (a # q # ps)"
    by (rule moves_trans [OF re(2) moves_trans [OF al2(1) put]]) simp
  then have m: "moves h ?h (opt_list sl @ ps) (q # ps @ [a])"
    by (rule moves_same) (use d in auto)
  have at: "hp h2 q = Some (PtrsB (map Some ps @ [None, None]))" using al2(3) [of q] re(3) by simp
  have "hp ?h p = hp h1 p" if "p \<in> set ps" for p
    using that d al2(3) [of p] by (cases "p = q") auto
  then have "map (hp ?h) ps = map (hp h1) ps" by simp
  then have "map (hp ?h) ps = map (\<lambda>t. Some (StrB t)) ts" using re(4) by (simp only:)
  moreover have "hp ?h a = Some (StrB tmp)" using d(2) alloc_moves(2) [OF h1(1) al] by simp
  moreover have "hp ?h q = Some ?b" by (simp add: m_put_def)
  ultimately have "so_far ?h (Some q) (ps @ [a]) (ts @ [tmp])" by (simp add: so_far_def pieces_def)
  moreover have "mem_split_loop (tmp # tss) sl (length ps) h = mem_split_loop tss (Some q) (length (ps @ [a])) ?h"
    using re(1) al at by (simp add: get_ptrs_def list_update_append)
  ultimately show ?thesis using m by blast
qed

lemma split_loop_right:
  assumes "heap_ok h" and "owned h (opt_list sl @ ps)" and "so_far h sl ps ts"
  shows "\<exists>sl' ps' h'. mem_split_loop tss sl (length ps) h = Inr (sl', length ps', h') \<and>
    moves h h' (opt_list sl @ ps) (opt_list sl' @ ps') \<and> so_far h' sl' ps' (ts @ tss)"
  using assms
proof (induction tss arbitrary: sl ps ts h)
  case Nil
  then show ?case using moves_refl by auto
next
  case (Cons tmp tss)
  obtain q a h1 where st: "mem_split_loop (tmp # tss) sl (length ps) h = mem_split_loop tss (Some q) (length (ps @ [a])) h1"
    "moves h h1 (opt_list sl @ ps) (q # ps @ [a])" "so_far h1 (Some q) (ps @ [a]) (ts @ [tmp])"
    using split_step [OF Cons.prems] by blast
  have "owned h1 (opt_list (Some q) @ ps @ [a])" using movesD(2) [OF st(2)] by simp
  from Cons.IH [OF movesD(1) [OF st(2)] this st(3)]
  obtain sl' ps' h' where r: "mem_split_loop tss (Some q) (length (ps @ [a])) h1 = Inr (sl', length ps', h')"
    "moves h1 h' (q # ps @ [a]) (opt_list sl' @ ps')" "so_far h' sl' ps' (ts @ tmp # tss)" by auto
  from r(1,3) st(1) moves_trans [OF st(2) r(2)] show ?case by (intro exI conjI) auto
qed

text \<open>The whole function: a new array of the pieces, and nothing else is left or touched.\<close>

lemma strsplit_right:
  assumes "heap_ok h" and "hp h s = Some (StrB t)"
  shows "\<exists>q ps h'. mem_strsplit (Some s) sep h = Inr (q, snd (smf_core_strsplit t sep), h') \<and>
    moves h h' [] (q # ps) \<and> pieces h' q ps (fst (smf_core_strsplit t sep))"
proof -
  let ?ts = "strsplit_loop sep (Some t)"
  obtain tf h1 where al: "m_alloc (StrB t) h = (tf, h1)" by fastforce
  note al1 = alloc_moves [OF assms(1) al]
  have "owned h1 (opt_list None @ [])" by (simp add: owned_def)
  then obtain sl ps h2 where lo: "mem_split_loop ?ts None 0 h1 = Inr (sl, length ps, h2)"
    "moves h1 h2 [] (opt_list sl @ ps)" "so_far h2 sl ps ?ts"
    using split_loop_right [OF movesD(1) [OF al1(1)], of None "[]" "[]" ?ts] by (auto simp: so_far_def)
  obtain q where q: "sl = Some q" using lo(3) strsplit_loop_nonempty [of sep t]
    by (cases sl) (simp_all add: so_far_def del: strsplit_loop.simps)
  have o1: "owned h1 ([tf] @ [])" using movesD(2) [OF al1(1)] by simp
  have m2: "moves h1 h2 [tf] (tf # q # ps)" using moves_frame [OF lo(2) o1] q by simp
  have o2: "owned h2 ((q # ps) @ [tf])"
    by (rule owned_same [OF _ _ movesD(2) [OF m2]]) (use owned_distinct [OF movesD(2) [OF m2]] in auto)
  obtain h3 where fr: "m_free tf h2 = Inr h3" "moves h2 h3 [tf] []"
    using free_moves [OF movesD(1) [OF m2], of tf] ownedD [OF o2, of tf] by auto
  have "moves h2 h3 (tf # q # ps) (q # ps)"
    by (rule moves_same [OF moves_frame [OF fr(2) o2]]) (use owned_distinct [OF o2] in auto)
  then have m3: "moves h h3 [] (q # ps)" using moves_trans [OF al1(1) moves_trans [OF m2]] by blast
  have p3: "pieces h3 q ps ?ts"
    using lo(3) q moves_apart(3) [OF fr(2) o2] by (auto simp: so_far_def intro: pieces_same)
  let ?h = "m_put q (PtrsB (map Some ps @ [None])) h3"
  have m4: "moves h ?h [] (q # ps)"
    by (rule moves_trans [OF m3 put_in(1) [OF movesD(1,2) [OF m3]]]) simp
  have "hp ?h = hp h3" using p3 by (auto simp: m_put_def pieces_def)
  then have "pieces ?h q ps ?ts" using p3 by (simp add: pieces_def)
  moreover have "length ps = length ?ts" using p3 by (metis pieces_def length_map)
  moreover have "mem_strsplit (Some s) sep h = Inr (q, length ps, ?h)"
    using assms(2) al al1(2) lo(1) fr(1) q p3
    by (simp add: mem_strsplit_def m_strdup_def m_string_def pieces_def get_ptrs_def list_update_append
        del: strsplit_loop.simps)
  ultimately show ?thesis using m4 by (auto simp: smf_core_strsplit_def Let_def simp del: strsplit_loop.simps)
qed

text \<open>What was split and freed is gone, and the rest of the memory as it was.\<close>

lemma strsplit_freed:
  assumes "heap_ok h" and "hp h s = Some (StrB t)"
  shows "\<exists>q n h1 h2. mem_strsplit (Some s) sep h = Inr (q, n, h1) \<and> smf_core_strsplit_free q h1 = Inr h2 \<and> hp h2 = hp h"
proof -
  obtain q ps h1 where sp: "mem_strsplit (Some s) sep h = Inr (q, snd (smf_core_strsplit t sep), h1)"
    "moves h h1 [] (q # ps)" "pieces h1 q ps (fst (smf_core_strsplit t sep))"
    using strsplit_right [OF assms] by blast
  have "owned h1 (q # rev ps)"
    by (rule owned_same [OF _ _ movesD(2) [OF sp(2)]]) (use owned_distinct [OF movesD(2) [OF sp(2)]] in auto)
  then obtain h2 where fr: "smf_core_strsplit_free q h1 = Inr h2" "moves h1 h2 (q # rev ps) []"
    using freerD [OF strsplit_frees [OF sp(3)] movesD(1) [OF sp(2)]] by (auto simp: frees_def)
  have "moves h1 h2 (q # ps) []" by (rule moves_same [OF fr(2)]) auto
  with sp(1,2) fr(1) moves_none [OF moves_trans] show ?thesis by blast
qed

section \<open>Properties\<close>

text \<open>
  Claim C31.  \<open>smf_core_expand_string\<close> with its buffer, for templates as C has them: as long as every text
  that is put in has at least two bytes, the length of a conversion, no access leaves the block, and the
  result is that of the substitution by recursion on the template, in a block of exactly its length
  with its NUL; error codes are those of the recursion.  At the first shorter text (an address with one
  letter before the \<open>@\<close>, for \<open>%u\<close>) the block is shrunk first and its lost end is read.
\<close>

theorem smf_core_expand_buffer_bounds:
  assumes "NUL \<notin> set format"
  shows "expand_in_buffer junk format addr =
    (if shrinks addr format then Inl OutOfBounds
     else Inr (map_expansion (\<lambda>s. s @ [NUL]) (expand_spec addr format)))"
  using buffer_loop_right [OF assms, of addr junk "[]" 0] by (simp add: expand_in_buffer_def prepend_nil)

lemma smf_core_expand_buffer_bounds_witness:
  "expand_in_buffer (CHR ''?'') ''(uid=%u)'' ''ab@c'' = Inr (Expanded (''(uid=ab)'' @ [NUL]) 1) \<and>
   expand_in_buffer (CHR ''?'') ''(uid=%u)'' ''a@c'' = Inl OutOfBounds"
  using smf_core_expand_buffer_bounds [of "''(uid=%u)''" "CHR ''?''" "''ab@c''"]
    smf_core_expand_buffer_bounds [of "''(uid=%u)''" "CHR ''?''" "''a@c''"]
  by (simp add: conversion_def addr_user_def)

end
