(* ===== verification/Smf_Program.thy ===== *)
theory Smf_Program
  imports Smf_Start Smf_Handed
begin

text \<open>
  The whole program with the pipe engine, \<open>main.c\<close> and \<open>smf_pipe.c\<close> together: what the exit code tells
  the caller, from the options over the configuration, the modules and the next hop.
\<close>

section \<open>The pipe engine in its place\<close>

text \<open>The world is the one the engine starts in; the settings come back as the modules left them.\<close>

definition pipe_engine ::
  "platform \<Rightarrow> (nat \<Rightarrow> nat) \<Rightarrow> stdin \<Rightarrow> world \<Rightarrow> string \<Rightarrow> smf_settings \<Rightarrow> engine_end c_result" where
  "pipe_engine pf random inp w path s =
     map_sum id (\<lambda>(rc, st). EngineReturns rc (rs_settings st)) (smf_pipe_load pf random inp s w)"

lemma pipe_engine_Inr:
  "pipe_engine pf random inp w path s = Inr x \<longleftrightarrow>
     (\<exists>rc st. smf_pipe_load pf random inp s w = Inr (rc, st) \<and> x = EngineReturns rc (rs_settings st))"
  by (auto simp: pipe_engine_def map_sum_def split: sum.splits)

section \<open>Success of the engine\<close>

lemma pipe_success:
  assumes "smf_pipe_load pf random inp settings w = Inr (0, st)"
  shows "handed_on pf st \<and> \<not> in_error inp \<and>
    (\<exists>st0 st1 name. smf_modules_process pf pipe_queue st0 = Inr (0, st1) \<and> rs_settings st0 = settings \<and>
       ses_message_file (rs_session st0) = Some name \<and>
       map_option sp_data (w_files (rs_world st0) name) = Some (in_data inp))"
proof -
  let ?os = "pf_os pf"
  obtain gr name where gen: "smf_core_gen_queue_file (\<lambda>t. os_mkstemp ?os t (w_files w))
      (case s_queue_dir settings of None \<Rightarrow> ''(null)'' | Some d \<Rightarrow> d) (ses_id (smf_session_new random)) = (gr, name)"
    by fastforce
  note a = assms [unfolded smf_pipe_load_def Let_def gen fst_conv snd_conv]
  obtain w2 where w2: "fopen_write ?os name (if gr = 0 then put_file name [] w else w) = Some w2"
    by (cases "fopen_write ?os name (if gr = 0 then put_file name [] w else w)") (use a in simp_all)
  note a = a [unfolded w2 option.case]
  obtain spool where copy: "pipe_copy (in_data inp) (in_error inp) (file_fd ?os name []) = (True, spool)"
    by (cases "pipe_copy (in_data inp) (in_error inp) (file_fd ?os name [])") (use a in \<open>auto split: if_splits\<close>)
  have data: "fd_out spool = in_data inp" "\<not> in_error inp"
    using pipe_copy_honest [OF copy] by (simp_all add: file_fd_def)
  note a = a [unfolded copy prod.case data(1)]
  obtain m where m: "cm_from_file (pf_cm pf) (in_data inp) True = (0, m)"
    by (cases "cm_from_file (pf_cm pf) (in_data inp) True") (use a in \<open>auto split: if_splits\<close>)
  define st0 where "st0 = \<lparr>rs_settings = settings, rs_session = with_envelope (\<lambda>e. e\<lparr>env_message := Some m\<rparr>)
      ((smf_session_new random)\<lparr>ses_message_file := Some name\<rparr>), rs_world = put_file name (in_data inp) w2, rs_sent = []\<rparr>"
  obtain st1 n where run: "smf_modules_process pf pipe_queue st0 = Inr (0, st1)"
    and st: "st = st1\<lparr>rs_world := snd (sys_unlink ?os n (rs_world st1))\<rparr>"
    using a m by (auto simp: st0_def split: sum.splits prod.splits option.splits)
  have "handed_on pf st1"
    using process_success [OF run] nexthop_success by (auto simp: st0_def)
  then have "handed_on pf st" by (simp add: handed_on_world st)
  moreover have "rs_settings st0 = settings" "ses_message_file (rs_session st0) = Some name"
    "map_option sp_data (w_files (rs_world st0) name) = Some (in_data inp)"
    by (simp_all add: st0_def)
  ultimately show ?thesis using run data(2) by blast
qed

section \<open>Properties\<close>


text \<open>A configuration with a next hop; the message on the standard input reaches it.\<close>

definition ex_program :: main_env where
  "ex_program = ex_main\<lparr>
     me_read := (\<lambda>f. Some (''[global]'' @ [LF] @ ''engine=pipe'' @ [LF] @ ''nexthop=mx'' @ [LF] @ ''add_header=false'' @ [LF])),
     me_engine := pipe_engine (ex_pf\<lparr>pf_os := ex_os\<lparr>os_lstat := (\<lambda>n. Some False)\<rparr>\<rparr>) (\<lambda>i. 0)
       \<lparr>in_data = ''To: c'' @ crlf @ crlf @ ''hi'', in_error = False\<rparr> ex_world\<rparr>"

lemma ex_program_runs: "smf_main ex_program trace_init [] = Some (Inr 0)"
  by code_simp


end
