(* ===== verification/Smf_Owner.thy ===== *)
theory Smf_Owner
  imports Smf_Destroy
begin

text \<open>
  Envelope and session as the C code has them, structs of pointers on the heap (\<open>smf_envelope.c\<close>,
  \<open>smf_session.c\<close>): constructors, getters, setters and destructors.  The setters free the old
  string and copy the new one; the properties say that the operations act on the records of
  \<open>Smf_Session\<close> as the functions there do, and who gives which block back.
\<close>

section \<open>Replacing a string\<close>

text \<open>
  \<open>if (x->f != NULL) free (x->f); x->f = strdup (arg);\<close>, and its two variants: with
  \<open>smf_internal_strip_email_addr\<close>, whose result is copied once more, and with the prefix \<open>IPv6:\<close>.
\<close>

definition replace_string :: "nat option \<Rightarrow> nat \<Rightarrow> heap \<Rightarrow> (nat \<times> heap) c_result" where
  "replace_string old arg h = c_bind (m_free_opt old h) (m_strdup arg)"

definition replace_stripped :: "nat option \<Rightarrow> nat \<Rightarrow> heap \<Rightarrow> (nat \<times> heap) c_result" where
  "replace_stripped old arg h =
     c_bind (m_free_opt old h) (\<lambda>h1. c_bind (m_string arg h1) (\<lambda>s.
       case m_alloc (StrB (smf_internal_strip_email_addr s)) h1 of
         (t, h2) \<Rightarrow> c_bind (m_strdup t h2) (\<lambda>(a, h3). c_bind (m_free t h3) (\<lambda>h4. Inr (a, h4)))))"

definition xforward_value :: "string \<Rightarrow> string" where
  "xforward_value xfwd = (if strcasestr xfwd ''IPv6:'' \<noteq> None then drop 5 xfwd else xfwd)"

definition replace_xforward :: "nat option \<Rightarrow> nat \<Rightarrow> heap \<Rightarrow> (nat \<times> heap) c_result" where
  "replace_xforward old arg h =
     c_bind (m_free_opt old h) (\<lambda>h1. c_bind (m_string arg h1) (\<lambda>s. Inr (m_alloc (StrB (xforward_value s)) h1)))"

text \<open>
  The contract of such an action: the old block is gone, the new one holds the value \<open>g\<close> of the
  argument; an argument that is the old block itself is read after it was freed.
\<close>

locale string_action =
  fixes act :: "nat option \<Rightarrow> nat \<Rightarrow> heap \<Rightarrow> (nat \<times> heap) c_result" and g :: "string \<Rightarrow> string"
  assumes act_moves: "heap_ok h \<Longrightarrow> owned h (opt_list old) \<Longrightarrow> m_string p h = Inr s \<Longrightarrow> p \<notin> set (opt_list old) \<Longrightarrow>
      \<exists>a h'. act old p h = Inr (a, h') \<and> moves h h' (opt_list old) [a] \<and> hp h' a = Some (StrB (g s))"
    and act_alias: "hp h p \<noteq> None \<Longrightarrow> act (Some p) p h = Inl DanglingRead"

lemma free_opt_moves:
  assumes "heap_ok h" and "owned h (opt_list old)" and "m_string p h = Inr s" and "p \<notin> set (opt_list old)"
  shows "\<exists>h1. m_free_opt old h = Inr h1 \<and> moves h h1 (opt_list old) [] \<and> heap_ok h1 \<and> m_string p h1 = Inr s"
proof -
  obtain h1 where h1: "m_free_opt old h = Inr h1" "moves h h1 (opt_list old) []"
    using frees_opt [OF assms(1,2)] by (auto simp: frees_def)
  have "hp h1 p = hp h p" by (rule movesD(3) [OF h1(2) assms(4)]) simp
  with h1 movesD(1) [OF h1(2)] assms(3) show ?thesis by (auto simp: m_string_def)
qed

lemma free_alias: "hp h p \<noteq> None \<Longrightarrow> \<exists>h1. m_free_opt (Some p) h = Inr h1 \<and> m_string p h1 = Inl DanglingRead"
  by (auto simp: m_free_opt_def m_free_def m_string_def)

interpretation plain: string_action replace_string "\<lambda>s. s"
proof
  fix h old p s
  assume a: "heap_ok h" "owned h (opt_list old)" "m_string p h = Inr s" "p \<notin> set (opt_list old)"
  obtain h1 where h1: "m_free_opt old h = Inr h1" "moves h h1 (opt_list old) []" "heap_ok h1" "m_string p h1 = Inr s"
    using free_opt_moves [OF a] by blast
  obtain a' h2 where al: "m_alloc (StrB s) h1 = (a', h2)" by fastforce
  from h1 al alloc_moves [OF h1(3) al] show "\<exists>a h'. replace_string old p h = Inr (a, h') \<and>
      moves h h' (opt_list old) [a] \<and> hp h' a = Some (StrB s)"
    by (auto simp: replace_string_def m_strdup_def intro: moves_trans)
next
  show "replace_string (Some p) p h = Inl DanglingRead" if "hp h p \<noteq> None" for h p
    using free_alias [OF that] by (auto simp: replace_string_def m_strdup_def)
qed

interpretation xforward: string_action replace_xforward xforward_value
proof
  fix h old p s
  assume a: "heap_ok h" "owned h (opt_list old)" "m_string p h = Inr s" "p \<notin> set (opt_list old)"
  obtain h1 where h1: "m_free_opt old h = Inr h1" "moves h h1 (opt_list old) []" "heap_ok h1" "m_string p h1 = Inr s"
    using free_opt_moves [OF a] by blast
  obtain a' h2 where al: "m_alloc (StrB (xforward_value s)) h1 = (a', h2)" by fastforce
  from h1 al alloc_moves [OF h1(3) al] show "\<exists>a h'. replace_xforward old p h = Inr (a, h') \<and>
      moves h h' (opt_list old) [a] \<and> hp h' a = Some (StrB (xforward_value s))"
    by (auto simp: replace_xforward_def intro: moves_trans)
next
  show "replace_xforward (Some p) p h = Inl DanglingRead" if "hp h p \<noteq> None" for h p
    using free_alias [OF that] by (auto simp: replace_xforward_def)
qed

text \<open>A temporary block that is allocated, copied and freed leaves only the copy.\<close>

lemma copy_and_free:
  assumes "heap_ok h" and "m_alloc (StrB v) h = (t, h2)"
  shows "\<exists>a h3 h4. m_strdup t h2 = Inr (a, h3) \<and> m_free t h3 = Inr h4 \<and> moves h h4 [] [a] \<and> hp h4 a = Some (StrB v)"
proof -
  note t = alloc_moves [OF assms]
  have ok2: "heap_ok h2" by (rule movesD(1) [OF t(1)])
  obtain a h3 where al: "m_alloc (StrB v) h2 = (a, h3)" by fastforce
  note a = alloc_moves [OF ok2 al]
  have o2: "owned h2 ([t] @ [])" using movesD(2) [OF t(1)] by simp
  have m3: "moves h2 h3 [t] [t, a]" using moves_frame [OF a(1) o2] by simp
  have o3: "owned h3 ([a] @ [t])" by (rule owned_same [OF _ _ movesD(2) [OF m3]]) (use movesD(2) [OF m3] in \<open>auto simp: owned_def\<close>)
  then have ot: "owned h3 [t]" unfolding owned_append by blast
  obtain h4 where h4: "m_free t h3 = Inr h4" "moves h3 h4 [t] []"
    using frees_block [OF movesD(1) [OF m3] ot] by (auto simp: frees_def)
  have m4: "moves h3 h4 ([a] @ [t]) ([a] @ [])" by (rule moves_frame [OF h4(2) o3])
  have m3': "moves h2 h3 [t] ([a] @ [t])"
    by (rule moves_same [OF m3]) (use owned_distinct [OF o3] in auto)
  have "moves h h4 [] [a]" using moves_trans [OF moves_trans [OF t(1) m3'] m4] by simp
  moreover have "hp h4 a = Some (StrB v)"
    using moves_apart(3) [OF h4(2) o3, of a] a(2) by simp
  moreover have "m_strdup t h2 = Inr (a, h3)" using t(2) al by (simp add: m_strdup_def m_string_def)
  ultimately show ?thesis using h4(1) by blast
qed

interpretation stripped: string_action replace_stripped smf_internal_strip_email_addr
proof
  fix h old p s
  assume a: "heap_ok h" "owned h (opt_list old)" "m_string p h = Inr s" "p \<notin> set (opt_list old)"
  obtain h1 where h1: "m_free_opt old h = Inr h1" "moves h h1 (opt_list old) []" "heap_ok h1" "m_string p h1 = Inr s"
    using free_opt_moves [OF a] by blast
  obtain t h2 where t: "m_alloc (StrB (smf_internal_strip_email_addr s)) h1 = (t, h2)" by fastforce
  obtain b h3 h4 where c: "m_strdup t h2 = Inr (b, h3)" "m_free t h3 = Inr h4" "moves h1 h4 [] [b]"
      "hp h4 b = Some (StrB (smf_internal_strip_email_addr s))"
    using copy_and_free [OF h1(3) t] by blast
  with h1 t show "\<exists>a h'. replace_stripped old p h = Inr (a, h') \<and>
      moves h h' (opt_list old) [a] \<and> hp h' a = Some (StrB (smf_internal_strip_email_addr s))"
    by (auto simp: replace_stripped_def intro: moves_trans)
next
  show "replace_stripped (Some p) p h = Inl DanglingRead" if "hp h p \<noteq> None" for h p
    using free_alias [OF that] by (auto simp: replace_stripped_def)
qed

section \<open>A string field of a struct\<close>

text \<open>All setters of strings have this form; the struct is read, its field replaced, and stored.\<close>

definition set_string ::
  "(nat option \<Rightarrow> nat \<Rightarrow> heap \<Rightarrow> (nat \<times> heap) c_result) \<Rightarrow> (heap \<Rightarrow> nat \<Rightarrow> 'b c_result) \<Rightarrow> ('b \<Rightarrow> block) \<Rightarrow>
   ('b \<Rightarrow> nat option) \<Rightarrow> (nat \<Rightarrow> 'b \<Rightarrow> 'b) \<Rightarrow> nat option \<Rightarrow> nat option \<Rightarrow> heap \<Rightarrow> heap c_result" where
  "set_string act load wrap get put obj arg h =
     c_bind (m_assert obj) (\<lambda>r. c_bind (m_assert arg) (\<lambda>p. c_bind (load h r) (\<lambda>b.
     c_bind (act (get b) p h) (\<lambda>(a, h1). Inr (m_put r (wrap (put a b)) h1)))))"

text \<open>The footprint of a struct: itself, what its other pointers own, and its strings.\<close>

definition struct_foot ::
  "(heap \<Rightarrow> nat \<Rightarrow> 'b c_result) \<Rightarrow> ('b \<Rightarrow> nat list) \<Rightarrow> (heap \<Rightarrow> 'b \<Rightarrow> nat list) \<Rightarrow> heap \<Rightarrow> nat \<Rightarrow> nat list" where
  "struct_foot load strs rest h r =
     (case load h r of Inl e \<Rightarrow> [r] | Inr b \<Rightarrow> r # rest h b @ strs b)"

definition struct_ok ::
  "(heap \<Rightarrow> nat \<Rightarrow> 'b c_result) \<Rightarrow> ('b \<Rightarrow> nat list) \<Rightarrow> (heap \<Rightarrow> 'b \<Rightarrow> bool) \<Rightarrow> heap \<Rightarrow> nat \<Rightarrow> bool" where
  "struct_ok load strs rest_ok h r =
     (case load h r of Inl e \<Rightarrow> False | Inr b \<Rightarrow> list_all (is_string h) (strs b) \<and> rest_ok h b)"

lemma struct_okD:
  "struct_ok load strs rest_ok h r \<Longrightarrow> \<exists>b. load h r = Inr b \<and> list_all (is_string h) (strs b) \<and> rest_ok h b"
  by (auto simp: struct_ok_def split: sum.splits)

text \<open>
  The laws of a field: reading and writing the struct, and that replacing the field replaces one
  string of the struct and leaves the rest alone.
\<close>

locale string_field = string_action act g
  for act :: "nat option \<Rightarrow> nat \<Rightarrow> heap \<Rightarrow> (nat \<times> heap) c_result" and g :: "string \<Rightarrow> string" +
  fixes load :: "heap \<Rightarrow> nat \<Rightarrow> 'b c_result" and wrap :: "'b \<Rightarrow> block" and get :: "'b \<Rightarrow> nat option"
    and put :: "nat \<Rightarrow> 'b \<Rightarrow> 'b" and strs :: "'b \<Rightarrow> nat list" and others :: "'b \<Rightarrow> nat list"
    and rest :: "heap \<Rightarrow> 'b \<Rightarrow> nat list" and rest_ok :: "heap \<Rightarrow> 'b \<Rightarrow> bool"
  assumes load_wrap: "load h r = Inr b \<longleftrightarrow> hp h r = Some (wrap b)"
    and strs_get: "mset (strs b) = mset (opt_list (get b) @ others b)"
    and strs_put: "mset (strs (put a b)) = mset (a # others b)"
    and rest_put: "rest h (put a b) = rest h b" "rest_ok h (put a b) = rest_ok h b"
    and rest_local: "rest_ok h b \<Longrightarrow> (\<And>x. x \<in> set (rest h b) \<Longrightarrow> hp h' x = hp h x) \<Longrightarrow>
      rest h' b = rest h b \<and> rest_ok h' b"
begin

abbreviation "foot \<equiv> struct_foot load strs rest"
abbreviation "ok \<equiv> struct_ok load strs rest_ok"
abbreviation "setter \<equiv> set_string act load wrap get put"

lemma set_ok:
  assumes "heap_ok h" and "ok h r" and "owned h (foot h r)" and "m_string p h = Inr s" and "p \<notin> set (foot h r)"
  shows "\<exists>b a h'. load h r = Inr b \<and> setter (Some r) (Some p) h = Inr h' \<and> moves h h' (foot h r) (foot h' r) \<and>
    ok h' r \<and> load h' r = Inr (put a b) \<and> hp h' a = Some (StrB (g s)) \<and>
    (\<forall>x \<in> set (others b @ rest h b). hp h' x = hp h x)"
proof -
  obtain b where b: "load h r = Inr b" "list_all (is_string h) (strs b)" "rest_ok h b"
    using struct_okD [OF assms(2)] by blast
  define rs where "rs = r # rest h b @ others b"
  have foot: "foot h r = r # rest h b @ strs b" using b by (simp add: struct_foot_def)
  have perm: "mset (foot h r) = mset (rs @ opt_list (get b))" by (simp add: foot rs_def strs_get)
  have o: "owned h (rs @ opt_list (get b))"
    using owned_same [OF _ mset_eq_setD [OF perm] assms(3)] mset_eq_imp_distinct_iff [OF perm] owned_distinct [OF assms(3)]
    by simp
  then have oo: "owned h (opt_list (get b))" unfolding owned_append by blast
  have "p \<notin> set (opt_list (get b))" using assms(5) mset_eq_setD [OF perm] by simp
  from act_moves [OF assms(1) oo assms(4) this] obtain a h1 where
    a: "act (get b) p h = Inr (a, h1)" "moves h h1 (opt_list (get b)) [a]" "hp h1 a = Some (StrB (g s))" by blast
  define h' where "h' = m_put r (wrap (put a b)) h1"
  have m1: "moves h h1 (foot h r) (r # rest h b @ others b @ [a])"
    using moves_same [OF moves_frame [OF a(2) o] mset_eq_setD [OF perm], of "rs @ [a]"]
      owned_distinct [OF movesD(2) [OF moves_frame [OF a(2) o]]] by (simp add: rs_def)
  have o1: "owned h1 ((rest h b @ others b @ [a]) @ [r])"
    by (rule owned_same [OF _ _ movesD(2) [OF m1]]) (use owned_distinct [OF movesD(2) [OF m1]] in auto)
  have pr: "hp h1 r \<noteq> None" by (rule ownedD [OF o1]) simp
  note put = put_moves [OF movesD(1) [OF m1] pr, of "wrap (put a b)", folded h'_def]
  have other: "x \<noteq> r" if "x \<in> set (others b @ rest h b @ [a])" for x using that owned_distinct [OF o1] by auto
  have same: "hp h' x = hp h x" if "x \<in> set (others b @ rest h b)" for x
  proof -
    have "x \<in> set rs" using that by (auto simp: rs_def)
    from moves_apart(3) [OF a(2) o this] other [of x] that show ?thesis by (simp add: h'_def)
  qed
  have ha: "hp h' a = Some (StrB (g s))" using a(3) other [of a] by (simp add: h'_def)
  have load': "load h' r = Inr (put a b)" using put(2) by (simp add: load_wrap)
  have rest': "rest h' b = rest h b \<and> rest_ok h' b" by (rule rest_local [OF b(3)]) (simp add: same)
  have foot': "foot h' r = r # rest h b @ strs (put a b)" using load' rest' by (simp add: struct_foot_def rest_put)
  have perm': "mset (foot h' r) = mset ((rest h b @ others b @ [a]) @ [r])" by (simp add: foot' strs_put)
  have "moves h1 h' (r # rest h b @ others b @ [a]) (foot h' r)"
    by (rule moves_same [OF moves_frame [OF put(1) o1]])
      (use mset_eq_setD [OF perm'] mset_eq_imp_distinct_iff [OF perm'] owned_distinct [OF o1] in auto)
  with m1 have m: "moves h h' (foot h r) (foot h' r)" by (rule moves_trans)
  have "list_all (is_string h') (strs (put a b))"
  proof -
    have "set (strs (put a b)) = insert a (set (others b))" using mset_eq_setD [OF strs_put] by simp
    moreover have "is_string h' x" if "x \<in> set (others b)" for x
      using b(2) mset_eq_setD [OF strs_get, of b] that same [of x] by (simp add: list_all_iff is_string_def)
    ultimately show ?thesis using ha by (simp add: list_all_iff is_string_def)
  qed
  then have "ok h' r" using load' rest' by (simp add: struct_ok_def rest_put)
  moreover have "setter (Some r) (Some p) h = Inr h'" using b(1) a(1) by (simp add: set_string_def h'_def)
  ultimately show ?thesis using b(1) m load' ha same by blast
qed

lemma set_keeps:
  assumes "heap_ok h" and "ok h r" and "owned h (foot h r)" and "m_string p h = Inr s" and "p \<notin> set (foot h r)"
    and "setter (Some r) (Some p) h = Inr h'" and "load h r = Inr b"
  shows "\<exists>a. load h' r = Inr (put a b) \<and> (\<forall>x \<in> set (rest h b). hp h' x = hp h x)"
  using set_ok [OF assms(1-5)] assms(6,7) by auto

lemma set_alias:
  assumes "load h r = Inr b" and "get b = Some p" and "hp h p \<noteq> None"
  shows "setter (Some r) (Some p) h = Inl DanglingRead"
  using assms act_alias [of h p] by (simp add: set_string_def)

end

text \<open>
  An operation on an object \<open>r\<close> succeeds, takes over the blocks \<open>given\<close> and loses the blocks
  \<open>dropped\<close>, changes nothing but these and the object, leaves it in order, and means the function
  \<open>f\<close> on what the object stands for.
\<close>

definition takes ::
  "(heap \<Rightarrow> nat \<Rightarrow> nat list) \<Rightarrow> (heap \<Rightarrow> nat \<Rightarrow> bool) \<Rightarrow> (heap \<Rightarrow> nat \<Rightarrow> 'v) \<Rightarrow> heap \<Rightarrow> nat \<Rightarrow>
   nat list \<Rightarrow> nat list \<Rightarrow> heap c_result \<Rightarrow> ('v \<Rightarrow> 'v) \<Rightarrow> bool" where
  "takes foot ok at h r given dropped res f \<longleftrightarrow>
     (\<exists>h'. res = Inr h' \<and> moves h h' (given @ foot h r) (dropped @ foot h' r) \<and> ok h' r \<and> at h' r = f (at h r))"

definition struct_at :: "(heap \<Rightarrow> nat \<Rightarrow> 'b c_result) \<Rightarrow> (heap \<Rightarrow> 'b \<Rightarrow> 'v) \<Rightarrow> 'v \<Rightarrow> heap \<Rightarrow> nat \<Rightarrow> 'v" where
  "struct_at load at gone h r = (case load h r of Inl e \<Rightarrow> gone | Inr b \<Rightarrow> at h b)"

text \<open>An argument a setter can take: a string of the caller, not a block of the object.\<close>

definition can_set :: "(heap \<Rightarrow> nat \<Rightarrow> nat list) \<Rightarrow> (heap \<Rightarrow> nat \<Rightarrow> bool) \<Rightarrow> heap \<Rightarrow> nat \<Rightarrow> nat \<Rightarrow> string \<Rightarrow> bool" where
  "can_set foot ok h r p s \<longleftrightarrow>
     heap_ok h \<and> ok h r \<and> owned h (foot h r) \<and> m_string p h = Inr s \<and> p \<notin> set (foot h r)"

locale value_field = string_field act g load wrap get put strs others rest rest_ok
  for act :: "nat option \<Rightarrow> nat \<Rightarrow> heap \<Rightarrow> (nat \<times> heap) c_result" and g :: "string \<Rightarrow> string"
    and load :: "heap \<Rightarrow> nat \<Rightarrow> 'b c_result" and wrap :: "'b \<Rightarrow> block" and get :: "'b \<Rightarrow> nat option"
    and put :: "nat \<Rightarrow> 'b \<Rightarrow> 'b" and strs :: "'b \<Rightarrow> nat list" and others :: "'b \<Rightarrow> nat list"
    and rest :: "heap \<Rightarrow> 'b \<Rightarrow> nat list" and rest_ok :: "heap \<Rightarrow> 'b \<Rightarrow> bool" +
  fixes at :: "heap \<Rightarrow> 'b \<Rightarrow> 'v" and gone :: 'v and upd :: "string \<Rightarrow> 'v \<Rightarrow> 'v"
  assumes at_put: "rest_ok h b \<Longrightarrow> (\<And>x. x \<in> set (others b @ rest h b) \<Longrightarrow> hp h' x = hp h x) \<Longrightarrow>
      hp h' a = Some (StrB (g s)) \<Longrightarrow> at h' (put a b) = upd s (at h b)"
begin

lemma set_does:
  assumes "can_set foot ok h r p s"
  shows "takes foot ok (struct_at load at gone) h r [] [] (setter (Some r) (Some p) h) (upd s)"
proof -
  have c: "heap_ok h" "ok h r" "owned h (foot h r)" "m_string p h = Inr s" "p \<notin> set (foot h r)"
    using assms by (simp_all add: can_set_def)
  obtain b a h' where r: "load h r = Inr b" "setter (Some r) (Some p) h = Inr h'" "moves h h' (foot h r) (foot h' r)"
    "ok h' r" "load h' r = Inr (put a b)" "hp h' a = Some (StrB (g s))"
    "\<forall>x \<in> set (others b @ rest h b). hp h' x = hp h x"
    using set_ok [OF c] by blast
  have "rest_ok h b" using struct_okD [OF c(2)] r(1) by auto
  from at_put [OF this _ r(6)] r(7) have "at h' (put a b) = upd s (at h b)" by blast
  with r show ?thesis by (simp add: takes_def struct_at_def)
qed

end

section \<open>The envelope\<close>

definition get_envelope :: "heap \<Rightarrow> nat \<Rightarrow> envelope_block c_result" where
  "get_envelope h e = (case hp h e of Some (EnvB b) \<Rightarrow> Inr b | _ \<Rightarrow> Inl DanglingRead)"

definition envelope_zero :: envelope_block where
  "envelope_zero = \<lparr>eb_recipients = None, eb_sender = None, eb_auth_user = None, eb_auth_pass = None,
     eb_nexthop = None, eb_message = None\<rparr>"

definition mem_envelope_new :: "heap \<Rightarrow> nat \<times> heap" where
  "mem_envelope_new h =
     (case m_alloc (EnvB envelope_zero) h of
        (e, h1) \<Rightarrow> (case m_alloc (ListB []) h1 of
          (l, h2) \<Rightarrow> (e, m_put e (EnvB (envelope_zero\<lparr>eb_recipients := Some l\<rparr>)) h2)))"

definition mem_envelope_set_sender :: "nat option \<Rightarrow> nat option \<Rightarrow> heap \<Rightarrow> heap c_result" where
  "mem_envelope_set_sender =
     set_string replace_stripped get_envelope EnvB eb_sender (\<lambda>a b. b\<lparr>eb_sender := Some a\<rparr>)"

definition mem_envelope_set_auth_user :: "nat option \<Rightarrow> nat option \<Rightarrow> heap \<Rightarrow> heap c_result" where
  "mem_envelope_set_auth_user =
     set_string replace_string get_envelope EnvB eb_auth_user (\<lambda>a b. b\<lparr>eb_auth_user := Some a\<rparr>)"

definition mem_envelope_set_auth_pass :: "nat option \<Rightarrow> nat option \<Rightarrow> heap \<Rightarrow> heap c_result" where
  "mem_envelope_set_auth_pass =
     set_string replace_string get_envelope EnvB eb_auth_pass (\<lambda>a b. b\<lparr>eb_auth_pass := Some a\<rparr>)"

definition mem_envelope_set_nexthop :: "nat option \<Rightarrow> nat option \<Rightarrow> heap \<Rightarrow> heap c_result" where
  "mem_envelope_set_nexthop =
     set_string replace_string get_envelope EnvB eb_nexthop (\<lambda>a b. b\<lparr>eb_nexthop := Some a\<rparr>)"

text \<open>\<open>smf_list_append\<close>\<close>

definition mem_list_append :: "nat \<Rightarrow> nat \<Rightarrow> heap \<Rightarrow> heap c_result" where
  "mem_list_append l x h = c_bind (get_list h l) (\<lambda>xs. Inr (m_put l (ListB (xs @ [x])) h))"

definition mem_envelope_add_rcpt :: "nat option \<Rightarrow> nat option \<Rightarrow> heap \<Rightarrow> (int \<times> heap) c_result" where
  "mem_envelope_add_rcpt envelope rcpt h =
     c_bind (m_assert envelope) (\<lambda>e. c_bind (m_assert rcpt) (\<lambda>p. c_bind (m_string p h) (\<lambda>s.
       case m_alloc (StrB (smf_internal_strip_email_addr s)) h of
         (t, h1) \<Rightarrow> c_bind (get_envelope h1 e) (\<lambda>b.
           case eb_recipients b of
             Some l \<Rightarrow> c_bind (mem_list_append l t h1) (\<lambda>h2. Inr (0, h2))
           | None \<Rightarrow>
               (case m_alloc (ListB []) h1 of
                  (l, h2) \<Rightarrow> c_bind (mem_list_append l t (m_put e (EnvB (b\<lparr>eb_recipients := Some l\<rparr>)) h2))
                    (\<lambda>h3. Inr (0, h3)))))))"

text \<open>A message that was there is not freed.\<close>

definition mem_envelope_set_message :: "nat option \<Rightarrow> nat option \<Rightarrow> heap \<Rightarrow> heap c_result" where
  "mem_envelope_set_message envelope message h =
     c_bind (m_assert envelope) (\<lambda>e. c_bind (m_assert message) (\<lambda>m. c_bind (get_envelope h e) (\<lambda>b.
       Inr (m_put e (EnvB (b\<lparr>eb_message := Some m\<rparr>)) h))))"

text \<open>The getters return the pointer of the struct, not a copy.\<close>

definition get_envelope_field ::
  "(envelope_block \<Rightarrow> nat option) \<Rightarrow> nat option \<Rightarrow> heap \<Rightarrow> nat option c_result" where
  "get_envelope_field f envelope h =
     c_bind (m_assert envelope) (\<lambda>e. c_bind (get_envelope h e) (\<lambda>b. Inr (f b)))"

definition smf_envelope_get_sender :: "nat option \<Rightarrow> heap \<Rightarrow> nat option c_result" where
  "smf_envelope_get_sender = get_envelope_field eb_sender"

definition smf_envelope_get_auth_user :: "nat option \<Rightarrow> heap \<Rightarrow> nat option c_result" where
  "smf_envelope_get_auth_user = get_envelope_field eb_auth_user"

definition smf_envelope_get_auth_pass :: "nat option \<Rightarrow> heap \<Rightarrow> nat option c_result" where
  "smf_envelope_get_auth_pass = get_envelope_field eb_auth_pass"

definition smf_envelope_get_nexthop :: "nat option \<Rightarrow> heap \<Rightarrow> nat option c_result" where
  "smf_envelope_get_nexthop = get_envelope_field eb_nexthop"

definition smf_envelope_get_message :: "nat option \<Rightarrow> heap \<Rightarrow> nat option c_result" where
  "smf_envelope_get_message = get_envelope_field eb_message"

text \<open>\<open>smf_list_free\<close> of a pointer that may be \<open>NULL\<close>, which it does not test.\<close>

definition free_list_ptr :: "(nat \<Rightarrow> heap \<Rightarrow> heap c_result) \<Rightarrow> nat option \<Rightarrow> heap \<Rightarrow> heap c_result" where
  "free_list_ptr destroy p h = (case p of None \<Rightarrow> Inl NullDeref | Some l \<Rightarrow> mem_list_free destroy l h)"

definition smf_envelope_free :: "nat option \<Rightarrow> heap \<Rightarrow> heap c_result" where
  "smf_envelope_free envelope h =
     c_bind (m_assert envelope) (\<lambda>e. c_bind (get_envelope h e) (\<lambda>b.
     c_bind (m_free_opt (eb_sender b) h) (\<lambda>h.
     c_bind (free_list_ptr smf_internal_string_list_destroy (eb_recipients b) h) (\<lambda>h.
     c_bind (m_free_opt (eb_nexthop b) h) (\<lambda>h.
     c_bind (case eb_message b of None \<Rightarrow> Inr h | Some m \<Rightarrow> smf_message_free (Some m) h) (\<lambda>h.
     c_bind (m_free_opt (eb_auth_user b) h) (\<lambda>h.
     c_bind (m_free_opt (eb_auth_pass b) h) (m_free e))))))))"

text \<open>Footprint and pointers of an envelope.\<close>

definition envelope_strs :: "envelope_block \<Rightarrow> nat list" where
  "envelope_strs b = opt_list (eb_sender b) @ opt_list (eb_auth_user b) @ opt_list (eb_auth_pass b) @
     opt_list (eb_nexthop b)"

definition envelope_rest :: "heap \<Rightarrow> envelope_block \<Rightarrow> nat list" where
  "envelope_rest h b = opt_list (eb_message b) @
     (case eb_recipients b of None \<Rightarrow> [] | Some l \<Rightarrow> list_foot one_block h l)"

definition envelope_rest_ok :: "heap \<Rightarrow> envelope_block \<Rightarrow> bool" where
  "envelope_rest_ok h b \<longleftrightarrow> list_all (is_message h) (opt_list (eb_message b)) \<and>
     (case eb_recipients b of None \<Rightarrow> False | Some l \<Rightarrow> list_ok is_string h l)"

abbreviation envelope_foot :: "heap \<Rightarrow> nat \<Rightarrow> nat list" where
  "envelope_foot \<equiv> struct_foot get_envelope envelope_strs envelope_rest"

abbreviation envelope_ok :: "heap \<Rightarrow> nat \<Rightarrow> bool" where
  "envelope_ok \<equiv> struct_ok get_envelope envelope_strs envelope_rest_ok"

lemma get_envelope_iff: "get_envelope h e = Inr b \<longleftrightarrow> hp h e = Some (EnvB b)"
  by (auto simp: get_envelope_def split: option.splits block.splits)

lemma envelope_rest_okD:
  "envelope_rest_ok h b \<Longrightarrow> \<exists>l. eb_recipients b = Some l \<and> list_ok is_string h l \<and> list_all (is_message h) (opt_list (eb_message b))"
  by (auto simp: envelope_rest_ok_def split: option.splits)

lemma envelope_rest_local:
  assumes "envelope_rest_ok h b" and "\<And>x. x \<in> set (envelope_rest h b) \<Longrightarrow> hp h' x = hp h x"
  shows "envelope_rest h' b = envelope_rest h b \<and> envelope_rest_ok h' b"
proof -
  obtain l where l: "eb_recipients b = Some l" "list_ok is_string h l" "list_all (is_message h) (opt_list (eb_message b))"
    using envelope_rest_okD [OF assms(1)] by blast
  have "list_foot one_block h' l = list_foot one_block h l \<and> list_ok is_string h' l"
    by (rule string_element.list_local [OF l(2)]) (use assms(2) l(1) in \<open>simp add: envelope_rest_def\<close>)
  moreover have "list_all (is_message h') (opt_list (eb_message b))"
    using l(3) assms(2) by (auto simp: list_all_iff is_message_def envelope_rest_def)
  ultimately show ?thesis using l(1) by (simp add: envelope_rest_def envelope_rest_ok_def)
qed

text \<open>The string fields do not show in the rest.\<close>

lemma envelope_rest_put [simp]:
  "envelope_rest h (b\<lparr>eb_sender := p\<rparr>) = envelope_rest h b" "envelope_rest_ok h (b\<lparr>eb_sender := p\<rparr>) = envelope_rest_ok h b"
  "envelope_rest h (b\<lparr>eb_auth_user := p\<rparr>) = envelope_rest h b" "envelope_rest_ok h (b\<lparr>eb_auth_user := p\<rparr>) = envelope_rest_ok h b"
  "envelope_rest h (b\<lparr>eb_auth_pass := p\<rparr>) = envelope_rest h b" "envelope_rest_ok h (b\<lparr>eb_auth_pass := p\<rparr>) = envelope_rest_ok h b"
  "envelope_rest h (b\<lparr>eb_nexthop := p\<rparr>) = envelope_rest h b" "envelope_rest_ok h (b\<lparr>eb_nexthop := p\<rparr>) = envelope_rest_ok h b"
  by (simp_all add: envelope_rest_def envelope_rest_ok_def)

text \<open>Making and freeing an envelope.\<close>

lemma envelope_okD:
  "envelope_ok h e \<Longrightarrow> \<exists>b l xs. get_envelope h e = Inr b \<and> list_all (is_string h) (envelope_strs b) \<and>
     eb_recipients b = Some l \<and> get_list h l = Inr xs \<and> list_all (is_string h) xs \<and>
     list_all (is_message h) (opt_list (eb_message b)) \<and> envelope_rest_ok h b \<and>
     envelope_foot h e = e # (opt_list (eb_message b) @ l # rev xs) @ envelope_strs b"
  by (auto simp: struct_ok_def envelope_rest_ok_def struct_foot_def envelope_rest_def list_ok_def list_foot_def
      split: sum.splits option.splits)

lemma envelope_local:
  assumes "envelope_ok h e" and "\<And>x. x \<in> set (envelope_foot h e) \<Longrightarrow> hp h' x = hp h x"
  shows "envelope_foot h' e = envelope_foot h e \<and> envelope_ok h' e"
proof -
  obtain b where b: "get_envelope h e = Inr b" "list_all (is_string h) (envelope_strs b)" "envelope_rest_ok h b"
    using struct_okD [OF assms(1)] by blast
  have same: "\<And>x. x \<in> set (e # envelope_rest h b @ envelope_strs b) \<Longrightarrow> hp h' x = hp h x"
    using assms(2) b by (simp add: struct_foot_def)
  have "get_envelope h' e = Inr b" using b(1) same [of e] by (simp add: get_envelope_def)
  moreover have "envelope_rest h' b = envelope_rest h b \<and> envelope_rest_ok h' b"
    by (rule envelope_rest_local [OF b(3)]) (simp add: same)
  moreover have "list_all (is_string h') (envelope_strs b)"
    using b(2) same by (auto simp: list_all_iff is_string_def)
  ultimately show ?thesis using b by (simp add: struct_foot_def struct_ok_def)
qed

lemma freer_message: "freer h (\<lambda>h. case p of None \<Rightarrow> Inr h | Some m \<Rightarrow> smf_message_free (Some m) h) (opt_list p)"
  by (cases p) (simp_all add: freer_def frees_nil smf_message_free_def frees_block)

lemma envelope_frees:
  assumes "envelope_ok h e"
  shows "freer h (smf_envelope_free (Some e)) (envelope_foot h e)"
proof -
  obtain b where b: "get_envelope h e = Inr b" "envelope_rest_ok h b" using struct_okD [OF assms] by blast
  obtain l where l: "eb_recipients b = Some l" "list_ok is_string h l" using envelope_rest_okD [OF b(2)] by blast
  have "freer h (\<lambda>h. c_bind (m_free_opt (eb_sender b) h) (\<lambda>h.
      c_bind (mem_list_free smf_internal_string_list_destroy l h) (\<lambda>h. c_bind (m_free_opt (eb_nexthop b) h) (\<lambda>h.
      c_bind (case eb_message b of None \<Rightarrow> Inr h | Some m \<Rightarrow> smf_message_free (Some m) h) (\<lambda>h.
      c_bind (m_free_opt (eb_auth_user b) h) (\<lambda>h. c_bind (m_free_opt (eb_auth_pass b) h) (m_free e)))))))
      (((((([e] @ opt_list (eb_auth_pass b)) @ opt_list (eb_auth_user b)) @ opt_list (eb_message b)) @ opt_list (eb_nexthop b)) @
        list_foot one_block h l) @ opt_list (eb_sender b))"
    by (intro freer_seq freer_opt freer_block freer_message string_element.list_frees l(2))
  then have "freer h (smf_envelope_free (Some e)) (((((([e] @ opt_list (eb_auth_pass b)) @ opt_list (eb_auth_user b)) @
      opt_list (eb_message b)) @ opt_list (eb_nexthop b)) @ list_foot one_block h l) @ opt_list (eb_sender b))"
    by (rule freer_cong) (use b(1) l(1) in \<open>simp add: smf_envelope_free_def get_envelope_def free_list_ptr_def\<close>)
  then show ?thesis
    by (rule freer_perm) (use b(1) l(1) in \<open>simp add: struct_foot_def envelope_rest_def envelope_strs_def\<close>)
qed

interpretation envelope_object: destructor envelope_foot envelope_ok "\<lambda>e. smf_envelope_free (Some e)"
  by unfold_locales (rule envelope_frees, assumption, rule envelope_local)

lemma envelope_new_ok:
  assumes "heap_ok h" and "mem_envelope_new h = (e, h')"
  shows "moves h h' [] (envelope_foot h' e)" and "envelope_ok h' e"
    and "\<exists>l. get_envelope h' e = Inr (envelope_zero\<lparr>eb_recipients := Some l\<rparr>) \<and> get_list h' l = Inr []"
proof -
  obtain e' h1 where e: "m_alloc (EnvB envelope_zero) h = (e', h1)" by fastforce
  obtain l h2 where l: "m_alloc (ListB []) h1 = (l, h2)" by fastforce
  have h': "e' = e" "h' = m_put e (EnvB (envelope_zero\<lparr>eb_recipients := Some l\<rparr>)) h2"
    using assms(2) e l by (auto simp: mem_envelope_new_def)
  note me = alloc_moves [OF assms(1) e]
  note ml = alloc_in [OF movesD(1,2) [OF me(1)] l] and hl = alloc_moves(2) [OF movesD(1) [OF me(1)] l]
  have mp: "moves h2 h' [l, e'] [l, e']" using put_in(1) [OF movesD(1,2) [OF ml(1)]] h' by simp
  have m: "moves h h' [] [l, e']" by (rule moves_trans [OF moves_trans [OF me(1) ml(1)] mp])
  have ge: "get_envelope h' e = Inr (envelope_zero\<lparr>eb_recipients := Some l\<rparr>)" by (simp add: h' m_put_def get_envelope_def)
  moreover have gl: "get_list h' l = Inr []" using ml(2) hl h' by (simp add: get_list_def)
  ultimately show "\<exists>l. get_envelope h' e = Inr (envelope_zero\<lparr>eb_recipients := Some l\<rparr>) \<and> get_list h' l = Inr []" by blast
  have f: "envelope_foot h' e = [e, l]"
    using ge gl by (simp add: struct_foot_def envelope_rest_def envelope_strs_def envelope_zero_def list_foot_def)
  show "moves h h' [] (envelope_foot h' e)"
    unfolding f by (rule moves_same [OF m]) (use ml(2) h' in auto)
  show "envelope_ok h' e"
    using ge gl by (simp add: struct_ok_def envelope_rest_ok_def envelope_strs_def envelope_zero_def list_ok_def)
qed

section \<open>What an envelope on the heap stands for\<close>

definition str_at :: "heap \<Rightarrow> nat \<Rightarrow> string" where
  "str_at h a = (case hp h a of Some (StrB s) \<Rightarrow> s | _ \<Rightarrow> [])"

definition msg_at :: "heap \<Rightarrow> nat \<Rightarrow> message" where
  "msg_at h a = (case hp h a of Some (MsgB m) \<Rightarrow> m | _ \<Rightarrow> \<lparr>msg_headers = [], msg_rest = []\<rparr>)"

definition strs_at :: "heap \<Rightarrow> nat option \<Rightarrow> string list" where
  "strs_at h p =
     (case p of None \<Rightarrow> []
      | Some l \<Rightarrow> (case get_list h l of Inl e \<Rightarrow> [] | Inr xs \<Rightarrow> map (str_at h) xs))"

definition envelope_block_at :: "heap \<Rightarrow> envelope_block \<Rightarrow> envelope" where
  "envelope_block_at h b =
     \<lparr>env_recipients = strs_at h (eb_recipients b), env_sender = map_option (str_at h) (eb_sender b),
      env_auth_user = map_option (str_at h) (eb_auth_user b), env_auth_pass = map_option (str_at h) (eb_auth_pass b),
      env_nexthop = map_option (str_at h) (eb_nexthop b), env_message = map_option (msg_at h) (eb_message b)\<rparr>"

abbreviation envelope_at :: "heap \<Rightarrow> nat \<Rightarrow> envelope" where
  "envelope_at \<equiv> struct_at get_envelope envelope_block_at smf_envelope_new"

text \<open>Reading depends only on the blocks read.\<close>

lemma str_at_same: "hp h' a = hp h a \<Longrightarrow> str_at h' a = str_at h a"
  by (simp add: str_at_def)

lemma opt_str_same: "(\<And>x. x \<in> set (opt_list p) \<Longrightarrow> hp h' x = hp h x) \<Longrightarrow> map_option (str_at h') p = map_option (str_at h) p"
  by (cases p) (simp_all add: str_at_def)

lemma opt_msg_same: "(\<And>x. x \<in> set (opt_list p) \<Longrightarrow> hp h' x = hp h x) \<Longrightarrow> map_option (msg_at h') p = map_option (msg_at h) p"
  by (cases p) (simp_all add: msg_at_def)

lemma strs_at_same:
  assumes "list_ok is_string h l" and "\<And>x. x \<in> set (list_foot one_block h l) \<Longrightarrow> hp h' x = hp h x"
  shows "strs_at h' (Some l) = strs_at h (Some l)"
proof -
  obtain xs where xs: "get_list h l = Inr xs" using list_okD [OF assms(1)] by blast
  have "get_list h' l = Inr xs" using get_list_local [of h' l h] assms(2) [of l] xs by (simp add: list_foot_def)
  moreover have "map (str_at h') xs = map (str_at h) xs"
    using assms(2) xs by (auto simp: list_foot_def str_at_def)
  ultimately show ?thesis using xs by (simp add: strs_at_def)
qed

lemma rest_same:
  assumes "envelope_rest_ok h b" and "\<And>x. x \<in> set (envelope_rest h b) \<Longrightarrow> hp h' x = hp h x"
  shows "strs_at h' (eb_recipients b) = strs_at h (eb_recipients b)"
    and "map_option (msg_at h') (eb_message b) = map_option (msg_at h) (eb_message b)"
proof -
  obtain l where l: "eb_recipients b = Some l" "list_ok is_string h l" using envelope_rest_okD [OF assms(1)] by blast
  show "strs_at h' (eb_recipients b) = strs_at h (eb_recipients b)"
    unfolding l(1) by (rule strs_at_same [OF l(2)]) (use assms(2) l(1) in \<open>simp add: envelope_rest_def\<close>)
  show "map_option (msg_at h') (eb_message b) = map_option (msg_at h) (eb_message b)"
    by (rule opt_msg_same) (use assms(2) in \<open>simp add: envelope_rest_def\<close>)
qed

lemma envelope_at_same:
  assumes "envelope_ok h e" and "\<And>x. x \<in> set (envelope_foot h e) \<Longrightarrow> hp h' x = hp h x"
  shows "envelope_at h' e = envelope_at h e"
proof -
  obtain b where b: "get_envelope h e = Inr b" "envelope_rest_ok h b" using struct_okD [OF assms(1)] by blast
  have same: "\<And>x. x \<in> set (e # envelope_rest h b @ envelope_strs b) \<Longrightarrow> hp h' x = hp h x"
    using assms(2) b by (simp add: struct_foot_def)
  have "get_envelope h' e = Inr b" using b(1) same [of e] by (simp add: get_envelope_def)
  moreover note rest_same [OF b(2), of h', OF same]
  moreover have "map_option (str_at h') (eb_sender b) = map_option (str_at h) (eb_sender b)"
    "map_option (str_at h') (eb_auth_user b) = map_option (str_at h) (eb_auth_user b)"
    "map_option (str_at h') (eb_auth_pass b) = map_option (str_at h) (eb_auth_pass b)"
    "map_option (str_at h') (eb_nexthop b) = map_option (str_at h) (eb_nexthop b)"
    by (rule opt_str_same, simp add: same envelope_strs_def)+
  ultimately show ?thesis using b(1) by (simp add: struct_at_def envelope_block_at_def)
qed

section \<open>The setters of the envelope\<close>

abbreviation envelope_takes ::
  "heap \<Rightarrow> nat \<Rightarrow> nat list \<Rightarrow> nat list \<Rightarrow> heap c_result \<Rightarrow> (envelope \<Rightarrow> envelope) \<Rightarrow> bool" where
  "envelope_takes \<equiv> takes envelope_foot envelope_ok envelope_at"

lemma others_same:
  assumes "\<And>x. x \<in> set (opt_list p @ opt_list q @ opt_list r @ ys) \<Longrightarrow> hp h' x = hp h x"
  shows "map_option (str_at h') p = map_option (str_at h) p" "map_option (str_at h') q = map_option (str_at h) q"
    "map_option (str_at h') r = map_option (str_at h) r"
  by (rule opt_str_same, simp add: assms)+

lemma envelope_at_put:
  assumes "envelope_rest_ok h b"
    and "\<And>x. x \<in> set ((opt_list p @ opt_list q @ opt_list r) @ envelope_rest h b) \<Longrightarrow> hp h' x = hp h x"
  shows "map_option (str_at h') p = map_option (str_at h) p" "map_option (str_at h') q = map_option (str_at h) q"
    "map_option (str_at h') r = map_option (str_at h) r"
    "strs_at h' (eb_recipients b) = strs_at h (eb_recipients b)"
    "map_option (msg_at h') (eb_message b) = map_option (msg_at h) (eb_message b)"
  using others_same [of p q r "envelope_rest h b" h' h] rest_same [OF assms(1), of h'] assms(2) by simp_all

lemmas envelope_setters = envelope_block_at_def smf_envelope_set_sender_def smf_envelope_set_auth_user_def
  smf_envelope_set_auth_pass_def smf_envelope_set_nexthop_def

interpretation env_sender: value_field replace_stripped smf_internal_strip_email_addr get_envelope EnvB eb_sender
  "\<lambda>a b. b\<lparr>eb_sender := Some a\<rparr>" envelope_strs
  "\<lambda>b. opt_list (eb_auth_user b) @ opt_list (eb_auth_pass b) @ opt_list (eb_nexthop b)" envelope_rest envelope_rest_ok
  envelope_block_at smf_envelope_new smf_envelope_set_sender
proof (unfold_locales, rule get_envelope_iff)
  show "envelope_block_at h' (b\<lparr>eb_sender := Some a\<rparr>) = smf_envelope_set_sender s (envelope_block_at h b)"
    if "envelope_rest_ok h b" "\<And>x. x \<in> set ((opt_list (eb_auth_user b) @ opt_list (eb_auth_pass b) @ opt_list (eb_nexthop b)) @
        envelope_rest h b) \<Longrightarrow> hp h' x = hp h x" "hp h' a = Some (StrB (smf_internal_strip_email_addr s))" for h b h' a s
    using envelope_at_put [OF that(1,2)] that(3) by (simp add: envelope_setters str_at_def)
qed (simp_all add: envelope_strs_def, rule envelope_rest_local)

interpretation env_auth_user: value_field replace_string "\<lambda>s. s" get_envelope EnvB eb_auth_user
  "\<lambda>a b. b\<lparr>eb_auth_user := Some a\<rparr>" envelope_strs
  "\<lambda>b. opt_list (eb_sender b) @ opt_list (eb_auth_pass b) @ opt_list (eb_nexthop b)" envelope_rest envelope_rest_ok
  envelope_block_at smf_envelope_new smf_envelope_set_auth_user
proof (unfold_locales, rule get_envelope_iff)
  show "envelope_block_at h' (b\<lparr>eb_auth_user := Some a\<rparr>) = smf_envelope_set_auth_user s (envelope_block_at h b)"
    if "envelope_rest_ok h b" "\<And>x. x \<in> set ((opt_list (eb_sender b) @ opt_list (eb_auth_pass b) @ opt_list (eb_nexthop b)) @
        envelope_rest h b) \<Longrightarrow> hp h' x = hp h x" "hp h' a = Some (StrB s)" for h b h' a s
    using envelope_at_put [OF that(1,2)] that(3) by (simp add: envelope_setters str_at_def)
qed (simp_all add: envelope_strs_def, rule envelope_rest_local)

interpretation env_auth_pass: value_field replace_string "\<lambda>s. s" get_envelope EnvB eb_auth_pass
  "\<lambda>a b. b\<lparr>eb_auth_pass := Some a\<rparr>" envelope_strs
  "\<lambda>b. opt_list (eb_sender b) @ opt_list (eb_auth_user b) @ opt_list (eb_nexthop b)" envelope_rest envelope_rest_ok
  envelope_block_at smf_envelope_new smf_envelope_set_auth_pass
proof (unfold_locales, rule get_envelope_iff)
  show "envelope_block_at h' (b\<lparr>eb_auth_pass := Some a\<rparr>) = smf_envelope_set_auth_pass s (envelope_block_at h b)"
    if "envelope_rest_ok h b" "\<And>x. x \<in> set ((opt_list (eb_sender b) @ opt_list (eb_auth_user b) @ opt_list (eb_nexthop b)) @
        envelope_rest h b) \<Longrightarrow> hp h' x = hp h x" "hp h' a = Some (StrB s)" for h b h' a s
    using envelope_at_put [OF that(1,2)] that(3) by (simp add: envelope_setters str_at_def)
qed (simp_all add: envelope_strs_def, rule envelope_rest_local)

interpretation env_nexthop: value_field replace_string "\<lambda>s. s" get_envelope EnvB eb_nexthop
  "\<lambda>a b. b\<lparr>eb_nexthop := Some a\<rparr>" envelope_strs
  "\<lambda>b. opt_list (eb_sender b) @ opt_list (eb_auth_user b) @ opt_list (eb_auth_pass b)" envelope_rest envelope_rest_ok
  envelope_block_at smf_envelope_new smf_envelope_set_nexthop
proof (unfold_locales, rule get_envelope_iff)
  show "envelope_block_at h' (b\<lparr>eb_nexthop := Some a\<rparr>) = smf_envelope_set_nexthop s (envelope_block_at h b)"
    if "envelope_rest_ok h b" "\<And>x. x \<in> set ((opt_list (eb_sender b) @ opt_list (eb_auth_user b) @ opt_list (eb_auth_pass b)) @
        envelope_rest h b) \<Longrightarrow> hp h' x = hp h x" "hp h' a = Some (StrB s)" for h b h' a s
    using envelope_at_put [OF that(1,2)] that(3) by (simp add: envelope_setters str_at_def)
qed (simp_all add: envelope_strs_def, rule envelope_rest_local)

lemma add_rcpt_does:
  assumes "can_set envelope_foot envelope_ok h e p s"
  shows "\<exists>h'. mem_envelope_add_rcpt (Some e) (Some p) h = Inr (0, h') \<and>
    envelope_takes h e [] [] (Inr h') (\<lambda>v. snd (smf_envelope_add_rcpt s v))"
proof -
  have c: "heap_ok h" "envelope_ok h e" "owned h (envelope_foot h e)" "m_string p h = Inr s"
    using assms by (simp_all add: can_set_def)
  obtain b l xs where b: "get_envelope h e = Inr b" "list_all (is_string h) (envelope_strs b)" "eb_recipients b = Some l"
    "get_list h l = Inr xs" "list_all (is_string h) xs" "list_all (is_message h) (opt_list (eb_message b))"
    "envelope_rest_ok h b" "envelope_foot h e = e # (opt_list (eb_message b) @ l # rev xs) @ envelope_strs b"
    using envelope_okD [OF c(2)] by blast
  obtain t h1 where t: "m_alloc (StrB (smf_internal_strip_email_addr s)) h = (t, h1)" by fastforce
  note al = alloc_in [OF c(1,3) t] and ht = alloc_moves(2) [OF c(1) t]
  define h' where "h' = m_put l (ListB (xs @ [t])) h1"
  have in_foot: "set (e # l # xs @ opt_list (eb_message b) @ envelope_strs b) \<subseteq> set (envelope_foot h e)" using b(8) by auto
  have apart: "l \<noteq> e" "t \<noteq> l" "l \<notin> set (xs @ opt_list (eb_message b) @ envelope_strs b)"
    using owned_distinct [OF c(3)] al(2) in_foot unfolding b(8) by auto
  have same: "hp h' x = hp h x" if "x \<in> set (e # xs @ opt_list (eb_message b) @ envelope_strs b)" for x
    using al(3) [of x] that in_foot apart by (auto simp: h'_def m_put_def)
  have ge: "get_envelope h' e = Inr b" using same [of e] b(1) by (simp add: get_envelope_def)
  have gl: "get_list h' l = Inr (xs @ [t])" by (simp add: h'_def m_put_def get_list_def)
  have ht': "hp h' t = Some (StrB (smf_internal_strip_email_addr s))" using ht apart(2) by (simp add: h'_def)
  have strs: "list_all (is_string h') (xs @ [t])" "list_all (is_string h') (envelope_strs b)"
    "list_all (is_message h') (opt_list (eb_message b))"
    using b(2,5,6) ht' same by (auto simp: list_all_iff is_string_def is_message_def)
  have ok: "envelope_ok h' e"
    using ge gl strs b(3) by (simp add: struct_ok_def envelope_rest_ok_def list_ok_def)
  have foot: "envelope_foot h' e = e # (opt_list (eb_message b) @ l # rev (xs @ [t])) @ envelope_strs b"
    using ge gl b(3) by (simp add: struct_foot_def envelope_rest_def list_foot_def)
  have "moves h1 h' (t # envelope_foot h e) (t # envelope_foot h e)"
    unfolding h'_def by (rule put_in(1) [OF movesD(1,2) [OF al(1)]]) (use in_foot in simp)
  with al(1) have m: "moves h h' (envelope_foot h e) (t # envelope_foot h e)" by (rule moves_trans)
  have "moves h h' (envelope_foot h e) (envelope_foot h' e)"
    by (rule moves_same [OF m]) (use owned_distinct [OF movesD(2) [OF m]] in \<open>auto simp: foot b(8)\<close>)
  moreover have "envelope_at h' e = snd (smf_envelope_add_rcpt s (envelope_at h e))"
  proof -
    have "map (str_at h') xs = map (str_at h) xs" using same by (auto simp: str_at_def)
    moreover have "map_option (str_at h') (eb_sender b) = map_option (str_at h) (eb_sender b)"
      "map_option (str_at h') (eb_auth_user b) = map_option (str_at h) (eb_auth_user b)"
      "map_option (str_at h') (eb_auth_pass b) = map_option (str_at h) (eb_auth_pass b)"
      "map_option (str_at h') (eb_nexthop b) = map_option (str_at h) (eb_nexthop b)"
      by (rule opt_str_same, simp add: same envelope_strs_def)+
    moreover have "map_option (msg_at h') (eb_message b) = map_option (msg_at h) (eb_message b)"
      by (rule opt_msg_same) (simp add: same)
    ultimately show ?thesis
      using ge gl b(1,3,4) ht' by (simp add: struct_at_def envelope_block_at_def strs_at_def smf_envelope_add_rcpt_def str_at_def)
  qed
  moreover have "mem_envelope_add_rcpt (Some e) (Some p) h = Inr (0, h')"
  proof -
    have "get_envelope h1 e = Inr b" "get_list h1 l = Inr xs"
      using b(1,4) al(3) [of e] al(3) [of l] in_foot by (simp_all add: get_envelope_def get_list_def)
    then show ?thesis using c(4) t b(3) by (simp add: mem_envelope_add_rcpt_def mem_list_append_def h'_def)
  qed
  ultimately show ?thesis using ok by (auto simp: takes_def)
qed

definition envelope_message :: "heap \<Rightarrow> nat \<Rightarrow> nat option" where
  "envelope_message h e = (case get_envelope h e of Inl _ \<Rightarrow> None | Inr b \<Rightarrow> eb_message b)"

lemma add_rcpt_message:
  assumes "heap_ok h \<and> envelope_ok h e \<and> owned h (envelope_foot h e)"
    and "mem_envelope_add_rcpt (Some e) (Some p) h = Inr (rc, h')"
  shows "envelope_message h' e = envelope_message h e"
proof -
  have c: "heap_ok h" "envelope_ok h e" "owned h (envelope_foot h e)" using assms(1) by blast+
  obtain b l xs where b: "get_envelope h e = Inr b" "eb_recipients b = Some l" "get_list h l = Inr xs"
    "envelope_foot h e = e # (opt_list (eb_message b) @ l # rev xs) @ envelope_strs b"
    using envelope_okD [OF c(2)] by blast
  obtain s where s: "m_string p h = Inr s" using assms(2) by (cases "m_string p h") (auto simp: mem_envelope_add_rcpt_def)
  obtain t h1 where t: "m_alloc (StrB (smf_internal_strip_email_addr s)) h = (t, h1)" by fastforce
  note al = alloc_in [OF c(1,3) t]
  have g: "get_envelope h1 e = Inr b" "get_list h1 l = Inr xs"
    using b(1,3) al(3) [of e] al(3) [of l] b(4) by (simp_all add: get_envelope_def get_list_def)
  have "l \<noteq> e" using owned_distinct [OF c(3)] b(4) by auto
  with assms(2) s t g b(1,2) show ?thesis
    by (auto simp: mem_envelope_add_rcpt_def mem_list_append_def envelope_message_def m_put_def get_envelope_def)
qed

text \<open>The message a new one replaces is dropped: nobody frees it.\<close>

lemma set_message_takes:
  assumes "heap_ok h" and "envelope_ok h e" and "owned h (m # envelope_foot h e)" and "is_message h m"
  shows "envelope_takes h e [m] (opt_list (envelope_message h e)) (mem_envelope_set_message (Some e) (Some m) h)
    (smf_envelope_set_message (msg_at h m))"
    and "mem_envelope_set_message (Some e) (Some m) h = Inr h' \<Longrightarrow> envelope_message h' e = Some m"
proof -
  obtain b l xs where b: "get_envelope h e = Inr b" "list_all (is_string h) (envelope_strs b)" "eb_recipients b = Some l"
    "get_list h l = Inr xs" "list_all (is_string h) xs" "list_all (is_message h) (opt_list (eb_message b))"
    "envelope_rest_ok h b" "envelope_foot h e = e # (opt_list (eb_message b) @ l # rev xs) @ envelope_strs b"
    using envelope_okD [OF assms(2)] by blast
  define b' where "b' = b\<lparr>eb_message := Some m\<rparr>"
  define h1 where "h1 = m_put e (EnvB b') h"
  have run: "mem_envelope_set_message (Some e) (Some m) h = Inr h1"
    using b(1) by (simp add: mem_envelope_set_message_def h1_def b'_def)
  have d: "e \<notin> set (m # l # xs @ envelope_strs b)" using owned_distinct [OF assms(3)] b(8) by auto
  have same: "hp h1 x = hp h x" if "x \<in> set (m # l # xs @ envelope_strs b)" for x
    using that d by (auto simp: h1_def m_put_def)
  have ge: "get_envelope h1 e = Inr b'" by (simp add: h1_def m_put_def get_envelope_def)
  have gl: "get_list h1 l = Inr xs" using get_list_local [of h1 l h] same [of l] b(4) by simp
  have strs: "envelope_strs b' = envelope_strs b" "eb_message b' = Some m" "eb_recipients b' = Some l"
    by (simp_all add: envelope_strs_def b'_def b(3))
  have "list_all (is_string h1) xs" "list_all (is_string h1) (envelope_strs b)" "is_message h1 m"
    using b(2,5) assms(4) same by (auto simp: list_all_iff is_string_def is_message_def)
  then have ok: "envelope_ok h1 e"
    using ge gl by (simp add: struct_ok_def envelope_rest_ok_def list_ok_def strs)
  have foot: "envelope_foot h1 e = e # (m # l # rev xs) @ envelope_strs b"
    using ge gl by (simp add: struct_foot_def envelope_rest_def list_foot_def strs)
  have "moves h h1 (m # envelope_foot h e) (m # envelope_foot h e)"
    unfolding h1_def by (rule put_in(1) [OF assms(1,3)]) (simp add: b(8))
  then have m: "moves h h1 ([m] @ envelope_foot h e) (opt_list (envelope_message h e) @ envelope_foot h1 e)"
    by (rule moves_same) (use owned_distinct [OF assms(3)] b(1) in \<open>auto simp: foot b(8) envelope_message_def\<close>)
  have "map (str_at h1) xs = map (str_at h) xs" using same by (auto simp: str_at_def)
  moreover have "map_option (str_at h1) (eb_sender b) = map_option (str_at h) (eb_sender b)"
    "map_option (str_at h1) (eb_auth_user b) = map_option (str_at h) (eb_auth_user b)"
    "map_option (str_at h1) (eb_auth_pass b) = map_option (str_at h) (eb_auth_pass b)"
    "map_option (str_at h1) (eb_nexthop b) = map_option (str_at h) (eb_nexthop b)"
    by (rule opt_str_same, simp add: same envelope_strs_def)+
  moreover have "msg_at h1 m = msg_at h m" using same [of m] by (simp add: msg_at_def)
  ultimately have "envelope_at h1 e = smf_envelope_set_message (msg_at h m) (envelope_at h e)"
    using ge gl b(1,3,4)
    by (simp add: struct_at_def envelope_block_at_def strs_at_def smf_envelope_set_message_def b'_def)
  with run m ok show "envelope_takes h e [m] (opt_list (envelope_message h e))
      (mem_envelope_set_message (Some e) (Some m) h) (smf_envelope_set_message (msg_at h m))"
    by (simp add: takes_def)
  show "mem_envelope_set_message (Some e) (Some m) h = Inr h' \<Longrightarrow> envelope_message h' e = Some m"
    using run ge by (simp add: envelope_message_def b'_def)
qed

end
