(* ===== verification/Smf_Owner_Session.thy ===== *)
theory Smf_Owner_Session
  imports Smf_Owner
begin

text \<open>
  The session on the heap (\<open>smf_session.c\<close>): constructor, getters, setters and destructor, its
  footprint and what it stands for, and that an operation on its envelope or its users is one on it.
\<close>

section \<open>The session\<close>

definition get_session :: "heap \<Rightarrow> nat \<Rightarrow> session_block c_result" where
  "get_session h s = (case hp h s of Some (SesB b) \<Rightarrow> Inr b | _ \<Rightarrow> Inl DanglingRead)"

definition session_zero :: session_block where
  "session_zero = \<lparr>sb_envelope = None, sb_message_size = 0, sb_message_file = None, sb_helo = None,
     sb_xforward_addr = None, sb_response_msg = None, sb_id = None, sb_local_users = None\<rparr>"

definition mem_session_new :: "(nat \<Rightarrow> nat) \<Rightarrow> heap \<Rightarrow> nat \<times> heap" where
  "mem_session_new random h =
     (case m_alloc (SesB session_zero) h of
        (s, h1) \<Rightarrow> (case m_alloc (ListB []) h1 of
          (l, h2) \<Rightarrow> (case mem_envelope_new h2 of
            (e, h3) \<Rightarrow> (case m_alloc (StrB (smf_internal_generate_sid random)) h3 of
              (i, h4) \<Rightarrow> (s, m_put s (SesB (session_zero\<lparr>sb_local_users := Some l, sb_envelope := Some e, sb_id := Some i\<rparr>)) h4)))))"

definition mem_session_set_helo :: "nat option \<Rightarrow> nat option \<Rightarrow> heap \<Rightarrow> heap c_result" where
  "mem_session_set_helo = set_string replace_string get_session SesB sb_helo (\<lambda>a b. b\<lparr>sb_helo := Some a\<rparr>)"

definition mem_session_set_message_file :: "nat option \<Rightarrow> nat option \<Rightarrow> heap \<Rightarrow> heap c_result" where
  "mem_session_set_message_file =
     set_string replace_string get_session SesB sb_message_file (\<lambda>a b. b\<lparr>sb_message_file := Some a\<rparr>)"

definition mem_session_set_xforward_addr :: "nat option \<Rightarrow> nat option \<Rightarrow> heap \<Rightarrow> heap c_result" where
  "mem_session_set_xforward_addr =
     set_string replace_xforward get_session SesB sb_xforward_addr (\<lambda>a b. b\<lparr>sb_xforward_addr := Some a\<rparr>)"

definition mem_session_set_response_msg :: "nat option \<Rightarrow> nat option \<Rightarrow> heap \<Rightarrow> heap c_result" where
  "mem_session_set_response_msg =
     set_string replace_string get_session SesB sb_response_msg (\<lambda>a b. b\<lparr>sb_response_msg := Some a\<rparr>)"

definition get_session_field :: "(session_block \<Rightarrow> nat option) \<Rightarrow> nat option \<Rightarrow> heap \<Rightarrow> nat option c_result" where
  "get_session_field f session h =
     c_bind (m_assert session) (\<lambda>s. c_bind (get_session h s) (\<lambda>b. Inr (f b)))"

definition smf_session_get_helo :: "nat option \<Rightarrow> heap \<Rightarrow> nat option c_result" where
  "smf_session_get_helo = get_session_field sb_helo"

definition smf_session_get_message_file :: "nat option \<Rightarrow> heap \<Rightarrow> nat option c_result" where
  "smf_session_get_message_file = get_session_field sb_message_file"

definition smf_session_get_xforward_addr :: "nat option \<Rightarrow> heap \<Rightarrow> nat option c_result" where
  "smf_session_get_xforward_addr = get_session_field sb_xforward_addr"

definition smf_session_get_response_msg :: "nat option \<Rightarrow> heap \<Rightarrow> nat option c_result" where
  "smf_session_get_response_msg = get_session_field sb_response_msg"

definition smf_session_get_envelope :: "nat option \<Rightarrow> heap \<Rightarrow> nat option c_result" where
  "smf_session_get_envelope = get_session_field sb_envelope"

definition smf_session_get_id :: "nat option \<Rightarrow> heap \<Rightarrow> nat option c_result" where
  "smf_session_get_id = get_session_field sb_id"

text \<open>\<open>smf_session_free\<close> has no assertion: the session is read for the log line.\<close>

definition smf_session_free :: "nat option \<Rightarrow> heap \<Rightarrow> heap c_result" where
  "smf_session_free session h =
     (case session of
        None \<Rightarrow> Inl NullDeref
      | Some s \<Rightarrow>
          c_bind (get_session h s) (\<lambda>b.
          c_bind (case sb_local_users b of None \<Rightarrow> Inr h
                  | Some l \<Rightarrow> mem_list_free smf_internal_user_data_list_destroy l h) (\<lambda>h.
          c_bind (m_free_opt (sb_helo b) h) (\<lambda>h.
          c_bind (m_free_opt (sb_message_file b) h) (\<lambda>h.
          c_bind (m_free_opt (sb_xforward_addr b) h) (\<lambda>h.
          c_bind (m_free_opt (sb_response_msg b) h) (\<lambda>h.
          c_bind (case sb_envelope b of None \<Rightarrow> Inr h | Some e \<Rightarrow> smf_envelope_free (Some e) h) (\<lambda>h.
          c_bind (m_free_opt (sb_id b) h) (m_free s)))))))))"

text \<open>Recording a local user, the end of \<open>smf_internal_query_user\<close>.\<close>

definition mem_session_add_user :: "nat option \<Rightarrow> nat \<Rightarrow> heap \<Rightarrow> heap c_result" where
  "mem_session_add_user session u h =
     (case session of
        None \<Rightarrow> Inl NullDeref
      | Some s \<Rightarrow>
          c_bind (get_session h s) (\<lambda>b.
            case sb_local_users b of None \<Rightarrow> Inl NullDeref | Some l \<Rightarrow> mem_list_append l u h))"

section \<open>Footprint and meaning\<close>

definition session_strs :: "session_block \<Rightarrow> nat list" where
  "session_strs b = opt_list (sb_message_file b) @ opt_list (sb_helo b) @ opt_list (sb_xforward_addr b) @
     opt_list (sb_response_msg b) @ opt_list (sb_id b)"

definition session_rest :: "heap \<Rightarrow> session_block \<Rightarrow> nat list" where
  "session_rest h b =
     (case sb_envelope b of None \<Rightarrow> [] | Some e \<Rightarrow> envelope_foot h e) @
     (case sb_local_users b of None \<Rightarrow> [] | Some l \<Rightarrow> list_foot user_foot h l)"

definition session_rest_ok :: "heap \<Rightarrow> session_block \<Rightarrow> bool" where
  "session_rest_ok h b \<longleftrightarrow>
     (case sb_envelope b of None \<Rightarrow> False | Some e \<Rightarrow> envelope_ok h e) \<and>
     (case sb_local_users b of None \<Rightarrow> False | Some l \<Rightarrow> list_ok user_ok h l)"

abbreviation session_foot :: "heap \<Rightarrow> nat \<Rightarrow> nat list" where
  "session_foot \<equiv> struct_foot get_session session_strs session_rest"

abbreviation session_ok :: "heap \<Rightarrow> nat \<Rightarrow> bool" where
  "session_ok \<equiv> struct_ok get_session session_strs session_rest_ok"

definition ptrs_at :: "heap \<Rightarrow> nat \<Rightarrow> string option list" where
  "ptrs_at h a = (case get_ptrs h a of Inl _ \<Rightarrow> [] | Inr ps \<Rightarrow> map (map_option (str_at h)) ps)"

definition dict_at :: "heap \<Rightarrow> nat \<Rightarrow> smf_dict" where
  "dict_at h d =
     (case get_dict h d of
        Inl _ \<Rightarrow> smf_dict_new
      | Inr b \<Rightarrow>
          \<lparr>d_n = db_n b, d_size = db_size b, d_val = ptrs_at h (db_val b), d_key = ptrs_at h (db_key b),
           d_hash = (case hp h (db_hash b) of Some (HashB hs) \<Rightarrow> hs | _ \<Rightarrow> [])\<rparr>)"

definition user_at :: "heap \<Rightarrow> nat \<Rightarrow> user_data" where
  "user_at h u =
     (case get_user h u of
        Inl _ \<Rightarrow> \<lparr>ud_email = [], ud_data = smf_dict_new\<rparr>
      | Inr b \<Rightarrow> \<lparr>ud_email = (case ub_email b of None \<Rightarrow> [] | Some a \<Rightarrow> str_at h a), ud_data = dict_at h (ub_data b)\<rparr>)"

definition users_at :: "heap \<Rightarrow> nat option \<Rightarrow> user_data list" where
  "users_at h p =
     (case p of None \<Rightarrow> []
      | Some l \<Rightarrow> (case get_list h l of Inl _ \<Rightarrow> [] | Inr us \<Rightarrow> map (user_at h) us))"

definition session_block_at :: "heap \<Rightarrow> session_block \<Rightarrow> session" where
  "session_block_at h b =
     \<lparr>ses_envelope = (case sb_envelope b of None \<Rightarrow> smf_envelope_new | Some e \<Rightarrow> envelope_at h e),
      ses_message_size = sb_message_size b, ses_message_file = map_option (str_at h) (sb_message_file b),
      ses_helo = map_option (str_at h) (sb_helo b), ses_xforward_addr = map_option (str_at h) (sb_xforward_addr b),
      ses_response_msg = map_option (str_at h) (sb_response_msg b),
      ses_id = (case sb_id b of None \<Rightarrow> [] | Some i \<Rightarrow> str_at h i), ses_local_users = users_at h (sb_local_users b)\<rparr>"

abbreviation session_at :: "heap \<Rightarrow> nat \<Rightarrow> session" where
  "session_at \<equiv> struct_at get_session session_block_at (smf_session_new (\<lambda>_. 0))"

section \<open>Reading depends only on the footprint\<close>

lemma get_session_iff: "get_session h s = Inr b \<longleftrightarrow> hp h s = Some (SesB b)"
  by (auto simp: get_session_def split: option.splits block.splits)

lemma session_rest_okD:
  "session_rest_ok h b \<Longrightarrow> \<exists>e l. sb_envelope b = Some e \<and> sb_local_users b = Some l \<and> envelope_ok h e \<and> list_ok user_ok h l"
  by (auto simp: session_rest_ok_def split: option.splits)

lemma session_rest_local:
  assumes "session_rest_ok h b" and "\<And>x. x \<in> set (session_rest h b) \<Longrightarrow> hp h' x = hp h x"
  shows "session_rest h' b = session_rest h b \<and> session_rest_ok h' b"
proof -
  obtain e l where e: "sb_envelope b = Some e" "sb_local_users b = Some l" "envelope_ok h e" "list_ok user_ok h l"
    using session_rest_okD [OF assms(1)] by blast
  have "envelope_foot h' e = envelope_foot h e \<and> envelope_ok h' e"
    by (rule envelope_local [OF e(3)]) (use assms(2) e(1) in \<open>simp add: session_rest_def\<close>)
  moreover have "list_foot user_foot h' l = list_foot user_foot h l \<and> list_ok user_ok h' l"
    by (rule user_element.list_local [OF e(4)]) (use assms(2) e(2) in \<open>simp add: session_rest_def\<close>)
  ultimately show ?thesis using e(1,2) by (simp add: session_rest_def session_rest_ok_def)
qed

lemma slots_cover:
  "length ks = length vs \<Longrightarrow> Some a \<in> set ks \<or> Some a \<in> set vs \<Longrightarrow> a \<in> set (slots_foot ks vs)"
  by (induction ks vs rule: slots_foot.induct) (auto simp: set_opt_list)

lemma dict_at_same:
  assumes "mem_dict_ok h d" and "\<And>x. x \<in> set (dict_foot h d) \<Longrightarrow> hp h' x = hp h x"
  shows "dict_at h' d = dict_at h d"
proof -
  obtain b ks vs where b: "get_dict h d = Inr b" "get_ptrs h (db_key b) = Inr ks" "get_ptrs h (db_val b) = Inr vs"
    "length ks = db_size b" "length vs = db_size b"
    using mem_dict_okD [OF assms(1)] by blast
  have same: "\<And>x. x \<in> set ([d, db_hash b, db_key b, db_val b] @ slots_foot ks vs) \<Longrightarrow> hp h' x = hp h x"
    using assms(2) b by (simp add: dict_foot_def)
  have "get_dict h' d = Inr b" "get_ptrs h' (db_key b) = Inr ks" "get_ptrs h' (db_val b) = Inr vs"
    using b(1-3) same [of d] same [of "db_key b"] same [of "db_val b"] by (simp_all add: get_dict_def get_ptrs_def)
  moreover have "map_option (str_at h') p = map_option (str_at h) p" if "p \<in> set ks \<union> set vs" for p
    by (rule opt_str_same, rule same) (use that slots_cover [of ks vs] b(4,5) in \<open>auto simp: set_opt_list\<close>)
  moreover have "hp h' (db_hash b) = hp h (db_hash b)" by (rule same) simp
  ultimately show ?thesis using b by (simp add: dict_at_def ptrs_at_def)
qed

lemma user_at_same:
  assumes "user_ok h u" and "\<And>x. x \<in> set (user_foot h u) \<Longrightarrow> hp h' x = hp h x"
  shows "user_at h' u = user_at h u"
proof -
  obtain b where b: "get_user h u = Inr b" "mem_dict_ok h (ub_data b)" using user_okD [OF assms(1)] by blast
  have same: "\<And>x. x \<in> set ([u] @ dict_foot h (ub_data b) @ opt_list (ub_email b)) \<Longrightarrow> hp h' x = hp h x"
    using assms(2) b by (simp add: user_foot_def)
  have "get_user h' u = Inr b" using b(1) same [of u] by (simp add: get_user_def)
  moreover have "dict_at h' (ub_data b) = dict_at h (ub_data b)" by (rule dict_at_same [OF b(2)]) (simp add: same)
  moreover have "str_at h' a = str_at h a" if "ub_email b = Some a" for a
    by (rule str_at_same, rule same) (simp add: that)
  ultimately show ?thesis using b(1) by (simp add: user_at_def split: option.split)
qed

lemma users_at_same:
  assumes "list_ok user_ok h l" and "\<And>x. x \<in> set (list_foot user_foot h l) \<Longrightarrow> hp h' x = hp h x"
  shows "users_at h' (Some l) = users_at h (Some l)"
proof -
  obtain us where us: "get_list h l = Inr us" "list_all (user_ok h) us" using list_okD [OF assms(1)] by blast
  have same: "\<And>x. x = l \<or> (\<exists>u \<in> set us. x \<in> set (user_foot h u)) \<Longrightarrow> hp h' x = hp h x"
    using assms(2) us(1) by (simp add: list_foot_def)
  have "get_list h' l = Inr us" using get_list_local [of h' l h] same [of l] us(1) by simp
  moreover have "user_at h' u = user_at h u" if "u \<in> set us" for u
    by (rule user_at_same) (use us(2) that same in \<open>auto simp: list_all_iff\<close>)
  ultimately show ?thesis using us(1) by (simp add: users_at_def)
qed

lemma session_rest_same:
  assumes "session_rest_ok h b" and "\<And>x. x \<in> set (session_rest h b) \<Longrightarrow> hp h' x = hp h x"
  shows "(case sb_envelope b of None \<Rightarrow> smf_envelope_new | Some e \<Rightarrow> envelope_at h' e) =
      (case sb_envelope b of None \<Rightarrow> smf_envelope_new | Some e \<Rightarrow> envelope_at h e)"
    and "users_at h' (sb_local_users b) = users_at h (sb_local_users b)"
proof -
  obtain e l where e: "sb_envelope b = Some e" "sb_local_users b = Some l" "envelope_ok h e" "list_ok user_ok h l"
    using session_rest_okD [OF assms(1)] by blast
  have same: "\<And>x. x \<in> set (envelope_foot h e @ list_foot user_foot h l) \<Longrightarrow> hp h' x = hp h x"
    using assms(2) e(1,2) by (simp add: session_rest_def)
  have "envelope_at h' e = envelope_at h e" by (rule envelope_at_same [OF e(3)]) (simp add: same)
  then show "(case sb_envelope b of None \<Rightarrow> smf_envelope_new | Some e \<Rightarrow> envelope_at h' e) =
      (case sb_envelope b of None \<Rightarrow> smf_envelope_new | Some e \<Rightarrow> envelope_at h e)"
    using e(1) by simp
  show "users_at h' (sb_local_users b) = users_at h (sb_local_users b)"
    unfolding e(2) by (rule users_at_same [OF e(4)]) (simp add: same)
qed

lemma id_at_same: "map_option (str_at h') p = map_option (str_at h) p \<Longrightarrow>
  (case p of None \<Rightarrow> [] | Some i \<Rightarrow> str_at h' i) = (case p of None \<Rightarrow> [] | Some i \<Rightarrow> str_at h i)"
  by (cases p) simp_all

section \<open>The setters of the session\<close>

abbreviation session_takes ::
  "heap \<Rightarrow> nat \<Rightarrow> nat list \<Rightarrow> nat list \<Rightarrow> heap c_result \<Rightarrow> (session \<Rightarrow> session) \<Rightarrow> bool" where
  "session_takes \<equiv> takes session_foot session_ok session_at"

lemma session_at_put:
  assumes "session_rest_ok h b"
    and "\<And>x. x \<in> set ((opt_list p @ opt_list q @ opt_list r @ opt_list t) @ session_rest h b) \<Longrightarrow> hp h' x = hp h x"
  shows "map_option (str_at h') p = map_option (str_at h) p" "map_option (str_at h') q = map_option (str_at h) q"
    "map_option (str_at h') r = map_option (str_at h) r" "map_option (str_at h') t = map_option (str_at h) t"
    "(case sb_envelope b of None \<Rightarrow> smf_envelope_new | Some e \<Rightarrow> envelope_at h' e) =
      (case sb_envelope b of None \<Rightarrow> smf_envelope_new | Some e \<Rightarrow> envelope_at h e)"
    "users_at h' (sb_local_users b) = users_at h (sb_local_users b)"
  using others_same [of p q r "opt_list t @ session_rest h b" h' h] opt_str_same [of t h' h]
    session_rest_same [OF assms(1), of h'] assms(2) by simp_all

lemmas session_setters = session_block_at_def smf_session_set_helo_def smf_session_set_message_file_def
  smf_session_set_xforward_addr_def smf_session_set_response_msg_def xforward_value_def

lemma session_rest_put [simp]:
  "session_rest h (b\<lparr>sb_helo := p\<rparr>) = session_rest h b" "session_rest_ok h (b\<lparr>sb_helo := p\<rparr>) = session_rest_ok h b"
  "session_rest h (b\<lparr>sb_message_file := p\<rparr>) = session_rest h b"
  "session_rest_ok h (b\<lparr>sb_message_file := p\<rparr>) = session_rest_ok h b"
  "session_rest h (b\<lparr>sb_xforward_addr := p\<rparr>) = session_rest h b"
  "session_rest_ok h (b\<lparr>sb_xforward_addr := p\<rparr>) = session_rest_ok h b"
  "session_rest h (b\<lparr>sb_response_msg := p\<rparr>) = session_rest h b"
  "session_rest_ok h (b\<lparr>sb_response_msg := p\<rparr>) = session_rest_ok h b"
  by (simp_all add: session_rest_def session_rest_ok_def)

interpretation ses_helo_field: value_field replace_string "\<lambda>s. s" get_session SesB sb_helo
  "\<lambda>a b. b\<lparr>sb_helo := Some a\<rparr>" session_strs
  "\<lambda>b. opt_list (sb_message_file b) @ opt_list (sb_xforward_addr b) @ opt_list (sb_response_msg b) @ opt_list (sb_id b)" session_rest session_rest_ok
  session_block_at "smf_session_new (\<lambda>_. 0)" smf_session_set_helo
proof (unfold_locales, rule get_session_iff)
  show "session_block_at h' (b\<lparr>sb_helo := Some a\<rparr>) = smf_session_set_helo s (session_block_at h b)"
    if "session_rest_ok h b" "\<And>x. x \<in> set ((opt_list (sb_message_file b) @ opt_list (sb_xforward_addr b) @ opt_list (sb_response_msg b) @ opt_list (sb_id b)) @
        session_rest h b) \<Longrightarrow> hp h' x = hp h x" "hp h' a = Some (StrB s)" for h b h' a s
    using session_at_put [OF that(1,2)] that(3) id_at_same [of h' "sb_id b" h]
    by (simp add: session_setters str_at_def)
qed (simp_all add: session_strs_def, rule session_rest_local)

interpretation ses_file_field: value_field replace_string "\<lambda>s. s" get_session SesB sb_message_file
  "\<lambda>a b. b\<lparr>sb_message_file := Some a\<rparr>" session_strs
  "\<lambda>b. opt_list (sb_helo b) @ opt_list (sb_xforward_addr b) @ opt_list (sb_response_msg b) @ opt_list (sb_id b)" session_rest session_rest_ok
  session_block_at "smf_session_new (\<lambda>_. 0)" smf_session_set_message_file
proof (unfold_locales, rule get_session_iff)
  show "session_block_at h' (b\<lparr>sb_message_file := Some a\<rparr>) = smf_session_set_message_file s (session_block_at h b)"
    if "session_rest_ok h b" "\<And>x. x \<in> set ((opt_list (sb_helo b) @ opt_list (sb_xforward_addr b) @ opt_list (sb_response_msg b) @ opt_list (sb_id b)) @
        session_rest h b) \<Longrightarrow> hp h' x = hp h x" "hp h' a = Some (StrB s)" for h b h' a s
    using session_at_put [OF that(1,2)] that(3) id_at_same [of h' "sb_id b" h]
    by (simp add: session_setters str_at_def)
qed (simp_all add: session_strs_def, rule session_rest_local)

interpretation ses_xforward_field: value_field replace_xforward xforward_value get_session SesB sb_xforward_addr
  "\<lambda>a b. b\<lparr>sb_xforward_addr := Some a\<rparr>" session_strs
  "\<lambda>b. opt_list (sb_message_file b) @ opt_list (sb_helo b) @ opt_list (sb_response_msg b) @ opt_list (sb_id b)" session_rest session_rest_ok
  session_block_at "smf_session_new (\<lambda>_. 0)" smf_session_set_xforward_addr
proof (unfold_locales, rule get_session_iff)
  show "session_block_at h' (b\<lparr>sb_xforward_addr := Some a\<rparr>) = smf_session_set_xforward_addr s (session_block_at h b)"
    if "session_rest_ok h b" "\<And>x. x \<in> set ((opt_list (sb_message_file b) @ opt_list (sb_helo b) @ opt_list (sb_response_msg b) @ opt_list (sb_id b)) @
        session_rest h b) \<Longrightarrow> hp h' x = hp h x" "hp h' a = Some (StrB (xforward_value s))" for h b h' a s
    using session_at_put [OF that(1,2)] that(3) id_at_same [of h' "sb_id b" h]
    by (simp add: session_setters str_at_def)
qed (simp_all add: session_strs_def, rule session_rest_local)

interpretation ses_response_field: value_field replace_string "\<lambda>s. s" get_session SesB sb_response_msg
  "\<lambda>a b. b\<lparr>sb_response_msg := Some a\<rparr>" session_strs
  "\<lambda>b. opt_list (sb_message_file b) @ opt_list (sb_helo b) @ opt_list (sb_xforward_addr b) @ opt_list (sb_id b)" session_rest session_rest_ok
  session_block_at "smf_session_new (\<lambda>_. 0)" smf_session_set_response_msg
proof (unfold_locales, rule get_session_iff)
  show "session_block_at h' (b\<lparr>sb_response_msg := Some a\<rparr>) = smf_session_set_response_msg s (session_block_at h b)"
    if "session_rest_ok h b" "\<And>x. x \<in> set ((opt_list (sb_message_file b) @ opt_list (sb_helo b) @ opt_list (sb_xforward_addr b) @ opt_list (sb_id b)) @
        session_rest h b) \<Longrightarrow> hp h' x = hp h x" "hp h' a = Some (StrB s)" for h b h' a s
    using session_at_put [OF that(1,2)] that(3) id_at_same [of h' "sb_id b" h]
    by (simp add: session_setters str_at_def)
qed (simp_all add: session_strs_def, rule session_rest_local)

section \<open>Operations on the parts\<close>

lemma session_okD:
  "session_ok h s \<Longrightarrow> \<exists>b e l us. get_session h s = Inr b \<and> list_all (is_string h) (session_strs b) \<and> session_rest_ok h b \<and>
     sb_envelope b = Some e \<and> envelope_ok h e \<and> sb_local_users b = Some l \<and> list_ok user_ok h l \<and>
     get_list h l = Inr us \<and> list_all (user_ok h) us \<and>
     session_foot h s = s # (envelope_foot h e @ l # concat (map (user_foot h) (rev us))) @ session_strs b"
proof -
  assume "session_ok h s"
  then obtain b where b: "get_session h s = Inr b" "list_all (is_string h) (session_strs b)" "session_rest_ok h b"
    using struct_okD by blast
  obtain e l where e: "sb_envelope b = Some e" "sb_local_users b = Some l" "envelope_ok h e" "list_ok user_ok h l"
    using session_rest_okD [OF b(3)] by blast
  obtain us where us: "get_list h l = Inr us" "list_all (user_ok h) us" using list_okD [OF e(4)] by blast
  have "list_foot user_foot h l = l # concat (map (user_foot h) (rev us))" using us by (simp add: list_foot_def)
  then have "session_foot h s = s # (envelope_foot h e @ l # concat (map (user_foot h) (rev us))) @ session_strs b"
    unfolding struct_foot_def [of get_session] using b(1) e(1,2) by (simp add: session_rest_def)
  with b e us show ?thesis by blast
qed

text \<open>The address of the envelope, and of its message.\<close>

definition session_envelope :: "heap \<Rightarrow> nat \<Rightarrow> nat option" where
  "session_envelope h s = (case get_session h s of Inl _ \<Rightarrow> None | Inr b \<Rightarrow> sb_envelope b)"

definition session_message :: "heap \<Rightarrow> nat \<Rightarrow> nat option" where
  "session_message h s = (case session_envelope h s of None \<Rightarrow> None | Some e \<Rightarrow> envelope_message h e)"

lemma session_envelope_Some:
  assumes "session_ok h s"
  shows "\<exists>e. session_envelope h s = Some e \<and> envelope_ok h e \<and> set (envelope_foot h e) \<subseteq> set (session_foot h s)"
  using session_okD [OF assms] by (auto simp: session_envelope_def)

text \<open>What an operation does to the envelope it does to the session.\<close>

lemma envelope_lift:
  assumes "session_ok h s" and "session_envelope h s = Some e" and "owned h (given @ session_foot h s)"
    and "envelope_takes h e given dropped res f"
  shows "session_takes h s given dropped res (with_envelope f)"
    and "res = Inr h' \<Longrightarrow> session_envelope h' s = Some e"
proof -
  obtain b l us where b: "get_session h s = Inr b" "list_all (is_string h) (session_strs b)" "session_rest_ok h b"
    "sb_envelope b = Some e" "sb_local_users b = Some l" "list_ok user_ok h l" "get_list h l = Inr us"
    "session_foot h s = s # (envelope_foot h e @ l # concat (map (user_foot h) (rev us))) @ session_strs b"
    using session_okD [OF assms(1)] assms(2) by (auto simp: session_envelope_def)
  define rs where "rs = s # (l # concat (map (user_foot h) (rev us))) @ session_strs b"
  obtain h1 where r: "res = Inr h1" "moves h h1 (given @ envelope_foot h e) (dropped @ envelope_foot h1 e)"
    "envelope_ok h1 e" "envelope_at h1 e = f (envelope_at h e)"
    using assms(4) by (auto simp: takes_def)
  have perm: "mset (given @ session_foot h s) = mset (rs @ given @ envelope_foot h e)"
    by (simp add: b(8) rs_def)
  have o: "owned h (rs @ given @ envelope_foot h e)"
    by (rule owned_same [OF _ mset_eq_setD [OF perm] assms(3)])
      (use mset_eq_imp_distinct_iff [OF perm] owned_distinct [OF assms(3)] in blast)
  note same = moves_apart(3) [OF r(2) o]
  have gs: "get_session h1 s = Inr b" using same [of s] b(1) by (simp add: rs_def get_session_def)
  have lf: "list_foot user_foot h l = l # concat (map (user_foot h) (rev us))" using b(7) by (simp add: list_foot_def)
  have users: "list_foot user_foot h1 l = list_foot user_foot h l \<and> list_ok user_ok h1 l"
    by (rule user_element.list_local [OF b(6)], rule same) (auto simp: lf rs_def)
  have uat: "users_at h1 (Some l) = users_at h (Some l)"
    by (rule users_at_same [OF b(6)], rule same) (auto simp: lf rs_def)
  have strs: "list_all (is_string h1) (session_strs b)"
    using b(2) same by (auto simp: list_all_iff is_string_def rs_def)
  have foot: "session_foot h1 s = s # (envelope_foot h1 e @ l # concat (map (user_foot h) (rev us))) @ session_strs b"
    using gs b(4,5) users lf by (simp add: struct_foot_def session_rest_def)
  have perm': "mset (dropped @ session_foot h1 s) = mset (rs @ dropped @ envelope_foot h1 e)"
    by (simp add: foot rs_def)
  note m = moves_frame [OF r(2) o]
  have "moves h h1 (given @ session_foot h s) (dropped @ session_foot h1 s)"
    by (rule moves_same [OF m mset_eq_setD [OF perm] mset_eq_setD [OF perm']])
      (use mset_eq_imp_distinct_iff [OF perm'] owned_distinct [OF movesD(2) [OF m]] in blast)
  moreover have "session_ok h1 s"
    using gs strs r(3) users b(4,5) by (simp add: struct_ok_def session_rest_ok_def)
  moreover have "session_at h1 s = with_envelope f (session_at h s)"
  proof -
    have "map_option (str_at h1) (sb_message_file b) = map_option (str_at h) (sb_message_file b)"
      "map_option (str_at h1) (sb_helo b) = map_option (str_at h) (sb_helo b)"
      "map_option (str_at h1) (sb_xforward_addr b) = map_option (str_at h) (sb_xforward_addr b)"
      "map_option (str_at h1) (sb_response_msg b) = map_option (str_at h) (sb_response_msg b)"
      "map_option (str_at h1) (sb_id b) = map_option (str_at h) (sb_id b)"
      by (rule opt_str_same, simp add: same rs_def session_strs_def)+
    then show ?thesis
      using gs b(1,4,5) r(4) uat id_at_same [of h1 "sb_id b" h] by (simp add: struct_at_def session_block_at_def)
  qed
  ultimately show "session_takes h s given dropped res (with_envelope f)" using r(1) by (simp add: takes_def)
  show "res = Inr h' \<Longrightarrow> session_envelope h' s = Some e" using r(1) gs b(4) by (simp add: session_envelope_def)
qed

definition session_add_user :: "user_data \<Rightarrow> session \<Rightarrow> session" where
  "session_add_user u s = s\<lparr>ses_local_users := ses_local_users s @ [u]\<rparr>"

lemma add_user_takes:
  assumes "heap_ok h" and "session_ok h s" and "owned h (user_foot h u @ session_foot h s)" and "user_ok h u"
  shows "session_takes h s (user_foot h u) [] (mem_session_add_user (Some s) u h) (session_add_user (user_at h u))"
    and "mem_session_add_user (Some s) u h = Inr h' \<Longrightarrow>
      session_envelope h' s = session_envelope h s \<and> session_message h' s = session_message h s"
proof -
  obtain b e l us where b: "get_session h s = Inr b" "list_all (is_string h) (session_strs b)" "session_rest_ok h b"
    "sb_envelope b = Some e" "envelope_ok h e" "sb_local_users b = Some l" "list_ok user_ok h l" "get_list h l = Inr us"
    "list_all (user_ok h) us"
    "session_foot h s = s # (envelope_foot h e @ l # concat (map (user_foot h) (rev us))) @ session_strs b"
    using session_okD [OF assms(2)] by blast
  define h1 where "h1 = m_put l (ListB (us @ [u])) h"
  have run: "mem_session_add_user (Some s) u h = Inr h1"
    using b(1,6,8) by (simp add: mem_session_add_user_def mem_list_append_def h1_def)
  define rs where "rs = user_foot h u @ s # envelope_foot h e @ concat (map (user_foot h) (rev us)) @ session_strs b"
  have "l \<notin> set rs" using owned_distinct [OF assms(3)] by (auto simp: b(10) rs_def)
  then have same: "hp h1 x = hp h x" if "x \<in> set rs" for x using that by (auto simp: h1_def m_put_def)
  have gs: "get_session h1 s = Inr b" using same [of s] b(1) by (simp add: rs_def get_session_def)
  have gl: "get_list h1 l = Inr (us @ [u])" by (simp add: h1_def m_put_def get_list_def)
  have env: "envelope_foot h1 e = envelope_foot h e \<and> envelope_ok h1 e"
    by (rule envelope_local [OF b(5)]) (simp add: same rs_def)
  have user: "user_foot h1 v = user_foot h v \<and> user_ok h1 v \<and> user_at h1 v = user_at h v" if "v \<in> set (us @ [u])" for v
  proof -
    have ok: "user_ok h v" using that b(9) assms(4) by (auto simp: list_all_iff)
    have "hp h1 x = hp h x" if "x \<in> set (user_foot h v)" for x
      using that \<open>v \<in> set (us @ [u])\<close> by (intro same) (auto simp: rs_def)
    with user_local [OF ok, of h1] user_at_same [OF ok, of h1] show ?thesis by blast
  qed
  have strs: "list_all (is_string h1) (session_strs b)"
    using b(2) same by (auto simp: list_all_iff is_string_def rs_def)
  have feet: "concat (map (user_foot h1) (rev us)) = concat (map (user_foot h) (rev us))"
    by (rule arg_cong [where f = concat]) (use user in auto)
  have foot: "session_foot h1 s = s # (envelope_foot h e @ l # user_foot h u @ concat (map (user_foot h) (rev us))) @ session_strs b"
    unfolding struct_foot_def [of get_session]
    using gs gl b(4,6) env feet user by (simp add: session_rest_def list_foot_def)
  have perm: "mset (session_foot h1 s) = mset (user_foot h u @ session_foot h s)" by (simp add: foot b(10))
  have "moves h h1 (user_foot h u @ session_foot h s) (user_foot h u @ session_foot h s)"
    unfolding h1_def by (rule put_in(1) [OF assms(1,3)]) (simp add: b(10))
  then have m: "moves h h1 (user_foot h u @ session_foot h s) (session_foot h1 s)"
    by (rule moves_same) (use mset_eq_setD [OF perm] mset_eq_imp_distinct_iff [OF perm] owned_distinct [OF assms(3)] in auto)
  have "list_all (user_ok h1) (us @ [u])" using user by (auto simp: list_all_iff)
  then have ok: "session_ok h1 s"
    using gs gl strs env b(4,6) by (simp add: struct_ok_def [of get_session] session_rest_ok_def list_ok_def)
  have "session_at h1 s = session_add_user (user_at h u) (session_at h s)"
  proof -
    have "map_option (str_at h1) (sb_message_file b) = map_option (str_at h) (sb_message_file b)"
      "map_option (str_at h1) (sb_helo b) = map_option (str_at h) (sb_helo b)"
      "map_option (str_at h1) (sb_xforward_addr b) = map_option (str_at h) (sb_xforward_addr b)"
      "map_option (str_at h1) (sb_response_msg b) = map_option (str_at h) (sb_response_msg b)"
      "map_option (str_at h1) (sb_id b) = map_option (str_at h) (sb_id b)"
      by (rule opt_str_same, simp add: same rs_def session_strs_def)+
    moreover have "envelope_at h1 e = envelope_at h e" by (rule envelope_at_same [OF b(5)]) (simp add: same rs_def)
    moreover have "users_at h1 (Some l) = users_at h (Some l) @ [user_at h u]"
      using gl b(8) user by (simp add: users_at_def)
    ultimately show ?thesis
      using gs b(1,4,6) id_at_same [of h1 "sb_id b" h]
      by (simp add: struct_at_def [of get_session] session_block_at_def session_add_user_def)
  qed
  with run m ok show "session_takes h s (user_foot h u) [] (mem_session_add_user (Some s) u h) (session_add_user (user_at h u))"
    by (simp add: takes_def)
  have "get_envelope h1 e = get_envelope h e"
    using same [of e] struct_okD [OF b(5)] by (auto simp: rs_def get_envelope_def struct_foot_def)
  then show "mem_session_add_user (Some s) u h = Inr h' \<Longrightarrow>
      session_envelope h' s = session_envelope h s \<and> session_message h' s = session_message h s"
    using run gs b(1,4) by (auto simp: session_envelope_def session_message_def envelope_message_def)
qed

section \<open>Making and freeing a session\<close>

lemma session_frees:
  assumes "session_ok h s"
  shows "freer h (smf_session_free (Some s)) (session_foot h s)"
proof -
  obtain b where b: "get_session h s = Inr b" "session_rest_ok h b" using struct_okD [OF assms] by blast
  obtain e l where e: "sb_envelope b = Some e" "sb_local_users b = Some l" "envelope_ok h e" "list_ok user_ok h l"
    using session_rest_okD [OF b(2)] by blast
  have "freer h (\<lambda>h. c_bind (mem_list_free smf_internal_user_data_list_destroy l h) (\<lambda>h.
      c_bind (m_free_opt (sb_helo b) h) (\<lambda>h. c_bind (m_free_opt (sb_message_file b) h) (\<lambda>h.
      c_bind (m_free_opt (sb_xforward_addr b) h) (\<lambda>h. c_bind (m_free_opt (sb_response_msg b) h) (\<lambda>h.
      c_bind (smf_envelope_free (Some e) h) (\<lambda>h. c_bind (m_free_opt (sb_id b) h) (m_free s))))))))
      ((((((([s] @ opt_list (sb_id b)) @ envelope_foot h e) @ opt_list (sb_response_msg b)) @ opt_list (sb_xforward_addr b)) @
        opt_list (sb_message_file b)) @ opt_list (sb_helo b)) @ list_foot user_foot h l)"
    by (intro freer_seq freer_opt freer_block envelope_frees user_element.list_frees e(3,4))
  then have "freer h (smf_session_free (Some s)) ((((((([s] @ opt_list (sb_id b)) @ envelope_foot h e) @
      opt_list (sb_response_msg b)) @ opt_list (sb_xforward_addr b)) @ opt_list (sb_message_file b)) @ opt_list (sb_helo b)) @
      list_foot user_foot h l)"
    by (rule freer_cong) (use b(1) e(1,2) in \<open>simp add: smf_session_free_def get_session_def\<close>)
  then show ?thesis
    by (rule freer_perm) (use b(1) e(1,2) in \<open>simp add: struct_foot_def [of get_session] session_rest_def session_strs_def\<close>)
qed

lemma session_new_ok:
  assumes "heap_ok h" and "mem_session_new random h = (s, h')"
  shows "moves h h' [] (session_foot h' s)" and "session_ok h' s" and "session_at h' s = smf_session_new random"
    and "session_message h' s = None"
proof -
  obtain s' h1 where s: "m_alloc (SesB session_zero) h = (s', h1)" by fastforce
  obtain l h2 where l: "m_alloc (ListB []) h1 = (l, h2)" by fastforce
  obtain e h3 where e: "mem_envelope_new h2 = (e, h3)" by fastforce
  obtain i h4 where i: "m_alloc (StrB (smf_internal_generate_sid random)) h3 = (i, h4)" by fastforce
  define b where "b = session_zero\<lparr>sb_local_users := Some l, sb_envelope := Some e, sb_id := Some i\<rparr>"
  have h': "s' = s" "h' = m_put s (SesB b) h4"
    using assms(2) s l e i by (auto simp: mem_session_new_def b_def)
  note ms = alloc_moves [OF assms(1) s [unfolded h'(1)]]
  note ml = alloc_in [OF movesD(1,2) [OF ms(1)] l] and hl = alloc_moves(2) [OF movesD(1) [OF ms(1)] l]
  note en = envelope_new_ok [OF movesD(1) [OF ml(1)] e]
  have o2: "owned h2 ([l, s] @ [])" using movesD(2) [OF ml(1)] by simp
  have me: "moves h2 h3 [l, s] ([l, s] @ envelope_foot h3 e)" using moves_frame [OF en(1) o2] by simp
  note es = moves_apart(3) [OF en(1) o2]
  note mi = alloc_in [OF movesD(1,2) [OF me] i] and hi = alloc_moves(2) [OF movesD(1) [OF me] i]
  have mp: "moves h4 h' (i # [l, s] @ envelope_foot h3 e) (i # [l, s] @ envelope_foot h3 e)"
    unfolding h' by (rule put_in(1) [OF movesD(1,2) [OF mi(1)]]) simp
  have m: "moves h h' [] (i # [l, s] @ envelope_foot h3 e)"
    by (rule moves_trans [OF moves_trans [OF moves_trans [OF moves_trans [OF ms(1) ml(1)] me] mi(1)] mp])
  have d: "distinct (i # [l, s] @ envelope_foot h3 e)" by (rule owned_distinct [OF movesD(2) [OF m]])
  have gs: "get_session h' s = Inr b" by (simp add: h' m_put_def get_session_def)
  have keep: "hp h' x = hp h3 x" if "x \<in> set (l # envelope_foot h3 e)" for x
    using mi(3) [of x] that d by (auto simp: h' m_put_def)
  have "get_list h3 l = Inr []" using es [of l] hl by (simp add: get_list_def)
  then have gl: "get_list h' l = Inr []" using get_list_local [of h' l h3] keep [of l] by simp
  have hid: "hp h' i = Some (StrB (smf_internal_generate_sid random))" using hi d by (simp add: h')
  have env: "envelope_foot h' e = envelope_foot h3 e \<and> envelope_ok h' e"
    by (rule envelope_local [OF en(2)]) (simp add: keep)
  have eat: "envelope_at h' e = smf_envelope_new"
  proof -
    have "envelope_at h' e = envelope_at h3 e" by (rule envelope_at_same [OF en(2)]) (simp add: keep)
    with en(3) show ?thesis
      by (auto simp: struct_at_def envelope_block_at_def strs_at_def envelope_zero_def smf_envelope_new_def)
  qed
  have bs: "session_strs b = [i]" "sb_envelope b = Some e" "sb_local_users b = Some l"
    by (simp_all add: b_def session_zero_def session_strs_def)
  have foot: "session_foot h' s = s # (envelope_foot h3 e @ [l]) @ [i]"
    unfolding struct_foot_def [of get_session] using gs gl env bs by (simp add: session_rest_def list_foot_def)
  show "moves h h' [] (session_foot h' s)"
    unfolding foot by (rule moves_same [OF m]) (use d in auto)
  show "session_ok h' s"
    using gs gl env hid bs by (simp add: struct_ok_def [of get_session] session_rest_ok_def list_ok_def is_string_def)
  show "session_at h' s = smf_session_new random"
    using gs gl eat hid
    by (simp add: struct_at_def [of get_session] session_block_at_def b_def session_zero_def users_at_def smf_session_new_def str_at_def)
  have "get_envelope h' e = get_envelope h3 e"
    using keep [of e] struct_okD [OF en(2)] by (auto simp: get_envelope_def struct_foot_def)
  with gs bs en(3) show "session_message h' s = None"
    by (auto simp: session_message_def session_envelope_def envelope_message_def envelope_zero_def)
qed

end
