(* ===== verification/Smf_Lifetime.thy ===== *)
theory Smf_Lifetime
  imports Smf_Owner_Session
begin

text \<open>
  The whole life of a session on the heap: made, changed by any sequence of calls of the interface of
  \<open>smf_session.h\<close> and \<open>smf_envelope.h\<close>, and destroyed.
\<close>

section \<open>Programs on a session\<close>

text \<open>One call of the interface: the arguments are addresses of strings, of a message, of user data.\<close>

datatype session_op =
  SetHelo nat | SetMessageFile nat | SetXforward nat | SetResponse nat | SetSender nat | AddRcpt nat |
  SetAuthUser nat | SetAuthPass nat | SetNexthop nat | SetMessage nat | AddUser nat

definition on_envelope :: "nat \<Rightarrow> (nat option \<Rightarrow> heap \<Rightarrow> heap c_result) \<Rightarrow> heap \<Rightarrow> heap c_result" where
  "on_envelope s act h = c_bind (smf_session_get_envelope (Some s) h) (\<lambda>e. act e h)"

fun run_op :: "session_op \<Rightarrow> nat \<Rightarrow> heap \<Rightarrow> heap c_result" where
  "run_op (SetHelo p) s h = mem_session_set_helo (Some s) (Some p) h"
| "run_op (SetMessageFile p) s h = mem_session_set_message_file (Some s) (Some p) h"
| "run_op (SetXforward p) s h = mem_session_set_xforward_addr (Some s) (Some p) h"
| "run_op (SetResponse p) s h = mem_session_set_response_msg (Some s) (Some p) h"
| "run_op (SetSender p) s h = on_envelope s (\<lambda>e. mem_envelope_set_sender e (Some p)) h"
| "run_op (AddRcpt p) s h = on_envelope s (\<lambda>e h. map_sum id snd (mem_envelope_add_rcpt e (Some p) h)) h"
| "run_op (SetAuthUser p) s h = on_envelope s (\<lambda>e. mem_envelope_set_auth_user e (Some p)) h"
| "run_op (SetAuthPass p) s h = on_envelope s (\<lambda>e. mem_envelope_set_auth_pass e (Some p)) h"
| "run_op (SetNexthop p) s h = on_envelope s (\<lambda>e. mem_envelope_set_nexthop e (Some p)) h"
| "run_op (SetMessage m) s h = on_envelope s (\<lambda>e. mem_envelope_set_message e (Some m)) h"
| "run_op (AddUser u) s h = mem_session_add_user (Some s) u h"

fun run_ops :: "session_op list \<Rightarrow> nat \<Rightarrow> heap \<Rightarrow> heap c_result" where
  "run_ops [] s h = Inr h"
| "run_ops (op # ops) s h = c_bind (run_op op s h) (run_ops ops s)"

text \<open>The function on records a call stands for.\<close>

fun op_value :: "heap \<Rightarrow> session_op \<Rightarrow> session \<Rightarrow> session" where
  "op_value h (SetHelo p) = smf_session_set_helo (str_at h p)"
| "op_value h (SetMessageFile p) = smf_session_set_message_file (str_at h p)"
| "op_value h (SetXforward p) = smf_session_set_xforward_addr (str_at h p)"
| "op_value h (SetResponse p) = smf_session_set_response_msg (str_at h p)"
| "op_value h (SetSender p) = with_envelope (smf_envelope_set_sender (str_at h p))"
| "op_value h (AddRcpt p) = with_envelope (\<lambda>e. snd (smf_envelope_add_rcpt (str_at h p) e))"
| "op_value h (SetAuthUser p) = with_envelope (smf_envelope_set_auth_user (str_at h p))"
| "op_value h (SetAuthPass p) = with_envelope (smf_envelope_set_auth_pass (str_at h p))"
| "op_value h (SetNexthop p) = with_envelope (smf_envelope_set_nexthop (str_at h p))"
| "op_value h (SetMessage m) = with_envelope (smf_envelope_set_message (msg_at h m))"
| "op_value h (AddUser u) = session_add_user (user_at h u)"

text \<open>The strings a call reads, the blocks it takes over, and what it drops.\<close>

fun op_arg :: "session_op \<Rightarrow> nat option" where
  "op_arg (SetMessage m) = None"
| "op_arg (AddUser u) = None"
| "op_arg (SetHelo p) = Some p"
| "op_arg (SetMessageFile p) = Some p"
| "op_arg (SetXforward p) = Some p"
| "op_arg (SetResponse p) = Some p"
| "op_arg (SetSender p) = Some p"
| "op_arg (AddRcpt p) = Some p"
| "op_arg (SetAuthUser p) = Some p"
| "op_arg (SetAuthPass p) = Some p"
| "op_arg (SetNexthop p) = Some p"

fun op_gives :: "heap \<Rightarrow> session_op \<Rightarrow> nat list" where
  "op_gives h (SetMessage m) = [m]"
| "op_gives h (AddUser u) = user_foot h u"
| "op_gives h _ = []"

fun op_given_ok :: "heap \<Rightarrow> session_op \<Rightarrow> bool" where
  "op_given_ok h (SetMessage m) = is_message h m"
| "op_given_ok h (AddUser u) = user_ok h u"
| "op_given_ok h _ = True"

definition gives :: "heap \<Rightarrow> session_op list \<Rightarrow> nat list" where
  "gives h ops = concat (map (op_gives h) ops)"

text \<open>The messages that are replaced; the first argument is the one the session has.\<close>

fun overwritten :: "nat option \<Rightarrow> session_op list \<Rightarrow> nat list" where
  "overwritten cur [] = []"
| "overwritten cur (SetMessage m # ops) = opt_list cur @ overwritten (Some m) ops"
| "overwritten cur (_ # ops) = overwritten cur ops"

fun op_drops :: "nat option \<Rightarrow> session_op \<Rightarrow> nat list" where
  "op_drops cur (SetMessage m) = opt_list cur"
| "op_drops cur _ = []"

fun op_message :: "nat option \<Rightarrow> session_op \<Rightarrow> nat option" where
  "op_message cur (SetMessage m) = Some m"
| "op_message cur _ = cur"

lemma overwritten_step: "overwritten cur (op # ops) = op_drops cur op @ overwritten (op_message cur op) ops"
  by (cases op) simp_all

text \<open>
  The caller keeps to the interface: the strings it passes are its own, the messages and user data it
  gives away are in order, given once, and not part of the session.
\<close>

definition callable :: "heap \<Rightarrow> nat \<Rightarrow> session_op list \<Rightarrow> bool" where
  "callable h s ops \<longleftrightarrow>
     heap_ok h \<and> session_ok h s \<and> owned h (gives h ops @ session_foot h s) \<and> list_all (op_given_ok h) ops \<and>
     (\<forall>op \<in> set ops. \<forall>p. op_arg op = Some p \<longrightarrow> is_string h p \<and> p \<notin> set (gives h ops @ session_foot h s))"

lemma callableD:
  assumes "callable h s (op # ops)"
  shows "heap_ok h" "session_ok h s" "owned h (gives h ops @ op_gives h op @ session_foot h s)" "op_given_ok h op"
    "list_all (op_given_ok h) ops"
    "op_arg op = Some p \<Longrightarrow> m_string p h = Inr (str_at h p) \<and> p \<notin> set (session_foot h s)"
    "o' \<in> set (op # ops) \<Longrightarrow> op_arg o' = Some p \<Longrightarrow> is_string h p \<and> p \<notin> set (gives h ops @ op_gives h op @ session_foot h s)"
proof -
  note c = assms [unfolded callable_def gives_def, simplified, folded gives_def]
  show "heap_ok h" "session_ok h s" "op_given_ok h op" "list_all (op_given_ok h) ops" using c by blast+
  have o: "owned h (op_gives h op @ gives h ops @ session_foot h s)" using c by blast
  show "owned h (gives h ops @ op_gives h op @ session_foot h s)"
    by (rule owned_same [OF _ _ o]) (use owned_distinct [OF o] in auto)
  show a: "is_string h p \<and> p \<notin> set (gives h ops @ op_gives h op @ session_foot h s)"
    if "o' \<in> set (op # ops)" "op_arg o' = Some p" for o' p
    using c that by (auto simp: gives_def)
  show "op_arg op = Some p \<Longrightarrow> m_string p h = Inr (str_at h p) \<and> p \<notin> set (session_foot h s)"
    using a [of op p] by (auto simp: is_string_def m_string_def str_at_def split: option.splits block.splits)
qed

text \<open>The setters leave the message alone.\<close>

lemma session_message_same:
  assumes "session_ok h s" and "get_session h s = Inr b" and "get_session h' s = Inr b'"
    and "sb_envelope b' = sb_envelope b" and "\<And>x. x \<in> set (session_rest h b) \<Longrightarrow> hp h' x = hp h x"
  shows "session_message h' s = session_message h s"
proof -
  obtain e where e: "sb_envelope b = Some e" "envelope_ok h e"
    using session_rest_okD [of h b] struct_okD [OF assms(1)] assms(2) by auto
  have "e \<in> set (session_rest h b)" using e struct_okD [OF e(2)] by (auto simp: session_rest_def struct_foot_def)
  then have "get_envelope h' e = get_envelope h e" using assms(5) by (simp add: get_envelope_def)
  with assms(2-4) e(1) show ?thesis by (simp add: session_message_def session_envelope_def envelope_message_def)
qed

lemma session_field_case:
  assumes "session_ok h s" and "session_takes h s [] [] res f"
    and "\<And>h' b. res = Inr h' \<Longrightarrow> get_session h s = Inr b \<Longrightarrow>
      \<exists>a. get_session h' s = Inr (put a b) \<and> (\<forall>x \<in> set (session_rest h b). hp h' x = hp h x)"
    and "\<And>a b. sb_envelope (put a b) = sb_envelope b"
  shows "\<exists>h1. res = Inr h1 \<and> session_takes h s [] [] (Inr h1) f \<and> session_message h1 s = session_message h s"
proof -
  obtain h1 where h1: "res = Inr h1" using assms(2) by (auto simp: takes_def)
  obtain b where b: "get_session h s = Inr b" using struct_okD [OF assms(1)] by blast
  obtain a where a: "get_session h1 s = Inr (put a b)" "\<forall>x \<in> set (session_rest h b). hp h1 x = hp h x"
    using assms(3) [OF h1 b] by blast
  have "session_message h1 s = session_message h s"
    by (rule session_message_same [OF assms(1) b a(1) assms(4)]) (use a(2) in blast)
  with h1 assms(2) show ?thesis by blast
qed

lemma envelope_case:
  assumes "session_ok h s" and "session_envelope h s = Some e" and "owned h (given @ session_foot h s)"
    and "envelope_takes h e given dropped res f" and "\<And>h'. res = Inr h' \<Longrightarrow> envelope_message h' e = m"
  shows "\<exists>h1. res = Inr h1 \<and> session_takes h s given dropped (Inr h1) (with_envelope f) \<and> session_message h1 s = m"
proof -
  obtain h1 where h1: "res = Inr h1" using assms(4) by (auto simp: takes_def)
  note lift = envelope_lift [OF assms(1-4)]
  show ?thesis using h1 lift(1) lift(2) [OF h1] assms(5) [OF h1] by (auto simp: session_message_def)
qed

lemma envelope_field_message:
  assumes "get_envelope h e = Inr b" and "get_envelope h' e = Inr b'" and "eb_message b' = eb_message b"
  shows "envelope_message h' e = envelope_message h e"
  using assms by (simp add: envelope_message_def)

lemma can_setD:
  assumes "can_set foot ok h r p v"
  shows "heap_ok h" "ok h r" "owned h (foot h r)" "m_string p h = Inr v" "p \<notin> set (foot h r)"
  using assms by (simp_all add: can_set_def)

lemma owned_part: "owned h xs \<Longrightarrow> distinct ys \<Longrightarrow> set ys \<subseteq> set xs \<Longrightarrow> owned h ys"
  by (rule ownedI) (auto dest: ownedD)

lemma can_set_envelope:
  assumes "can_set session_foot session_ok h s p v" and "session_envelope h s = Some e"
  shows "can_set envelope_foot envelope_ok h e p v"
proof -
  note c = can_setD [OF assms(1)]
  obtain b l us where b: "get_session h s = Inr b" "envelope_ok h e"
    "session_foot h s = s # (envelope_foot h e @ l # concat (map (user_foot h) (rev us))) @ session_strs b"
    using session_okD [OF c(2)] assms(2) by (auto simp: session_envelope_def)
  have "owned h (envelope_foot h e)"
    by (rule owned_part [OF c(3)]) (use owned_distinct [OF c(3)] b(3) in auto)
  moreover have "p \<notin> set (envelope_foot h e)" using c(5) b(3) by auto
  ultimately show ?thesis using c(1,4) b(2) by (simp add: can_set_def)
qed

lemma envelope_field_case:
  assumes "session_ok h s" and "session_envelope h s = Some e" and "owned h (session_foot h s)" and "envelope_ok h e"
    and "envelope_takes h e [] [] res f"
    and "\<And>h' b. res = Inr h' \<Longrightarrow> get_envelope h e = Inr b \<Longrightarrow>
      \<exists>a. get_envelope h' e = Inr (put a b) \<and> (\<forall>x \<in> set (envelope_rest h b). hp h' x = hp h x)"
    and "\<And>a b. eb_message (put a b) = eb_message b"
  shows "\<exists>h1. res = Inr h1 \<and> session_takes h s [] [] (Inr h1) (with_envelope f) \<and> session_message h1 s = session_message h s"
proof -
  have "\<exists>h1. res = Inr h1 \<and> session_takes h s [] [] (Inr h1) (with_envelope f) \<and> session_message h1 s = envelope_message h e"
  proof (rule envelope_case [OF assms(1,2) _ assms(5)])
    show "owned h ([] @ session_foot h s)" using assms(3) by simp
    fix h' assume r: "res = Inr h'"
    obtain b where b: "get_envelope h e = Inr b" using struct_okD [OF assms(4)] by blast
    obtain a where "get_envelope h' e = Inr (put a b)" using assms(6) [OF r b] by blast
    from envelope_field_message [OF b this assms(7)] show "envelope_message h' e = envelope_message h e" .
  qed
  then show ?thesis using assms(2) by (simp add: session_message_def)
qed

lemma get_envelope_of: "session_envelope h s = Some e \<Longrightarrow> smf_session_get_envelope (Some s) h = Inr (Some e)"
  by (auto simp: session_envelope_def smf_session_get_envelope_def get_session_field_def split: sum.splits)

lemmas mem_setters = mem_session_set_helo_def mem_session_set_message_file_def mem_session_set_xforward_addr_def
  mem_session_set_response_msg_def mem_envelope_set_sender_def mem_envelope_set_auth_user_def
  mem_envelope_set_auth_pass_def mem_envelope_set_nexthop_def

text \<open>Every call of the interface does what it should.\<close>

lemma run_op_ok:
  assumes "callable h s (op # ops)"
  shows "\<exists>h1. run_op op s h = Inr h1 \<and>
    session_takes h s (op_gives h op) (op_drops (session_message h s) op) (Inr h1) (op_value h op) \<and>
    session_message h1 s = op_message (session_message h s) op"
proof -
  note c = callableD [OF assms]
  obtain e where e: "session_envelope h s = Some e" "envelope_ok h e" using session_envelope_Some [OF c(2)] by blast
  note ge = get_envelope_of [OF e(1)]
  have og: "owned h (op_gives h op @ session_foot h s)" using c(3) unfolding owned_append by blast
  then have o: "owned h (session_foot h s)" unfolding owned_append by blast
  have cs: "can_set session_foot session_ok h s p (str_at h p)" if "op_arg op = Some p" for p
    using c(1,2) o c(6) [OF that] by (simp add: can_set_def)
  note ce = can_set_envelope [OF cs e(1)]
  note sess = session_field_case [OF c(2)] and env = envelope_field_case [OF c(2) e(1) o e(2)]
  show ?thesis
  proof (cases op)
    case (SetHelo p)
    with sess [OF ses_helo_field.set_does [OF cs [of p]] ses_helo_field.set_keeps [OF can_setD [OF cs [of p]]]] show ?thesis
      by (simp add: mem_setters)
  next
    case (SetMessageFile p)
    with sess [OF ses_file_field.set_does [OF cs [of p]] ses_file_field.set_keeps [OF can_setD [OF cs [of p]]]] show ?thesis
      by (simp add: mem_setters)
  next
    case (SetXforward p)
    with sess [OF ses_xforward_field.set_does [OF cs [of p]] ses_xforward_field.set_keeps [OF can_setD [OF cs [of p]]]] show ?thesis
      by (simp add: mem_setters)
  next
    case (SetResponse p)
    with sess [OF ses_response_field.set_does [OF cs [of p]] ses_response_field.set_keeps [OF can_setD [OF cs [of p]]]] show ?thesis
      by (simp add: mem_setters)
  next
    case (SetSender p)
    with env [OF env_sender.set_does [OF ce [of p]] env_sender.set_keeps [OF can_setD [OF ce [of p]]]] ge show ?thesis
      by (simp add: mem_setters on_envelope_def)
  next
    case (SetAuthUser p)
    with env [OF env_auth_user.set_does [OF ce [of p]] env_auth_user.set_keeps [OF can_setD [OF ce [of p]]]] ge show ?thesis
      by (simp add: mem_setters on_envelope_def)
  next
    case (SetAuthPass p)
    with env [OF env_auth_pass.set_does [OF ce [of p]] env_auth_pass.set_keeps [OF can_setD [OF ce [of p]]]] ge show ?thesis
      by (simp add: mem_setters on_envelope_def)
  next
    case (SetNexthop p)
    with env [OF env_nexthop.set_does [OF ce [of p]] env_nexthop.set_keeps [OF can_setD [OF ce [of p]]]] ge show ?thesis
      by (simp add: mem_setters on_envelope_def)
  next
    case (AddRcpt p)
    obtain h1 where r: "mem_envelope_add_rcpt (Some e) (Some p) h = Inr (0, h1)"
      "envelope_takes h e [] [] (Inr h1) (\<lambda>v. snd (smf_envelope_add_rcpt (str_at h p) v))"
      using add_rcpt_does [OF ce [of p]] AddRcpt by auto
    have "envelope_message h1 e = envelope_message h e"
      using add_rcpt_message [OF _ r(1)] can_setD(1-3) [OF ce [of p]] AddRcpt by simp
    then have "\<exists>h2. (Inr h1 :: heap c_result) = Inr h2 \<and>
        session_takes h s [] [] (Inr h2) (with_envelope (\<lambda>v. snd (smf_envelope_add_rcpt (str_at h p) v))) \<and>
        session_message h2 s = envelope_message h e"
      by (intro envelope_case [OF c(2) e(1) _ r(2)]) (use o in simp_all)
    then show ?thesis using AddRcpt r(1) ge e(1) by (simp add: on_envelope_def session_message_def)
  next
    case (SetMessage m)
    have oe: "owned h (m # envelope_foot h e)"
    proof (rule owned_part [OF og])
      show "set (m # envelope_foot h e) \<subseteq> set (op_gives h op @ session_foot h s)"
        using session_envelope_Some [OF c(2)] e(1) SetMessage by auto
      show "distinct (m # envelope_foot h e)"
        using owned_distinct [OF og] session_envelope_Some [OF c(2)] e(1) SetMessage session_okD [OF c(2)]
        by (auto simp: session_envelope_def)
    qed
    have m: "is_message h m" using c(4) SetMessage by simp
    note sm = set_message_takes [OF c(1) e(2) oe m]
    have "\<exists>h1. mem_envelope_set_message (Some e) (Some m) h = Inr h1 \<and>
        session_takes h s [m] (opt_list (envelope_message h e)) (Inr h1) (with_envelope (smf_envelope_set_message (msg_at h m))) \<and>
        session_message h1 s = Some m"
      by (rule envelope_case [OF c(2) e(1) _ sm(1) sm(2)]) (use og SetMessage in simp)
    then show ?thesis using SetMessage ge e(1) by (simp add: on_envelope_def session_message_def)
  next
    case (AddUser u)
    have "user_ok h u" "owned h (user_foot h u @ session_foot h s)" using c(4) og AddUser by simp_all
    note au = add_user_takes [OF c(1,2) this(2,1)]
    obtain h1 where "mem_session_add_user (Some s) u h = Inr h1" using au(1) by (auto simp: takes_def)
    with au AddUser show ?thesis by simp
  qed
qed

text \<open>The next calls find the heap as they need it.\<close>

lemma moves_untouched:
  assumes "moves h h' xs ys" and "hp h p \<noteq> None" and "p \<notin> set xs"
  shows "p \<notin> set ys" and "hp h' p = hp h p"
proof -
  show y: "p \<notin> set ys"
  proof
    assume "p \<in> set ys"
    from movesD(4) [OF assms(1) this assms(3)] assms(2) show False by contradiction
  qed
  show "hp h' p = hp h p" by (rule movesD(3) [OF assms(1,3) y])
qed

lemma given_same:
  assumes "op_given_ok h op" and "\<And>x. x \<in> set (op_gives h op) \<Longrightarrow> hp h' x = hp h x"
    and "\<And>p. op_arg op = Some p \<Longrightarrow> hp h' p = hp h p"
  shows "op_gives h' op = op_gives h op \<and> op_given_ok h' op \<and> op_value h' op = op_value h op"
proof (cases op)
  case (SetMessage m)
  then show ?thesis using assms(1,2) by (simp add: is_message_def msg_at_def)
next
  case (AddUser u)
  then have u: "user_ok h u" and same: "\<And>x. x \<in> set (user_foot h u) \<Longrightarrow> hp h' x = hp h x" using assms(1,2) by simp_all
  from user_local [OF u same] user_at_same [OF u same] AddUser show ?thesis by simp
qed (use assms(3) in \<open>simp_all add: str_at_def\<close>)

lemma callable_step:
  assumes "callable h s (op # ops)"
    and m: "moves h h1 (op_gives h op @ session_foot h s) (dropped @ session_foot h1 s)" and "session_ok h1 s"
  shows "callable h1 s ops" and "gives h1 ops = gives h ops" and "\<forall>o' \<in> set ops. op_value h1 o' = op_value h o'"
proof -
  note c = callableD [OF assms(1)]
  note same = moves_apart(3) [OF m c(3)]
  have arg: "is_string h1 p \<and> p \<notin> set (gives h ops @ session_foot h1 s) \<and> hp h1 p = hp h p"
    if "o' \<in> set ops" "op_arg o' = Some p" for o' p
  proof -
    have p: "is_string h p" "p \<notin> set (gives h ops)" "p \<notin> set (op_gives h op @ session_foot h s)"
      using c(7) [of o' p] that by auto
    have "hp h p \<noteq> None" using p(1) by (rule is_string_present)
    note u = moves_untouched [OF m this p(3)]
    with p(1,2) show ?thesis by (simp add: is_string_def)
  qed
  have given: "op_gives h1 o' = op_gives h o' \<and> op_given_ok h1 o' \<and> op_value h1 o' = op_value h o'" if "o' \<in> set ops" for o'
  proof (rule given_same)
    show "op_given_ok h o'" using c(5) that by (simp add: list_all_iff)
    show "hp h1 x = hp h x" if "x \<in> set (op_gives h o')" for x
      by (rule same) (use that \<open>o' \<in> set ops\<close> in \<open>auto simp: gives_def\<close>)
    show "hp h1 p = hp h p" if "op_arg o' = Some p" for p using arg [OF \<open>o' \<in> set ops\<close> that] by blast
  qed
  show g: "gives h1 ops = gives h ops"
    unfolding gives_def by (rule arg_cong [where f = concat]) (use given in auto)
  show "\<forall>o' \<in> set ops. op_value h1 o' = op_value h o'" using given by blast
  have o: "owned h1 (gives h ops @ dropped @ session_foot h1 s)" by (rule movesD(2) [OF moves_frame [OF m c(3)]])
  have "owned h1 (gives h ops @ session_foot h1 s)" by (rule owned_part [OF o]) (use owned_distinct [OF o] in auto)
  moreover have "list_all (op_given_ok h1) ops" using given by (simp add: list_all_iff)
  ultimately show "callable h1 s ops"
    unfolding callable_def g using movesD(1) [OF m] assms(3) arg by blast
qed

lemma run_ops_ok:
  "callable h s ops \<Longrightarrow> \<exists>h'. run_ops ops s h = Inr h' \<and>
     session_takes h s (gives h ops) (overwritten (session_message h s) ops) (Inr h')
       (\<lambda>v. foldl (\<lambda>v op. op_value h op v) v ops)"
proof (induction ops arbitrary: h)
  case Nil
  then have "heap_ok h" "session_ok h s" "owned h (session_foot h s)" by (simp_all add: callable_def gives_def)
  then show ?case by (simp add: takes_def gives_def moves_refl)
next
  case (Cons op ops)
  note c = callableD [OF Cons.prems]
  obtain h1 where r: "run_op op s h = Inr h1" "session_message h1 s = op_message (session_message h s) op"
    and t: "session_takes h s (op_gives h op) (op_drops (session_message h s) op) (Inr h1) (op_value h op)"
    using run_op_ok [OF Cons.prems] by blast
  let ?d = "op_drops (session_message h s) op"
  have m: "moves h h1 (op_gives h op @ session_foot h s) (?d @ session_foot h1 s)" and ok: "session_ok h1 s"
    and at: "session_at h1 s = op_value h op (session_at h s)"
    using t by (simp_all add: takes_def)
  note next_ = callable_step [OF Cons.prems m ok]
  obtain h2 where r2: "run_ops ops s h1 = Inr h2"
    and m2: "moves h1 h2 (gives h ops @ session_foot h1 s) (overwritten (session_message h1 s) ops @ session_foot h2 s)"
    and ok2: "session_ok h2 s" and at2: "session_at h2 s = foldl (\<lambda>v op. op_value h1 op v) (session_at h1 s) ops"
    using Cons.IH [OF next_(1)] next_(2) by (auto simp: takes_def)
  note m1 = moves_frame [OF m c(3)]
  have o1: "owned h1 (?d @ gives h ops @ session_foot h1 s)"
    by (rule owned_part [OF movesD(2) [OF m1]]) (use owned_distinct [OF movesD(2) [OF m1]] in auto)
  have m1': "moves h h1 (gives h (op # ops) @ session_foot h s) (?d @ gives h ops @ session_foot h1 s)"
    by (rule moves_same [OF m1]) (use owned_distinct [OF o1] in \<open>auto simp: gives_def\<close>)
  have "moves h h2 (gives h (op # ops) @ session_foot h s)
      (?d @ overwritten (session_message h1 s) ops @ session_foot h2 s)"
    by (rule moves_trans [OF m1' moves_frame [OF m2 o1]])
  moreover have "foldl (\<lambda>v op. op_value h1 op v) v ops = foldl (\<lambda>v op. op_value h op v) v ops" for v
    by (rule foldl_cong) (use next_(3) in auto)
  ultimately show ?case
    using r r2 ok2 at2 at by (simp add: takes_def overwritten_step)
qed

text \<open>What the getter for the field a call sets returns.\<close>

fun op_getter :: "session_op \<Rightarrow> nat \<Rightarrow> heap \<Rightarrow> nat option c_result" where
  "op_getter (SetHelo p) s h = smf_session_get_helo (Some s) h"
| "op_getter (SetMessageFile p) s h = smf_session_get_message_file (Some s) h"
| "op_getter (SetXforward p) s h = smf_session_get_xforward_addr (Some s) h"
| "op_getter (SetResponse p) s h = smf_session_get_response_msg (Some s) h"
| "op_getter (SetSender p) s h = c_bind (smf_session_get_envelope (Some s) h) (\<lambda>e. smf_envelope_get_sender e h)"
| "op_getter (SetAuthUser p) s h = c_bind (smf_session_get_envelope (Some s) h) (\<lambda>e. smf_envelope_get_auth_user e h)"
| "op_getter (SetAuthPass p) s h = c_bind (smf_session_get_envelope (Some s) h) (\<lambda>e. smf_envelope_get_auth_pass e h)"
| "op_getter (SetNexthop p) s h = c_bind (smf_session_get_envelope (Some s) h) (\<lambda>e. smf_envelope_get_nexthop e h)"
| "op_getter _ s h = Inr None"

lemma session_getter:
  "get_session h s = Inr b \<Longrightarrow> get_session_field f (Some s) h = Inr (f b)"
  by (simp add: get_session_field_def)

lemma envelope_getter:
  "get_envelope h e = Inr b \<Longrightarrow> get_envelope_field f (Some e) h = Inr (f b)"
  by (simp add: get_envelope_field_def)

lemmas getters = smf_session_get_helo_def smf_session_get_message_file_def smf_session_get_xforward_addr_def
  smf_session_get_response_msg_def smf_session_get_envelope_def smf_envelope_get_sender_def
  smf_envelope_get_auth_user_def smf_envelope_get_auth_pass_def smf_envelope_get_nexthop_def

text \<open>A new session can take any calls the caller can make.\<close>

lemma callable_new:
  assumes "heap_ok h" and "mem_session_new random h = (s, h1)" and "owned h (gives h ops)"
    and "list_all (op_given_ok h) ops"
    and "\<forall>op \<in> set ops. \<forall>p. op_arg op = Some p \<longrightarrow> is_string h p \<and> p \<notin> set (gives h ops)"
  shows "callable h1 s ops" and "gives h1 ops = gives h ops"
    and "moves h h1 (gives h ops) (gives h ops @ session_foot h1 s)"
proof -
  note n = session_new_ok [OF assms(1,2)]
  have o0: "owned h (gives h ops @ [])" using assms(3) by simp
  note same = moves_apart(3) [OF n(1) o0]
  have given: "op_gives h1 op = op_gives h op \<and> op_given_ok h1 op" if "op \<in> set ops" for op
  proof -
    have "hp h1 p = hp h p" if "op_arg op = Some p" for p
    proof (rule moves_untouched(2) [OF n(1)])
      show "hp h p \<noteq> None" using assms(5) that \<open>op \<in> set ops\<close> is_string_present [of h p] by blast
    qed simp
    moreover have "op_given_ok h op" using assms(4) that by (simp add: list_all_iff)
    moreover have "hp h1 x = hp h x" if "x \<in> set (op_gives h op)" for x
      by (rule same) (use that \<open>op \<in> set ops\<close> in \<open>auto simp: gives_def\<close>)
    ultimately show ?thesis using given_same [of h op h1] by blast
  qed
  show g: "gives h1 ops = gives h ops"
    unfolding gives_def by (rule arg_cong [where f = concat]) (use given in auto)
  show m1: "moves h h1 (gives h ops) (gives h ops @ session_foot h1 s)" using moves_frame [OF n(1) o0] by simp
  have arg: "is_string h1 p \<and> p \<notin> set (gives h ops @ session_foot h1 s)" if "op \<in> set ops" "op_arg op = Some p" for op p
  proof -
    have p: "is_string h p" "p \<notin> set (gives h ops)" using assms(5) that by blast+
    from moves_untouched [OF m1 is_string_present [OF p(1)] p(2)] p(1) show ?thesis by (simp add: is_string_def)
  qed
  show "callable h1 s ops"
    unfolding callable_def g using movesD(1,2) [OF m1] n(2) given arg by (auto simp: list_all_iff)
qed

lemma overwritten_given: "set (overwritten cur ops) \<subseteq> set (opt_list cur) \<union> set (gives h ops)"
  by (induction cur ops rule: overwritten.induct) (auto simp: gives_def)

section \<open>Properties\<close>

text \<open>
  Claim C16.  On the heap the operations on session and envelope are those on the records: after
  any sequence of calls that keeps to the interface no call has failed, the session on the heap
  stands for what the functions on records give, and nothing but the session and what was handed
  to it has changed.
\<close>

theorem smf_session_calls_refine:
  assumes "callable h s ops"
  shows "\<exists>h'. run_ops ops s h = Inr h' \<and> session_at h' s = foldl (\<lambda>v op. op_value h op v) (session_at h s) ops \<and>
    (\<forall>x. hp h x \<noteq> None \<and> x \<notin> set (gives h ops @ session_foot h s) \<longrightarrow> hp h' x = hp h x)"
proof -
  obtain h' where r: "run_ops ops s h = Inr h'" "session_at h' s = foldl (\<lambda>v op. op_value h op v) (session_at h s) ops"
    and m: "moves h h' (gives h ops @ session_foot h s) (overwritten (session_message h s) ops @ session_foot h' s)"
    using run_ops_ok [OF assms] by (auto simp: takes_def)
  with moves_untouched(2) [OF m] show ?thesis by blast
qed

text \<open>
  Claim C15.  A session gives back what it took: made, used by any sequence of calls, and destroyed,
  it leaves every other block of the heap as it was, and of the messages and user data handed to it
  every block has been freed, once, except the messages that a later one replaced, which are lost.
\<close>

theorem smf_session_life:
  assumes "heap_ok h" and "mem_session_new random h = (s, h1)" and "owned h (gives h ops)"
    and "list_all (op_given_ok h) ops"
    and "\<forall>op \<in> set ops. \<forall>p. op_arg op = Some p \<longrightarrow> is_string h p \<and> p \<notin> set (gives h ops)"
  shows "\<exists>h3. c_bind (run_ops ops s h1) (smf_session_free (Some s)) = Inr h3 \<and>
    (\<forall>x. x \<notin> set (gives h ops) \<longrightarrow> hp h3 x = hp h x) \<and>
    (\<forall>x \<in> set (gives h ops). hp h3 x \<noteq> None \<longleftrightarrow> x \<in> set (overwritten None ops))"
proof -
  note c = callable_new [OF assms]
  obtain h2 where r: "run_ops ops s h1 = Inr h2" "session_ok h2 s"
    and m2: "moves h1 h2 (gives h ops @ session_foot h1 s) (overwritten None ops @ session_foot h2 s)"
    using run_ops_ok [OF c(1)] by (auto simp: takes_def c(2) session_new_ok(4) [OF assms(1,2)])
  note o2 = movesD(2) [OF m2]
  have os: "owned h2 (session_foot h2 s)" using o2 unfolding owned_append by blast
  obtain h3 where f: "smf_session_free (Some s) h2 = Inr h3" "moves h2 h3 (session_foot h2 s) []"
    using freerD [OF session_frees [OF r(2)] movesD(1) [OF m2] os] by (auto simp: frees_def)
  have m: "moves h h3 (gives h ops) (overwritten None ops)"
    using moves_trans [OF moves_trans [OF c(3) m2] moves_frame [OF f(2) o2]] by simp
  have "hp h3 x = hp h x" if "x \<notin> set (gives h ops)" for x
    by (rule movesD(3) [OF m that]) (use overwritten_given [of None ops h] that in auto)
  moreover have "hp h3 x \<noteq> None \<longleftrightarrow> x \<in> set (overwritten None ops)" if "x \<in> set (gives h ops)" for x
    using movesD(5) [OF m that] ownedD [OF movesD(2) [OF m], of x]
    by (cases "x \<in> set (overwritten None ops)") simp_all
  ultimately show ?thesis using r(1) f(1) by auto
qed

text \<open>A caller with two strings and two messages.\<close>

definition ex_heap :: heap where
  "ex_heap = \<lparr>hp = [0 \<mapsto> StrB ''mx'', 1 \<mapsto> StrB ''<a@b>'', 2 \<mapsto> MsgB \<lparr>msg_headers = [], msg_rest = ''old''\<rparr>,
     3 \<mapsto> MsgB \<lparr>msg_headers = [], msg_rest = ''new''\<rparr>], hp_next = 4\<rparr>"

definition ex_calls :: "session_op list" where
  "ex_calls = [SetHelo 0, SetSender 1, SetMessage 2, SetNexthop 0, SetMessage 3]"

lemma ex_calls_ok:
  "heap_ok ex_heap" "owned ex_heap (gives ex_heap ex_calls)" "list_all (op_given_ok ex_heap) ex_calls"
  "\<forall>op \<in> set ex_calls. \<forall>p. op_arg op = Some p \<longrightarrow> is_string ex_heap p \<and> p \<notin> set (gives ex_heap ex_calls)"
  by (simp_all add: heap_ok_def owned_def gives_def ex_heap_def ex_calls_def is_message_def is_string_def)

lemma smf_session_calls_refine_witness:
  "\<exists>h'. run_ops ex_calls (fst (mem_session_new (\<lambda>_. 0) ex_heap)) (snd (mem_session_new (\<lambda>_. 0) ex_heap)) = Inr h' \<and>
     env_sender (ses_envelope (session_at h' (fst (mem_session_new (\<lambda>_. 0) ex_heap)))) = Some ''a@b'' \<and>
     hp h' 0 = Some (StrB ''mx'')"
proof -
  obtain s h1 where n: "mem_session_new (\<lambda>_. 0) ex_heap = (s, h1)" by fastforce
  note c = callable_new [OF ex_calls_ok(1) n ex_calls_ok(2-4)] and new = session_new_ok [OF ex_calls_ok(1) n]
  have same: "hp h1 a = hp ex_heap a" if "a < 2" for a
    by (rule moves_untouched(2) [OF new(1)]) (use that in \<open>auto simp: ex_heap_def less_2_cases_iff\<close>)
  have strs: "str_at h1 0 = ''mx''" "str_at h1 1 = ''<a@b>''"
    using same [of 0] same [of 1] by (simp_all add: str_at_def ex_heap_def)
  have own: "0 \<notin> set (gives h1 ex_calls @ session_foot h1 s)" "hp h1 0 \<noteq> None"
    using c(1) same [of 0] by (auto simp: callable_def ex_calls_def ex_heap_def)
  obtain h' where r: "run_ops ex_calls s h1 = Inr h'"
    "session_at h' s = foldl (\<lambda>v op. op_value h1 op v) (session_at h1 s) ex_calls" "hp h' 0 = hp h1 0"
    using smf_session_calls_refine [OF c(1)] own by blast
  have "env_sender (ses_envelope (session_at h' s)) = Some ''a@b''"
    by (simp add: r(2) ex_calls_def strs strs(2) [simplified] smf_envelope_set_sender_def smf_envelope_set_message_def
        smf_envelope_set_nexthop_def smf_internal_strip_email_addr_def strchr_def)
  with r same [of 0] show ?thesis by (simp add: n) (simp add: ex_heap_def)
qed

lemma smf_session_life_witness:
  "\<exists>h3. c_bind (run_ops ex_calls (fst (mem_session_new (\<lambda>_. 0) ex_heap)) (snd (mem_session_new (\<lambda>_. 0) ex_heap)))
       (smf_session_free (Some (fst (mem_session_new (\<lambda>_. 0) ex_heap)))) = Inr h3 \<and>
     hp h3 0 = Some (StrB ''mx'') \<and> hp h3 2 \<noteq> None \<and> hp h3 3 = None \<and> (\<forall>x \<ge> 4. hp h3 x = None)"
proof -
  obtain s h1 where n: "mem_session_new (\<lambda>_. 0) ex_heap = (s, h1)" by fastforce
  have g: "gives ex_heap ex_calls = [2, 3]" "overwritten None ex_calls = [2]" by (simp_all add: gives_def ex_calls_def)
  from smf_session_life [OF ex_calls_ok(1) n ex_calls_ok(2-4), unfolded g] n show ?thesis
    by (auto simp: ex_heap_def)
qed

text \<open>
  A getter returns the string itself, and a setter frees it before it copies its argument:
  whichever field it is, handing the string of a getter to the setter of the same field reads freed memory.
\<close>

theorem smf_session_set_own_string:
  assumes "session_ok h s" and "op_getter op s h = Inr (Some p)" and "op_arg op = Some p" and "hp h p \<noteq> None"
  shows "run_op op s h = Inl DanglingRead"
proof -
  obtain b where b: "get_session h s = Inr b" using struct_okD [OF assms(1)] by blast
  obtain e where e: "session_envelope h s = Some e" "envelope_ok h e" using session_envelope_Some [OF assms(1)] by blast
  obtain eb where eb: "get_envelope h e = Inr eb" using struct_okD [OF e(2)] by blast
  have se: "sb_envelope b = Some e" using e(1) b by (simp add: session_envelope_def)
  note own = ses_helo_field.set_alias ses_file_field.set_alias ses_xforward_field.set_alias ses_response_field.set_alias
  note eown = env_sender.set_alias env_auth_user.set_alias env_auth_pass.set_alias env_nexthop.set_alias
  show ?thesis
    by (cases op) (use assms(2-4) b se eb own [OF b _ assms(4)] eown [OF eb _ assms(4)] in
      \<open>simp_all add: getters session_getter envelope_getter mem_setters on_envelope_def\<close>)
qed

lemma smf_session_set_own_string_witness:
  "\<exists>h s. session_ok h s \<and> run_op (SetHelo 9) s h = Inl DanglingRead"
proof -
  obtain s h1 where n: "mem_session_new (\<lambda>_. 0) ex_heap = (s, h1)" by fastforce
  obtain h2 where h2: "h2 = m_put 9 (StrB ''mx'') (m_put s (SesB (session_zero\<lparr>sb_helo := Some 9, sb_envelope := Some 6,
      sb_local_users := Some 5\<rparr>)) (m_put 6 (EnvB (envelope_zero\<lparr>eb_recipients := Some 7\<rparr>)) (m_put 5 (ListB []) (m_put 7 (ListB []) h1))))"
    by blast
  have s: "s = 4" using n by (auto simp: mem_session_new_def m_alloc_def ex_heap_def split: prod.splits)
  have ok: "session_ok h2 s"
    by (simp add: h2 s m_put_def struct_ok_def get_session_def session_strs_def session_zero_def is_string_def session_rest_ok_def
        get_envelope_def envelope_strs_def envelope_zero_def envelope_rest_ok_def list_ok_def get_list_def)
  have "run_op (SetHelo 9) s h2 = Inl DanglingRead"
    by (rule smf_session_set_own_string [OF ok, where p = 9 and op = "SetHelo 9"])
      (simp_all add: h2 s m_put_def getters get_session_field_def get_session_def session_zero_def)
  with ok show ?thesis by blast
qed

end
