(* ===== verification/Smf_Cmime.thy ===== *)
theory Smf_Cmime
  imports Smf_Message Smf_Session
begin

text \<open>
  The functions that hand their arguments to libcmime: \<open>smf_list.c\<close>, \<open>smf_header.c\<close>,
  \<open>smf_email_address.c\<close>, \<open>smf_part.c\<close> and the rest of \<open>smf_message.c\<close>.  The library is not part of
  the repository, so its calls are the fields of records, parameters of the functions; what the code
  adds are the assertions, the casts between its own enumerations and the library's, the order of the
  calls, and the places where it reads the library's structs itself.  An object is a value, \<open>None\<close>
  the \<open>NULL\<close> pointer; a function that changes an object returns the changed one.
\<close>

section \<open>Assertions\<close>

definition asserted :: "'a option \<Rightarrow> ('a \<Rightarrow> 'b c_result) \<Rightarrow> 'b c_result" where
  "asserted p f = (case p of None \<Rightarrow> Inl AssertFailed | Some x \<Rightarrow> f x)"

lemma asserted_simps [simp]: "asserted (Some x) f = f x" "asserted None f = Inl AssertFailed"
  by (simp_all add: asserted_def)

lemma asserted_Inr: "asserted p f = Inr y \<longleftrightarrow> (\<exists>x. p = Some x \<and> f x = Inr y)"
  by (cases p) auto

section \<open>Lists\<close>

text \<open>
  A list element is its position.  The library calls are partial in the list: it may be \<open>NULL\<close>,
  and \<open>smf_list.c\<close> does not look.
\<close>

record 'a list_lib =
  ll_new :: "('a \<Rightarrow> unit) \<Rightarrow> int \<times> 'a list option"
  ll_free :: "'a list option \<Rightarrow> int c_result"
  ll_remove :: "'a list option \<Rightarrow> nat option \<Rightarrow> (int \<times> 'a option \<times> 'a list) c_result"
  ll_pop_tail :: "'a list option \<Rightarrow> ('a option \<times> 'a list) c_result"
  ll_pop_head :: "'a list option \<Rightarrow> ('a option \<times> 'a list) c_result"
  ll_insert_next :: "'a list option \<Rightarrow> nat option \<Rightarrow> 'a \<Rightarrow> (int \<times> 'a list) c_result"
  ll_insert_prev :: "'a list option \<Rightarrow> nat option \<Rightarrow> 'a \<Rightarrow> (int \<times> 'a list) c_result"
  ll_append :: "'a list option \<Rightarrow> 'a \<Rightarrow> (int \<times> 'a list) c_result"
  ll_prepend :: "'a list option \<Rightarrow> 'a \<Rightarrow> (int \<times> 'a list) c_result"
  ll_map :: "'a list option \<Rightarrow> ('a \<Rightarrow> 'a) \<Rightarrow> 'a list c_result"

definition smf_list_new :: "'a list_lib \<Rightarrow> ('a \<Rightarrow> unit) \<Rightarrow> int \<times> 'a list option" where
  "smf_list_new lib destroy = ll_new lib destroy"

definition smf_list_free :: "'a list_lib \<Rightarrow> 'a list option \<Rightarrow> int c_result" where
  "smf_list_free lib list = ll_free lib list"

definition smf_list_remove :: "'a list_lib \<Rightarrow> 'a list option \<Rightarrow> nat option \<Rightarrow> (int \<times> 'a option \<times> 'a list) c_result" where
  "smf_list_remove lib list elem = ll_remove lib list elem"

definition smf_list_pop_tail :: "'a list_lib \<Rightarrow> 'a list option \<Rightarrow> ('a option \<times> 'a list) c_result" where
  "smf_list_pop_tail lib list = ll_pop_tail lib list"

definition smf_list_pop_head :: "'a list_lib \<Rightarrow> 'a list option \<Rightarrow> ('a option \<times> 'a list) c_result" where
  "smf_list_pop_head lib list = ll_pop_head lib list"

definition smf_list_insert_next :: "'a list_lib \<Rightarrow> 'a list option \<Rightarrow> nat option \<Rightarrow> 'a \<Rightarrow> (int \<times> 'a list) c_result" where
  "smf_list_insert_next lib list elem data = ll_insert_next lib list elem data"

definition smf_list_insert_prev :: "'a list_lib \<Rightarrow> 'a list option \<Rightarrow> nat option \<Rightarrow> 'a \<Rightarrow> (int \<times> 'a list) c_result" where
  "smf_list_insert_prev lib list elem data = ll_insert_prev lib list elem data"

definition smf_list_append :: "'a list_lib \<Rightarrow> 'a list option \<Rightarrow> 'a \<Rightarrow> (int \<times> 'a list) c_result" where
  "smf_list_append lib list data = ll_append lib list data"

definition smf_list_prepend :: "'a list_lib \<Rightarrow> 'a list option \<Rightarrow> 'a \<Rightarrow> (int \<times> 'a list) c_result" where
  "smf_list_prepend lib list data = ll_prepend lib list data"

text \<open>
  The callback gets the element and the arguments of the caller.
\<close>

definition smf_list_map :: "'a list_lib \<Rightarrow> 'a list option \<Rightarrow> ('a \<Rightarrow> 'b \<Rightarrow> 'a) \<Rightarrow> 'b \<Rightarrow> 'a list c_result" where
  "smf_list_map lib list func args = ll_map lib list (\<lambda>e. func e args)"

text \<open>
  The macros of \<open>smf_list.h\<close> read the fields of the list and of its elements.
\<close>

definition smf_list_size :: "'a list option \<Rightarrow> nat c_result" where
  "smf_list_size list = (case list of None \<Rightarrow> Inl NullDeref | Some xs \<Rightarrow> Inr (length xs))"

definition smf_list_head :: "'a list option \<Rightarrow> nat option c_result" where
  "smf_list_head list =
     (case list of None \<Rightarrow> Inl NullDeref | Some xs \<Rightarrow> Inr (if xs = [] then None else Some 0))"

definition smf_list_tail :: "'a list option \<Rightarrow> nat option c_result" where
  "smf_list_tail list =
     (case list of None \<Rightarrow> Inl NullDeref | Some xs \<Rightarrow> Inr (if xs = [] then None else Some (length xs - 1)))"

definition smf_list_is_head :: "'a list \<Rightarrow> nat option \<Rightarrow> int c_result" where
  "smf_list_is_head xs elem =
     (case elem of None \<Rightarrow> Inl NullDeref | Some i \<Rightarrow> Inr (if i = 0 then 1 else 0))"

definition smf_list_is_tail :: "'a list \<Rightarrow> nat option \<Rightarrow> int c_result" where
  "smf_list_is_tail xs elem =
     (case elem of None \<Rightarrow> Inl NullDeref | Some i \<Rightarrow> Inr (if i + 1 = length xs then 1 else 0))"

definition smf_list_data :: "'a list \<Rightarrow> nat option \<Rightarrow> 'a c_result" where
  "smf_list_data xs elem =
     (case elem of Some i \<Rightarrow> if i < length xs then Inr (xs ! i) else Inl DanglingRead | None \<Rightarrow> Inl NullDeref)"

definition smf_list_next :: "'a list \<Rightarrow> nat option \<Rightarrow> nat option c_result" where
  "smf_list_next xs elem =
     (case elem of None \<Rightarrow> Inl NullDeref | Some i \<Rightarrow> Inr (if i + 1 < length xs then Some (i + 1) else None))"

definition smf_list_prev :: "'a list \<Rightarrow> nat option \<Rightarrow> nat option c_result" where
  "smf_list_prev xs elem =
     (case elem of None \<Rightarrow> Inl NullDeref | Some i \<Rightarrow> Inr (if i = 0 then None else Some (i - 1)))"

section \<open>Headers\<close>

record header_lib =
  hl_new :: "header option"
  hl_set_name :: "header \<Rightarrow> string \<Rightarrow> header"
  hl_get_name :: "header \<Rightarrow> string option"
  hl_set_value :: "header \<Rightarrow> string option \<Rightarrow> int \<Rightarrow> header"
  hl_get_value :: "header \<Rightarrow> int \<Rightarrow> string option"
  hl_to_string :: "header \<Rightarrow> string option"
  hl_count :: "header \<Rightarrow> 64 word"

definition smf_header_new :: "header_lib \<Rightarrow> header option" where
  "smf_header_new lib = hl_new lib"

text \<open>
  Freeing ends the object: there is no value left.
\<close>

definition smf_header_free :: "header option \<Rightarrow> unit c_result" where
  "smf_header_free hdr = asserted hdr (\<lambda>h. Inr ())"

definition smf_header_set_name :: "header_lib \<Rightarrow> header option \<Rightarrow> string option \<Rightarrow> header c_result" where
  "smf_header_set_name lib hdr name =
     asserted hdr (\<lambda>h. asserted name (\<lambda>n. Inr (hl_set_name lib h n)))"

definition smf_header_get_name :: "header_lib \<Rightarrow> header option \<Rightarrow> string option c_result" where
  "smf_header_get_name lib hdr = asserted hdr (\<lambda>h. Inr (hl_get_name lib h))"

text \<open>
  The value is not tested.
\<close>

definition smf_header_set_value :: "header_lib \<Rightarrow> header option \<Rightarrow> string option \<Rightarrow> int \<Rightarrow> header c_result" where
  "smf_header_set_value lib hdr value overwrite =
     asserted hdr (\<lambda>h. Inr (hl_set_value lib h value overwrite))"

definition smf_header_get_value :: "header_lib \<Rightarrow> header option \<Rightarrow> int \<Rightarrow> string option c_result" where
  "smf_header_get_value lib hdr pos = asserted hdr (\<lambda>h. Inr (hl_get_value lib h pos))"

definition smf_header_to_string :: "header_lib \<Rightarrow> header option \<Rightarrow> string option c_result" where
  "smf_header_to_string lib hdr = asserted hdr (\<lambda>h. Inr (hl_to_string lib h))"

text \<open>
  The count is a \<open>size_t\<close> cut down to an \<open>int\<close>.
\<close>

definition smf_header_get_count :: "header_lib \<Rightarrow> header option \<Rightarrow> int c_result" where
  "smf_header_get_count lib hdr = asserted hdr (\<lambda>h. Inr (sint (ucast (hl_count lib h) :: 32 word)))"

section \<open>Email addresses\<close>

datatype email_address_type =
    SMF_EMAIL_ADDRESS_TYPE_TO
  | SMF_EMAIL_ADDRESS_TYPE_CC
  | SMF_EMAIL_ADDRESS_TYPE_BCC
  | SMF_EMAIL_ADDRESS_TYPE_FROM

text \<open>
  The cast to the enumeration of the library keeps the number, and a number of the library that is
  none of the four stays a number.
\<close>

fun address_type_code :: "email_address_type \<Rightarrow> nat" where
  "address_type_code SMF_EMAIL_ADDRESS_TYPE_TO = 0"
| "address_type_code SMF_EMAIL_ADDRESS_TYPE_CC = 1"
| "address_type_code SMF_EMAIL_ADDRESS_TYPE_BCC = 2"
| "address_type_code SMF_EMAIL_ADDRESS_TYPE_FROM = 3"

record 'e address_lib =
  al_new :: "'e option"
  al_parse_string :: "string \<Rightarrow> 'e option"
  al_to_string :: "'e \<Rightarrow> string option"
  al_set_type :: "'e \<Rightarrow> nat \<Rightarrow> 'e"
  al_get_type :: "'e \<Rightarrow> nat"
  al_set_name :: "'e \<Rightarrow> string \<Rightarrow> 'e"
  al_get_name :: "'e \<Rightarrow> string option"
  al_set_email :: "'e \<Rightarrow> string \<Rightarrow> 'e"
  al_get_email :: "'e \<Rightarrow> string option"
  al_email :: "'e \<Rightarrow> string option"   \<comment> \<open>the field \<open>email\<close>\<close>

definition smf_email_address_new :: "'e address_lib \<Rightarrow> 'e option" where
  "smf_email_address_new lib = al_new lib"

definition smf_email_address_free :: "'e option \<Rightarrow> unit c_result" where
  "smf_email_address_free ea = asserted ea (\<lambda>e. Inr ())"

definition smf_email_address_parse_string :: "'e address_lib \<Rightarrow> string option \<Rightarrow> 'e option c_result" where
  "smf_email_address_parse_string lib addr = asserted addr (\<lambda>a. Inr (al_parse_string lib a))"

definition smf_email_address_to_string :: "'e address_lib \<Rightarrow> 'e option \<Rightarrow> string option c_result" where
  "smf_email_address_to_string lib ea = asserted ea (\<lambda>e. Inr (al_to_string lib e))"

definition smf_email_address_set_type :: "'e address_lib \<Rightarrow> 'e option \<Rightarrow> email_address_type \<Rightarrow> 'e c_result" where
  "smf_email_address_set_type lib ea t = asserted ea (\<lambda>e. Inr (al_set_type lib e (address_type_code t)))"

definition smf_email_address_get_type :: "'e address_lib \<Rightarrow> 'e option \<Rightarrow> nat c_result" where
  "smf_email_address_get_type lib ea = asserted ea (\<lambda>e. Inr (al_get_type lib e))"

definition smf_email_address_set_name :: "'e address_lib \<Rightarrow> 'e option \<Rightarrow> string option \<Rightarrow> 'e c_result" where
  "smf_email_address_set_name lib ea name =
     asserted ea (\<lambda>e. asserted name (\<lambda>n. Inr (al_set_name lib e n)))"

definition smf_email_address_get_name :: "'e address_lib \<Rightarrow> 'e option \<Rightarrow> string option c_result" where
  "smf_email_address_get_name lib ea = asserted ea (\<lambda>e. Inr (al_get_name lib e))"

definition smf_email_address_set_email :: "'e address_lib \<Rightarrow> 'e option \<Rightarrow> string option \<Rightarrow> 'e c_result" where
  "smf_email_address_set_email lib ea email =
     asserted ea (\<lambda>e. asserted email (\<lambda>m. Inr (al_set_email lib e m)))"

definition smf_email_address_get_email :: "'e address_lib \<Rightarrow> 'e option \<Rightarrow> string option c_result" where
  "smf_email_address_get_email lib ea = asserted ea (\<lambda>e. Inr (al_get_email lib e))"

text \<open>
  The two functions that work on the text themselves, on the library's objects.  The parser may fail;
  then the next call meets an assertion, and an address without text is read through \<open>NULL\<close>.
\<close>

definition email_address_is_empty :: "'e address_lib \<Rightarrow> 'e option \<Rightarrow> bool c_result" where
  "email_address_is_empty lib ea =
     asserted ea (\<lambda>e. case al_email lib e of None \<Rightarrow> Inl NullDeref | Some m \<Rightarrow> Inr (smf_email_address_is_empty m))"

definition email_address_get_simplified :: "'e address_lib \<Rightarrow> 'e option \<Rightarrow> 'e c_result" where
  "email_address_get_simplified lib ea =
     asserted ea (\<lambda>e.
     asserted (al_email lib e) (\<lambda>m.
       case smf_email_address_parse_string lib (Some m) of
         Inl f \<Rightarrow> Inl f
       | Inr p \<Rightarrow>
           (case smf_email_address_get_email lib p of
              Inl f \<Rightarrow> Inl f
            | Inr None \<Rightarrow> Inl NullDeref
            | Inr (Some t) \<Rightarrow> smf_email_address_set_email lib p (Some (smf_email_address_get_simplified t)))))"

section \<open>Message parts\<close>

text \<open>
  \<open>smf_part.c\<close> asserts nothing: what the library does with \<open>NULL\<close> is its result.
\<close>

record 'p part_lib =
  pl_new :: "'p option"
  pl_free :: "'p option \<Rightarrow> unit c_result"
  pl_set_content_type :: "'p option \<Rightarrow> string option \<Rightarrow> 'p c_result"
  pl_get_content_type :: "'p option \<Rightarrow> string option c_result"
  pl_set_content_disposition :: "'p option \<Rightarrow> string option \<Rightarrow> 'p c_result"
  pl_get_content_disposition :: "'p option \<Rightarrow> string option c_result"
  pl_set_content_transfer_encoding :: "'p option \<Rightarrow> string option \<Rightarrow> 'p c_result"
  pl_get_content_transfer_encoding :: "'p option \<Rightarrow> string option c_result"
  pl_set_content_id :: "'p option \<Rightarrow> string option \<Rightarrow> 'p c_result"
  pl_get_content_id :: "'p option \<Rightarrow> string option c_result"
  pl_set_content :: "'p option \<Rightarrow> string option \<Rightarrow> 'p c_result"
  pl_set_postface :: "'p option \<Rightarrow> string option \<Rightarrow> 'p c_result"
  pl_content :: "'p \<Rightarrow> string option"
  pl_postface :: "'p \<Rightarrow> string option"
  pl_to_string :: "'p option \<Rightarrow> string option \<Rightarrow> string option c_result"
  pl_from_file :: "'p option \<Rightarrow> string option \<Rightarrow> string option \<Rightarrow> (int \<times> 'p option) c_result"
  pl_to_file :: "'p option \<Rightarrow> string option \<Rightarrow> int c_result"
  pl_from_string :: "'p option \<Rightarrow> string option \<Rightarrow> (int \<times> 'p option) c_result"

definition smf_part_new :: "'p part_lib \<Rightarrow> 'p option" where
  "smf_part_new lib = pl_new lib"

definition smf_part_free :: "'p part_lib \<Rightarrow> 'p option \<Rightarrow> unit c_result" where
  "smf_part_free lib part = pl_free lib part"

definition smf_part_set_content_type :: "'p part_lib \<Rightarrow> 'p option \<Rightarrow> string option \<Rightarrow> 'p c_result" where
  "smf_part_set_content_type lib part s = pl_set_content_type lib part s"

definition smf_part_get_content_type :: "'p part_lib \<Rightarrow> 'p option \<Rightarrow> string option c_result" where
  "smf_part_get_content_type lib part = pl_get_content_type lib part"

definition smf_part_set_content_disposition :: "'p part_lib \<Rightarrow> 'p option \<Rightarrow> string option \<Rightarrow> 'p c_result" where
  "smf_part_set_content_disposition lib part s = pl_set_content_disposition lib part s"

definition smf_part_get_content_disposition :: "'p part_lib \<Rightarrow> 'p option \<Rightarrow> string option c_result" where
  "smf_part_get_content_disposition lib part = pl_get_content_disposition lib part"

definition smf_part_set_content_transfer_encoding :: "'p part_lib \<Rightarrow> 'p option \<Rightarrow> string option \<Rightarrow> 'p c_result" where
  "smf_part_set_content_transfer_encoding lib part s = pl_set_content_transfer_encoding lib part s"

definition smf_part_get_content_transfer_encoding :: "'p part_lib \<Rightarrow> 'p option \<Rightarrow> string option c_result" where
  "smf_part_get_content_transfer_encoding lib part = pl_get_content_transfer_encoding lib part"

definition smf_part_set_content_id :: "'p part_lib \<Rightarrow> 'p option \<Rightarrow> string option \<Rightarrow> 'p c_result" where
  "smf_part_set_content_id lib part s = pl_set_content_id lib part s"

definition smf_part_get_content_id :: "'p part_lib \<Rightarrow> 'p option \<Rightarrow> string option c_result" where
  "smf_part_get_content_id lib part = pl_get_content_id lib part"

definition smf_part_set_content :: "'p part_lib \<Rightarrow> 'p option \<Rightarrow> string option \<Rightarrow> 'p c_result" where
  "smf_part_set_content lib part s = pl_set_content lib part s"

definition smf_part_set_postface :: "'p part_lib \<Rightarrow> 'p option \<Rightarrow> string option \<Rightarrow> 'p c_result" where
  "smf_part_set_postface lib part s = pl_set_postface lib part s"

definition smf_part_get_content :: "'p part_lib \<Rightarrow> 'p option \<Rightarrow> string option c_result" where
  "smf_part_get_content lib part =
     (case part of None \<Rightarrow> Inl NullDeref | Some p \<Rightarrow> Inr (pl_content lib p))"

definition smf_part_get_postface :: "'p part_lib \<Rightarrow> 'p option \<Rightarrow> string option c_result" where
  "smf_part_get_postface lib part =
     (case part of None \<Rightarrow> Inl NullDeref | Some p \<Rightarrow> Inr (pl_postface lib p))"

definition smf_part_to_string :: "'p part_lib \<Rightarrow> 'p option \<Rightarrow> string option \<Rightarrow> string option c_result" where
  "smf_part_to_string lib part nl = pl_to_string lib part nl"

definition smf_part_from_file :: "'p part_lib \<Rightarrow> 'p option \<Rightarrow> string option \<Rightarrow> string option \<Rightarrow> (int \<times> 'p option) c_result" where
  "smf_part_from_file lib part filename nl = pl_from_file lib part filename nl"

definition smf_part_to_file :: "'p part_lib \<Rightarrow> 'p option \<Rightarrow> string option \<Rightarrow> int c_result" where
  "smf_part_to_file lib part filename = pl_to_file lib part filename"

definition smf_part_from_string :: "'p part_lib \<Rightarrow> 'p option \<Rightarrow> string option \<Rightarrow> (int \<times> 'p option) c_result" where
  "smf_part_from_string lib part content = pl_from_string lib part content"

section \<open>Messages\<close>

record ('e, 'p) message_lib =
  ml_new :: "message option"
  ml_set_sender :: "message \<Rightarrow> string \<Rightarrow> message"
  ml_get_sender :: "message \<Rightarrow> 'e option"
  ml_get_sender_string :: "message option \<Rightarrow> string option c_result"
  ml_set_message_id :: "message \<Rightarrow> string \<Rightarrow> message"
  ml_get_message_id :: "message \<Rightarrow> string option"
  ml_set_header :: "message \<Rightarrow> string \<Rightarrow> int \<times> message"
  ml_get_header :: "message \<Rightarrow> string \<Rightarrow> nat option"
  ml_get_headers :: "message \<Rightarrow> header list"
  ml_add_recipient :: "message \<Rightarrow> string \<Rightarrow> nat \<Rightarrow> int \<times> message"
  ml_get_recipients :: "message \<Rightarrow> 'e list"
  ml_set_content_type :: "message \<Rightarrow> string \<Rightarrow> message"
  ml_get_content_type :: "message \<Rightarrow> string option"
  ml_set_content_transfer_encoding :: "message \<Rightarrow> string \<Rightarrow> message"
  ml_get_content_transfer_encoding :: "message \<Rightarrow> string option"
  ml_set_content_id :: "message \<Rightarrow> string \<Rightarrow> message"
  ml_get_content_id :: "message \<Rightarrow> string option"
  ml_set_mime_version :: "message \<Rightarrow> string \<Rightarrow> message"
  ml_get_mime_version :: "message \<Rightarrow> string option"
  ml_set_date :: "message \<Rightarrow> string \<Rightarrow> message"
  ml_get_date :: "message \<Rightarrow> string option"
  ml_set_date_now :: "message \<Rightarrow> int \<times> message"
  ml_set_boundary :: "message \<Rightarrow> string \<Rightarrow> message"
  ml_get_boundary :: "message \<Rightarrow> string option"
  ml_generate_boundary :: "string option"
  ml_add_generated_boundary :: "message \<Rightarrow> message"
  ml_from_file :: "message option \<Rightarrow> string \<Rightarrow> int \<Rightarrow> int \<times> message option"
  ml_to_file :: "message \<Rightarrow> string \<Rightarrow> int"
  ml_to_string :: "message \<Rightarrow> string option"
  ml_from_string :: "message option \<Rightarrow> string \<Rightarrow> int \<Rightarrow> int \<times> message option"
  ml_set_subject :: "message \<Rightarrow> string \<Rightarrow> message"
  ml_get_subject :: "message \<Rightarrow> string option"
  ml_prepend_subject :: "message \<Rightarrow> string \<Rightarrow> message"
  ml_append_subject :: "message \<Rightarrow> string \<Rightarrow> message"
  ml_set_body :: "message \<Rightarrow> string \<Rightarrow> int \<times> message"
  ml_append_part :: "message \<Rightarrow> 'p \<Rightarrow> int \<times> message"
  ml_parts :: "message \<Rightarrow> 'p list"
  ml_add_attachment :: "message \<Rightarrow> string \<Rightarrow> message"
  ml_create_skeleton :: "string \<Rightarrow> string \<Rightarrow> string \<Rightarrow> message option"

definition smf_message_new :: "('e, 'p) message_lib \<Rightarrow> message option" where
  "smf_message_new lib = ml_new lib"

definition smf_message_set_sender :: "('e, 'p) message_lib \<Rightarrow> message option \<Rightarrow> string option \<Rightarrow> message c_result" where
  "smf_message_set_sender lib msg sender =
     asserted msg (\<lambda>m. asserted sender (\<lambda>x. Inr (ml_set_sender lib m x)))"

definition smf_message_get_sender :: "('e, 'p) message_lib \<Rightarrow> message option \<Rightarrow> 'e option c_result" where
  "smf_message_get_sender lib msg = asserted msg (\<lambda>m. Inr (ml_get_sender lib m))"

text \<open>
  This one has no assertion.
\<close>

definition smf_message_get_sender_string :: "('e, 'p) message_lib \<Rightarrow> message option \<Rightarrow> string option c_result" where
  "smf_message_get_sender_string lib msg = ml_get_sender_string lib msg"

definition smf_message_set_message_id :: "('e, 'p) message_lib \<Rightarrow> message option \<Rightarrow> string option \<Rightarrow> message c_result" where
  "smf_message_set_message_id lib msg message_id =
     asserted msg (\<lambda>m. asserted message_id (\<lambda>x. Inr (ml_set_message_id lib m x)))"

definition smf_message_get_message_id :: "('e, 'p) message_lib \<Rightarrow> message option \<Rightarrow> string option c_result" where
  "smf_message_get_message_id lib msg = asserted msg (\<lambda>m. Inr (ml_get_message_id lib m))"

definition smf_message_set_header :: "('e, 'p) message_lib \<Rightarrow> message option \<Rightarrow> string option \<Rightarrow> (int \<times> message) c_result" where
  "smf_message_set_header lib msg hdr =
     asserted msg (\<lambda>m. asserted hdr (\<lambda>x. Inr (ml_set_header lib m x)))"

definition smf_message_get_header :: "('e, 'p) message_lib \<Rightarrow> message option \<Rightarrow> string option \<Rightarrow> nat option c_result" where
  "smf_message_get_header lib msg hdr =
     asserted msg (\<lambda>m. asserted hdr (\<lambda>x. Inr (ml_get_header lib m x)))"

definition smf_message_get_headers :: "('e, 'p) message_lib \<Rightarrow> message option \<Rightarrow> header list c_result" where
  "smf_message_get_headers lib msg = asserted msg (\<lambda>m. Inr (ml_get_headers lib m))"

definition smf_message_add_recipient :: "('e, 'p) message_lib \<Rightarrow> message option \<Rightarrow> string option \<Rightarrow> email_address_type \<Rightarrow> (int \<times> message) c_result" where
  "smf_message_add_recipient lib msg recipient t =
     asserted msg (\<lambda>m. asserted recipient (\<lambda>x. Inr (ml_add_recipient lib m x (address_type_code t))))"

definition smf_message_get_recipients :: "('e, 'p) message_lib \<Rightarrow> message option \<Rightarrow> 'e list c_result" where
  "smf_message_get_recipients lib msg = asserted msg (\<lambda>m. Inr (ml_get_recipients lib m))"

definition smf_message_set_content_type :: "('e, 'p) message_lib \<Rightarrow> message option \<Rightarrow> string option \<Rightarrow> message c_result" where
  "smf_message_set_content_type lib msg s =
     asserted msg (\<lambda>m. asserted s (\<lambda>x. Inr (ml_set_content_type lib m x)))"

definition smf_message_get_content_type :: "('e, 'p) message_lib \<Rightarrow> message option \<Rightarrow> string option c_result" where
  "smf_message_get_content_type lib msg = asserted msg (\<lambda>m. Inr (ml_get_content_type lib m))"

definition smf_message_set_content_transfer_encoding :: "('e, 'p) message_lib \<Rightarrow> message option \<Rightarrow> string option \<Rightarrow> message c_result" where
  "smf_message_set_content_transfer_encoding lib msg s =
     asserted msg (\<lambda>m. asserted s (\<lambda>x. Inr (ml_set_content_transfer_encoding lib m x)))"

definition smf_message_get_content_transfer_encoding :: "('e, 'p) message_lib \<Rightarrow> message option \<Rightarrow> string option c_result" where
  "smf_message_get_content_transfer_encoding lib msg =
     asserted msg (\<lambda>m. Inr (ml_get_content_transfer_encoding lib m))"

definition smf_message_set_content_id :: "('e, 'p) message_lib \<Rightarrow> message option \<Rightarrow> string option \<Rightarrow> message c_result" where
  "smf_message_set_content_id lib msg s =
     asserted msg (\<lambda>m. asserted s (\<lambda>x. Inr (ml_set_content_id lib m x)))"

definition smf_message_get_content_id :: "('e, 'p) message_lib \<Rightarrow> message option \<Rightarrow> string option c_result" where
  "smf_message_get_content_id lib msg = asserted msg (\<lambda>m. Inr (ml_get_content_id lib m))"

definition smf_message_set_mime_version :: "('e, 'p) message_lib \<Rightarrow> message option \<Rightarrow> string option \<Rightarrow> message c_result" where
  "smf_message_set_mime_version lib msg s =
     asserted msg (\<lambda>m. asserted s (\<lambda>x. Inr (ml_set_mime_version lib m x)))"

definition smf_message_get_mime_version :: "('e, 'p) message_lib \<Rightarrow> message option \<Rightarrow> string option c_result" where
  "smf_message_get_mime_version lib msg = asserted msg (\<lambda>m. Inr (ml_get_mime_version lib m))"

definition smf_message_set_date :: "('e, 'p) message_lib \<Rightarrow> message option \<Rightarrow> string option \<Rightarrow> message c_result" where
  "smf_message_set_date lib msg s = asserted msg (\<lambda>m. asserted s (\<lambda>x. Inr (ml_set_date lib m x)))"

definition smf_message_get_date :: "('e, 'p) message_lib \<Rightarrow> message option \<Rightarrow> string option c_result" where
  "smf_message_get_date lib msg = asserted msg (\<lambda>m. Inr (ml_get_date lib m))"

definition smf_message_set_date_now :: "('e, 'p) message_lib \<Rightarrow> message option \<Rightarrow> (int \<times> message) c_result" where
  "smf_message_set_date_now lib msg = asserted msg (\<lambda>m. Inr (ml_set_date_now lib m))"

definition smf_message_set_boundary :: "('e, 'p) message_lib \<Rightarrow> message option \<Rightarrow> string option \<Rightarrow> message c_result" where
  "smf_message_set_boundary lib msg boundary =
     asserted msg (\<lambda>m. asserted boundary (\<lambda>x. Inr (ml_set_boundary lib m x)))"

definition smf_message_get_boundary :: "('e, 'p) message_lib \<Rightarrow> message option \<Rightarrow> string option c_result" where
  "smf_message_get_boundary lib msg = asserted msg (\<lambda>m. Inr (ml_get_boundary lib m))"

definition smf_message_generate_boundary :: "('e, 'p) message_lib \<Rightarrow> string option" where
  "smf_message_generate_boundary lib = ml_generate_boundary lib"

definition smf_message_add_generated_boundary :: "('e, 'p) message_lib \<Rightarrow> message option \<Rightarrow> message c_result" where
  "smf_message_add_generated_boundary lib msg = asserted msg (\<lambda>m. Inr (ml_add_generated_boundary lib m))"

text \<open>
  The address of the message pointer is asserted, not the message.
\<close>

definition smf_message_from_file :: "('e, 'p) message_lib \<Rightarrow> message option option \<Rightarrow> string option \<Rightarrow> int \<Rightarrow> (int \<times> message option) c_result" where
  "smf_message_from_file lib out filename header_only =
     asserted out (\<lambda>m. asserted filename (\<lambda>x. Inr (ml_from_file lib m x header_only)))"

definition smf_message_to_file :: "('e, 'p) message_lib \<Rightarrow> message option \<Rightarrow> string option \<Rightarrow> int c_result" where
  "smf_message_to_file lib msg filename =
     asserted msg (\<lambda>m. asserted filename (\<lambda>x. Inr (ml_to_file lib m x)))"

definition smf_message_to_string :: "('e, 'p) message_lib \<Rightarrow> message option \<Rightarrow> string option c_result" where
  "smf_message_to_string lib msg = asserted msg (\<lambda>m. Inr (ml_to_string lib m))"

definition smf_message_from_string :: "('e, 'p) message_lib \<Rightarrow> message option option \<Rightarrow> string option \<Rightarrow> int \<Rightarrow> (int \<times> message option) c_result" where
  "smf_message_from_string lib out content header_only =
     asserted out (\<lambda>m. asserted content (\<lambda>x. Inr (ml_from_string lib m x header_only)))"

definition smf_message_set_subject :: "('e, 'p) message_lib \<Rightarrow> message option \<Rightarrow> string option \<Rightarrow> message c_result" where
  "smf_message_set_subject lib msg s =
     asserted msg (\<lambda>m. asserted s (\<lambda>x. Inr (ml_set_subject lib m x)))"

definition smf_message_get_subject :: "('e, 'p) message_lib \<Rightarrow> message option \<Rightarrow> string option c_result" where
  "smf_message_get_subject lib msg = asserted msg (\<lambda>m. Inr (ml_get_subject lib m))"

definition smf_message_prepend_subject :: "('e, 'p) message_lib \<Rightarrow> message option \<Rightarrow> string option \<Rightarrow> message c_result" where
  "smf_message_prepend_subject lib msg s =
     asserted msg (\<lambda>m. asserted s (\<lambda>x. Inr (ml_prepend_subject lib m x)))"

definition smf_message_append_subject :: "('e, 'p) message_lib \<Rightarrow> message option \<Rightarrow> string option \<Rightarrow> message c_result" where
  "smf_message_append_subject lib msg s =
     asserted msg (\<lambda>m. asserted s (\<lambda>x. Inr (ml_append_subject lib m x)))"

definition smf_message_set_body :: "('e, 'p) message_lib \<Rightarrow> message option \<Rightarrow> string option \<Rightarrow> (int \<times> message) c_result" where
  "smf_message_set_body lib msg content =
     asserted msg (\<lambda>m. asserted content (\<lambda>x. Inr (ml_set_body lib m x)))"

definition smf_message_append_part :: "('e, 'p) message_lib \<Rightarrow> message option \<Rightarrow> 'p option \<Rightarrow> (int \<times> message) c_result" where
  "smf_message_append_part lib msg part =
     asserted msg (\<lambda>m. asserted part (\<lambda>x. Inr (ml_append_part lib m x)))"

definition smf_message_get_part_count :: "('e, 'p) message_lib \<Rightarrow> message option \<Rightarrow> nat c_result" where
  "smf_message_get_part_count lib msg = asserted msg (\<lambda>m. smf_list_size (Some (ml_parts lib m)))"

definition smf_message_add_attachment :: "('e, 'p) message_lib \<Rightarrow> message option \<Rightarrow> string option \<Rightarrow> message c_result" where
  "smf_message_add_attachment lib msg attachment =
     asserted msg (\<lambda>m. asserted attachment (\<lambda>x. Inr (ml_add_attachment lib m x)))"

definition smf_message_create_skeleton :: "('e, 'p) message_lib \<Rightarrow> string option \<Rightarrow> string option \<Rightarrow> string option \<Rightarrow> message option c_result" where
  "smf_message_create_skeleton lib sender recipient subject =
     asserted sender (\<lambda>a. asserted recipient (\<lambda>b. asserted subject (\<lambda>c. Inr (ml_create_skeleton lib a b c))))"

definition list_end_data :: "('p list option \<Rightarrow> nat option c_result) \<Rightarrow> 'p list \<Rightarrow> 'p c_result" where
  "list_end_data which ps = (case which (Some ps) of Inl f \<Rightarrow> Inl f | Inr elem \<Rightarrow> smf_list_data ps elem)"

definition smf_message_part_first :: "('e, 'p) message_lib \<Rightarrow> message option \<Rightarrow> 'p c_result" where
  "smf_message_part_first lib msg = asserted msg (\<lambda>m. list_end_data smf_list_head (ml_parts lib m))"

definition smf_message_part_last :: "('e, 'p) message_lib \<Rightarrow> message option \<Rightarrow> 'p c_result" where
  "smf_message_part_last lib msg = asserted msg (\<lambda>m. list_end_data smf_list_tail (ml_parts lib m))"

section \<open>Walking a list\<close>

text \<open>
  The loops of the code over a list: \<open>elem = smf_list_head (list)\<close>, then, while \<open>elem\<close> is not
  \<open>NULL\<close>, \<open>smf_list_data (elem)\<close> and \<open>elem = smf_list_next (elem)\<close>; or from the tail with \<open>smf_list_prev\<close>.
\<close>

function list_forward :: "'a list \<Rightarrow> nat option \<Rightarrow> 'a list c_result" where
  "list_forward xs elem =
     (case elem of
        None \<Rightarrow> Inr []
      | Some i \<Rightarrow>
          (case (smf_list_data xs elem, smf_list_next xs elem) of
             (Inr x, Inr e) \<Rightarrow> map_sum id ((#) x) (list_forward xs e)
           | (Inl f, _) \<Rightarrow> Inl f
           | (_, Inl f) \<Rightarrow> Inl f))"
  by pat_completeness auto
termination
  by (relation "measure (\<lambda>(xs, elem). case elem of None \<Rightarrow> 0 | Some i \<Rightarrow> Suc (length xs - i))")
     (auto simp: smf_list_next_def split: if_splits option.splits)

function list_backward :: "'a list \<Rightarrow> nat option \<Rightarrow> 'a list c_result" where
  "list_backward xs elem =
     (case elem of
        None \<Rightarrow> Inr []
      | Some i \<Rightarrow>
          (case (smf_list_data xs elem, smf_list_prev xs elem) of
             (Inr x, Inr e) \<Rightarrow> map_sum id ((#) x) (list_backward xs e)
           | (Inl f, _) \<Rightarrow> Inl f
           | (_, Inl f) \<Rightarrow> Inl f))"
  by pat_completeness auto
termination
  by (relation "measure (\<lambda>(xs, elem). case elem of None \<Rightarrow> 0 | Some i \<Rightarrow> Suc i)")
     (auto simp: smf_list_prev_def split: if_splits option.splits)

declare list_forward.simps [simp del] list_backward.simps [simp del]

lemma list_forward_drop: "i < length xs \<Longrightarrow> list_forward xs (Some i) = Inr (drop i xs)"
proof (induction "length xs - i" arbitrary: i)
  case 0
  then show ?case by simp
next
  case (Suc n)
  have "list_forward xs (if i + 1 < length xs then Some (i + 1) else None) = Inr (drop (i + 1) xs)"
    using Suc by (auto simp: list_forward.simps [of xs None])
  then show ?case
    using Suc.prems by (subst list_forward.simps) (simp add: smf_list_data_def smf_list_next_def Cons_nth_drop_Suc)
qed

lemma list_backward_take: "i < length xs \<Longrightarrow> list_backward xs (Some i) = Inr (rev (take (Suc i) xs))"
proof (induction i)
  case 0
  then show ?case
    by (subst list_backward.simps)
      (simp add: smf_list_data_def smf_list_prev_def list_backward.simps [of xs None] take_Suc_conv_app_nth)
next
  case (Suc i)
  then show ?case
    by (subst list_backward.simps) (simp add: smf_list_data_def smf_list_prev_def take_Suc_conv_app_nth)
qed

section \<open>Failures\<close>

text \<open>A message without parts has no first and no last part: the data of \<open>NULL\<close> is read.\<close>

lemma part_first_no_parts:
  "ml_parts lib m = [] \<Longrightarrow>
   smf_message_part_first lib (Some m) = Inl NullDeref \<and> smf_message_part_last lib (Some m) = Inl NullDeref"
  by (simp add: smf_message_part_first_def smf_message_part_last_def list_end_data_def smf_list_head_def
      smf_list_tail_def smf_list_data_def)

lemma part_first_last:
  "ml_parts lib m \<noteq> [] \<Longrightarrow>
   smf_message_part_first lib (Some m) = Inr (hd (ml_parts lib m)) \<and>
   smf_message_part_last lib (Some m) = Inr (last (ml_parts lib m))"
  by (simp add: smf_message_part_first_def smf_message_part_last_def list_end_data_def smf_list_head_def
      smf_list_tail_def smf_list_data_def hd_conv_nth last_conv_nth)

text \<open>An address the library cannot parse ends the process: the result of the parser is not tested.\<close>

lemma simplified_unparsable:
  "al_email lib e = Some m \<Longrightarrow> al_parse_string lib m = None \<Longrightarrow>
   email_address_get_simplified lib (Some e) = Inl AssertFailed"
  by (simp add: email_address_get_simplified_def smf_email_address_parse_string_def smf_email_address_get_email_def)

lemma simplified_parsable:
  "al_email lib e = Some m \<Longrightarrow> al_parse_string lib m = Some p \<Longrightarrow> al_get_email lib p = Some t \<Longrightarrow>
   email_address_get_simplified lib (Some e) = Inr (al_set_email lib p (smf_email_address_get_simplified t))"
  by (simp add: email_address_get_simplified_def smf_email_address_parse_string_def smf_email_address_get_email_def
      smf_email_address_set_email_def)

section \<open>Properties\<close>

text \<open>
  The loops over lists see every element: from the head with \<open>next\<close> the data of the
  elements come in the order of the list, from the tail with \<open>prev\<close> in the opposite order, each
  element once, and the loops end without reading through \<open>NULL\<close>, the empty list included.
\<close>

theorem smf_list_loops_complete:
  "(case smf_list_head (Some xs) of Inr e \<Rightarrow> list_forward xs e | Inl f \<Rightarrow> Inl f) = Inr xs \<and>
   (case smf_list_tail (Some xs) of Inr e \<Rightarrow> list_backward xs e | Inl f \<Rightarrow> Inl f) = Inr (rev xs)"
  by (cases "xs = []")
     (simp_all add: smf_list_head_def smf_list_tail_def list_forward.simps [of _ None] list_backward.simps [of _ None]
        list_forward_drop list_backward_take)

end
