(* ===== verification/Smf_Db4.thy ===== *)
theory Smf_Db4
  imports Smf_Libc
begin

text \<open>
  Lookups in Berkeley DB files, \<open>smf_lookup_db4.c\<close>.  The library is not part of the repository: its
  files are maps from byte strings to byte strings, a field of the state beside the number of
  handles that are open, and what it refuses is the record \<open>db_lib\<close>.  Keys and values are stored
  with the NUL byte that ends them.
\<close>

section \<open>State\<close>

type_synonym db_table = "string \<Rightarrow> string option"

record db_state =
  db_files :: "string \<Rightarrow> db_table option"
  db_handles :: nat

record db_lib =
  db_can_create :: bool                       \<comment> \<open>\<open>db_create\<close>\<close>
  db_set_pagesize :: bool
  db_set_cachesize :: bool
  db_may_open :: "string \<Rightarrow> bool"
  db_may_put :: "string \<Rightarrow> string \<Rightarrow> string \<Rightarrow> bool"

text \<open>The calls of the library: a handle, opening with and without \<open>DB_CREATE\<close>, closing.\<close>

definition db_create :: "db_lib \<Rightarrow> db_state \<Rightarrow> db_state option" where
  "db_create lib d = (if db_can_create lib then Some (d\<lparr>db_handles := db_handles d + 1\<rparr>) else None)"

definition db_open :: "db_lib \<Rightarrow> string \<Rightarrow> bool \<Rightarrow> db_state \<Rightarrow> (db_table \<times> db_state) option" where
  "db_open lib name creating d =
     (if \<not> db_may_open lib name then None
      else case db_files d name of
        Some t \<Rightarrow> Some (t, d)
      | None \<Rightarrow>
          if creating then Some (Map.empty, d\<lparr>db_files := (db_files d)(name \<mapsto> Map.empty)\<rparr>) else None)"

definition db_close :: "db_state \<Rightarrow> db_state" where
  "db_close d = d\<lparr>db_handles := db_handles d - 1\<rparr>"

section \<open>Operations\<close>

text \<open>
  The query.  The value found is printed with \<open>%s\<close>: up to the first NUL byte, beyond the block when
  there is none.  When the file cannot be opened the handle is not closed.
\<close>

definition smf_lookup_db4_query ::
  "db_lib \<Rightarrow> string \<Rightarrow> string \<Rightarrow> db_state \<Rightarrow> (string option \<times> db_state) c_result" where
  "smf_lookup_db4_query lib database key d =
     (case db_create lib d of
        None \<Rightarrow> Inr (None, d)
      | Some d1 \<Rightarrow>
          (case db_open lib database False d1 of
             None \<Rightarrow> Inr (None, d1)
           | Some (t, d2) \<Rightarrow>
               (case t (key @ [NUL]) of
                  None \<Rightarrow> Inr (None, db_close d2)
                | Some data \<Rightarrow>
                    if NUL \<notin> set data then Inl OutOfBounds else Inr (Some (c_str data), db_close d2))))"

text \<open>The update.  A page or cache size that is refused ends it here, the query goes on.\<close>

definition smf_lookup_db4_update ::
  "db_lib \<Rightarrow> string \<Rightarrow> string \<Rightarrow> string \<Rightarrow> db_state \<Rightarrow> int \<times> db_state" where
  "smf_lookup_db4_update lib database key val d =
     (case db_create lib d of
        None \<Rightarrow> (- 1, d)
      | Some d1 \<Rightarrow>
          if \<not> db_set_pagesize lib then (- 1, d1)
          else if \<not> db_set_cachesize lib then (- 1, d1)
          else (case db_open lib database True d1 of
              None \<Rightarrow> (- 1, d1)
            | Some (t, d2) \<Rightarrow>
                if db_may_put lib database (key @ [NUL]) (val @ [NUL])
                then (0, db_close (d2\<lparr>db_files := (db_files d2)(database \<mapsto> t(key @ [NUL] \<mapsto> val @ [NUL]))\<rparr>))
                else (- 1, db_close d2)))"

section \<open>Lemmas\<close>

text \<open>What an update that went through leaves behind.\<close>

lemma db4_update_ok:
  assumes "smf_lookup_db4_update lib database key val d = (0, d')"
  shows "db_can_create lib \<and> db_may_open lib database \<and> db_handles d' = db_handles d \<and>
    db_files d' = (db_files d)(database \<mapsto>
      (case db_files d database of None \<Rightarrow> Map.empty | Some t \<Rightarrow> t)(key @ [NUL] \<mapsto> val @ [NUL]))"
  using assms
  by (auto simp: smf_lookup_db4_update_def db_create_def db_open_def db_close_def
      split: if_splits option.splits)

text \<open>A query of a file that may be opened, and of one that may not.\<close>

lemma db4_query_table:
  assumes "db_can_create lib" and "db_may_open lib database" and "db_files d database = Some t"
  shows "smf_lookup_db4_query lib database key d =
    (case t (key @ [NUL]) of
       None \<Rightarrow> Inr (None, d)
     | Some data \<Rightarrow> if NUL \<notin> set data then Inl OutOfBounds else Inr (Some (c_str data), d))"
  using assms by (simp add: smf_lookup_db4_query_def db_create_def db_open_def db_close_def split: option.split)

lemma db4_query_leaks:
  assumes "db_can_create lib" and "\<not> db_may_open lib database \<or> db_files d database = None"
  shows "smf_lookup_db4_query lib database key d = Inr (None, d\<lparr>db_handles := db_handles d + 1\<rparr>)"
  using assms by (auto simp: smf_lookup_db4_query_def db_create_def db_open_def)

lemma c_str_NUL: "NUL \<notin> set s \<Longrightarrow> c_str (s @ [NUL]) = s"
  by (simp add: c_str_def takeWhile_eq_all_conv takeWhile_append)

section \<open>Properties\<close>

text \<open>
  Claim C34.  What is stored is found: after an update that returned 0, a query for the key gives
  the value, and a query for any other key of that file gives what it gave before, an empty
  answer when the file was created by the update.  No handle stays open.
\<close>

theorem smf_lookup_db4_roundtrip:
  assumes "smf_lookup_db4_update lib database key val d = (0, d')" and "NUL \<notin> set val"
  shows "smf_lookup_db4_query lib database k d' =
    (if k = key then Inr (Some val, d')
     else if db_files d database = None then Inr (None, d')
     else map_sum id (\<lambda>(r, _). (r, d')) (smf_lookup_db4_query lib database k d)) \<and>
    db_handles d' = db_handles d"
proof -
  note up = db4_update_ok [OF assms(1)]
  then have can: "db_can_create lib" "db_may_open lib database" by simp_all
  show ?thesis
  proof (cases "db_files d database")
    case None
    with up assms(2) db4_query_table [OF can, of d'] show ?thesis by (simp add: c_str_NUL)
  next
    case (Some t)
    with up assms(2) db4_query_table [OF can, of d'] db4_query_table [OF can Some] show ?thesis
      by (simp add: c_str_NUL split: option.split)
  qed
qed

definition ex_db :: db_lib where
  "ex_db = \<lparr>db_can_create = True, db_set_pagesize = True, db_set_cachesize = True, db_may_open = (\<lambda>n. True),
     db_may_put = (\<lambda>n k v. True)\<rparr>"

lemma smf_lookup_db4_roundtrip_witness:
  "\<exists>d. smf_lookup_db4_update ex_db ''/db'' ''a@b'' ''mx'' \<lparr>db_files = (\<lambda>n. None), db_handles = 0\<rparr> = (0, d) \<and>
     smf_lookup_db4_query ex_db ''/db'' ''a@b'' d = Inr (Some ''mx'', d)"
proof -
  let ?d = "\<lparr>db_files = (\<lambda>n. None), db_handles = 0\<rparr>"
  have "\<exists>d. smf_lookup_db4_update ex_db ''/db'' ''a@b'' ''mx'' ?d = (0, d)"
    by (simp add: smf_lookup_db4_update_def db_create_def db_open_def ex_db_def)
  then obtain d where d: "smf_lookup_db4_update ex_db ''/db'' ''a@b'' ''mx'' ?d = (0, d)" by blast
  from smf_lookup_db4_roundtrip [OF d, of "''a@b''"] d show ?thesis by auto
qed

end
