(* ===== verification/Spec2Isabelle.thy ===== *)
theory Spec2Isabelle
  imports Smf_Conversation Smf_Semaphore Smf_Daemon Smf_Expand Smf_Program Smf_Liveness Smf_Lifetime Smf_Cmime Smf_Db4 Smf_Md5 Smf_Trace Smf_Lookup Smf_Users
begin

text \<open>
  A verification development for spmfilter, a mail filtering framework written in C: an engine (an
  SMTP daemon or a pipe) receives a message, runs a configured list of modules over it and hands
  it to the next hop.  Everything modelled is under \<open>src/src\<close>.

  \<^bold>\<open>How the parts work together.\<close>  \<open>main\<close> reads the options and the configuration, connects to the
  user database, checks the queue directory and calls \<open>load\<close> of the engine.  The SMTP engine
  listens, goes to the background and forks children that count themselves in shared memory; a
  child serves one client.  The dialogue collects an envelope; \<open>DATA\<close> writes a spool file, adds
  missing header lines and starts the processing queue, which fetches the data of local users,
  runs the modules, flushes changed headers to the spool file and calls the next hop: libesmtp or
  a file.  The pipe engine does the same with its standard input.

  \<^bold>\<open>Theories and code.\<close>
  \<^item> \<open>Smf_Prelude\<close>, \<open>Smf_Libc\<close>, \<open>Smf_Posix\<close>: collections of rules, faults of C as values
    (\<open>c_fault\<close>, \<open>c_result\<close>), pointers that may dangle (\<open>cptr\<close>), the C library functions the code
    calls, and file descriptors whose reads and writes are answered by a list of events.
  \<^item> \<open>Smf_Dict\<close> (\<open>smf_dict.c\<close>): the dictionary as parallel lists; the locale of a map and its
    interpretation on the code's operations.
  \<^item> \<open>Smf_Md5\<close> (\<open>smf_md5.c\<close>), \<open>Smf_Core\<close> (\<open>smf_core.c\<close>), \<open>Smf_Internal\<close> (\<open>smf_internal.c\<close>: reading, writing,
    lines, addresses, session ids), \<open>Smf_Trace\<close> (\<open>smf_trace.c\<close>).
  \<^item> \<open>Smf_Message\<close> (what \<open>smf_message.c\<close> does itself), \<open>Smf_Session\<close> (\<open>smf_session.c\<close>,
    \<open>smf_envelope.c\<close>, \<open>smf_email_address.c\<close> on values), \<open>Smf_Cmime\<close> (the calls of libcmime in
    \<open>smf_list.c\<close>, \<open>smf_header.c\<close>, \<open>smf_email_address.c\<close>, \<open>smf_part.c\<close> and \<open>smf_message.c\<close>, with the
    assertions of the code, and the macros of \<open>smf_list.h\<close>).
  \<^item> \<open>Smf_Memory\<close>, \<open>Smf_Destroy\<close>, \<open>Smf_Owner\<close>, \<open>Smf_Owner_Session\<close>, \<open>Smf_Lifetime\<close>: the same session,
    envelope and dictionary as blocks of a heap, for who owns and frees what: \<open>smf_dict_free\<close>, the
    list destructors of \<open>smf_internal.c\<close>, and all functions of \<open>smf_envelope.c\<close> and \<open>smf_session.c\<close>
    on pointers (\<open>mem_envelope_set_sender\<close> for \<open>smf_envelope_set_sender\<close>, and so on).  The locales
    \<open>destructor\<close>, \<open>string_action\<close>, \<open>string_field\<close> and \<open>value_field\<close> are their contracts.
  \<^item> \<open>Smf_Expand\<close>: the buffer of \<open>smf_core_expand_string\<close>, byte by byte, and \<open>smf_core_strsplit\<close> with
    \<open>smf_core_strsplit_free\<close> on the heap.
  \<^item> \<open>Smf_Settings\<close> (\<open>smf_settings.c\<close>: record, parser, assignment, checks), \<open>Smf_Settings_Api\<close> (its
    setters and getters; the locale \<open>accessor\<close> is interpreted on every pair), \<open>Smf_Settings_Log\<close>
    (logging, which reads every field).
  \<^item> \<open>Smf_Lookup\<close> (\<open>smf_lookup_ldap.c\<close>, \<open>smf_lookup_sql.c\<close>), \<open>Smf_Db4\<close> (\<open>smf_lookup_db4.c\<close>), \<open>Smf_Users\<close> (the
    user data part of \<open>smf_internal.c\<close>).
  \<^item> \<open>Smf_World\<close>: queue files, sockets, clock, and the answers of the operating system.
  \<^item> \<open>Smf_Smtp\<close> (\<open>smf_smtp.c\<close>), \<open>Smf_Nexthop\<close> (\<open>smf_nexthop.c\<close>), \<open>Smf_Modules\<close> (\<open>smf_modules.c\<close>).
  \<^item> \<open>Smf_Reply\<close>, \<open>Smf_Data\<close>, \<open>Smf_Smtpd\<close>: replies and callbacks, receiving a message, and the dialogue of
    \<open>smf_smtpd.c\<close>; \<open>Smf_Liveness\<close>: the dialogue ends; \<open>Smf_Answers\<close>: it answers every command.
  \<^item> \<open>Smf_Pipe\<close> (\<open>smf_pipe.c\<close>), \<open>Smf_Ipc\<close>, \<open>Smf_Server\<close> (\<open>smf_server.c\<close>), \<open>Smf_Semaphore\<close> (its counters access by
    access), \<open>Smf_Main\<close> (\<open>main.c\<close>), \<open>Smf_Start\<close> (\<open>load\<close> of
    \<open>smf_smtpd.c\<close> and what \<open>main\<close> guarantees), \<open>Smf_Rounds\<close> (the code of parent and child as runs of the
    step relation), \<open>Smf_Relay\<close> and \<open>Smf_Dialogue\<close> (messages and whole sessions end to end),
    \<open>Smf_Handed\<close> and \<open>Smf_Accept\<close> (what a success of queue and next hop says, and what the client is told),
    \<open>Smf_Conversation\<close> (whole dialogues, messages included),
    \<open>Smf_Program\<close> (\<open>main\<close> with the pipe engine in its place), \<open>Smf_Daemon\<close> (\<open>main\<close> with the SMTP engine,
    and the parent's loop among its children).

  Functions keep their names; a leading underscore is dropped, and the two functions \<open>load\<close> are
  \<open>smf_smtpd_load\<close> and \<open>smf_pipe_load\<close>.  A loop or a branch that needs a name of its own has one close
  to the function (\<open>queue_loop\<close>, \<open>data_step\<close>, \<open>do_rcpt\<close>).

  \<^bold>\<open>What the lemmas show.\<close>  Data structures refine maps (dictionary) and reference algorithms (MD5,
  template expansion).  Input and output helpers are complete under short reads, short writes and
  interruptions.  The configuration parser ends, reads back what was rendered, and establishes the
  ranges the rest relies on; the engine is called with nothing less.  The dialogue refines the
  mail transaction of RFC 5321 for clients that keep to the order, refuses \<open>DATA\<close> without an
  envelope, and ends.  Dot stuffing is undone exactly; a message reaches the next hop byte for
  byte, with the header of the queue when configured; a module can stop it.  The counters of the
  server are right through all interleavings, their operations are atomic as long as no signal
  interrupts the POSIX semaphore, a shutdown reaches every child, and the identity is
  changed as configured.  Progress: a client hears one complete reply for each command and one
  after each message, a 250 of the daemon only when the next hop has it, and the server is back at
  full strength when its dead children have been reported.  The exit code 0 of the program with
  the pipe engine means that the next hop took the message; with the SMTP engine, that the server
  went to the background or ran until it was told to end and signalled its children.  On the heap, the functions
  on session and envelope do what they do on records and touch nothing else, and a session that is
  destroyed has freed everything it was given once, except replaced messages.  Templates are expanded
  within their buffer, except when a text is shorter than its conversion.  Theorems of kind error say what goes wrong: an ignored module
  failure loses the message, a second transaction is mixed with the first, a lost connection passes
  for the end of a message, freed memory is used, a reply text is a format string.

  \<^bold>\<open>Parameters.\<close>  libcmime is the record \<open>cmime\<close> (reading and printing messages) and, for the functions
  that hand everything to it, the records \<open>list_lib\<close>, \<open>header_lib\<close>, \<open>address_lib\<close>, \<open>part_lib\<close> and
  \<open>message_lib\<close>; its lists in memory are blocks (\<open>ListB\<close>), its messages one block each; libesmtp is the record
  \<open>esmtp\<close>, OpenLDAP, libzdb and Berkeley DB are \<open>ldap_lib\<close>, \<open>sql_lib\<close> and \<open>db_lib\<close>; modules and engines are
  functions of the record \<open>platform\<close>; the operating system answers through \<open>os\<close>, \<open>loader\<close>, \<open>init_env\<close> and
  the event lists of descriptors.  The theorems assume of them only what they name: that calls are
  not refused (\<open>os_willing\<close>), that a module keeps the settings (\<open>keeps_settings\<close>) or only reads from
  the socket (\<open>modules_read_only\<close>).

  \<^bold>\<open>Bounds and fuel.\<close>  Loops over data end by structural recursion or by a measure.  Fuel is used in two
  places: \<open>parse_loop\<close> gets one more than the length of the file, which is enough because every
  step reads a line, and \<open>client_loop\<close>, where any amount above what is left to read is enough.  The
  two library wrappers that call themselves are partial functions, so that not returning is \<open>None\<close>.
  Integers have their width where the code depends on it (MD5, hash values, \<open>max_size\<close>, \<open>int\<close>
  conversions); counters and lengths far below their bounds are numbers.

  \<^bold>\<open>Not modelled.\<close>  What libcmime, libesmtp, OpenLDAP, libzdb and Berkeley DB do; log output, except that
  of the settings; the statistics of CPU time; failing memory
  allocation except where the code tests for it in the dictionary; the ownership of the fields of the
  settings, except the three that can dangle.  The server's step relation takes the
  operations on the counters as single steps, which \<open>Smf_Semaphore\<close> justifies, for signals that do not
  interrupt \<open>sem_wait\<close>.  In it a child does not die
  between taking its client and recording itself, and the first forks respect \<open>max_childs\<close>;
  \<open>Smf_Server\<close> says what happens otherwise.

  \<^bold>\<open>Plan.\<close>  A relation between the steps of a client and its counted process; the settings on the heap.
\<close>

end
